(* ===== verification/Prelude.thy ===== *)
theory Prelude
  imports Main "HOL-Library.Word" "HOL-Library.Code_Target_Numeral"
begin

text \<open>
  Shared vocabulary of the development: Rust's \<open>Result\<close>, byte strings and the ASCII and
  UTF-8 helpers of the Rust standard library that several components call, splitting and
  searching of byte slices, and decimal parsing. A byte is a HOL \<open>char\<close> (an 8-bit value), so a
  byte string literal of the source is a HOL string literal.
\<close>

named_theorems ascii_simps \<open>definitions of the ASCII byte classes\<close>
named_theorems frame_simps \<open>fields that an operation leaves unchanged\<close>

section \<open>Results\<close>

datatype ('a, 'e) result = Ok 'a | Err 'e

primrec is_ok :: "('a, 'e) result \<Rightarrow> bool" where
  "is_ok (Ok x) = True"
| "is_ok (Err e) = False"

primrec map_err :: "('e \<Rightarrow> 'f) \<Rightarrow> ('a, 'e) result \<Rightarrow> ('a, 'f) result" where
  "map_err f (Ok x) = Ok x"
| "map_err f (Err e) = Err (f e)"

lemma is_ok_iff: "is_ok r \<longleftrightarrow> (\<exists>x. r = Ok x)"
  by (cases r) auto

text \<open>\<open>Option::filter\<close> and the first element of an iterator.\<close>

definition opt_filter :: "('a \<Rightarrow> bool) \<Rightarrow> 'a option \<Rightarrow> 'a option" where
  "opt_filter P x = (case x of None \<Rightarrow> None | Some v \<Rightarrow> if P v then Some v else None)"

definition first_of :: "'a list \<Rightarrow> 'a option" where
  "first_of xs = (case xs of [] \<Rightarrow> None | x # _ \<Rightarrow> Some x)"

lemma opt_filter_simps [simp]:
  "opt_filter P None = None"
  "opt_filter P (Some v) = (if P v then Some v else None)"
  by (simp_all add: opt_filter_def)

lemma opt_filter_Some: "opt_filter P x = Some v \<longleftrightarrow> x = Some v \<and> P v"
  by (cases x) auto

lemma first_of_simps [simp]: "first_of [] = None" "first_of (x # xs) = Some x"
  by (simp_all add: first_of_def)

lemma first_of_Some: "first_of xs = Some x \<longleftrightarrow> (\<exists>ys. xs = x # ys)"
  by (cases xs) auto

section \<open>Bytes\<close>

type_synonym byte = char
type_synonym bytes = "char list"

abbreviation code_of :: "byte \<Rightarrow> nat" where
  "code_of \<equiv> of_char"

definition is_ascii :: "byte \<Rightarrow> bool" where
  [ascii_simps]: "is_ascii b \<longleftrightarrow> code_of b < 128"

definition is_ascii_digit :: "byte \<Rightarrow> bool" where
  [ascii_simps]: "is_ascii_digit b \<longleftrightarrow> 48 \<le> code_of b \<and> code_of b \<le> 57"

definition is_ascii_uppercase :: "byte \<Rightarrow> bool" where
  [ascii_simps]: "is_ascii_uppercase b \<longleftrightarrow> 65 \<le> code_of b \<and> code_of b \<le> 90"

definition is_ascii_lowercase :: "byte \<Rightarrow> bool" where
  [ascii_simps]: "is_ascii_lowercase b \<longleftrightarrow> 97 \<le> code_of b \<and> code_of b \<le> 122"

definition is_ascii_alphanumeric :: "byte \<Rightarrow> bool" where
  [ascii_simps]: "is_ascii_alphanumeric b \<longleftrightarrow>
     is_ascii_digit b \<or> is_ascii_uppercase b \<or> is_ascii_lowercase b"

text \<open>\<open>u8::is_ascii_whitespace\<close>: space, tab, line feed, form feed and carriage return.\<close>

definition is_ascii_whitespace :: "byte \<Rightarrow> bool" where
  [ascii_simps]: "is_ascii_whitespace b \<longleftrightarrow> code_of b \<in> {32, 9, 10, 12, 13}"

definition to_ascii_lowercase :: "byte \<Rightarrow> byte" where
  "to_ascii_lowercase b = (if is_ascii_uppercase b then char_of (code_of b + 32) else b)"

definition to_ascii_uppercase :: "byte \<Rightarrow> byte" where
  "to_ascii_uppercase b = (if is_ascii_lowercase b then char_of (code_of b - 32) else b)"

abbreviation lower :: "bytes \<Rightarrow> bytes" where
  "lower \<equiv> map to_ascii_lowercase"

definition eq_ignore_ascii_case :: "bytes \<Rightarrow> bytes \<Rightarrow> bool" where
  "eq_ignore_ascii_case a b \<longleftrightarrow> lower a = lower b"

definition trim_ascii_start :: "bytes \<Rightarrow> bytes" where
  "trim_ascii_start s = dropWhile is_ascii_whitespace s"

definition trim_ascii_end :: "bytes \<Rightarrow> bytes" where
  "trim_ascii_end s = rev (dropWhile is_ascii_whitespace (rev s))"

definition trim_ascii :: "bytes \<Rightarrow> bytes" where
  "trim_ascii s = trim_ascii_end (trim_ascii_start s)"

definition starts_with :: "bytes \<Rightarrow> bytes \<Rightarrow> bool" where
  "starts_with s p \<longleftrightarrow> take (length p) s = p"

definition ends_with :: "bytes \<Rightarrow> bytes \<Rightarrow> bool" where
  "ends_with s p \<longleftrightarrow> length p \<le> length s \<and> drop (length s - length p) s = p"

lemma to_ascii_lowercase_idem [simp]:
  "to_ascii_lowercase (to_ascii_lowercase b) = to_ascii_lowercase b"
  by (auto simp: to_ascii_lowercase_def is_ascii_uppercase_def of_char_of)

lemma lower_idem [simp]: "lower (lower s) = lower s"
  by simp

lemma of_char_lt_256 [simp]: "code_of b < 256"
  by (metis mod_less_divisor of_char_mod_256 zero_less_numeral)

lemma eq_ignore_ascii_case_refl [simp]: "eq_ignore_ascii_case a a"
  by (simp add: eq_ignore_ascii_case_def)

lemma eq_ignore_ascii_case_length: "eq_ignore_ascii_case a b \<Longrightarrow> length a = length b"
  unfolding eq_ignore_ascii_case_def by (metis length_map)

lemma starts_with_append [simp]: "starts_with (p @ s) p"
  by (simp add: starts_with_def)

lemma starts_with_iff: "starts_with s p \<longleftrightarrow> (\<exists>t. s = p @ t)"
  unfolding starts_with_def by (metis append_eq_conv_conj append_take_drop_id)

lemma ends_with_iff: "ends_with s p \<longleftrightarrow> (\<exists>t. s = t @ p)"
proof
  assume "ends_with s p"
  then have "s = take (length s - length p) s @ p"
    unfolding ends_with_def by (metis append_take_drop_id)
  then show "\<exists>t. s = t @ p" by blast
next
  assume "\<exists>t. s = t @ p"
  then show "ends_with s p" by (auto simp: ends_with_def)
qed

lemma set_trim_ascii: "set (trim_ascii s) \<subseteq> set s"
  by (auto simp: trim_ascii_def trim_ascii_end_def trim_ascii_start_def dest!: set_dropWhileD)

section \<open>Splitting and searching\<close>

text \<open>\<open>slice::split\<close> on one byte: the pieces between the separators, at least one.\<close>

fun split_on :: "byte \<Rightarrow> bytes \<Rightarrow> bytes list" where
  "split_on c [] = [[]]"
| "split_on c (x # xs) =
     (if x = c then [] # split_on c xs
      else (case split_on c xs of [] \<Rightarrow> [[x]] | y # ys \<Rightarrow> (x # y) # ys))"

fun join_with :: "bytes \<Rightarrow> bytes list \<Rightarrow> bytes" where
  "join_with sep [] = []"
| "join_with sep [x] = x"
| "join_with sep (x # y # ys) = x @ sep @ join_with sep (y # ys)"

lemma split_on_not_Nil [simp]: "split_on c s \<noteq> []"
  by (cases "(c, s)" rule: split_on.cases) (auto split: list.splits)

lemma join_split_on: "join_with [c] (split_on c s) = s"
proof (induction c s rule: split_on.induct)
  case (2 c x xs)
  then show ?case
    by (cases "split_on c xs"; cases "tl (split_on c xs)") auto
qed simp

lemma split_on_no_sep: "p \<in> set (split_on c s) \<Longrightarrow> c \<notin> set p"
  by (induction c s arbitrary: p rule: split_on.induct) (auto split: if_splits list.splits)

lemma split_on_none: "c \<notin> set s \<Longrightarrow> split_on c s = [s]"
  by (induction s) auto

lemma split_on_append: "c \<notin> set a \<Longrightarrow> split_on c (a @ c # b) = a # split_on c b"
  by (induction a) auto

text \<open>\<open>slice::split\<close> on a predicate, and \<open>str::split_once\<close> on one character.\<close>

fun split_by :: "(byte \<Rightarrow> bool) \<Rightarrow> bytes \<Rightarrow> bytes list" where
  "split_by P [] = [[]]"
| "split_by P (x # xs) =
     (if P x then [] # split_by P xs
      else (case split_by P xs of [] \<Rightarrow> [[x]] | y # ys \<Rightarrow> (x # y) # ys))"

definition split_once :: "byte \<Rightarrow> bytes \<Rightarrow> (bytes \<times> bytes) option" where
  "split_once c s = (if c \<in> set s
     then Some (takeWhile (\<lambda>x. x \<noteq> c) s, tl (dropWhile (\<lambda>x. x \<noteq> c) s)) else None)"

lemma split_once_Some: "split_once c s = Some (a, b) \<Longrightarrow> s = a @ c # b \<and> c \<notin> set a"
proof -
  assume a: "split_once c s = Some (a, b)"
  then have ab: "a = takeWhile (\<lambda>x. x \<noteq> c) s" "b = tl (dropWhile (\<lambda>x. x \<noteq> c) s)" and c: "c \<in> set s"
    by (auto simp: split_once_def split: if_splits)
  from c have ne: "dropWhile (\<lambda>x. x \<noteq> c) s \<noteq> []" by (auto simp: dropWhile_eq_Nil_conv)
  with hd_dropWhile [OF ne] have "dropWhile (\<lambda>x. x \<noteq> c) s = c # b"
    by (simp add: ab) (metis list.collapse ne)
  then show ?thesis
    by (metis (mono_tags, lifting) ab(1) set_takeWhileD takeWhile_dropWhile_id)
qed

text \<open>\<open>slice::iter().position\<close>: the index of the first element that satisfies \<open>P\<close>.\<close>

fun position :: "('a \<Rightarrow> bool) \<Rightarrow> 'a list \<Rightarrow> nat option" where
  "position P [] = None"
| "position P (x # xs) = (if P x then Some 0 else map_option Suc (position P xs))"

lemma position_Some:
  "position P xs = Some i \<Longrightarrow> i < length xs \<and> P (xs ! i) \<and> (\<forall>j<i. \<not> P (xs ! j))"
proof (induction xs arbitrary: i)
  case (Cons x xs)
  show ?case
  proof (cases "P x")
    case False
    with Cons.prems obtain k where k: "position P xs = Some k" "i = Suc k" by auto
    with Cons.IH [OF k(1)] False show ?thesis by (auto simp: less_Suc_eq_0_disj)
  qed (use Cons.prems in auto)
qed simp

lemma position_None: "position P xs = None \<longleftrightarrow> (\<forall>x\<in>set xs. \<not> P x)"
  by (induction xs) auto

lemma position_append: "(\<forall>x\<in>set a. \<not> P x) \<Longrightarrow> P c \<Longrightarrow> position P (a @ c # b) = Some (length a)"
  by (induction a) auto

section \<open>Decimal integers\<close>

definition digit_val :: "byte \<Rightarrow> nat" where
  "digit_val b = code_of b - 48"

fun digits_val :: "nat \<Rightarrow> bytes \<Rightarrow> nat" where
  "digits_val acc [] = acc"
| "digits_val acc (b # bs) = digits_val (10 * acc + digit_val b) bs"

text \<open>
  \<open>str::parse::<uN>()\<close>: an optional plus sign, at least one digit, digits only, and a value that
  fits the width; every other input is an error.
\<close>

definition parse_uint :: "nat \<Rightarrow> bytes \<Rightarrow> nat option" where
  "parse_uint w s =
     (let ds = (case s of c # t \<Rightarrow> if c = CHR ''+'' then t else s | [] \<Rightarrow> s)
      in if ds \<noteq> [] \<and> list_all is_ascii_digit ds \<and> digits_val 0 ds < 2 ^ w
         then Some (digits_val 0 ds) else None)"

abbreviation parse_u64 :: "bytes \<Rightarrow> nat option" where
  "parse_u64 \<equiv> parse_uint 64"

abbreviation parse_u16 :: "bytes \<Rightarrow> nat option" where
  "parse_u16 \<equiv> parse_uint 16"

lemma parse_uint_bound: "parse_uint w s = Some n \<Longrightarrow> n < 2 ^ w"
  by (auto simp: parse_uint_def Let_def split: if_splits)

lemma unat_of_nat_64: "n < 2 ^ 64 \<Longrightarrow> unat (of_nat n :: 64 word) = n"
  by (simp add: unat_of_nat)

text \<open>The decimal text of a number, as \<open>to_string\<close> writes it.\<close>

fun decimal :: "nat \<Rightarrow> bytes" where
  "decimal n = (if n < 10 then [char_of (48 + n)] else decimal (n div 10) @ [char_of (48 + n mod 10)])"

declare decimal.simps [simp del]

lemma digits_val_append: "digits_val acc (a @ b) = digits_val (digits_val acc a) b"
  by (induction a arbitrary: acc) auto

lemma decimal_digit: "n < 10 \<Longrightarrow> is_ascii_digit (char_of (48 + n)) \<and> digit_val (char_of (48 + n)) = n"
  by (simp add: is_ascii_digit_def digit_val_def of_char_of)

lemma decimal_all_digits: "list_all is_ascii_digit (decimal n)"
proof (induction n rule: decimal.induct)
  case (1 n)
  then show ?case
    by (subst decimal.simps) (auto simp: decimal_digit)
qed

lemma decimal_nonempty [simp]: "decimal n \<noteq> []"
  by (subst decimal.simps) simp

lemma digits_val_decimal: "digits_val 0 (decimal n) = n"
proof (induction n rule: decimal.induct)
  case (1 n)
  show ?case
  proof (cases "n < 10")
    case True
    then show ?thesis by (subst decimal.simps) (simp add: decimal_digit)
  next
    case False
    with 1 have "digits_val 0 (decimal (n div 10)) = n div 10" by simp
    with False show ?thesis
      by (subst decimal.simps) (simp add: digits_val_append decimal_digit)
  qed
qed

lemma parse_decimal: "n < 2 ^ w \<Longrightarrow> parse_uint w (decimal n) = Some n"
proof -
  assume n: "n < 2 ^ w"
  have "hd (decimal n) \<noteq> CHR ''+''"
    using decimal_all_digits [of n] decimal_nonempty [of n]
    by (cases "decimal n") (auto simp: is_ascii_digit_def)
  then show ?thesis
    using n decimal_all_digits [of n] digits_val_decimal [of n]
    by (cases "decimal n") (auto simp: parse_uint_def Let_def)
qed

section \<open>UTF-8 text\<close>

text \<open>
  \<open>str::from_utf8\<close>: the well-formed byte sequences of the Unicode standard (no overlong forms,
  no surrogates, nothing above U+10FFFF).
\<close>

definition utf8_tail :: "byte \<Rightarrow> bool" where
  "utf8_tail b \<longleftrightarrow> 128 \<le> code_of b \<and> code_of b \<le> 191"

fun utf8_valid :: "bytes \<Rightarrow> bool" where
  "utf8_valid [] = True"
| "utf8_valid (a # s) =
     (let n = code_of a in
      if n < 128 then utf8_valid s
      else if 194 \<le> n \<and> n \<le> 223 then
        (case s of b # t \<Rightarrow> utf8_tail b \<and> utf8_valid t | _ \<Rightarrow> False)
      else if 224 \<le> n \<and> n \<le> 239 then
        (case s of b # c # t \<Rightarrow>
           utf8_tail b \<and> utf8_tail c \<and> (n = 224 \<longrightarrow> 160 \<le> code_of b) \<and> (n = 237 \<longrightarrow> code_of b \<le> 159)
           \<and> utf8_valid t | _ \<Rightarrow> False)
      else if 240 \<le> n \<and> n \<le> 244 then
        (case s of b # c # d # t \<Rightarrow>
           utf8_tail b \<and> utf8_tail c \<and> utf8_tail d \<and> (n = 240 \<longrightarrow> 144 \<le> code_of b)
           \<and> (n = 244 \<longrightarrow> code_of b \<le> 143) \<and> utf8_valid t | _ \<Rightarrow> False)
      else False)"

text \<open>
  \<open>str::trim\<close> removes leading and trailing characters with the Unicode White_Space property.
  \<open>ws_len\<close> is the byte length of a whitespace character at the start of the text, 0 if there is
  none; \<open>ws_len_rev\<close> is the same for the reversed text.
\<close>

definition ws_len :: "bytes \<Rightarrow> nat" where
  "ws_len s = (case map code_of (take 3 s) of
       a # r \<Rightarrow>
         if (9 \<le> a \<and> a \<le> 13) \<or> a = 32 then 1
         else (case r of b # r' \<Rightarrow>
           if a = 194 \<and> (b = 133 \<or> b = 160) then 2
           else (case r' of [c] \<Rightarrow>
             if (a = 225 \<and> b = 154 \<and> c = 128)
                \<or> (a = 226 \<and> b = 128 \<and> (128 \<le> c \<and> c \<le> 138 \<or> c = 168 \<or> c = 169 \<or> c = 175))
                \<or> (a = 226 \<and> b = 129 \<and> c = 159) \<or> (a = 227 \<and> b = 128 \<and> c = 128)
             then 3 else 0 | _ \<Rightarrow> 0) | [] \<Rightarrow> 0)
     | [] \<Rightarrow> 0)"

definition ws_len_end :: "bytes \<Rightarrow> nat" where
  "ws_len_end s =
     (if s \<noteq> [] \<and> ws_len (drop (length s - 1) s) = 1 then 1
      else if 2 \<le> length s \<and> ws_len (drop (length s - 2) s) = 2 then 2
      else if 3 \<le> length s \<and> ws_len (drop (length s - 3) s) = 3 then 3 else 0)"

function trim_start :: "bytes \<Rightarrow> bytes" where
  "trim_start s = (if s = [] \<or> ws_len s = 0 then s else trim_start (drop (ws_len s) s))"
  by pat_completeness auto
termination
  by (relation "measure length") auto

function trim_end :: "bytes \<Rightarrow> bytes" where
  "trim_end s =
     (if s = [] \<or> ws_len_end s = 0 then s else trim_end (take (length s - ws_len_end s) s))"
  by pat_completeness auto
termination
  by (relation "measure length") auto

declare trim_start.simps [simp del] trim_end.simps [simp del]

definition str_trim :: "bytes \<Rightarrow> bytes" where
  "str_trim s = trim_end (trim_start s)"

lemma trim_start_suffix: "\<exists>n. trim_start s = drop n s"
proof (induction s rule: trim_start.induct)
  case (1 s)
  show ?case
  proof (cases "s = [] \<or> ws_len s = 0")
    case True
    then show ?thesis by (subst trim_start.simps) (auto intro: exI [of _ 0])
  next
    case False
    with 1 obtain n where "trim_start (drop (ws_len s) s) = drop n (drop (ws_len s) s)" by blast
    with False show ?thesis by (subst trim_start.simps) auto
  qed
qed

lemma trim_end_prefix: "\<exists>n. trim_end s = take n s"
proof (induction s rule: trim_end.induct)
  case (1 s)
  show ?case
  proof (cases "s = [] \<or> ws_len_end s = 0")
    case True
    then show ?thesis by (subst trim_end.simps) (auto intro: exI [of _ "length s"])
  next
    case False
    with 1 obtain n where
      "trim_end (take (length s - ws_len_end s) s) = take n (take (length s - ws_len_end s) s)"
      by blast
    with False show ?thesis by (subst trim_end.simps) auto
  qed
qed

lemma set_str_trim: "set (str_trim s) \<subseteq> set s"
  unfolding str_trim_def
  by (metis order_trans set_drop_subset set_take_subset trim_end_prefix trim_start_suffix)

text \<open>
  \<open>str::lines\<close>: the pieces between line feeds, each without a final carriage return; an empty
  piece after the last line feed is not a line.
\<close>

definition strip_cr :: "bytes \<Rightarrow> bytes" where
  "strip_cr l = (if l \<noteq> [] \<and> last l = CHR 0x0D then butlast l else l)"

definition str_lines :: "bytes \<Rightarrow> bytes list" where
  "str_lines s =
     (let ps = split_on (CHR 0x0A) s; ls = butlast ps; z = last ps
      in map strip_cr ls @ (if z = [] then [] else [z]))"

end
