(* ===== verification/Headers.thy ===== *)
theory Headers
  imports Prelude
begin

text \<open>
  The header side of the HTTP plugin: the admission checks of \<open>check.rs\<close>, the response header
  conversion of \<open>response.rs\<close>, and the content-length and trailer rules of \<open>php/headers.rs\<close>.

  The header map itself belongs to the \<open>http\<close> crate. It is the record \<open>header_ops\<close> of its
  operations, an argument of every definition; the locale \<open>header_map\<close> states their documented
  behaviour, and \<open>list_headers\<close> is an instance that keeps the field lines in a list.
\<close>

section \<open>The header map interface\<close>

record 'm header_ops =
  h_empty :: 'm
  h_get :: "'m \<Rightarrow> bytes \<Rightarrow> bytes option"
  h_get_all :: "'m \<Rightarrow> bytes \<Rightarrow> bytes list"
  h_keys :: "'m \<Rightarrow> bytes list"
  h_append :: "'m \<Rightarrow> bytes \<Rightarrow> bytes \<Rightarrow> 'm"
  h_insert :: "'m \<Rightarrow> bytes \<Rightarrow> bytes \<Rightarrow> 'm"
  h_remove :: "'m \<Rightarrow> bytes \<Rightarrow> 'm"
  h_name :: "bytes \<Rightarrow> bytes option"   \<comment> \<open>\<open>HeaderName::from_bytes\<close>\<close>
  h_value :: "bytes \<Rightarrow> bytes option"  \<comment> \<open>\<open>HeaderValue::from_bytes\<close>\<close>
  h_to_str :: "bytes \<Rightarrow> bytes option" \<comment> \<open>\<open>HeaderValue::to_str\<close>\<close>
  h_from_u64 :: "nat \<Rightarrow> bytes"        \<comment> \<open>\<open>HeaderValue::from(u64)\<close>\<close>
  h_full :: "'m \<Rightarrow> bytes \<Rightarrow> bool"      \<comment> \<open>\<open>append\<close> of this name panics for lack of room\<close>

locale header_map =
  fixes H :: "'m header_ops"
  assumes get_all_empty: "h_get_all H (h_empty H) k = []"
    and get_first: "h_get H m k = first_of (h_get_all H m k)"
    and get_all_append:
      "h_get_all H (h_append H m k v) k' = h_get_all H m k' @ (if k' = k then [v] else [])"
    and get_all_insert:
      "h_get_all H (h_insert H m k v) k' = (if k' = k then [v] else h_get_all H m k')"
    and get_all_remove:
      "h_get_all H (h_remove H m k) k' = (if k' = k then [] else h_get_all H m k')"
    and set_keys: "set (h_keys H m) = {k. h_get_all H m k \<noteq> []}"
    and distinct_keys: "distinct (h_keys H m)"
    and name_lower: "h_name H nm = Some k \<Longrightarrow> k = lower nm \<and> h_name H k = Some k"
    and value_same: "h_value H v = Some w \<Longrightarrow> w = v"
    and to_str_same: "h_to_str H v = Some s \<Longrightarrow> s = v"
    and from_u64: "h_from_u64 H n = decimal n"
begin

lemmas get_all_simps = get_all_empty get_all_append get_all_insert get_all_remove

lemma get_all_remove_many:
  "h_get_all H (foldl (h_remove H) m ns) k = (if k \<in> set ns then [] else h_get_all H m k)"
  by (induction ns arbitrary: m) (auto simp: get_all_remove)

lemma in_keys_iff: "k \<in> set (h_keys H m) \<longleftrightarrow> h_get_all H m k \<noteq> []"
  by (simp add: set_keys)

lemma get_all_append_many:
  "h_get_all H (foldl (\<lambda>m v. h_append H m k v) m vs) k'
   = h_get_all H m k' @ (if k' = k then vs else [])"
  by (induction vs arbitrary: m) (auto simp: get_all_append)

end

text \<open>The token characters of RFC 9110 and the value bytes the crate accepts.\<close>

definition tchar :: "byte \<Rightarrow> bool" where
  "tchar b \<longleftrightarrow> is_ascii_alphanumeric b \<or> b \<in> set ''!#$%&*+-.^_`|~'' \<or> b = CHR 0x27"

definition list_headers :: "(bytes \<times> bytes) list header_ops" where
  "list_headers =
     \<lparr>h_empty = [],
      h_get = (\<lambda>m k. first_of (map snd (filter (\<lambda>p. fst p = k) m))),
      h_get_all = (\<lambda>m k. map snd (filter (\<lambda>p. fst p = k) m)),
      h_keys = (\<lambda>m. remdups (map fst m)),
      h_append = (\<lambda>m k v. m @ [(k, v)]),
      h_insert = (\<lambda>m k v. filter (\<lambda>p. fst p \<noteq> k) m @ [(k, v)]),
      h_remove = (\<lambda>m k. filter (\<lambda>p. fst p \<noteq> k) m),
      h_name = (\<lambda>n. if n \<noteq> [] \<and> list_all tchar n then Some (lower n) else None),
      h_value = (\<lambda>v. if list_all (\<lambda>b. (32 \<le> code_of b \<and> code_of b \<noteq> 127) \<or> code_of b = 9) v
                     then Some v else None),
      h_to_str = (\<lambda>v. if list_all (\<lambda>b. (32 \<le> code_of b \<and> code_of b < 127) \<or> code_of b = 9) v
                      then Some v else None),
      h_from_u64 = decimal,
      h_full = (\<lambda>m k. 24576 \<le> length (remdups (map fst m)))\<rparr>"

lemma tchar_lower: "tchar b \<Longrightarrow> tchar (to_ascii_lowercase b)"
  by (auto simp: tchar_def to_ascii_lowercase_def ascii_simps of_char_of)

lemma list_all_tchar_lower: "list_all tchar n \<Longrightarrow> list_all tchar (lower n)"
  by (induction n) (auto intro: tchar_lower)

lemma list_headers_keys:
  "set (h_keys list_headers m) = {k. h_get_all list_headers m k \<noteq> []}"
  by (auto simp: list_headers_def filter_empty_conv)

lemma filter_other_key: "k' \<noteq> k \<Longrightarrow> filter (\<lambda>x. fst x \<noteq> k \<and> fst x = k') m = filter (\<lambda>p. fst p = k') m"
  by (rule filter_cong) auto

interpretation lh: header_map list_headers
  by unfold_locales
    (auto simp: list_headers_def filter_empty_conv list_all_tchar_lower filter_other_key
      split: if_splits)

section \<open>check.rs: admission checks\<close>

record rejection =
  rej_status :: nat
  rej_reason :: string

datatype version = HTTP_09 | HTTP_10 | HTTP_11 | HTTP_2 | HTTP_3

text \<open>The parsed request head that hyper hands over, as far as the plugin reads it.\<close>

record 'm parts =
  p_method :: bytes
  p_version :: version
  p_path_and_query :: "bytes option"
  p_uri_authority :: "bytes option"
  p_uri_text :: bytes
  p_headers :: 'm

definition is_safe_field_name :: "bytes \<Rightarrow> bool" where
  "is_safe_field_name name \<longleftrightarrow> (\<forall>b\<in>set name. is_ascii_alphanumeric b \<or> b = CHR ''-'')"

definition authority :: "'m header_ops \<Rightarrow> 'm \<Rightarrow> bool \<Rightarrow> (bytes option, string) result" where
  "authority H headers http11 =
     (let lines = h_get_all H headers ''host''; first = first_of lines
      in if 2 \<le> length lines then Err ''request carries more than one Host field line''
         else (case opt_filter (\<lambda>v. v \<noteq> []) first of
                 Some v \<Rightarrow> Ok (Some v)
               | None \<Rightarrow> if http11 then Err ''HTTP/1.1 request without a Host field'' else Ok None))"

definition drop_unsafe_field_names :: "'m header_ops \<Rightarrow> 'm \<Rightarrow> 'm" where
  "drop_unsafe_field_names H headers =
     (let unsafe_names = filter (\<lambda>n. \<not> is_safe_field_name n) (h_keys H headers)
      in foldl (h_remove H) headers unsafe_names)"

definition declared_length :: "'m header_ops \<Rightarrow> 'm \<Rightarrow> nat option" where
  "declared_length H headers =
     Option.bind (h_get H headers ''content-length'') (\<lambda>v. Option.bind (h_to_str H v) parse_u64)"

definition check_request ::
  "'m header_ops \<Rightarrow> 'm parts \<Rightarrow> bool \<Rightarrow> nat \<Rightarrow> 'm parts \<times> (bytes option, rejection) result" where
  "check_request H parts superglobals max_body_size =
     (case authority H (p_headers parts) (p_version parts = HTTP_11) of
        Err reason \<Rightarrow> (parts, Err \<lparr>rej_status = 400, rej_reason = reason\<rparr>)
      | Ok auth \<Rightarrow>
          let parts' = (if superglobals
                        then parts\<lparr>p_headers := drop_unsafe_field_names H (p_headers parts)\<rparr>
                        else parts);
              declared = declared_length H (p_headers parts')
          in (case opt_filter (\<lambda>len. len > max_body_size) declared of
                Some _ \<Rightarrow> (parts', Err \<lparr>rej_status = 413,
                    rej_reason = ''declared content-length exceeds max_body_size''\<rparr>)
              | None \<Rightarrow> (parts', Ok auth)))"

context header_map
begin

lemma get_all_drop_unsafe:
  "h_get_all H (drop_unsafe_field_names H m) k
   = (if is_safe_field_name k then h_get_all H m k else [])"
  by (auto simp: drop_unsafe_field_names_def get_all_remove_many in_keys_iff)

lemma authority_Ok:
  "authority H m http11 = Ok a \<Longrightarrow>
     length (h_get_all H m ''host'') \<le> 1
     \<and> (case a of Some v \<Rightarrow> h_get_all H m ''host'' = [v] \<and> v \<noteq> []
        | None \<Rightarrow> \<not> http11 \<and> h_get_all H m ''host'' \<in> {[], [[]]})"
  by (cases "h_get_all H m ''host''"; cases "tl (h_get_all H m ''host'')")
     (auto simp: authority_def Let_def split: if_splits option.splits)

lemma check_request_Ok:
  assumes "check_request H parts sg mx = (parts', Ok a)"
  shows "authority H (p_headers parts) (p_version parts = HTTP_11) = Ok a"
    and "p_headers parts' = (if sg then drop_unsafe_field_names H (p_headers parts) else p_headers parts)"
    and "\<And>n. declared_length H (p_headers parts') = Some n \<Longrightarrow> n \<le> mx"
  using assms
  by (auto simp: check_request_def Let_def opt_filter_Some
      split: result.splits option.splits if_splits)

end

section \<open>response.rs: hop-by-hop fields\<close>

definition HOP_BY_HOP :: "bytes list" where
  "HOP_BY_HOP =
     [''content-length'', ''transfer-encoding'', ''connection'', ''keep-alive'', ''upgrade'',
      ''trailer'', ''te'', ''proxy-connection'']"

definition connection_named :: "'m header_ops \<Rightarrow> 'm \<Rightarrow> bytes list" where
  "connection_named H headers =
     concat (map (\<lambda>v. List.map_filter (\<lambda>token. h_name H (trim_ascii token)) (split_on (CHR '','') v))
       (h_get_all H headers ''connection''))"

definition response_headers :: "'m header_ops \<Rightarrow> 'm \<Rightarrow> nat option \<Rightarrow> 'm" where
  "response_headers H headers content_length =
     (let headers = (if \<exists>k\<in>set (h_keys H headers). k \<in> set HOP_BY_HOP
                     then foldl (h_remove H) headers (connection_named H headers @ HOP_BY_HOP)
                     else headers)
      in case content_length of
           Some n \<Rightarrow> h_insert H headers ''content-length'' (h_from_u64 H n)
         | None \<Rightarrow> headers)"

lemma content_length_hop: "''content-length'' \<in> set HOP_BY_HOP"
  and connection_hop: "''connection'' \<in> set HOP_BY_HOP"
  by (simp_all add: HOP_BY_HOP_def)

text \<open>Refusal responses: an empty body, never cached, and the connection closes.\<close>

definition error_headers :: "'m header_ops \<Rightarrow> 'm" where
  "error_headers H =
     h_insert H (h_insert H (h_empty H) ''cache-control'' ''private, no-store'') ''connection'' ''close''"

context header_map
begin

lemma connection_named_none:
  "h_get_all H m ''connection'' = [] \<Longrightarrow> connection_named H m = []"
  by (simp add: connection_named_def)

text \<open>The early exit of the code changes nothing: without a hop-by-hop key nothing is named.\<close>

lemma get_all_response_headers:
  "h_get_all H (response_headers H m cl) k =
     (if k = ''content-length'' then (case cl of Some n \<Rightarrow> [decimal n] | None \<Rightarrow> [])
      else if k \<in> set (connection_named H m) \<union> set HOP_BY_HOP then [] else h_get_all H m k)"
proof -
  have early: "connection_named H m = [] \<and> (\<forall>k\<in>set HOP_BY_HOP. h_get_all H m k = [])"
    if "\<not> (\<exists>k\<in>set (h_keys H m). k \<in> set HOP_BY_HOP)"
  proof -
    have none: "\<forall>k\<in>set HOP_BY_HOP. h_get_all H m k = []"
      using that in_keys_iff by blast
    then show ?thesis using connection_named_none connection_hop by blast
  qed
  note hop = content_length_hop
  show ?thesis
  proof (cases "\<exists>k\<in>set (h_keys H m). k \<in> set HOP_BY_HOP")
    case True
    then show ?thesis using hop
      by (auto simp: response_headers_def Let_def get_all_remove_many get_all_insert from_u64
          split: option.splits)
  next
    case False
    with early [OF False] hop show ?thesis
      by (auto simp: response_headers_def Let_def get_all_insert from_u64 split: option.splits)
  qed
qed

end

section \<open>php/headers.rs: framing and trailers\<close>

definition TRAILER_FORBIDDEN :: "bytes list" where
  "TRAILER_FORBIDDEN =
     [''age'', ''authorization'', ''cache-control'', ''connection'', ''content-encoding'',
      ''content-language'', ''content-length'', ''content-location'', ''content-range'',
      ''content-type'', ''cookie'', ''date'', ''expect'', ''expires'', ''forwarded'', ''host'',
      ''if-match'', ''if-modified-since'', ''if-none-match'', ''if-range'',
      ''if-unmodified-since'', ''keep-alive'', ''location'', ''max-forwards'', ''pragma'',
      ''proxy-authenticate'', ''proxy-authorization'', ''proxy-connection'', ''range'',
      ''retry-after'', ''set-cookie'', ''te'', ''trailer'', ''transfer-encoding'', ''upgrade'',
      ''vary'', ''via'', ''warning'', ''www-authenticate'']"

definition forbidden_trailer :: "bytes \<Rightarrow> bool" where
  "forbidden_trailer name \<longleftrightarrow> list_ex (\<lambda>f. eq_ignore_ascii_case name f) TRAILER_FORBIDDEN"

definition parse_content_length :: "bytes \<Rightarrow> nat option" where
  "parse_content_length v =
     (if utf8_valid v
      then (let s = str_trim v in if list_all is_ascii_digit s then parse_u64 s else None)
      else None)"

record 'm split_head =
  sh_headers :: 'm
  sh_declared_cl :: "nat option"

definition split_framing :: "'m header_ops \<Rightarrow> 'm \<Rightarrow> ('m split_head, string) result" where
  "split_framing H headers =
     (let lines = h_get_all H headers ''content-length'' in
      if 2 \<le> length lines then Err ''content-length may not repeat''
      else Ok \<lparr>sh_headers = h_remove H headers ''content-length'',
               sh_declared_cl = Option.bind (first_of lines) parse_content_length\<rparr>)"

text \<open>
  A PHP array argument as the walk sees it: string or integer keys, and values that are strings,
  arrays or something else. A NULL table is \<open>None\<close>.
\<close>

datatype zkey = KeyStr bytes | KeyIndex nat

datatype zval = ZString bytes | ZArray "(zkey \<times> zval) list" | ZOther

fun walk_values :: "'m header_ops \<Rightarrow> bytes \<Rightarrow> (zkey \<times> zval) list \<Rightarrow> 'm \<Rightarrow> ('m, string) result" where
  "walk_values H name [] m = Ok m"
| "walk_values H name ((_, item) # rest) m =
     (case item of
        ZString s \<Rightarrow> (case h_value H s of
             None \<Rightarrow> Err ''header value is not representable on the wire''
           | Some value \<Rightarrow> walk_values H name rest (h_append H m name value))
      | _ \<Rightarrow> Err ''header value is not representable on the wire'')"

fun walk_entries :: "'m header_ops \<Rightarrow> (zkey \<times> zval) list \<Rightarrow> 'm \<Rightarrow> ('m, string) result" where
  "walk_entries H [] m = Ok m"
| "walk_entries H ((key, list) # rest) m =
     (case key of
        KeyIndex _ \<Rightarrow> Err ''header name is not representable on the wire''
      | KeyStr s \<Rightarrow> (case h_name H s of
           None \<Rightarrow> Err ''header name is not representable on the wire''
         | Some name \<Rightarrow> (case list of
              ZArray items \<Rightarrow> (case walk_values H name items m of
                 Err e \<Rightarrow> Err e
               | Ok m' \<Rightarrow> walk_entries H rest m')
            | _ \<Rightarrow> Err ''each header entry must be a list of strings'')))"

definition walk_head_table ::
  "'m header_ops \<Rightarrow> (zkey \<times> zval) list option \<Rightarrow> ('m, string) result" where
  "walk_head_table H ht =
     (case ht of None \<Rightarrow> Ok (h_empty H) | Some entries \<Rightarrow> walk_entries H entries (h_empty H))"

context header_map
begin

lemma split_framing_Ok:
  assumes "split_framing H m = Ok sh"
  shows "length (h_get_all H m ''content-length'') \<le> 1"
    and "h_get_all H (sh_headers sh) k = (if k = ''content-length'' then [] else h_get_all H m k)"
    and "sh_declared_cl sh = Option.bind (h_get H m ''content-length'') parse_content_length"
  using assms by (auto simp: split_framing_def Let_def get_all_remove get_first split: if_splits)

lemma walk_values_Ok:
  "walk_values H name items m = Ok m' \<Longrightarrow>
   h_get_all H m' k = h_get_all H m k @
     (if k = name then map (\<lambda>(_, z). case z of ZString s \<Rightarrow> s | _ \<Rightarrow> []) items else [])"
proof (induction items arbitrary: m)
  case (Cons x items)
  from Cons.prems obtain s where s: "snd x = ZString s" and v: "h_value H s = Some s"
    and rest: "walk_values H name items (h_append H m name s) = Ok m'"
    by (cases x) (auto split: zval.splits option.splits dest: value_same)
  from Cons.IH [OF rest] s show ?case by (cases x) (simp add: get_all_append)
qed simp

end

lemma parse_content_length_bound: "parse_content_length v = Some n \<Longrightarrow> n < 2 ^ 64"
  by (auto simp: parse_content_length_def Let_def dest: parse_uint_bound split: if_splits)

definition zval_text :: "zval \<Rightarrow> bytes" where
  "zval_text z = (case z of ZString s \<Rightarrow> s | _ \<Rightarrow> [])"

text \<open>The values a well-formed head table gives to the field \<open>k\<close>, in table order.\<close>

definition table_values :: "bytes \<Rightarrow> (zkey \<times> zval) list \<Rightarrow> bytes list" where
  "table_values k es = concat (map (\<lambda>e. case e of
       (KeyStr s, ZArray items) \<Rightarrow> if lower s = k then map (zval_text \<circ> snd) items else []
     | _ \<Rightarrow> []) es)"

definition sendable_entry :: "'m header_ops \<Rightarrow> zkey \<times> zval \<Rightarrow> bool" where
  "sendable_entry H e = (case e of
       (KeyStr s, ZArray items) \<Rightarrow> h_name H s \<noteq> None \<and>
         list_all (\<lambda>x. case snd x of ZString v \<Rightarrow> h_value H v \<noteq> None | _ \<Rightarrow> False) items
     | _ \<Rightarrow> False)"

lemma table_values_simps [simp]:
  "table_values k [] = []"
  "table_values k ((KeyStr s, ZArray items) # es) =
     (if lower s = k then map (zval_text \<circ> snd) items else []) @ table_values k es"
  by (simp_all add: table_values_def)

context header_map
begin

lemma walk_values_text:
  "walk_values H name items m = Ok m' \<Longrightarrow>
   h_get_all H m' k = h_get_all H m k @ (if k = name then map (zval_text \<circ> snd) items else [])"
  by (drule walk_values_Ok [where k = k])
     (simp add: zval_text_def comp_def case_prod_beta')

lemma walk_values_is_ok:
  "is_ok (walk_values H name items m) \<longleftrightarrow>
   list_all (\<lambda>x. case snd x of ZString v \<Rightarrow> h_value H v \<noteq> None | _ \<Rightarrow> False) items"
  by (induction items arbitrary: m) (auto split: zval.splits option.splits)

lemma walk_entries_Ok:
  "walk_entries H es m = Ok m' \<Longrightarrow>
   h_get_all H m' k = h_get_all H m k @ table_values k es"
proof (induction es arbitrary: m)
  case (Cons e es)
  from Cons.prems obtain s items name m1 where e: "e = (KeyStr s, ZArray items)"
    and n: "h_name H s = Some name" and w: "walk_values H name items m = Ok m1"
    and r: "walk_entries H es m1 = Ok m'"
    by (cases e) (auto split: zkey.splits zval.splits option.splits result.splits)
  from name_lower [OF n] have "name = lower s" by simp
  with Cons.IH [OF r] walk_values_text [OF w, of k] e show ?case by auto
qed simp

lemma walk_entries_is_ok: "is_ok (walk_entries H es m) \<longleftrightarrow> list_all (sendable_entry H) es"
proof (induction es arbitrary: m)
  case (Cons e es)
  obtain key z where e: "e = (key, z)" by fastforce
  show ?case
  proof (cases key)
    case (KeyStr s)
    show ?thesis
    proof (cases "h_name H s")
      case (Some name)
      show ?thesis
      proof (cases z)
        case (ZArray items)
        then show ?thesis
          using e KeyStr Some Cons.IH walk_values_is_ok [of name items m]
          by (cases "walk_values H name items m") (simp_all add: sendable_entry_def)
      qed (simp_all add: e KeyStr Some sendable_entry_def)
    qed (simp add: e KeyStr sendable_entry_def split: zval.splits)
  qed (simp add: e sendable_entry_def)
qed simp

lemma authority_Err:
  "authority H m http11 = Err e \<Longrightarrow>
     2 \<le> length (h_get_all H m ''host'') \<or> http11 \<and> h_get_all H m ''host'' \<in> {[], [[]]}"
  by (cases "h_get_all H m ''host''"; cases "tl (h_get_all H m ''host'')")
     (auto simp: authority_def Let_def split: if_splits option.splits)

lemma check_request_Err:
  assumes "check_request H parts sg mx = (parts', Err e)"
  shows "(rej_status e = 400 \<and> (\<exists>r. authority H (p_headers parts) (p_version parts = HTTP_11) = Err r))
       \<or> (rej_status e = 413 \<and>
          p_headers parts' = (if sg then drop_unsafe_field_names H (p_headers parts) else p_headers parts) \<and>
          (\<exists>n > mx. declared_length H (p_headers parts') = Some n))"
  using assms
  by (auto simp: check_request_def Let_def opt_filter_Some split: result.splits option.splits if_splits)

end

section \<open>Properties\<close>

text \<open>What the admission checks leave of the header map: everything but the unsafe names.\<close>

definition admitted_headers :: "'m header_ops \<Rightarrow> bool \<Rightarrow> 'm \<Rightarrow> 'm \<Rightarrow> bool" where
  "admitted_headers H sg m m' \<longleftrightarrow>
     (\<forall>k. h_get_all H m' k = (if sg \<and> \<not> is_safe_field_name k then [] else h_get_all H m k))"

text \<open>
  C6: the admission checks accept a request exactly when it has at most one Host line, a non-empty
  one if it is HTTP/1.1, and no declared length above the limit; the accepted authority is that
  Host value, every refusal carries the status of its cause, and a request that passes the Host
  check loses exactly the field names that alias a CGI variable, and those only in the
  superglobal modes.
\<close>

theorem check_request_admission:
  assumes "header_map H"
    and "check_request H parts sg mx = (parts', r)"
  shows "case r of
      Ok a \<Rightarrow> length (h_get_all H (p_headers parts) ''host'') \<le> 1
        \<and> (\<forall>v. a = Some v \<longleftrightarrow> v \<noteq> [] \<and> h_get_all H (p_headers parts) ''host'' = [v])
        \<and> (p_version parts = HTTP_11 \<longrightarrow> a \<noteq> None)
        \<and> (\<forall>n. declared_length H (p_headers parts') = Some n \<longrightarrow> n \<le> mx)
        \<and> admitted_headers H sg (p_headers parts) (p_headers parts')
    | Err e \<Rightarrow>
        rej_status e = 400
          \<and> (2 \<le> length (h_get_all H (p_headers parts) ''host'')
             \<or> p_version parts = HTTP_11 \<and> h_get_all H (p_headers parts) ''host'' \<in> {[], [[]]})
        \<or> rej_status e = 413 \<and> (\<exists>n > mx. declared_length H (p_headers parts') = Some n)
          \<and> admitted_headers H sg (p_headers parts) (p_headers parts')"
proof -
  have adm: "admitted_headers H sg m (if sg then drop_unsafe_field_names H m else m)" for m
    by (simp add: admitted_headers_def header_map.get_all_drop_unsafe [OF assms(1)])
  show ?thesis
  proof (cases r)
    case (Ok a)
    note c = header_map.check_request_Ok [OF assms(1) assms(2) [unfolded Ok]]
    have host: "length (h_get_all H (p_headers parts) ''host'') \<le> 1"
      and av: "case a of Some v \<Rightarrow> h_get_all H (p_headers parts) ''host'' = [v] \<and> v \<noteq> []
        | None \<Rightarrow> p_version parts \<noteq> HTTP_11 \<and> h_get_all H (p_headers parts) ''host'' \<in> {[], [[]]}"
      using header_map.authority_Ok [OF assms(1) c(1)] by simp_all
    show ?thesis
      using host av c(3) adm [of "p_headers parts"] unfolding c(2) [symmetric]
      by (cases a) (auto simp: Ok)
  next
    case (Err e)
    from header_map.check_request_Err [OF assms(1) assms(2) [unfolded Err]]
    show ?thesis
      using header_map.authority_Err [OF assms(1)] adm [of "p_headers parts"]
      by (auto simp: Err)
  qed
qed

text \<open>A request of the superglobal modes whose \<open>x_y\<close> field would alias \<open>X-Y\<close>.\<close>

definition sample_parts :: "(bytes \<times> bytes) list parts" where
  "sample_parts =
     \<lparr>p_method = ''POST'', p_version = HTTP_11, p_path_and_query = Some ''/a?b=1'',
      p_uri_authority = None, p_uri_text = ''/a?b=1'',
      p_headers = [(''host'', ''a.test''), (''x_y'', ''1''), (''x-y'', ''2''),
                   (''content-length'', ''7'')]\<rparr>"

lemma check_request_admission_witness:
  "(\<exists>p a. check_request list_headers sample_parts True 10 = (p, Ok a) \<and> a = Some ''a.test''
      \<and> h_get_all list_headers (p_headers p) ''x_y'' = []
      \<and> h_get_all list_headers (p_headers p) ''x-y'' = [''2''])
   \<and> admitted_headers list_headers True (p_headers sample_parts)
       (p_headers (fst (check_request list_headers sample_parts True 10)))"
proof -
  define p where "p = fst (check_request list_headers sample_parts True 10)"
  have e: "check_request list_headers sample_parts True 10 = (p, Ok (Some ''a.test''))"
    unfolding p_def by code_simp
  have "admitted_headers list_headers True (p_headers sample_parts) (p_headers p)"
    using check_request_admission [OF lh.header_map_axioms e] by simp
  moreover have "h_get_all list_headers (p_headers p) ''x_y'' = []"
    "h_get_all list_headers (p_headers p) ''x-y'' = [''2'']"
    unfolding p_def by code_simp+
  ultimately show ?thesis using e by auto
qed

text \<open>
  The headers of a response keep every field except the hop-by-hop ones and those a Connection
  value names, whatever the application set; content-length is there exactly when a length is
  declared, with its decimal text as the only value. The early exit on a map without a
  hop-by-hop key does not change this.
\<close>

theorem response_headers_fields:
  assumes "header_map H"
  shows "h_get_all H (response_headers H m cl) k =
     (if k = ''content-length'' then (case cl of Some n \<Rightarrow> [decimal n] | None \<Rightarrow> [])
      else if k \<in> set HOP_BY_HOP \<or> k \<in> set (connection_named H m) then []
      else h_get_all H m k)"
  by (simp add: header_map.get_all_response_headers [OF assms])

lemma response_headers_fields_witness:
  "h_get_all list_headers (response_headers list_headers
      [(''connection'', ''close, X-Drop''), (''x-drop'', ''1''), (''x-keep'', ''2'')] (Some 12)) ''x-drop'' = []
   \<and> h_get_all list_headers (response_headers list_headers
      [(''connection'', ''close, X-Drop''), (''x-drop'', ''1''), (''x-keep'', ''2'')] (Some 12)) ''x-keep''
     = [''2'']"
proof -
  let ?m = "[(''connection'', ''close, X-Drop''), (''x-drop'', ''1''), (''x-keep'', ''2'')]"
  have "''x-drop'' \<in> set (connection_named list_headers ?m)" by code_simp
  moreover have "''x-keep'' \<notin> set (connection_named list_headers ?m) \<and> ''x-keep'' \<notin> set HOP_BY_HOP
      \<and> h_get_all list_headers ?m ''x-keep'' = [''2'']" by code_simp
  ultimately show ?thesis
    by (simp add: response_headers_fields [OF lh.header_map_axioms])
qed

text \<open>
  The PHP head table is accepted exactly when every key is a string with a legal field name
  and every value is a list of legal field values; the resulting map then holds for each field
  precisely the values the table gives to the spellings of its name, in table order.
\<close>

theorem walk_head_table_exact:
  assumes "header_map H"
  shows "case walk_head_table H (Some es) of
      Ok m \<Rightarrow> list_all (sendable_entry H) es \<and> (\<forall>k. h_get_all H m k = table_values k es)
    | Err e \<Rightarrow> \<not> list_all (sendable_entry H) es"
  using header_map.walk_entries_is_ok [OF assms, of es "h_empty H"]
    header_map.walk_entries_Ok [OF assms, of es "h_empty H"] header_map.get_all_empty [OF assms]
  by (auto simp: walk_head_table_def is_ok_iff split: result.splits)

lemma walk_head_table_exact_witness:
  "case walk_head_table list_headers (Some [(KeyStr ''X-A'', ZArray [(KeyIndex 0, ZString ''1'')]),
                                            (KeyStr ''x-a'', ZArray [(KeyIndex 0, ZString ''2'')])]) of
      Ok m \<Rightarrow> h_get_all list_headers m ''x-a'' = [''1'', ''2'']
    | Err e \<Rightarrow> False"
proof -
  let ?es = "[(KeyStr ''X-A'', ZArray [(KeyIndex 0, ZString ''1'')]),
              (KeyStr ''x-a'', ZArray [(KeyIndex 0, ZString ''2'')])]"
  have "list_all (sendable_entry list_headers) ?es" by code_simp
  moreover have "table_values ''x-a'' ?es = [''1'', ''2'']" by code_simp
  ultimately show ?thesis
    using walk_head_table_exact [OF lh.header_map_axioms, of ?es]
    by (auto split: result.splits)
qed

end
