(* ===== verification/Scoreboard.thy ===== *)
theory Scoreboard
  imports Prelude
begin

text \<open>
  The scoreboard: one slot per interpreter thread (\<open>crates/scoreboard\<close>), the events a PHP thread
  reports (\<open>sapi/src/scoreboard.rs\<close>), the request quota that drains a thread
  (\<open>sapi/src/quota.rs\<close>), and the metrics and probes that read the slots
  (\<open>crates/observability\<close>). The atomic counters are 64-bit words; every store of the code is one
  update of the model.
\<close>

section \<open>Slots and pools\<close>

definition SB_MAX_SLOTS :: nat where "SB_MAX_SLOTS = 4096"

definition SLOT_FREE :: nat where "SLOT_FREE = 0"
definition SLOT_STARTING :: nat where "SLOT_STARTING = 1"
definition SLOT_IDLE :: nat where "SLOT_IDLE = 2"
definition SLOT_ACTIVE :: nat where "SLOT_ACTIVE = 3"
definition SLOT_DRAINING :: nat where "SLOT_DRAINING = 4"

lemmas slot_states = SLOT_FREE_def SLOT_STARTING_def SLOT_IDLE_def SLOT_ACTIVE_def SLOT_DRAINING_def

record shared_slot =
  sl_state :: nat
  sl_pid :: nat
  sl_handled :: "64 word"
  sl_errors :: "64 word"
  sl_recycles :: "64 word"

definition slot_default :: shared_slot where
  "slot_default = \<lparr>sl_state = SLOT_FREE, sl_pid = 0, sl_handled = 0, sl_errors = 0, sl_recycles = 0\<rparr>"

definition create_board :: "nat \<Rightarrow> (shared_slot list, string) result" where
  "create_board nslots =
     (if 1 \<le> nslots \<and> nslots \<le> SB_MAX_SLOTS then Ok (replicate nslots slot_default)
      else Err ''scoreboard slots out of range'')"

definition slot_bind :: "shared_slot \<Rightarrow> nat \<Rightarrow> shared_slot" where
  "slot_bind s pid = s\<lparr>sl_pid := pid, sl_state := SLOT_STARTING\<rparr>"

definition serving :: "shared_slot \<Rightarrow> bool" where
  "serving s \<longleftrightarrow> sl_state s = SLOT_IDLE \<or> sl_state s = SLOT_ACTIVE"

record pool =
  pool_name :: string
  pool_slots :: "shared_slot list"
  pool_pending :: "64 word"
  pool_failed_on_full :: "64 word"
  pool_shed :: "64 word"

definition pool_new :: "string \<Rightarrow> shared_slot list \<Rightarrow> pool" where
  "pool_new name slots =
     \<lparr>pool_name = name, pool_slots = slots, pool_pending = 0, pool_failed_on_full = 0, pool_shed = 0\<rparr>"

section \<open>Quota and events of one PHP thread\<close>

record quota_state =
  q_served :: "64 word"
  q_max :: "64 word"
  q_draining :: bool
  q_unhealthy :: bool

datatype event = Handled bool | Shed | Recycled | Idle | Active | Draining | BootFailed

text \<open>
  The thread-local cells of a PHP thread: its slot (\<open>SB\<close>), the sticky \<open>DRAINING\<close> flag, the quota
  cell \<open>Q\<close>, and the shared \<open>handled\<close> flag of its receiver, present while \<open>UNIT_RX\<close> is set.
\<close>

record php_thread =
  t_slot :: "shared_slot option"
  t_draining :: bool
  t_quota :: quota_state
  t_handled :: "bool option"

definition quota_install :: "64 word \<Rightarrow> php_thread \<Rightarrow> php_thread" where
  "quota_install mx th =
     th\<lparr>t_quota := \<lparr>q_served = 0, q_max = mx, q_draining = False, q_unhealthy = False\<rparr>\<rparr>"

definition sb_set :: "shared_slot \<Rightarrow> php_thread \<Rightarrow> php_thread" where
  "sb_set slot th = th\<lparr>t_draining := False, t_slot := Some slot\<rparr>"

definition draining_or :: "php_thread \<Rightarrow> nat \<Rightarrow> nat" where
  "draining_or th state = (if t_draining th then SLOT_DRAINING else state)"

definition sb_drain :: "php_thread \<Rightarrow> php_thread" where
  "sb_drain th = (case t_slot th of None \<Rightarrow> th
     | Some s \<Rightarrow> th\<lparr>t_draining := True, t_slot := Some (s\<lparr>sl_state := SLOT_DRAINING\<rparr>)\<rparr>)"

definition note_handled :: "php_thread \<Rightarrow> php_thread" where
  "note_handled th = th\<lparr>t_handled := map_option (\<lambda>_. True) (t_handled th)\<rparr>"

definition quota_tick :: "php_thread \<Rightarrow> php_thread" where
  "quota_tick th0 =
     (let th = note_handled th0; q = t_quota th in
      if q_max q = 0 \<or> q_draining q then th
      else let q' = q\<lparr>q_served := q_served q + 1\<rparr> in
        if q_served q' = q_max q'
        then sb_drain (th\<lparr>t_quota := q'\<lparr>q_draining := True\<rparr>\<rparr>)
        else th\<lparr>t_quota := q'\<rparr>)"

definition fire_unhealthy :: "php_thread \<Rightarrow> php_thread" where
  "fire_unhealthy th =
     sb_drain (th\<lparr>t_quota := (t_quota th)\<lparr>q_unhealthy := True, q_draining := True\<rparr>\<rparr>)"

abbreviation is_draining :: "php_thread \<Rightarrow> bool" where
  "is_draining th \<equiv> q_draining (t_quota th)"

abbreviation is_unhealthy :: "php_thread \<Rightarrow> bool" where
  "is_unhealthy th \<equiv> q_unhealthy (t_quota th)"

fun sb_update :: "event \<Rightarrow> php_thread \<Rightarrow> php_thread" where
  "sb_update ev th = (case t_slot th of None \<Rightarrow> th | Some s \<Rightarrow>
     (case ev of
        Handled errored \<Rightarrow>
          let s1 = (if errored then s\<lparr>sl_errors := sl_errors s + 1\<rparr> else s) in
          quota_tick (th\<lparr>t_slot := Some (s1\<lparr>sl_handled := sl_handled s1 + 1\<rparr>)\<rparr>)
      | Shed \<Rightarrow> th\<lparr>t_slot := Some (s\<lparr>sl_errors := sl_errors s + 1, sl_handled := sl_handled s + 1\<rparr>)\<rparr>
      | Recycled \<Rightarrow> th\<lparr>t_slot := Some (s\<lparr>sl_recycles := sl_recycles s + 1\<rparr>)\<rparr>
      | Idle \<Rightarrow> th\<lparr>t_slot := Some (s\<lparr>sl_state := draining_or th SLOT_IDLE\<rparr>)\<rparr>
      | Active \<Rightarrow> th\<lparr>t_slot := Some (s\<lparr>sl_state := SLOT_ACTIVE\<rparr>)\<rparr>
      | Draining \<Rightarrow> sb_drain th
      | BootFailed \<Rightarrow> th\<lparr>t_slot := Some (s\<lparr>sl_state := draining_or th SLOT_STARTING\<rparr>)\<rparr>))"

declare sb_update.simps [simp del]

definition sb_updates :: "event list \<Rightarrow> php_thread \<Rightarrow> php_thread" where
  "sb_updates evs th = foldl (\<lambda>th ev. sb_update ev th) th evs"

lemma sb_updates_simps [simp]:
  "sb_updates [] th = th"
  "sb_updates (ev # evs) th = sb_updates evs (sb_update ev th)"
  "sb_updates (evs @ evs') th = sb_updates evs' (sb_updates evs th)"
  by (simp_all add: sb_updates_def)

subsection \<open>What one event changes\<close>

definition slot_of :: "php_thread \<Rightarrow> shared_slot" where
  "slot_of th = (case t_slot th of Some s \<Rightarrow> s | None \<Rightarrow> slot_default)"

definition handled_by :: "event \<Rightarrow> bool" where
  "handled_by ev \<longleftrightarrow> (\<exists>e. ev = Handled e)"

lemma handled_by_simps [simp]:
  "handled_by (Handled e)" "\<not> handled_by Shed" "\<not> handled_by Recycled" "\<not> handled_by Idle"
  "\<not> handled_by Active" "\<not> handled_by Draining" "\<not> handled_by BootFailed"
  by (simp_all add: handled_by_def)

definition counts_handled :: "event \<Rightarrow> bool" where
  "counts_handled ev \<longleftrightarrow> handled_by ev \<or> ev = Shed"

definition counts_error :: "event \<Rightarrow> bool" where
  "counts_error ev \<longleftrightarrow> ev = Handled True \<or> ev = Shed"

definition count_ev :: "(event \<Rightarrow> bool) \<Rightarrow> event list \<Rightarrow> nat" where
  "count_ev P evs = length (filter P evs)"

lemma count_ev_simps [simp]:
  "count_ev P [] = 0"
  "count_ev P (ev # evs) = (if P ev then 1 else 0) + count_ev P evs"
  by (simp_all add: count_ev_def)

lemmas event_defs = sb_update.simps quota_tick_def note_handled_def sb_drain_def counts_handled_def
  counts_error_def handled_by_def Let_def

lemma sb_update_counters:
  assumes "t_slot th = Some s"
  shows "\<exists>s'. t_slot (sb_update ev th) = Some s'
    \<and> sl_handled s' = sl_handled s + of_nat (count_ev counts_handled [ev])
    \<and> sl_errors s' = sl_errors s + of_nat (count_ev counts_error [ev])
    \<and> sl_recycles s' = sl_recycles s + of_nat (count_ev ((=) Recycled) [ev])
    \<and> sl_pid s' = sl_pid s"
  using assms by (cases ev) (auto simp: event_defs)

lemma sb_updates_counters:
  assumes "t_slot th = Some s"
  shows "\<exists>s'. t_slot (sb_updates evs th) = Some s'
    \<and> sl_handled s' = sl_handled s + of_nat (count_ev counts_handled evs)
    \<and> sl_errors s' = sl_errors s + of_nat (count_ev counts_error evs)
    \<and> sl_recycles s' = sl_recycles s + of_nat (count_ev ((=) Recycled) evs)
    \<and> sl_pid s' = sl_pid s"
  using assms
proof (induction evs arbitrary: th s)
  case (Cons ev evs)
  from sb_update_counters [OF Cons.prems, of ev] obtain s1 where
    "t_slot (sb_update ev th) = Some s1" and 1:
    "sl_handled s1 = sl_handled s + of_nat (count_ev counts_handled [ev])"
    "sl_errors s1 = sl_errors s + of_nat (count_ev counts_error [ev])"
    "sl_recycles s1 = sl_recycles s + of_nat (count_ev ((=) Recycled) [ev])"
    "sl_pid s1 = sl_pid s" by blast
  from Cons.IH [OF this(1)] show ?case by (auto simp: 1)
qed simp

text \<open>The quota of a thread moves only with the handled units.\<close>

definition quota_step :: "quota_state \<Rightarrow> quota_state" where
  "quota_step q =
     (if q_max q = 0 \<or> q_draining q then q
      else q\<lparr>q_served := q_served q + 1, q_draining := (q_served q + 1 = q_max q)\<rparr>)"

lemma sb_update_quota:
  assumes "t_slot th = Some s"
  shows "t_quota (sb_update ev th) = (if handled_by ev then quota_step (t_quota th) else t_quota th)"
  using assms by (cases ev) (auto simp: event_defs quota_step_def)

lemma sb_updates_quota:
  assumes "t_slot th = Some s"
  shows "t_quota (sb_updates evs th) = (quota_step ^^ count_ev handled_by evs) (t_quota th)"
  using assms
proof (induction evs arbitrary: th s)
  case (Cons ev evs)
  from sb_update_counters [OF Cons.prems, of ev] obtain s1 where s1: "t_slot (sb_update ev th) = Some s1"
    by blast
  from Cons.IH [OF s1] sb_update_quota [OF Cons.prems, of ev] show ?case
    by (simp add: funpow_swap1)
qed simp

lemma quota_step_iterate:
  assumes "q_served q = 0" "\<not> q_draining q"
  shows "(quota_step ^^ n) q
     = q\<lparr>q_served := (if q_max q = 0 then 0 else of_nat (min n (unat (q_max q)))),
         q_draining := (q_max q \<noteq> 0 \<and> unat (q_max q) \<le> n)\<rparr>"
proof (induction n)
  case 0
  show ?case using assms by (cases q) (auto simp: unat_eq_0)
next
  case (Suc n)
  have lt: "unat (q_max q) < 2 ^ 64" by (rule order_less_le_trans [OF unsigned_less]) simp
  show ?case
  proof (cases "q_max q = 0 \<or> unat (q_max q) \<le> n")
    case True
    then show ?thesis
      by (simp only: funpow.simps comp_apply Suc.IH) (auto simp: quota_step_def min_def)
  next
    case False
    then have n: "q_max q \<noteq> 0" "n < unat (q_max q)" by auto
    have "(of_nat n + 1 = q_max q) = (Suc n = unat (q_max q))"
    proof -
      have "unat (of_nat (Suc n) :: 64 word) = Suc n"
        using n lt by (simp add: unat_of_nat_64 del: of_nat_Suc)
      then show ?thesis by (metis of_nat_Suc add.commute unsigned_word_eqI)
    qed
    with n show ?thesis
      by (simp only: funpow.simps comp_apply Suc.IH) (auto simp: quota_step_def min_def add.commute)
  qed
qed

text \<open>Once a thread drains, its slot leaves the draining state only for a pulled unit.\<close>

lemma sb_update_stays_draining:
  assumes "t_slot th = Some s" "t_draining th" "sl_state s = SLOT_DRAINING" "ev \<noteq> Active"
  shows "\<exists>s'. t_slot (sb_update ev th) = Some s' \<and> t_draining (sb_update ev th)
     \<and> sl_state s' = SLOT_DRAINING"
  using assms by (cases ev) (auto simp: event_defs draining_or_def)

lemma sb_updates_stay_draining:
  assumes "t_slot th = Some s" "t_draining th" "sl_state s = SLOT_DRAINING" "Active \<notin> set evs"
  shows "\<exists>s'. t_slot (sb_updates evs th) = Some s' \<and> t_draining (sb_updates evs th)
     \<and> sl_state s' = SLOT_DRAINING"
  using assms
proof (induction evs arbitrary: th s)
  case (Cons ev evs)
  from Cons.prems sb_update_stays_draining [OF Cons.prems(1-3), of ev] Cons.IH show ?case by auto
qed simp

section \<open>Metrics and probes\<close>

definition STATES :: "(nat \<times> string) list" where
  "STATES = [(SLOT_STARTING, ''starting''), (SLOT_IDLE, ''idle''), (SLOT_ACTIVE, ''active''),
             (SLOT_DRAINING, ''draining'')]"

record pool_stats =
  ps_name :: string
  ps_configured :: nat
  ps_states :: "64 word list"
  ps_requests :: "64 word"
  ps_failed :: "64 word"
  ps_failed_on_full :: "64 word"
  ps_queued :: "64 word"
  ps_restarts :: "64 word"

definition add_slot :: "pool_stats \<Rightarrow> shared_slot \<Rightarrow> pool_stats" where
  "add_slot stats slot =
     (let stats1 = stats\<lparr>ps_requests := ps_requests stats + sl_handled slot,
                         ps_failed := ps_failed stats + sl_errors slot,
                         ps_restarts := ps_restarts stats + sl_recycles slot\<rparr>
      in case (if sl_pid slot \<noteq> 0 then position (\<lambda>known. fst known = sl_state slot) STATES else None) of
           Some i \<Rightarrow> stats1\<lparr>ps_states := (ps_states stats1)[i := ps_states stats1 ! i + 1]\<rparr>
         | None \<Rightarrow> stats1)"

definition pool_board_stats :: "pool \<Rightarrow> pool_stats" where
  "pool_board_stats p =
     foldl add_slot
       \<lparr>ps_name = pool_name p, ps_configured = length (pool_slots p), ps_states = [0, 0, 0, 0],
        ps_requests = pool_shed p, ps_failed = pool_shed p,
        ps_failed_on_full = pool_failed_on_full p, ps_queued = pool_pending p, ps_restarts = 0\<rparr>
       (pool_slots p)"

definition board_stats :: "pool list \<Rightarrow> pool_stats list" where
  "board_stats pools = map pool_board_stats pools"

definition unready :: "pool list \<Rightarrow> string list" where
  "unready pools = map pool_name (filter (\<lambda>p. \<not> list_ex serving (pool_slots p)) pools)"

subsection \<open>Prometheus text\<close>

record build =
  b_version :: string
  b_php_version :: string

definition family :: "string \<Rightarrow> string \<Rightarrow> string \<Rightarrow> string" where
  "family name kind help =
     ''# HELP '' @ name @ '' '' @ help @ [CHR 0x0A] @ ''# TYPE '' @ name @ '' '' @ kind @ [CHR 0x0A]"

definition label_text :: "string \<times> string \<Rightarrow> string" where
  "label_text kv = fst kv @ ''='' @ [CHR 0x22] @ snd kv @ [CHR 0x22]"

definition sample_line :: "string \<Rightarrow> (string \<times> string) list \<Rightarrow> 64 word \<Rightarrow> string" where
  "sample_line name labels v =
     name @ ''{'' @ join_with '','' (map label_text labels) @ ''} '' @ decimal (unat v) @ [CHR 0x0A]"

definition pool_families :: "(string \<times> string \<times> string \<times> (pool_stats \<Rightarrow> 64 word)) list" where
  "pool_families =
     [(''rapira_workers_configured'', ''gauge'', ''The processes value of the pool config.'',
       \<lambda>p. of_nat (ps_configured p)),
      (''rapira_requests_total'', ''counter'',
       ''Units of work that the workers finished in any way.'', ps_requests),
      (''rapira_requests_failed_total'', ''counter'',
       ''Units of work that the host could not complete.'', ps_failed),
      (''rapira_requests_failed_on_full_queue_total'', ''counter'',
       ''Units of work that found the worker queue full and never entered it.'', ps_failed_on_full),
      (''rapira_requests_queued'', ''gauge'', ''Units of work that wait for a PHP thread.'', ps_queued),
      (''rapira_script_restarts_total'', ''counter'',
       ''Entrypoint restarts in interpreter threads.'', ps_restarts)]"

definition render :: "pool_stats list \<Rightarrow> build \<Rightarrow> string" where
  "render pools b =
     family ''rapira_workers'' ''gauge'' ''Workers per state.''
     @ concat (map (\<lambda>p. concat (map (\<lambda>(state, cnt).
          sample_line ''rapira_workers'' [(''pool'', ps_name p), (''state'', snd state)] cnt)
          (zip STATES (ps_states p)))) pools)
     @ concat (map (\<lambda>(name, kind, help, val).
          family name kind help
          @ concat (map (\<lambda>p. sample_line name [(''pool'', ps_name p)] (val p)) pools)) pool_families)
     @ family ''rapira_build_info'' ''gauge'' ''The versions of rapira and of the linked PHP.''
     @ sample_line ''rapira_build_info''
         [(''version'', b_version b), (''php_version'', b_php_version b)] 1"

subsection \<open>Routes\<close>

record routes =
  r_pools :: "pool list"
  r_build :: build
  r_metrics :: bool
  r_probes :: bool

record obs_reply =
  or_status :: nat
  or_content_type :: "string option"
  or_body :: string

definition METRICS_CONTENT_TYPE :: string where
  "METRICS_CONTENT_TYPE = ''text/plain; version=0.0.4; charset=utf-8''"

definition PROBE_CONTENT_TYPE :: string where
  "PROBE_CONTENT_TYPE = ''text/plain; charset=utf-8''"

definition obs_reply_of :: "nat \<Rightarrow> string \<Rightarrow> string \<Rightarrow> obs_reply" where
  "obs_reply_of status ct body = \<lparr>or_status = status, or_content_type = Some ct, or_body = body\<rparr>"

definition unready_line :: "string \<Rightarrow> string" where
  "unready_line name = ''pool '' @ name @ '': no ready worker'' @ [CHR 0x0A]"

definition obs_respond :: "routes \<Rightarrow> bytes \<Rightarrow> bytes \<Rightarrow> obs_reply" where
  "obs_respond rt meth path =
     (if meth = ''GET'' \<and> path = ''/metrics'' \<and> r_metrics rt
      then obs_reply_of 200 METRICS_CONTENT_TYPE (render (board_stats (r_pools rt)) (r_build rt))
      else if meth = ''GET'' \<and> path = ''/livez'' \<and> r_probes rt
      then obs_reply_of 200 PROBE_CONTENT_TYPE (''ok'' @ [CHR 0x0A])
      else if meth = ''GET'' \<and> path = ''/readyz'' \<and> r_probes rt
      then (let names = unready (r_pools rt) in
            if names = [] then obs_reply_of 200 PROBE_CONTENT_TYPE (''ok'' @ [CHR 0x0A])
            else obs_reply_of 503 PROBE_CONTENT_TYPE (concat (map unready_line names)))
      else \<lparr>or_status = 404, or_content_type = None, or_body = []\<rparr>)"

subsection \<open>What the statistics add up to\<close>

lemma known_state_index:
  "position (\<lambda>known. fst known = st) STATES = Some i \<longleftrightarrow> i < 4 \<and> st = Suc i"
  by (auto simp: STATES_def slot_states less_Suc_eq numeral_eq_Suc)

lemma known_state_none:
  "position (\<lambda>known. fst known = st) STATES = None \<longleftrightarrow> st \<notin> {1, 2, 3, 4}"
  by (auto simp: STATES_def slot_states)

definition bound_in :: "nat \<Rightarrow> shared_slot \<Rightarrow> bool" where
  "bound_in st s \<longleftrightarrow> sl_pid s \<noteq> 0 \<and> sl_state s = st"

lemma add_slot_fields:
  assumes "length (ps_states stats) = 4"
  shows "length (ps_states (add_slot stats s)) = 4"
    and "i < 4 \<Longrightarrow> ps_states (add_slot stats s) ! i
           = ps_states stats ! i + (if bound_in (Suc i) s then 1 else 0)"
    and "ps_requests (add_slot stats s) = ps_requests stats + sl_handled s"
    and "ps_failed (add_slot stats s) = ps_failed stats + sl_errors s"
    and "ps_restarts (add_slot stats s) = ps_restarts stats + sl_recycles s"
    and "ps_name (add_slot stats s) = ps_name stats"
    and "ps_configured (add_slot stats s) = ps_configured stats"
    and "ps_queued (add_slot stats s) = ps_queued stats"
    and "ps_failed_on_full (add_slot stats s) = ps_failed_on_full stats"
  using assms by (auto simp: add_slot_def Let_def bound_in_def known_state_index known_state_none
      nth_list_update less_Suc_eq numeral_eq_Suc split: option.splits)

lemma foldl_add_slot:
  assumes "length (ps_states stats) = 4"
  shows "length (ps_states (foldl add_slot stats ss)) = 4
    \<and> (\<forall>i<4. ps_states (foldl add_slot stats ss) ! i
           = ps_states stats ! i + of_nat (length (filter (bound_in (Suc i)) ss)))
    \<and> ps_requests (foldl add_slot stats ss) = ps_requests stats + sum_list (map sl_handled ss)
    \<and> ps_failed (foldl add_slot stats ss) = ps_failed stats + sum_list (map sl_errors ss)
    \<and> ps_restarts (foldl add_slot stats ss) = ps_restarts stats + sum_list (map sl_recycles ss)
    \<and> ps_name (foldl add_slot stats ss) = ps_name stats
    \<and> ps_configured (foldl add_slot stats ss) = ps_configured stats
    \<and> ps_queued (foldl add_slot stats ss) = ps_queued stats
    \<and> ps_failed_on_full (foldl add_slot stats ss) = ps_failed_on_full stats"
  using assms
proof (induction ss arbitrary: stats)
  case (Cons s ss)
  note f = add_slot_fields [OF Cons.prems, where s = s]
  show ?case using Cons.IH [OF f(1)] f by (simp add: add.assoc)
qed simp

lemma unready_iff: "name \<in> set (unready pools) \<longleftrightarrow>
   (\<exists>p\<in>set pools. pool_name p = name \<and> (\<forall>s\<in>set (pool_slots p). \<not> serving s))"
  by (auto simp: unready_def list_ex_iff)

section \<open>Properties\<close>

text \<open>
  C9: whatever a thread reports after its quota is installed, the thread drains exactly when the
  number of handled units reaches the quota (never for quota 0), and the slot counters are the
  number of handled and shed units, of the errored ones and of the recycles, modulo 2^64.
\<close>

theorem quota_drains_exactly:
  assumes "t_slot th = Some s"
  shows "let th' = sb_updates evs (quota_install mx th); s' = slot_of th' in
      is_draining th' = (mx \<noteq> 0 \<and> unat mx \<le> count_ev handled_by evs)
      \<and> q_served (t_quota th') = (if mx = 0 then 0 else of_nat (min (count_ev handled_by evs) (unat mx)))
      \<and> sl_handled s' = sl_handled s + of_nat (count_ev counts_handled evs)
      \<and> sl_errors s' = sl_errors s + of_nat (count_ev counts_error evs)
      \<and> sl_recycles s' = sl_recycles s + of_nat (count_ev ((=) Recycled) evs)"
proof -
  have sl: "t_slot (quota_install mx th) = Some s" by (simp add: quota_install_def assms)
  have q: "q_served (t_quota (quota_install mx th)) = 0"
    "\<not> q_draining (t_quota (quota_install mx th))" "q_max (t_quota (quota_install mx th)) = mx"
    by (simp_all add: quota_install_def)
  show ?thesis
    using sb_updates_counters [OF sl, of evs] sb_updates_quota [OF sl, of evs]
      quota_step_iterate [OF q(1,2)] q(3)
    by (auto simp: Let_def slot_of_def)
qed

definition sample_thread :: php_thread where
  "sample_thread = \<lparr>t_slot = Some slot_default, t_draining = False,
     t_quota = \<lparr>q_served = 0, q_max = 0, q_draining = False, q_unhealthy = False\<rparr>,
     t_handled = Some False\<rparr>"

lemma quota_drains_exactly_witness:
  "is_draining (sb_updates [Active, Handled False, Shed, Idle, Handled True] (quota_install 2 sample_thread))
   \<and> \<not> is_draining (sb_updates [Active, Handled False, Shed, Idle] (quota_install 2 sample_thread))"
  using quota_drains_exactly [where th = sample_thread and s = slot_default and mx = 2 and evs = "[Active, Handled False, Shed, Idle, Handled True]"]
    quota_drains_exactly [where th = sample_thread and s = slot_default and mx = 2 and evs = "[Active, Handled False, Shed, Idle]"]
  by (simp add: sample_thread_def Let_def)

text \<open>
  A drained thread's slot stays in the draining state, so no probe counts it as serving,
  through every event but the Active one that a pulled unit reports.
\<close>

theorem drain_is_sticky:
  assumes "t_slot th = Some s" and "Active \<notin> set evs"
  shows "sl_state (slot_of (sb_updates (Draining # evs) th)) = SLOT_DRAINING
      \<and> \<not> serving (slot_of (sb_updates (Draining # evs) th))"
proof -
  have "\<exists>s'. t_slot (sb_updates evs (sb_drain th)) = Some s' \<and> t_draining (sb_updates evs (sb_drain th))
      \<and> sl_state s' = SLOT_DRAINING"
    by (rule sb_updates_stay_draining) (use assms in \<open>auto simp: sb_drain_def\<close>)
  then show ?thesis by (auto simp: sb_update.simps assms(1) slot_of_def serving_def slot_states)
qed

lemma drain_is_sticky_witness:
  "\<not> serving (slot_of (sb_updates [Draining, Idle, BootFailed, Handled False] sample_thread))"
  using drain_is_sticky [of sample_thread slot_default "[Idle, BootFailed, Handled False]"]
  by (simp add: sample_thread_def)

text \<open>
  The statistics of a pool are the sums over its slots: requests and failures start from the
  units shed at the queue, each state counts the bound slots in that state, and the queue gauges
  are the pool's own counters.
\<close>

theorem board_stats_sums:
  "let st = pool_board_stats p in
     ps_requests st = pool_shed p + sum_list (map sl_handled (pool_slots p))
     \<and> ps_failed st = pool_shed p + sum_list (map sl_errors (pool_slots p))
     \<and> ps_restarts st = sum_list (map sl_recycles (pool_slots p))
     \<and> ps_states st = map (\<lambda>s. of_nat (length (filter (bound_in s) (pool_slots p))))
          [SLOT_STARTING, SLOT_IDLE, SLOT_ACTIVE, SLOT_DRAINING]
     \<and> ps_queued st = pool_pending p \<and> ps_failed_on_full st = pool_failed_on_full p
     \<and> ps_configured st = length (pool_slots p)"
proof -
  have "ps_states (pool_board_stats p) = map (\<lambda>s. of_nat (length (filter (bound_in s) (pool_slots p))))
          [SLOT_STARTING, SLOT_IDLE, SLOT_ACTIVE, SLOT_DRAINING]"
    unfolding pool_board_stats_def
    by (rule nth_equalityI)
      (auto simp: foldl_add_slot slot_states less_Suc_eq numeral_eq_Suc)
  then show ?thesis
    unfolding Let_def by (simp add: pool_board_stats_def foldl_add_slot)
qed

text \<open>
  The readiness probe answers 200 exactly when every pool has a slot that is idle or active,
  and otherwise 503 with one line for each pool that has none; without the probes table it is 404.
\<close>

theorem readyz_reports_pools:
  "obs_respond rt ''GET'' ''/readyz'' =
     (if \<not> r_probes rt then \<lparr>or_status = 404, or_content_type = None, or_body = []\<rparr>
      else if \<forall>p\<in>set (r_pools rt). \<exists>s\<in>set (pool_slots p). sl_state s \<in> {SLOT_IDLE, SLOT_ACTIVE}
      then \<lparr>or_status = 200, or_content_type = Some PROBE_CONTENT_TYPE, or_body = ''ok'' @ [CHR 0x0A]\<rparr>
      else \<lparr>or_status = 503, or_content_type = Some PROBE_CONTENT_TYPE,
             or_body = concat (map (\<lambda>p. unready_line (pool_name p))
               (filter (\<lambda>p. \<forall>s\<in>set (pool_slots p). sl_state s \<notin> {SLOT_IDLE, SLOT_ACTIVE}) (r_pools rt)))\<rparr>)"
proof -
  have e: "unready (r_pools rt) = map pool_name
      (filter (\<lambda>p. \<forall>s\<in>set (pool_slots p). sl_state s \<notin> {SLOT_IDLE, SLOT_ACTIVE}) (r_pools rt))"
    unfolding unready_def by (rule arg_cong [where f = "map pool_name"], rule filter_cong)
      (auto simp: list_ex_iff serving_def)
  show ?thesis
    by (auto simp: obs_respond_def Let_def e obs_reply_of_def filter_empty_conv comp_def)
qed

lemma readyz_reports_pools_witness:
  "obs_respond \<lparr>r_pools = [pool_new ''web'' [slot_default]], r_build = \<lparr>b_version = ''1'', b_php_version = ''8''\<rparr>, r_metrics = True, r_probes = True\<rparr>
     ''GET'' ''/readyz''
   = \<lparr>or_status = 503, or_content_type = Some PROBE_CONTENT_TYPE, or_body = unready_line ''web''\<rparr>"
  using readyz_reports_pools [of "\<lparr>r_pools = [pool_new ''web'' [slot_default]], r_build = \<lparr>b_version = ''1'', b_php_version = ''8''\<rparr>,
      r_metrics = True, r_probes = True\<rparr>"]
  by (simp add: pool_new_def slot_default_def slot_states)

end
