(* ===== verification/Frames.thy ===== *)
theory Frames
  imports Headers
begin

text \<open>
  Requests, response frames and the buffered response of the classic and worker modes:
  \<open>sapi/src/types.rs\<close> and the SAPI callbacks of \<open>sapi/src/callbacks.rs\<close>.

  The frame channel is a bounded tokio channel, so it is a parameter: the record \<open>tx_ops\<close> of the
  sender operations, each returning the channel state it leaves (the consumer may take frames or
  close the channel between any two operations), and the locale \<open>frame_channel\<close> with their
  documented behaviour. \<open>script_tx\<close> is an instance with a capacity and a closing time.
\<close>

section \<open>Requests\<close>

record sock_addr =
  sa_ip :: string
  sa_v6 :: bool
  sa_port :: nat

record spooled_file =
  spool_path :: bytes

text \<open>\<open>SpooledFile::unlink\<close>: takes the path; the second result is the path it removes, if any.\<close>

definition spool_unlink :: "spooled_file \<Rightarrow> spooled_file \<times> bytes list" where
  "spool_unlink f =
     (let path = spool_path f in (f\<lparr>spool_path := []\<rparr>, if path = [] then [] else [path]))"

record form_field =
  ff_name :: bytes
  ff_value :: bytes
  ff_headers :: "(string \<times> bytes) list"

record uploaded_file =
  uf_name :: bytes
  uf_client_filename :: bytes
  uf_client_media_type :: "bytes option"
  uf_headers :: "(string \<times> bytes) list"
  uf_file :: spooled_file
  uf_size :: nat

datatype body =
    RawBody bytes nat
  | MultipartBody "form_field list" "uploaded_file list"

record 'm request =
  rq_method :: bytes
  rq_uri :: bytes
  rq_target :: "bytes option"
  rq_authority :: "bytes option"
  rq_https :: bool
  rq_protocol :: string
  rq_remote :: sock_addr
  rq_server :: sock_addr
  rq_server_name :: string
  rq_server_port :: nat
  rq_headers :: 'm
  rq_content_type :: "bytes option"
  rq_content_length :: int
  rq_body :: body
  rq_received_at :: nat \<comment> \<open>Unix time; the code keeps it as a float\<close>

record 'm response_head =
  rh_status :: nat
  rh_headers :: 'm

section \<open>Frames and their channel\<close>

text \<open>A file frame names the open file by a handle of the file system.\<close>

type_synonym handle = nat

datatype 'm frame =
    Head "'m response_head" "nat option" bool
  | Chunk bytes
  | File handle nat nat
  | End bool

datatype send_outcome = Sent | SendClosed | SendFull

record ('tx, 'f) tx_ops =
  tx_is_closed :: "'tx \<Rightarrow> bool \<times> 'tx"
  tx_try_send :: "'tx \<Rightarrow> 'f \<Rightarrow> send_outcome \<times> 'tx"
  tx_blocking_send :: "'tx \<Rightarrow> 'f \<Rightarrow> bool \<times> 'tx"

text \<open>
  \<open>delivered\<close> is the list of frames the channel accepted so far, \<open>closed\<close> whether the receiver
  is gone. A closed channel accepts nothing and stays closed.
\<close>

locale frame_channel =
  fixes T :: "('tx, 'f) tx_ops"
    and delivered :: "'tx \<Rightarrow> 'f list"
    and closed :: "'tx \<Rightarrow> bool"
  assumes is_closed: "tx_is_closed T t = (b, t') \<Longrightarrow>
      delivered t' = delivered t \<and> (closed t \<longrightarrow> b \<and> closed t') \<and> (b \<longrightarrow> closed t')"
    and try_sent: "tx_try_send T t f = (Sent, t') \<Longrightarrow> \<not> closed t \<and> delivered t' = delivered t @ [f]"
    and try_closed: "tx_try_send T t f = (SendClosed, t') \<Longrightarrow> closed t' \<and> delivered t' = delivered t"
    and try_full: "tx_try_send T t f = (SendFull, t') \<Longrightarrow> \<not> closed t \<and> delivered t' = delivered t"
    and blocking_sent: "tx_blocking_send T t f = (True, t') \<Longrightarrow>
      \<not> closed t \<and> delivered t' = delivered t @ [f]"
    and blocking_closed: "tx_blocking_send T t f = (False, t') \<Longrightarrow>
      closed t' \<and> delivered t' = delivered t"

text \<open>
  The send of a PHP thread: it blocks only on a full channel. Used by \<open>send\<close> of \<open>types.rs\<close>, which
  ignores the result, and by \<open>send_frame\<close> of the exchanges.
\<close>

definition push_frame :: "('tx, 'f) tx_ops \<Rightarrow> 'tx \<Rightarrow> 'f \<Rightarrow> bool \<times> 'tx" where
  "push_frame T tx f =
     (case tx_try_send T tx f of
        (Sent, tx') \<Rightarrow> (True, tx')
      | (SendClosed, tx') \<Rightarrow> (False, tx')
      | (SendFull, tx') \<Rightarrow> tx_blocking_send T tx' f)"

definition push_ignored :: "('tx, 'f) tx_ops \<Rightarrow> 'tx \<Rightarrow> 'f \<Rightarrow> 'tx" where
  "push_ignored T tx f = snd (push_frame T tx f)"

context frame_channel
begin

lemma push_frame_True:
  "push_frame T t f = (True, t') \<Longrightarrow> \<not> closed t \<and> delivered t' = delivered t @ [f]"
  by (auto simp: push_frame_def split: prod.splits send_outcome.splits
      dest!: try_sent try_full blocking_sent)

lemma push_frame_False:
  "push_frame T t f = (False, t') \<Longrightarrow> closed t' \<and> delivered t' = delivered t"
  by (auto simp: push_frame_def split: prod.splits send_outcome.splits
      dest!: try_closed try_full blocking_closed)

lemma push_ignored_cases:
  "delivered (push_ignored T t f) = delivered t @ [f] \<and> \<not> closed t
   \<or> delivered (push_ignored T t f) = delivered t \<and> closed (push_ignored T t f)"
  unfolding push_ignored_def
  by (cases "push_frame T t f"; cases "fst (push_frame T t f)")
    (auto dest: push_frame_True push_frame_False)

lemma push_ignored_many:
  "\<exists>k \<le> length fs. delivered (foldl (push_ignored T) t fs) = delivered t @ take k fs
     \<and> (k < length fs \<longrightarrow> closed (foldl (push_ignored T) t fs))"
proof (induction fs rule: rev_induct)
  case (snoc f fs)
  then obtain k where k: "k \<le> length fs"
    "delivered (foldl (push_ignored T) t fs) = delivered t @ take k fs"
    "k < length fs \<longrightarrow> closed (foldl (push_ignored T) t fs)" by blast
  from push_ignored_cases [of "foldl (push_ignored T) t fs" f] show ?case
  proof
    assume a: "delivered (push_ignored T (foldl (push_ignored T) t fs) f)
        = delivered (foldl (push_ignored T) t fs) @ [f] \<and> \<not> closed (foldl (push_ignored T) t fs)"
    with k have "k = length fs" by auto
    with a k show ?thesis by (intro exI [of _ "Suc (length fs)"]) simp
  next
    assume "delivered (push_ignored T (foldl (push_ignored T) t fs) f)
        = delivered (foldl (push_ignored T) t fs) \<and> closed (push_ignored T (foldl (push_ignored T) t fs) f)"
    with k show ?thesis by (intro exI [of _ k]) simp
  qed
qed simp

end

subsection \<open>A bounded channel with a closing time\<close>

text \<open>
  \<open>sc_room\<close> is the free capacity, \<open>sc_life\<close> the number of sender operations after which the
  receiver goes away (\<open>None\<close>: never). A blocking send waits for the receiver to take one frame.
\<close>

record 'f script_chan =
  sc_sent :: "'f list"
  sc_room :: nat
  sc_life :: "nat option"

definition script_open :: "nat \<Rightarrow> nat option \<Rightarrow> 'f script_chan" where
  "script_open room life = \<lparr>sc_sent = [], sc_room = room, sc_life = life\<rparr>"

definition script_tick :: "'f script_chan \<Rightarrow> 'f script_chan" where
  "script_tick c = c\<lparr>sc_life := map_option (\<lambda>n. n - 1) (sc_life c)\<rparr>"

definition script_closed :: "'f script_chan \<Rightarrow> bool" where
  "script_closed c \<longleftrightarrow> sc_life c = Some 0"

definition script_tx :: "('f script_chan, 'f) tx_ops" where
  "script_tx =
     \<lparr>tx_is_closed = (\<lambda>c. (script_closed c, if script_closed c then c else script_tick c)),
      tx_try_send = (\<lambda>c f. if script_closed c then (SendClosed, c)
         else if sc_room c = 0 then (SendFull, c)
         else (Sent, script_tick (c\<lparr>sc_sent := sc_sent c @ [f], sc_room := sc_room c - 1\<rparr>))),
      tx_blocking_send = (\<lambda>c f. if script_closed c then (False, c)
         else (True, script_tick (c\<lparr>sc_sent := sc_sent c @ [f]\<rparr>)))\<rparr>"

interpretation sc: frame_channel script_tx sc_sent script_closed
  by unfold_locales (auto simp: script_tx_def script_tick_def script_closed_def split: if_splits)

section \<open>The CGI view\<close>

definition status_field_code :: "bytes \<Rightarrow> nat option" where
  "status_field_code value =
     (case find (\<lambda>token. token \<noteq> []) (split_by is_ascii_whitespace value) of
        None \<Rightarrow> None
      | Some digits \<Rightarrow>
          if utf8_valid digits
          then opt_filter (\<lambda>code. 100 \<le> code \<and> code \<le> 599) (parse_u16 digits)
          else None)"

record reqc =
  rc_method :: bytes
  rc_query :: bytes
  rc_uri :: bytes
  rc_script :: bytes
  rc_ctype :: "bytes option"
  rc_cookie :: "bytes option"
  rc_authorization :: "bytes option"
  rc_remote_addr :: string
  rc_remote_port :: string
  rc_server_port :: string

definition cgi_addr_strings :: "sock_addr \<Rightarrow> string \<times> string" where
  "cgi_addr_strings a = (sa_ip a, decimal (sa_port a))"

text \<open>\<open>CString::new\<close> fails on a NUL byte; the value degrades to the empty string.\<close>

definition cgi_cstring :: "bytes \<Rightarrow> bytes" where
  "cgi_cstring b = (if CHR 0x00 \<in> set b then [] else b)"

definition SINGLETON :: "bytes list" where
  "SINGLETON = [''authorization'', ''proxy-authorization'', ''content-type'', ''content-length'',
                ''referer'', ''from'']"

definition field_line_separator :: "bytes \<Rightarrow> bytes option" where
  "field_line_separator name =
     (if name \<in> set SINGLETON then None
      else if name = ''cookie'' then Some ''; '' else Some '', '')"

definition joined_field :: "'m header_ops \<Rightarrow> 'm \<Rightarrow> bytes \<Rightarrow> bytes option" where
  "joined_field H headers name =
     (case h_get_all H headers name of
        [] \<Rightarrow> None
      | first # rest \<Rightarrow> (case (field_line_separator name, rest) of
           (Some sep, second # values) \<Rightarrow>
             Some (first @ concat (map (\<lambda>value. sep @ value) (second # values)))
         | _ \<Rightarrow> Some first))"

definition reqc_build :: "'m header_ops \<Rightarrow> 'm request \<Rightarrow> bytes \<Rightarrow> reqc" where
  "reqc_build H r script =
     \<lparr>rc_method = cgi_cstring (rq_method r),
      rc_query = cgi_cstring (case split_once (CHR ''?'') (rq_uri r) of
                                Some (_, q) \<Rightarrow> q | None \<Rightarrow> []),
      rc_uri = cgi_cstring (rq_uri r),
      rc_script = cgi_cstring script,
      rc_ctype = map_option cgi_cstring (rq_content_type r),
      rc_cookie = map_option cgi_cstring (joined_field H (rq_headers r) ''cookie''),
      rc_authorization = map_option cgi_cstring (h_get H (rq_headers r) ''authorization''),
      rc_remote_addr = fst (cgi_addr_strings (rq_remote r)),
      rc_remote_port = snd (cgi_addr_strings (rq_remote r)),
      rc_server_port = decimal (rq_server_port r)\<rparr>"

subsection \<open>Meta-variables\<close>

text \<open>The name without the NUL terminator of the C string.\<close>

definition cgi_header_name :: "bytes \<Rightarrow> bytes" where
  "cgi_header_name field =
     takeWhile (\<lambda>b. b \<noteq> CHR 0x00)
       (''HTTP_'' @ map (\<lambda>b. if b = CHR ''-'' \<or> b = CHR ''.'' then CHR ''_'' else to_ascii_uppercase b) field)"

text \<open>The variables in the order \<open>put\<close> sees them; a later one overwrites an equal name.\<close>

definition cgi_header_vars :: "'m header_ops \<Rightarrow> 'm \<Rightarrow> int \<Rightarrow> (bytes \<times> bytes) list" where
  "cgi_header_vars H headers content_length =
     (if content_length \<ge> 0 then [(''CONTENT_LENGTH'', decimal (nat content_length))] else [])
     @ List.map_filter (\<lambda>field. map_option (\<lambda>v. (cgi_header_name field, v)) (joined_field H headers field))
         (h_keys H headers)"

record script_info =
  si_filename :: bytes
  si_script_name :: bytes
  si_document_root :: bytes

definition server_variables ::
  "'m header_ops \<Rightarrow> script_info \<Rightarrow> bytes option \<Rightarrow> 'm request \<Rightarrow> reqc \<Rightarrow> (bytes \<times> bytes) list" where
  "server_variables H script auth_user req c =
     (let doc_query = (case split_once (CHR ''?'') (rq_uri req) of
                         Some dq \<Rightarrow> dq | None \<Rightarrow> (rq_uri req, []));
          auth_type = (case Option.bind (h_get H (rq_headers req) ''authorization'')
                              (\<lambda>v. find (\<lambda>s. s \<noteq> []) (split_by is_ascii_whitespace v)) of
                         Some t \<Rightarrow> t | None \<Rightarrow> [])
      in [(''PHP_SELF'', si_script_name script),
          (''DOCUMENT_URI'', fst doc_query),
          (''DOCUMENT_ROOT'', si_document_root script),
          (''REQUEST_SCHEME'', if rq_https req then ''https'' else ''http''),
          (''REMOTE_HOST'', rc_remote_addr c),
          (''REMOTE_PORT'', rc_remote_port c),
          (''REMOTE_IDENT'', []),
          (''REQUEST_METHOD'', rq_method req),
          (''REQUEST_URI'', rq_uri req),
          (''QUERY_STRING'', snd doc_query),
          (''SCRIPT_FILENAME'', rc_script c),
          (''SCRIPT_NAME'', si_script_name script),
          (''SERVER_PROTOCOL'', rq_protocol req),
          (''SERVER_SOFTWARE'', ''Rapira''),
          (''SERVER_NAME'', rq_server_name req),
          (''SERVER_PORT'', rc_server_port c),
          (''REMOTE_ADDR'', rc_remote_addr c),
          (''GATEWAY_INTERFACE'', ''CGI/1.1''),
          (''HTTPS'', if rq_https req then ''on'' else []),
          (''AUTH_TYPE'', auth_type)]
         @ (case auth_user of Some u \<Rightarrow> [(''REMOTE_USER'', u)] | None \<Rightarrow> [])
         @ (case rq_content_type req of Some ct \<Rightarrow> [(''CONTENT_TYPE'', ct)] | None \<Rightarrow> [])
         @ cgi_header_vars H (rq_headers req) (rq_content_length req))"

definition boot_variables :: "(bytes \<times> bytes) list \<Rightarrow> script_info \<Rightarrow> (bytes \<times> bytes) list" where
  "boot_variables env script =
     env @ [(''PHP_SELF'', si_filename script), (''SCRIPT_NAME'', si_filename script),
            (''SCRIPT_FILENAME'', si_filename script), (''PATH_TRANSLATED'', si_filename script),
            (''DOCUMENT_ROOT'', [])]"

text \<open>\<open>php_register_known_variable\<close>: last write wins.\<close>

definition var_value :: "(bytes \<times> bytes) list \<Rightarrow> bytes \<Rightarrow> bytes option" where
  "var_value vars name = map_of (rev vars) name"

section \<open>The buffered response\<close>

datatype stream_state = NotSent | HeadSent | BodyStreamed

record ('m, 'tx) php_context =
  c_req :: "'m request"
  c_cgi :: reqc
  c_sender :: bool \<comment> \<open>the sender is held; \<open>c_chan\<close> is its channel\<close>
  c_chan :: 'tx
  c_head :: "'m response_head option"
  c_body :: bytes
  c_stream :: stream_state
  c_tearing_down :: bool
  c_errored :: bool

definition context_new :: "'m request \<Rightarrow> 'tx \<Rightarrow> reqc \<Rightarrow> ('m, 'tx) php_context" where
  "context_new req tx c =
     \<lparr>c_req = req, c_cgi = c, c_sender = True, c_chan = tx, c_head = None, c_body = [],
      c_stream = NotSent, c_tearing_down = False, c_errored = False\<rparr>"

fun status_from :: "nat \<Rightarrow> bytes list \<Rightarrow> nat" where
  "status_from status [] = status"
| "status_from status (value # rest) =
     (case status_field_code value of
        Some code \<Rightarrow> status_from code rest
      | None \<Rightarrow> status_from status rest)"

definition commit_head :: "'m header_ops \<Rightarrow> nat \<Rightarrow> 'm \<Rightarrow> ('m, 'tx) php_context \<Rightarrow> ('m, 'tx) php_context" where
  "commit_head H status headers c =
     c\<lparr>c_head := Some \<lparr>rh_status = status_from status (h_get_all H headers ''status''),
                       rh_headers = h_remove H headers ''status''\<rparr>,
       c_stream := HeadSent\<rparr>"

definition no_content :: "nat \<Rightarrow> bool" where
  "no_content status \<longleftrightarrow> status = 204 \<or> status = 304 \<or> (100 \<le> status \<and> status < 200)"

definition head_frame :: "'m header_ops \<Rightarrow> 'm request \<Rightarrow> bytes \<Rightarrow> bool \<Rightarrow> 'm response_head \<Rightarrow> 'm frame" where
  "head_frame H req body truncated head =
     (let nc = no_content (rh_status head);
          bodiless = (nc \<or> rq_method req = ''HEAD'');
          content_length = (if nc then None
             else if bodiless then Option.bind (h_get H (rh_headers head) ''content-length'')
                                     (\<lambda>value. Option.bind (h_to_str H value) parse_u64)
             else if truncated then None else Some (length body))
      in Head head content_length bodiless)"

definition ctx_finish ::
  "'m header_ops \<Rightarrow> ('tx, 'm frame) tx_ops \<Rightarrow> bool \<Rightarrow> ('m, 'tx) php_context \<Rightarrow> ('m, 'tx) php_context" where
  "ctx_finish H T truncated c =
     (if \<not> c_sender c then c
      else let tx0 = c_chan c;
               tx1 = (case c_head c of
                   Some head \<Rightarrow>
                     (let tx = push_ignored T tx0 (head_frame H (c_req c) (c_body c) truncated head)
                      in if c_body c \<noteq> [] then push_ignored T tx (Chunk (c_body c)) else tx)
                 | None \<Rightarrow> tx0)
           in c\<lparr>c_sender := False, c_body := [], c_head := None,
                c_chan := push_ignored T tx1 (End truncated)\<rparr>)"

section \<open>SAPI callbacks\<close>

definition MAX_BUFFERED_BODY :: nat where "MAX_BUFFERED_BODY = 2 ^ 30"

text \<open>The header state of the engine: the response code and the raw header lines.\<close>

record sapi_headers =
  sh_code :: int
  sh_lines :: "bytes list"

definition head_status :: "sapi_headers \<Rightarrow> nat" where
  "head_status h = (if sh_code h \<noteq> 0 then nat (max 100 (min 599 (sh_code h))) else 200)"

definition split_header_line :: "'m header_ops \<Rightarrow> bytes \<Rightarrow> (bytes \<times> bytes) option" where
  "split_header_line H line =
     Option.bind (position (\<lambda>b. b = CHR '':'') line) (\<lambda>i.
       Option.bind (h_name H (trim_ascii (take i line))) (\<lambda>name.
         map_option (\<lambda>value. (name, value)) (h_value H (trim_ascii (drop (i + 1) line)))))"

definition header_field :: "'m header_ops \<Rightarrow> bytes \<Rightarrow> (bytes \<times> bytes) option" where
  "header_field H line = (if line = [] then None else split_header_line H line)"

text \<open>The callbacks act on the context bound to the request, if there is one.\<close>

definition send_headers ::
  "'m header_ops \<Rightarrow> sapi_headers \<Rightarrow> ('m, 'tx) php_context option \<Rightarrow> ('m, 'tx) php_context option" where
  "send_headers H h ctx = (case ctx of
       None \<Rightarrow> None
     | Some c \<Rightarrow>
         if c_stream c \<noteq> NotSent then Some c
         else (let headers = foldl (\<lambda>m (k, v). h_append H m k v) (h_empty H)
                               (List.map_filter (header_field H) (sh_lines h))
               in Some (commit_head H (head_status h) headers c)))"

text \<open>\<open>rapira_rs_ub_write\<close>: the bytes accepted and whether the request is aborted.\<close>

definition ub_write ::
  "'m header_ops \<Rightarrow> ('tx, 'm frame) tx_ops \<Rightarrow> sapi_headers \<Rightarrow> bytes \<Rightarrow> ('m, 'tx) php_context option
   \<Rightarrow> ('m, 'tx) php_context option \<times> nat \<times> bool" where
  "ub_write H T h buf ctx = (case ctx of
       None \<Rightarrow> (None, length buf, False)
     | Some c0 \<Rightarrow>
         let c = (if c_stream c0 = NotSent then commit_head H (head_status h) (h_empty H) c0 else c0) in
         if \<not> c_sender c then (Some c, length buf, False)
         else (case tx_is_closed T (c_chan c) of (is_closed, tx) \<Rightarrow>
           let c1 = c\<lparr>c_chan := tx\<rparr> in
           if is_closed then (Some (ctx_finish H T False c1), 0, True)
           else if length (c_body c1) + length buf > MAX_BUFFERED_BODY
           then (Some (ctx_finish H T True c1), 0, True)
           else (Some (c1\<lparr>c_body := c_body c1 @ buf,
                         c_stream := (if c_tearing_down c1 then c_stream c1 else BodyStreamed)\<rparr>),
                 length buf, False)))"

definition read_post :: "nat \<Rightarrow> ('m, 'tx) php_context \<Rightarrow> ('m, 'tx) php_context \<times> bytes" where
  "read_post cnt c = (case rq_body (c_req c) of
       RawBody bs pos \<Rightarrow>
         (let out = take cnt (drop pos bs) in
          (c\<lparr>c_req := (c_req c)\<lparr>rq_body := RawBody bs (pos + length out)\<rparr>\<rparr>, out))
     | MultipartBody _ _ \<Rightarrow> (c, []))"

definition raw_body :: "('m, 'tx) php_context option \<Rightarrow> bytes" where
  "raw_body ctx = (case ctx of
       Some c \<Rightarrow> (case rq_body (c_req c) of RawBody bs _ \<Rightarrow> bs | MultipartBody _ _ \<Rightarrow> [])
     | None \<Rightarrow> [])"

definition send_error_head :: "'m header_ops \<Rightarrow> nat \<Rightarrow> ('m, 'tx) php_context \<Rightarrow> ('m, 'tx) php_context" where
  "send_error_head H status c =
     (if c_stream c \<noteq> NotSent then c else commit_head H status (h_empty H) c)"

definition finalize_response ::
  "'m header_ops \<Rightarrow> bool \<Rightarrow> ('m, 'tx) php_context \<Rightarrow> ('m, 'tx) php_context \<times> bool" where
  "finalize_response H errored c =
     (let truncated = (errored \<and> c_stream c = BodyStreamed)
      in (if errored then send_error_head H 500 c else c, truncated))"

text \<open>\<open>rapira_rs_finish_response\<close>: \<open>fatal\<close> says that the engine recorded a fatal error.\<close>

definition finish_response ::
  "'m header_ops \<Rightarrow> ('tx, 'm frame) tx_ops \<Rightarrow> bool \<Rightarrow> ('m, 'tx) php_context option
   \<Rightarrow> ('m, 'tx) php_context option" where
  "finish_response H T fatal ctx = map_option (\<lambda>c.
     (let errored = (c_errored c \<or> fatal);
          (c1, truncated) = finalize_response H errored (c\<lparr>c_errored := errored\<rparr>)
      in ctx_finish H T truncated c1)) ctx"

section \<open>Well-formed frame streams\<close>

text \<open>
  The stream grammar of \<open>Frame\<close> as an automaton: a head, then non-empty body frames, then one end
  frame. A stream may stop at any point (the producer stopped).
\<close>

datatype phase = PStart | PBody | PEnd

fun frame_step :: "phase \<Rightarrow> 'm frame \<Rightarrow> phase option" where
  "frame_step PStart (Head _ _ _) = Some PBody"
| "frame_step PStart (End _) = Some PEnd"
| "frame_step PBody (Chunk b) = (if b \<noteq> [] then Some PBody else None)"
| "frame_step PBody (File _ _ len) = (if 0 < len then Some PBody else None)"
| "frame_step PBody (End _) = Some PEnd"
| "frame_step _ _ = None"

definition stream_phase :: "'m frame list \<Rightarrow> phase option" where
  "stream_phase fs = foldl (\<lambda>p f. Option.bind p (\<lambda>q. frame_step q f)) (Some PStart) fs"

fun frame_len :: "'m frame \<Rightarrow> nat" where
  "frame_len (Chunk b) = length b"
| "frame_len (File _ _ len) = len"
| "frame_len _ = 0"

definition body_len :: "'m frame list \<Rightarrow> nat" where
  "body_len fs = sum_list (map frame_len fs)"

lemma stream_phase_Nil [simp]: "stream_phase [] = Some PStart"
  by (simp add: stream_phase_def)

lemma stream_phase_snoc [simp]:
  "stream_phase (fs @ [f]) = Option.bind (stream_phase fs) (\<lambda>q. frame_step q f)"
  by (simp add: stream_phase_def)

lemma body_len_simps [simp]:
  "body_len [] = 0" "body_len (f # fs) = frame_len f + body_len fs"
  "body_len (fs @ gs) = body_len fs + body_len gs"
  by (simp_all add: body_len_def)

section \<open>The life of a buffered response\<close>

datatype sapi_call =
    SendHeaders sapi_headers
  | UbWrite sapi_headers bytes
  | ReadPost nat
  | ErrorHead nat
  | FinishResponse bool
  | TearingDown

fun sapi_step ::
  "'m header_ops \<Rightarrow> ('tx, 'm frame) tx_ops \<Rightarrow> sapi_call \<Rightarrow> ('m, 'tx) php_context \<Rightarrow> ('m, 'tx) php_context" where
  "sapi_step H T (SendHeaders h) c = the (send_headers H h (Some c))"
| "sapi_step H T (UbWrite h buf) c = the (fst (ub_write H T h buf (Some c)))"
| "sapi_step H T (ReadPost n) c = fst (read_post n c)"
| "sapi_step H T (ErrorHead status) c =
     (if 100 \<le> status \<and> status \<le> 599 then send_error_head H status c else c)"
| "sapi_step H T (FinishResponse fatal) c = the (finish_response H T fatal (Some c))"
| "sapi_step H T TearingDown c = c\<lparr>c_tearing_down := True\<rparr>"

definition sapi_run ::
  "'m header_ops \<Rightarrow> ('tx, 'm frame) tx_ops \<Rightarrow> sapi_call list \<Rightarrow> ('m, 'tx) php_context \<Rightarrow> ('m, 'tx) php_context" where
  "sapi_run H T calls c = foldl (\<lambda>c call. sapi_step H T call c) c calls"

text \<open>What a buffered response may put on its channel.\<close>

definition buffered_ok :: "'m frame list \<Rightarrow> bool" where
  "buffered_ok fs \<longleftrightarrow>
     stream_phase fs \<noteq> None \<and> body_len fs \<le> MAX_BUFFERED_BODY
     \<and> (\<forall>h cl bodiless. Head h cl bodiless \<in> set fs \<longrightarrow>
          100 \<le> rh_status h \<and> rh_status h \<le> 599
          \<and> (End False \<in> set fs \<and> \<not> bodiless \<longrightarrow> cl = Some (body_len fs))
          \<and> (End True \<in> set fs \<and> \<not> bodiless \<longrightarrow> cl = None))"

definition ctx_inv :: "('tx \<Rightarrow> 'm frame list) \<Rightarrow> ('m, 'tx) php_context \<Rightarrow> bool" where
  "ctx_inv delivered c \<longleftrightarrow>
     length (c_body c) \<le> MAX_BUFFERED_BODY
     \<and> (\<forall>h. c_head c = Some h \<longrightarrow> 100 \<le> rh_status h \<and> rh_status h \<le> 599)
     \<and> (if c_sender c
        then delivered (c_chan c) = [] \<and> (c_stream c = NotSent \<longleftrightarrow> c_head c = None)
             \<and> (c_head c = None \<longrightarrow> c_body c = [])
        else buffered_ok (delivered (c_chan c)))"

lemma ctx_inv_frame [simp]:
  "ctx_inv d (c\<lparr>c_errored := e\<rparr>) = ctx_inv d c"
  "ctx_inv d (c\<lparr>c_tearing_down := e\<rparr>) = ctx_inv d c"
  by (simp_all add: ctx_inv_def)

lemma status_field_code_range: "status_field_code v = Some n \<Longrightarrow> 100 \<le> n \<and> n \<le> 599"
  by (auto simp: status_field_code_def opt_filter_Some split: option.splits if_splits)

lemma status_from_range: "100 \<le> n \<and> n \<le> 599 \<Longrightarrow> 100 \<le> status_from n vs \<and> status_from n vs \<le> 599"
  by (induction vs arbitrary: n) (auto split: option.splits dest: status_field_code_range)

lemma head_status_range: "100 \<le> head_status h \<and> head_status h \<le> 599"
  by (auto simp: head_status_def)

lemma buffered_ok_finish:
  assumes "length body \<le> MAX_BUFFERED_BODY"
    and "\<And>h. head = Some h \<Longrightarrow> 100 \<le> rh_status h \<and> rh_status h \<le> 599"
  shows "buffered_ok (take k ((case head of
       Some h \<Rightarrow> head_frame H req body truncated h # (if body \<noteq> [] then [Chunk body] else [])
     | None \<Rightarrow> []) @ [End truncated]))"
  using assms
  by (cases k; cases "k - 1"; cases "k - 2"; cases head)
    (auto simp: buffered_ok_def stream_phase_def head_frame_def Let_def)

text \<open>The channel of a response carries frames.\<close>

locale response_channel = frame_channel T delivered closed
  for T :: "('tx, 'm frame) tx_ops" and delivered closed
begin

lemma ctx_finish_frames:
  assumes "c_sender c"
  shows "\<exists>k fs. fs = (case c_head c of
       Some h \<Rightarrow> head_frame H (c_req c) (c_body c) truncated h
                 # (if c_body c \<noteq> [] then [Chunk (c_body c)] else [])
     | None \<Rightarrow> []) @ [End truncated]
     \<and> k \<le> length fs
     \<and> delivered (c_chan (ctx_finish H T truncated c)) = delivered (c_chan c) @ take k fs
     \<and> (k < length fs \<longrightarrow> closed (c_chan (ctx_finish H T truncated c)))"
proof -
  define fs where "fs = (case c_head c of
       Some h \<Rightarrow> head_frame H (c_req c) (c_body c) truncated h
                 # (if c_body c \<noteq> [] then [Chunk (c_body c)] else [])
     | None \<Rightarrow> []) @ [End truncated]"
  have "c_chan (ctx_finish H T truncated c) = foldl (push_ignored T) (c_chan c) fs"
    using assms by (auto simp: ctx_finish_def fs_def Let_def split: option.splits)
  with push_ignored_many [of fs "c_chan c"] show ?thesis unfolding fs_def [symmetric] by metis
qed

lemma ctx_finish_inv:
  assumes "ctx_inv delivered c"
  shows "ctx_inv delivered (ctx_finish H T truncated c)"
proof (cases "c_sender c")
  case False
  then show ?thesis using assms by (simp add: ctx_finish_def)
next
  case True
  from ctx_finish_frames [OF True, of H truncated] obtain k where
    d: "delivered (c_chan (ctx_finish H T truncated c)) = take k ((case c_head c of
       Some h \<Rightarrow> head_frame H (c_req c) (c_body c) truncated h
                 # (if c_body c \<noteq> [] then [Chunk (c_body c)] else [])
     | None \<Rightarrow> []) @ [End truncated])"
    using assms True by (auto simp: ctx_inv_def)
  have ok: "buffered_ok (delivered (c_chan (ctx_finish H T truncated c)))"
    unfolding d using assms by (intro buffered_ok_finish) (auto simp: ctx_inv_def)
  have "\<not> c_sender (ctx_finish H T truncated c)" "c_body (ctx_finish H T truncated c) = []"
    "c_head (ctx_finish H T truncated c) = None"
    using True by (simp_all add: ctx_finish_def Let_def)
  with ok show ?thesis by (simp add: ctx_inv_def)
qed

lemma commit_head_inv:
  assumes "ctx_inv delivered c" "100 \<le> status \<and> status \<le> 599"
  shows "ctx_inv delivered (commit_head H status m c)"
  using assms status_from_range [OF assms(2), of "h_get_all H m ''status''"]
  by (simp add: ctx_inv_def commit_head_def)

lemma ub_write_inv:
  assumes "ctx_inv delivered c"
  shows "ctx_inv delivered (the (fst (ub_write H T h buf (Some c))))"
proof -
  define c1 where
    "c1 = (if c_stream c = NotSent then commit_head H (head_status h) (h_empty H) c else c)"
  have inv: "ctx_inv delivered c1"
    using assms by (simp add: c1_def commit_head_inv head_status_range)
  obtain b tx where ic: "tx_is_closed T (c_chan c1) = (b, tx)" by fastforce
  have d: "delivered tx = delivered (c_chan c1)" using is_closed [OF ic] by simp
  have inv2: "ctx_inv delivered (c1\<lparr>c_chan := tx\<rparr>)"
    using inv by (simp add: ctx_inv_def d)
  have stream: "c_sender c1 \<Longrightarrow> c_head c1 \<noteq> None"
    using assms by (auto simp: c1_def ctx_inv_def commit_head_def)
  show ?thesis
  proof (cases "c_sender c1")
    case False
    then show ?thesis using inv by (simp add: ub_write_def Let_def c1_def [symmetric])
  next
    case True
    show ?thesis
    proof (cases "b \<or> length (c_body c1) + length buf > MAX_BUFFERED_BODY")
      case True
      with \<open>c_sender c1\<close> show ?thesis
        by (auto simp: ub_write_def Let_def c1_def [symmetric] ic intro: ctx_finish_inv [OF inv2])
    next
      case False
      with \<open>c_sender c1\<close> show ?thesis
        using inv2 stream by (auto simp: ub_write_def Let_def c1_def [symmetric] ic ctx_inv_def)
    qed
  qed
qed

lemma sapi_step_inv:
  assumes "ctx_inv delivered c"
  shows "ctx_inv delivered (sapi_step H T call c)"
proof (cases call)
  case (SendHeaders h)
  then show ?thesis using assms
    by (simp add: send_headers_def Let_def commit_head_inv head_status_range)
next
  case (UbWrite h buf)
  then show ?thesis using assms by (simp add: ub_write_inv)
next
  case (ReadPost n)
  then show ?thesis using assms
    by (auto simp: read_post_def Let_def ctx_inv_def split: body.splits)
next
  case (ErrorHead status)
  then show ?thesis using assms by (simp add: send_error_head_def commit_head_inv)
next
  case (FinishResponse fatal)
  let ?e = "c_errored c \<or> fatal"
  have "ctx_inv delivered (fst (finalize_response H ?e (c\<lparr>c_errored := ?e\<rparr>)))"
    using assms by (simp add: finalize_response_def Let_def send_error_head_def commit_head_inv)
  then show ?thesis
    by (simp add: FinishResponse finish_response_def Let_def case_prod_beta' ctx_finish_inv)
next
  case TearingDown
  then show ?thesis using assms by (simp add: ctx_inv_def)
qed

lemma sapi_run_inv: "ctx_inv delivered c \<Longrightarrow> ctx_inv delivered (sapi_run H T calls c)"
  unfolding sapi_run_def
proof (induction calls arbitrary: c)
  case (Cons call calls)
  from Cons.IH [OF sapi_step_inv [OF Cons.prems, of H call]] show ?case by simp
qed simp

end

interpretation rsc: response_channel script_tx sc_sent script_closed
  by unfold_locales

lemma context_new_inv: "delivered tx = [] \<Longrightarrow> ctx_inv delivered (context_new req tx c)"
  by (simp add: ctx_inv_def context_new_def)

section \<open>No two fields share a meta-variable\<close>

definition cgi_char :: "byte \<Rightarrow> byte" where
  "cgi_char b = (if b = CHR ''-'' \<or> b = CHR ''.'' then CHR ''_'' else to_ascii_uppercase b)"

lemma safe_lower_char:
  assumes "is_ascii_alphanumeric b \<or> b = CHR ''-''" "to_ascii_lowercase b = b"
  shows "b = CHR ''-'' \<or> is_ascii_digit b \<or> is_ascii_lowercase b"
proof -
  have "\<not> is_ascii_uppercase b"
  proof
    assume u: "is_ascii_uppercase b"
    then have "code_of (to_ascii_lowercase b) = code_of b + 32"
      by (simp add: to_ascii_lowercase_def is_ascii_uppercase_def of_char_of)
    with assms(2) show False by simp
  qed
  with assms(1) show ?thesis by (auto simp: is_ascii_alphanumeric_def)
qed

lemma cgi_char_code:
  assumes "b = CHR ''-'' \<or> is_ascii_digit b \<or> is_ascii_lowercase b"
  shows "code_of (cgi_char b) = (if b = CHR ''-'' then 95
     else if is_ascii_lowercase b then code_of b - 32 else code_of b)"
  using assms by (auto simp: cgi_char_def to_ascii_uppercase_def ascii_simps of_char_of)

lemma cgi_char_inj:
  assumes "a = CHR ''-'' \<or> is_ascii_digit a \<or> is_ascii_lowercase a"
    and "b = CHR ''-'' \<or> is_ascii_digit b \<or> is_ascii_lowercase b"
    and "cgi_char a = cgi_char b"
  shows "a = b"
proof -
  have "code_of (cgi_char a) = code_of (cgi_char b)" using assms(3) by simp
  then have "code_of a = code_of b"
    using assms(1,2) unfolding cgi_char_code [OF assms(1)] cgi_char_code [OF assms(2)]
    by (auto simp: ascii_simps simp del: of_char_eq_iff split: if_splits)
  then show ?thesis by simp
qed

definition cgi_safe :: "bytes \<Rightarrow> bool" where
  "cgi_safe k \<longleftrightarrow> is_safe_field_name k \<and> lower k = k"

lemma cgi_safe_char:
  assumes "cgi_safe k" "b \<in> set k"
  shows "b = CHR ''-'' \<or> is_ascii_digit b \<or> is_ascii_lowercase b"
proof (rule safe_lower_char)
  show "is_ascii_alphanumeric b \<or> b = CHR ''-''"
    using assms by (auto simp: cgi_safe_def is_safe_field_name_def)
  show "to_ascii_lowercase b = b"
    using assms map_eq_conv [of to_ascii_lowercase k id] by (auto simp: cgi_safe_def)
qed

lemma cgi_char_nonzero: "b = CHR ''-'' \<or> is_ascii_digit b \<or> is_ascii_lowercase b \<Longrightarrow> cgi_char b \<noteq> CHR 0x00"
proof
  assume a: "b = CHR ''-'' \<or> is_ascii_digit b \<or> is_ascii_lowercase b" and "cgi_char b = CHR 0x00"
  then have "code_of (cgi_char b) = 0" by simp
  with a show False unfolding cgi_char_code [OF a] by (auto simp: ascii_simps split: if_splits)
qed

lemma cgi_header_name_safe:
  assumes "cgi_safe k"
  shows "cgi_header_name k = ''HTTP_'' @ map cgi_char k"
proof -
  have "\<forall>b\<in>set (map cgi_char k). b \<noteq> CHR 0x00"
    using cgi_char_nonzero cgi_safe_char [OF assms] by auto
  then have "takeWhile (\<lambda>b. b \<noteq> CHR 0x00) (map cgi_char k) = map cgi_char k"
    by (simp add: takeWhile_eq_all_conv)
  then show ?thesis by (simp add: cgi_header_name_def cgi_char_def [abs_def])
qed

lemma cgi_header_name_inj:
  assumes "cgi_safe a" "cgi_safe b" "cgi_header_name a = cgi_header_name b"
  shows "a = b"
proof -
  have "map cgi_char a = map cgi_char b"
    using assms(3) by (simp add: cgi_header_name_safe assms(1,2))
  then show ?thesis
  proof (rule list.inj_map_strong [rotated])
    fix x y assume "x \<in> set a" "y \<in> set b" "cgi_char x = cgi_char y"
    then show "x = y" using cgi_char_inj cgi_safe_char assms(1,2) by metis
  qed
qed

lemma joined_field_None_iff: "joined_field H m k = None \<longleftrightarrow> h_get_all H m k = []"
  by (auto simp: joined_field_def split: list.splits option.splits)

lemma var_value_unique:
  assumes "(n, v) \<in> set vars" "\<And>w. (n, w) \<in> set vars \<Longrightarrow> w = v"
  shows "var_value vars n = Some v"
proof -
  have "n \<in> fst ` set (rev vars)" using assms(1) by force
  then have "map_of (rev vars) n \<noteq> None" by (simp add: map_of_eq_None_iff)
  then obtain w where "map_of (rev vars) n = Some w" by blast
  moreover from map_of_SomeD [OF this] have "w = v" using assms(2) by simp
  ultimately show ?thesis by (simp add: var_value_def)
qed

section \<open>Properties\<close>

text \<open>
  In the superglobal modes every field of an admitted request gets its own \<open>HTTP_*\<close> variable:
  its value is the joined value of exactly that field, and no other field of the request can
  overwrite it, however the client spells the names.
\<close>

theorem http_variables_do_not_alias:
  assumes "header_map H"
    and "check_request H parts True mx = (parts', Ok a)"
    and "\<And>k. k \<in> set (h_keys H (p_headers parts')) \<Longrightarrow> lower k = k"
    and "k \<in> set (h_keys H (p_headers parts'))"
  shows "var_value (cgi_header_vars H (p_headers parts') content_length) (cgi_header_name k)
     = joined_field H (p_headers parts') k \<and> joined_field H (p_headers parts') k \<noteq> None"
proof -
  let ?m = "p_headers parts'"
  have m: "?m = drop_unsafe_field_names H (p_headers parts)"
    using header_map.check_request_Ok(2) [OF assms(1,2)] by simp
  have safe: "cgi_safe n" if "n \<in> set (h_keys H ?m)" for n
    using that assms(3) [OF that] header_map.get_all_drop_unsafe [OF assms(1), of "p_headers parts" n]
      header_map.in_keys_iff [OF assms(1)]
    by (auto simp: cgi_safe_def m split: if_splits)
  have vals: "h_get_all H ?m k \<noteq> []" using assms(4) header_map.in_keys_iff [OF assms(1)] by blast
  then obtain v where v: "joined_field H ?m k = Some v"
    using joined_field_None_iff [of H ?m k] by blast
  have "var_value (cgi_header_vars H ?m content_length) (cgi_header_name k) = Some v"
  proof (rule var_value_unique)
    show "(cgi_header_name k, v) \<in> set (cgi_header_vars H ?m content_length)"
      using assms(4) v by (force simp: cgi_header_vars_def List.map_filter_def)
    fix w assume "(cgi_header_name k, w) \<in> set (cgi_header_vars H ?m content_length)"
    moreover have "cgi_header_name k \<noteq> ''CONTENT_LENGTH''"
      by (simp add: cgi_header_name_safe [OF safe [OF assms(4)]])
    ultimately obtain n where n: "n \<in> set (h_keys H ?m)" "joined_field H ?m n = Some w"
      "cgi_header_name n = cgi_header_name k"
      by (auto simp: cgi_header_vars_def List.map_filter_def split: if_splits)
    from cgi_header_name_inj [OF safe [OF n(1)] safe [OF assms(4)] n(3)] n(2) v show "w = v" by simp
  qed
  with v show ?thesis by simp
qed

lemma http_variables_do_not_alias_witness:
  "var_value (cgi_header_vars list_headers (p_headers (fst (check_request list_headers sample_parts True 10))) 7)
     ''HTTP_X_Y'' = Some ''2''"
proof -
  define p where "p = fst (check_request list_headers sample_parts True 10)"
  have e: "check_request list_headers sample_parts True 10 = (p, Ok (Some ''a.test''))"
    unfolding p_def by code_simp
  have keys: "h_keys list_headers (p_headers p) = [''host'', ''x-y'', ''content-length'']"
    unfolding p_def by code_simp
  have low: "lower k = k" if "k \<in> set (h_keys list_headers (p_headers p))" for k
    using that unfolding keys by (auto simp: to_ascii_lowercase_def is_ascii_uppercase_def)
  have "joined_field list_headers (p_headers p) ''x-y'' = Some ''2''"
    "cgi_header_name ''x-y'' = ''HTTP_X_Y''"
    unfolding p_def by code_simp+
  then show ?thesis
    using http_variables_do_not_alias [OF lh.header_map_axioms e low, of "''x-y''" 7] keys
    by (simp add: p_def)
qed

text \<open>
  C10: whatever callbacks the engine makes on a request and wherever the client leaves, the frames
  of a buffered response form a head, one body chunk and one end; the status is between 100 and
  599, a complete body has exactly its length as content-length, a truncated one has none, and
  the buffer never exceeds its cap.
\<close>

theorem buffered_response_stream:
  assumes "response_channel T delivered closed" and "delivered tx = []"
  shows "let c = sapi_run H T calls (context_new req tx cgi) in
     length (c_body c) \<le> MAX_BUFFERED_BODY
     \<and> (c_sender c \<longrightarrow> delivered (c_chan c) = []) \<and> buffered_ok (delivered (c_chan c))"
proof -
  have "ctx_inv delivered (sapi_run H T calls (context_new req tx cgi))"
    by (rule response_channel.sapi_run_inv [OF assms(1)], rule context_new_inv, rule assms(2))
  then show ?thesis
    by (auto simp: Let_def ctx_inv_def buffered_ok_def split: if_splits)
qed

definition sample_request :: "(bytes \<times> bytes) list request" where
  "sample_request =
     \<lparr>rq_method = ''GET'', rq_uri = ''/a?b=1'', rq_target = None, rq_authority = Some ''a.test'',
      rq_https = False, rq_protocol = ''HTTP/1.1'',
      rq_remote = \<lparr>sa_ip = ''127.0.0.1'', sa_v6 = False, sa_port = 9\<rparr>,
      rq_server = \<lparr>sa_ip = ''127.0.0.1'', sa_v6 = False, sa_port = 80\<rparr>,
      rq_server_name = ''a.test'', rq_server_port = 80, rq_headers = [], rq_content_type = None,
      rq_content_length = -1, rq_body = RawBody [] 0, rq_received_at = 0\<rparr>"

definition sample_headers :: sapi_headers where
  "sample_headers = \<lparr>sh_code = 0, sh_lines = [''X-A: 1'', ''Status: 201 Created'']\<rparr>"

lemma buffered_response_stream_witness:
  "buffered_ok (sc_sent (c_chan (sapi_run list_headers script_tx
      [SendHeaders sample_headers, UbWrite sample_headers ''hi'', FinishResponse False]
      (context_new sample_request (script_open 1 None) (reqc_build list_headers sample_request [])))))
   \<and> sc_sent (c_chan (sapi_run list_headers script_tx
      [SendHeaders sample_headers, UbWrite sample_headers ''hi'', FinishResponse False]
      (context_new sample_request (script_open 1 None) (reqc_build list_headers sample_request []))))
     = [Head \<lparr>rh_status = 201, rh_headers = [(''x-a'', ''1'')]\<rparr> (Some 2) False, Chunk ''hi'', End False]"
  (is "buffered_ok (sc_sent (c_chan ?c)) \<and> ?frames")
proof -
  have "buffered_ok (sc_sent (c_chan ?c))"
    using buffered_response_stream [OF rsc.response_channel_axioms, of "script_open 1 None" list_headers
        "[SendHeaders sample_headers, UbWrite sample_headers ''hi'', FinishResponse False]"
        sample_request "reqc_build list_headers sample_request []"]
    by (simp add: Let_def script_open_def)
  moreover have ?frames by code_simp
  ultimately show ?thesis by blast
qed

end
