(* ===== verification/Exchange.thy ===== *)
theory Exchange
  imports Scoreboard Frames
begin

text \<open>
  The exchange of dispatcher mode, the object a PHP dispatcher answers one request through:
  \<open>http/src/php/mod.rs\<close>, \<open>php/respond.rs\<close> and \<open>php/sendfile.rs\<close>. The state record carries, next to
  the fields of \<open>ExchangeState\<close>, what its operations do to the outside: the state of the frame
  channel, the scoreboard events and the spool files removed, in order.
\<close>

section \<open>State\<close>

datatype stage = Open | HeadCommitted | Finalized

record header_values =
  hv_name :: string
  hv_values :: "bytes list"

record field_part =
  fp_field :: form_field
  fp_headers :: "header_values list"

record file_part =
  xp_upload :: uploaded_file
  xp_path :: bytes
  xp_headers :: "header_values list"

datatype body_state = BsRaw bytes | BsMultipart "field_part list" "file_part list"

fun add_header :: "string \<Rightarrow> bytes \<Rightarrow> header_values list \<Rightarrow> header_values list" where
  "add_header name v [] = [\<lparr>hv_name = name, hv_values = [v]\<rparr>]"
| "add_header name v (h # hs) =
     (if hv_name h = name then h\<lparr>hv_values := hv_values h @ [v]\<rparr> # hs
      else h # add_header name v hs)"

definition group_headers :: "(string \<times> bytes) list \<Rightarrow> header_values list" where
  "group_headers hs = foldl (\<lambda>out (name, v). add_header name v out) [] hs"

definition protocol_php :: "string \<Rightarrow> string" where
  "protocol_php p = (if p = ''HTTP/2.0'' then ''HTTP/2'' else if p = ''HTTP/3.0'' then ''HTTP/3'' else p)"

fun unlink_files :: "file_part list \<Rightarrow> file_part list \<times> bytes list" where
  "unlink_files [] = ([], [])"
| "unlink_files (p # ps) =
     (let (f, rm) = spool_unlink (uf_file (xp_upload p)); (ps', rms) = unlink_files ps
      in (p\<lparr>xp_upload := (xp_upload p)\<lparr>uf_file := f\<rparr>\<rparr> # ps', rm @ rms))"

fun unlink_spools :: "body_state \<Rightarrow> body_state \<times> bytes list" where
  "unlink_spools (BsRaw b) = (BsRaw b, [])"
| "unlink_spools (BsMultipart flds files) =
     (let (files', rms) = unlink_files files in (BsMultipart flds files', rms))"

record ('m, 'tx) exchange_state =
  x_body :: body_state
  x_req :: "'m request"
  x_sender :: bool \<comment> \<open>the sender is held; \<open>x_chan\<close> is its channel\<close>
  x_chan :: 'tx
  x_stage :: stage
  x_head_sent :: bool
  x_pending :: "'m response_head option"
  x_declared_cl :: "nat option"
  x_sent_body :: nat
  x_discarded :: bool
  x_bodiless :: bool
  x_events :: "event list"
  x_removed :: "bytes list"

definition body_state_of :: "body \<Rightarrow> body_state" where
  "body_state_of b = (case b of
       RawBody bs _ \<Rightarrow> BsRaw bs
     | MultipartBody flds files \<Rightarrow>
         BsMultipart
           (map (\<lambda>f. \<lparr>fp_field = f\<lparr>ff_headers := []\<rparr>, fp_headers = group_headers (ff_headers f)\<rparr>) flds)
           (map (\<lambda>u. \<lparr>xp_upload = u\<lparr>uf_headers := []\<rparr>, xp_path = spool_path (uf_file u),
                       xp_headers = group_headers (uf_headers u)\<rparr>) files))"

definition exchange_new :: "'m request \<Rightarrow> 'tx \<Rightarrow> ('m, 'tx) exchange_state" where
  "exchange_new req tx =
     \<lparr>x_body = body_state_of (rq_body req), x_req = req\<lparr>rq_body := RawBody [] 0\<rparr>,
      x_sender = True, x_chan = tx, x_stage = Open, x_head_sent = False, x_pending = None,
      x_declared_cl = None, x_sent_body = 0, x_discarded = False,
      x_bodiless = (rq_method req = ''HEAD''), x_events = [], x_removed = []\<rparr>"

definition settled :: "('m, 'tx) exchange_state \<Rightarrow> bool" where
  "settled st \<longleftrightarrow> x_stage st = Finalized"

definition cancelled ::
  "('tx, 'm frame) tx_ops \<Rightarrow> ('m, 'tx) exchange_state \<Rightarrow> bool \<times> ('m, 'tx) exchange_state" where
  "cancelled T st =
     (if x_discarded st then (True, st)
      else if x_sender st
      then (case tx_is_closed T (x_chan st) of (b, tx) \<Rightarrow> (b, st\<lparr>x_chan := tx\<rparr>))
      else (False, st))"

section \<open>Writes\<close>

datatype verb =
    VOk | VFinalized | VHeadWritten | VDiscarded | VContentLengthExceeded
  | VBadField string | VFileNotSendable string | VHeadNotWritten

text \<open>The class and message of the exception a verb throws; \<open>None\<close> throws nothing.\<close>

fun throw_verb :: "verb \<Rightarrow> (string \<times> string) option" where
  "throw_verb VOk = None"
| "throw_verb VFinalized = Some (''AlreadyFinalizedError'', ''the response already ended'')"
| "throw_verb VHeadWritten = Some (''HeadAlreadyWrittenError'', ''the final head has already been written'')"
| "throw_verb VDiscarded = Some (''WorkDiscardedException'', ''the host closed the exchange first'')"
| "throw_verb VContentLengthExceeded =
     Some (''ContentLengthExceededError'', ''the write goes past the content-length the head declared'')"
| "throw_verb (VBadField msg) = Some (''ValueError'', msg)"
| "throw_verb VHeadNotWritten = Some (''HeadNotWrittenError'', ''no final head has been committed yet'')"
| "throw_verb (VFileNotSendable msg) = Some (''FileNotSendableException'', msg)"

definition send_frame ::
  "('tx, 'm frame) tx_ops \<Rightarrow> 'm frame \<Rightarrow> ('m, 'tx) exchange_state \<Rightarrow> bool \<times> ('m, 'tx) exchange_state" where
  "send_frame T f st =
     (if \<not> x_sender st then (False, st)
      else case push_frame T (x_chan st) f of (ok, tx) \<Rightarrow> (ok, st\<lparr>x_chan := tx\<rparr>))"

definition emit_head ::
  "'m header_ops \<Rightarrow> ('tx, 'm frame) tx_ops \<Rightarrow> nat option \<Rightarrow> ('m, 'tx) exchange_state
   \<Rightarrow> bool \<times> ('m, 'tx) exchange_state" where
  "emit_head H T finalizing_len st =
     (if x_head_sent st then (True, st)
      else let head = (case x_pending st of Some h \<Rightarrow> h
                         | None \<Rightarrow> \<lparr>rh_status = 200, rh_headers = h_empty H\<rparr>);
               content_length = (if x_bodiless st then x_declared_cl st
                  else case x_declared_cl st of Some n \<Rightarrow> Some n | None \<Rightarrow> finalizing_len);
               st' = st\<lparr>x_pending := None,
                        x_stage := (if x_stage st = Open then HeadCommitted else x_stage st),
                        x_head_sent := True\<rparr>
           in send_frame T (Head head content_length (x_bodiless st)) st')"

definition unlink_body :: "('m, 'tx) exchange_state \<Rightarrow> ('m, 'tx) exchange_state" where
  "unlink_body st = (case unlink_spools (x_body st) of (b, rms) \<Rightarrow>
     st\<lparr>x_body := b, x_removed := x_removed st @ rms\<rparr>)"

definition discard_unit :: "('m, 'tx) exchange_state \<Rightarrow> ('m, 'tx) exchange_state" where
  "discard_unit st =
     (if x_stage st = Finalized then st
      else let st1 = unlink_body (st\<lparr>x_discarded := True, x_stage := Finalized\<rparr>)
           in st1\<lparr>x_events := x_events st1 @ [Handled True], x_sender := False\<rparr>)"

definition seal ::
  "('tx, 'm frame) tx_ops \<Rightarrow> bool \<Rightarrow> ('m, 'tx) exchange_state \<Rightarrow> ('m, 'tx) exchange_state" where
  "seal T truncated st =
     (let st1 = (unlink_body st)\<lparr>x_stage := Finalized\<rparr>;
          st2 = st1\<lparr>x_events := x_events st1 @ [Handled truncated]\<rparr>
      in (snd (send_frame T (End truncated) st2))\<lparr>x_sender := False\<rparr>)"

definition write_trailers_core ::
  "'m header_ops \<Rightarrow> ('tx, 'm frame) tx_ops \<Rightarrow> ('m, 'tx) exchange_state
   \<Rightarrow> verb \<times> ('m, 'tx) exchange_state" where
  "write_trailers_core H T st0 =
     (case cancelled T st0 of (gone, st) \<Rightarrow>
        if gone then (VDiscarded, discard_unit st)
        else if x_stage st = Finalized then (VFinalized, st)
        else if x_stage st = Open then (VHeadNotWritten, st)
        else (case emit_head H T (Some (x_sent_body st)) st of (ok, st') \<Rightarrow>
               if \<not> ok then (VDiscarded, discard_unit st')
               else (VOk, seal T False st')))"

definition write_head_core ::
  "'m header_ops \<Rightarrow> ('tx, 'm frame) tx_ops \<Rightarrow> nat \<Rightarrow> 'm \<Rightarrow> ('m, 'tx) exchange_state
   \<Rightarrow> verb \<times> ('m, 'tx) exchange_state" where
  "write_head_core H T status headers st0 =
     (case cancelled T st0 of (gone, st) \<Rightarrow>
        if gone then (VDiscarded, discard_unit st)
        else if x_stage st \<noteq> Open then (VHeadWritten, st)
        else if status \<noteq> 101 \<and> 100 \<le> status \<and> status < 200 then (VOk, st)
        else (case split_framing H headers of
               Err msg \<Rightarrow> (VBadField msg, st)
             | Ok split \<Rightarrow>
                 (VOk, st\<lparr>x_declared_cl := sh_declared_cl split,
                         x_pending := Some \<lparr>rh_status = status, rh_headers = sh_headers split\<rparr>,
                         x_bodiless := (x_bodiless st \<or> status \<in> {204, 304, 101}),
                         x_stage := HeadCommitted\<rparr>)))"

definition send_body ::
  "'m header_ops \<Rightarrow> ('tx, 'm frame) tx_ops \<Rightarrow> nat \<Rightarrow> bool \<Rightarrow> (nat \<Rightarrow> 'm frame)
   \<Rightarrow> ('m, 'tx) exchange_state \<Rightarrow> verb \<times> ('m, 'tx) exchange_state" where
  "send_body H T len eos frame st =
     (case opt_filter (\<lambda>cl. x_sent_body st + len > cl) (x_declared_cl st) of
        Some cl \<Rightarrow>
          (let fit = cl - x_sent_body st;
               (ok, st1) = emit_head H T (Some cl) st;
               st2 = (if ok \<and> fit > 0 \<and> \<not> x_bodiless st1 then snd (send_frame T (frame fit) st1) else st1)
           in (VContentLengthExceeded, seal T False (st2\<lparr>x_sent_body := cl\<rparr>)))
      | None \<Rightarrow>
          (let finalizing = (if eos \<and> x_sent_body st = 0 then Some len else None);
               (ok, st1) = emit_head H T finalizing st
           in if \<not> ok then (VDiscarded, discard_unit st1)
              else let st2 = st1\<lparr>x_sent_body := x_sent_body st1 + len\<rparr>;
                       (ok2, st3) = (if len > 0 \<and> \<not> x_bodiless st2 then send_frame T (frame len) st2
                                     else (True, st2))
                   in if \<not> ok2 then (VDiscarded, discard_unit st3)
                      else (VOk, if eos then seal T False st3 else st3)))"

definition write_body_core ::
  "'m header_ops \<Rightarrow> ('tx, 'm frame) tx_ops \<Rightarrow> bytes \<Rightarrow> bool \<Rightarrow> ('m, 'tx) exchange_state
   \<Rightarrow> verb \<times> ('m, 'tx) exchange_state" where
  "write_body_core H T p eos st0 =
     (case cancelled T st0 of (gone, st) \<Rightarrow>
        if gone then (VDiscarded, discard_unit st)
        else if x_stage st = Finalized then (VFinalized, st)
        else if length p = 0 \<and> \<not> eos then (VOk, st)
        else send_body H T (length p) eos (\<lambda>n. Chunk (take n p)) st)"

definition exchange_flush ::
  "'m header_ops \<Rightarrow> ('tx, 'm frame) tx_ops \<Rightarrow> ('m, 'tx) exchange_state
   \<Rightarrow> verb \<times> ('m, 'tx) exchange_state" where
  "exchange_flush H T st0 =
     (case cancelled T st0 of (gone, st) \<Rightarrow>
        if gone then (VDiscarded, discard_unit st)
        else if x_stage st = Finalized then (VFinalized, st)
        else (case emit_head H T None st of (ok, st') \<Rightarrow>
               if ok then (VOk, st') else (VDiscarded, discard_unit st')))"

section \<open>sendFile\<close>

text \<open>
  The file system as \<open>std::fs\<close> shows it. A canonical path is the list of its components, so
  \<open>Path::starts_with\<close> is a prefix test on components.
\<close>

record fs_ops =
  fs_is_relative :: "bytes \<Rightarrow> bool"
  fs_join :: "bytes \<Rightarrow> bytes \<Rightarrow> bytes"
  fs_components :: "bytes \<Rightarrow> bytes list"
  fs_canonicalize :: "bytes \<Rightarrow> bytes list option"
  fs_open :: "bytes list \<Rightarrow> handle option"
  fs_metadata :: "handle \<Rightarrow> (bool \<times> nat) option" \<comment> \<open>regular file?, length\<close>

definition set_sendfile_root :: "fs_ops \<Rightarrow> bytes \<Rightarrow> bytes list option \<Rightarrow> bytes list option" where
  "set_sendfile_root F root cell =
     (let canonical = (case fs_canonicalize F root of Some c \<Rightarrow> c | None \<Rightarrow> fs_components F root)
      in case cell of Some r \<Rightarrow> Some r | None \<Rightarrow> Some canonical)"

text \<open>The interpreter-local working directory, the root set at start, and the file system.\<close>

record sendfile_env =
  se_fs :: fs_ops
  se_root :: "bytes list"
  se_cwd :: "bytes option"

definition no_file :: string where "no_file = ''no readable file at the path''"
definition past_end :: string where
  "past_end = ''the requested slice runs past the end of the file''"

text \<open>The path to open: a relative one is joined to the interpreter's working directory.\<close>

definition sendfile_target :: "sendfile_env \<Rightarrow> bytes \<Rightarrow> bytes option" where
  "sendfile_target E path =
     (if \<not> utf8_valid path then None
      else if fs_is_relative (se_fs E) path
      then (case se_cwd E of
              None \<Rightarrow> None
            | Some cwd \<Rightarrow> if utf8_valid cwd then Some (fs_join (se_fs E) cwd path) else None)
      else Some path)"

definition open_send_file ::
  "sendfile_env \<Rightarrow> bytes \<Rightarrow> nat \<Rightarrow> nat option \<Rightarrow> (handle \<times> nat, string) result" where
  "open_send_file E path offset len_opt =
     (let F = se_fs E in
      case sendfile_target E path of
        None \<Rightarrow> Err no_file
      | Some full \<Rightarrow> (case fs_canonicalize F full of
          None \<Rightarrow> Err no_file
        | Some canonical \<Rightarrow>
            if take (length (se_root E)) canonical \<noteq> se_root E
            then Err ''the path is outside the configured sendfile root''
            else (case fs_open F canonical of
                None \<Rightarrow> Err no_file
              | Some file \<Rightarrow> (case fs_metadata F file of
                  None \<Rightarrow> Err no_file
                | Some (is_file, fsize) \<Rightarrow>
                    if \<not> is_file then Err ''not a regular file''
                    else if offset > fsize then Err past_end
                    else (case len_opt of
                        Some l \<Rightarrow> if offset + l > fsize then Err past_end else Ok (file, l)
                      | None \<Rightarrow> Ok (file, fsize - offset))))))"

definition send_file_core ::
  "'m header_ops \<Rightarrow> ('tx, 'm frame) tx_ops \<Rightarrow> sendfile_env \<Rightarrow> bytes \<Rightarrow> nat \<Rightarrow> nat option \<Rightarrow> bool
   \<Rightarrow> ('m, 'tx) exchange_state \<Rightarrow> verb \<times> ('m, 'tx) exchange_state" where
  "send_file_core H T E path offset len_opt eos st0 =
     (case cancelled T st0 of (gone, st) \<Rightarrow>
        if gone then (VDiscarded, discard_unit st)
        else if x_stage st = Finalized then (VFinalized, st)
        else (case open_send_file E path offset len_opt of
               Err msg \<Rightarrow> (VFileNotSendable msg, st)
             | Ok (file, len) \<Rightarrow>
                 if opt_filter (\<lambda>cl. x_sent_body st + len > cl) (x_declared_cl st) \<noteq> None
                 then (VContentLengthExceeded, st)
                 else send_body H T len eos (\<lambda>n. File file offset n) st))"

section \<open>The calls PHP makes\<close>

datatype exchange_call =
    WriteHead int "(zkey \<times> zval) list option"
  | WriteBody bytes bool
  | SendFile bytes int int bool bool \<comment> \<open>path, offset, length, length is null, eos\<close>
  | Flush
  | WriteTrailers "(zkey \<times> zval) list option"
  | IsCancelled

definition int_text :: "int \<Rightarrow> string" where
  "int_text i = (if i < 0 then ''-'' @ decimal (nat (- i)) else decimal (nat i))"

text \<open>\<open>sendFile()\<close>: the offset and the length are checked before the exchange is touched.\<close>

definition exchange_send_file ::
  "'m header_ops \<Rightarrow> ('tx, 'm frame) tx_ops \<Rightarrow> sendfile_env \<Rightarrow> bytes \<Rightarrow> int \<Rightarrow> int \<Rightarrow> bool \<Rightarrow> bool
   \<Rightarrow> ('m, 'tx) exchange_state \<Rightarrow> (string \<times> string) option \<times> ('m, 'tx) exchange_state" where
  [simp]: "exchange_send_file H T E path offset len len_null eos st =
     (if offset < 0 then (Some (''ValueError'', ''must be greater than or equal to 0''), st)
      else if \<not> len_null \<and> len < 1 then (Some (''ValueError'', ''must be greater than or equal to 1''), st)
      else map_prod throw_verb id
             (send_file_core H T E path (nat offset) (if len_null then None else Some (nat len)) eos st))"

text \<open>The exception the call throws, if any, and the state it leaves.\<close>

fun call_exchange ::
  "'m header_ops \<Rightarrow> ('tx, 'm frame) tx_ops \<Rightarrow> sendfile_env \<Rightarrow> exchange_call \<Rightarrow> ('m, 'tx) exchange_state
   \<Rightarrow> (string \<times> string) option \<times> ('m, 'tx) exchange_state" where
  "call_exchange H T E (WriteHead status headers) st =
     (if \<not> (100 \<le> status \<and> status \<le> 599)
      then (Some (''ValueError'', ''status must be between 100 and 599, '' @ int_text status @ '' given''), st)
      else (case walk_head_table H headers of
              Err msg \<Rightarrow> (Some (''ValueError'', msg), st)
            | Ok m \<Rightarrow> map_prod throw_verb id (write_head_core H T (nat status) m st)))"
| "call_exchange H T E (WriteBody p eos) st = map_prod throw_verb id (write_body_core H T p eos st)"
| "call_exchange H T E (SendFile path offset len len_null eos) st =
     exchange_send_file H T E path offset len len_null eos st"
| "call_exchange H T E Flush st = map_prod throw_verb id (exchange_flush H T st)"
| "call_exchange H T E (WriteTrailers trailers) st =
     (case walk_head_table H trailers of
        Err msg \<Rightarrow> (Some (''ValueError'', msg), st)
      | Ok m \<Rightarrow>
          if list_ex forbidden_trailer (h_keys H m)
          then (Some (''ValueError'', ''the field may not travel in a trailer section: framing, routing, authentication, request modifiers, response controls and content format stay in the head''), st)
          else map_prod throw_verb id (write_trailers_core H T st))"
| "call_exchange H T E IsCancelled st = (None, snd (cancelled T st))"

definition exchange_run ::
  "'m header_ops \<Rightarrow> ('tx, 'm frame) tx_ops \<Rightarrow> sendfile_env \<Rightarrow> exchange_call list
   \<Rightarrow> ('m, 'tx) exchange_state \<Rightarrow> ('m, 'tx) exchange_state" where
  "exchange_run H T E calls st = foldl (\<lambda>st c. snd (call_exchange H T E c st)) st calls"

text \<open>
  \<open>release\<close> counts a unit that is not settled as handled with an error.
  \<open>rapira_rs_exchange_drop\<close> releases the unit first; the final head or end is only tried, never waited for; dropping the
  state removes the spool files that are left and then the sender.
\<close>

definition exchange_release :: "('m, 'tx) exchange_state \<Rightarrow> ('m, 'tx) exchange_state" where
  "exchange_release st = (if settled st then st else st\<lparr>x_events := x_events st @ [Handled True]\<rparr>)"

definition exchange_drop ::
  "'m header_ops \<Rightarrow> ('tx, 'm frame) tx_ops \<Rightarrow> bool \<Rightarrow> ('m, 'tx) exchange_state
   \<Rightarrow> ('m, 'tx) exchange_state" where
  "exchange_drop H T cycle_died job =
     (let st0 = exchange_release job;
          st = (if x_stage st0 \<noteq> Finalized \<and> \<not> cycle_died
        then (let st1 = unlink_body st0 in
              if x_sender st1
              then (let tx = x_chan st1;
                        tx' = (if x_head_sent st1 then snd (tx_try_send T tx (End True))
                               else (case tx_try_send T tx
                                       (Head \<lparr>rh_status = 500, rh_headers = h_empty H\<rparr>
                                         (if x_bodiless st1 then None else Some 0) (x_bodiless st1)) of
                                     (Sent, t) \<Rightarrow> snd (tx_try_send T t (End False))
                                   | (_, t) \<Rightarrow> t))
                    in st1\<lparr>x_sender := False, x_chan := tx'\<rparr>)
              else st1)
        else st0)
      in (unlink_body st)\<lparr>x_sender := False\<rparr>)"

section \<open>Bookkeeping: one report and one removal per unit\<close>

definition left_paths :: "body_state \<Rightarrow> bytes list" where
  "left_paths b = (case b of BsRaw _ \<Rightarrow> []
     | BsMultipart _ files \<Rightarrow> filter (\<lambda>p. p \<noteq> []) (map (\<lambda>p. spool_path (uf_file (xp_upload p))) files))"

text \<open>The state against the spool paths the request came with.\<close>

definition book_inv :: "bytes list \<Rightarrow> ('m, 'tx) exchange_state \<Rightarrow> bool" where
  "book_inv paths st \<longleftrightarrow>
     x_removed st @ left_paths (x_body st) = paths
     \<and> (if x_stage st = Finalized
        then x_events st = [Handled (x_discarded st)] \<and> left_paths (x_body st) = [] \<and> \<not> x_sender st
        else x_events st = [] \<and> \<not> x_discarded st \<and> x_sender st)"

lemma unlink_files_spec:
  "snd (unlink_files ps) = filter (\<lambda>p. p \<noteq> []) (map (\<lambda>p. spool_path (uf_file (xp_upload p))) ps)
   \<and> filter (\<lambda>p. p \<noteq> []) (map (\<lambda>p. spool_path (uf_file (xp_upload p))) (fst (unlink_files ps))) = []"
  by (induction ps) (auto simp: Let_def spool_unlink_def split: prod.splits)

lemma unlink_spools_spec:
  "snd (unlink_spools b) = left_paths b \<and> left_paths (fst (unlink_spools b)) = []"
proof (cases b)
  case (BsMultipart flds files)
  then show ?thesis
    using unlink_files_spec [of files]
    by (cases "unlink_files files") (simp add: left_paths_def)
qed (simp add: left_paths_def)

lemma unlink_body_fields:
  "x_removed (unlink_body st) = x_removed st @ left_paths (x_body st)"
  "left_paths (x_body (unlink_body st)) = []"
  "x_chan (unlink_body st) = x_chan st" "x_sender (unlink_body st) = x_sender st"
  "x_stage (unlink_body st) = x_stage st" "x_events (unlink_body st) = x_events st"
  "x_discarded (unlink_body st) = x_discarded st" "x_head_sent (unlink_body st) = x_head_sent st"
  "x_bodiless (unlink_body st) = x_bodiless st" "x_sent_body (unlink_body st) = x_sent_body st"
  "x_declared_cl (unlink_body st) = x_declared_cl st" "x_pending (unlink_body st) = x_pending st"
  using unlink_spools_spec [of "x_body st"]
  by (cases "unlink_spools (x_body st)"; simp add: unlink_body_def)+

text \<open>Steps that leave the bookkeeping of the unit alone.\<close>

definition same_unit :: "('m, 'tx) exchange_state \<Rightarrow> ('m, 'tx) exchange_state \<Rightarrow> bool" where
  "same_unit st st' \<longleftrightarrow>
     x_removed st' = x_removed st \<and> x_body st' = x_body st \<and> x_events st' = x_events st
     \<and> x_discarded st' = x_discarded st \<and> x_sender st' = x_sender st
     \<and> (x_stage st' = Finalized \<longleftrightarrow> x_stage st = Finalized)"

lemma same_unit_refl [simp]: "same_unit st st"
  by (simp add: same_unit_def)

lemma same_unit_trans: "same_unit a b \<Longrightarrow> same_unit b c \<Longrightarrow> same_unit a c"
  by (simp add: same_unit_def)

lemma book_same_unit: "book_inv paths st \<Longrightarrow> same_unit st st' \<Longrightarrow> book_inv paths st'"
  by (auto simp: book_inv_def same_unit_def)

lemma same_unit_cancelled: "cancelled T st = (b, st') \<Longrightarrow> same_unit st st'"
  by (auto simp: cancelled_def same_unit_def split: if_splits prod.splits)

lemma same_unit_send_frame: "send_frame T f st = (b, st') \<Longrightarrow> same_unit st st'"
  by (auto simp: send_frame_def same_unit_def split: if_splits prod.splits)

lemma same_unit_emit_head: "emit_head H T n st = (b, st') \<Longrightarrow> same_unit st st'"
  unfolding emit_head_def Let_def
  by (auto dest!: same_unit_send_frame simp: same_unit_def split: if_splits)

lemma book_discard: "book_inv paths st \<Longrightarrow> book_inv paths (discard_unit st)"
  by (auto simp: discard_unit_def Let_def book_inv_def unlink_body_fields split: if_splits)

lemma discard_Finalized: "x_stage (discard_unit st) = Finalized"
  by (simp add: discard_unit_def Let_def unlink_body_fields)

lemma book_seal:
  assumes "book_inv paths st" "x_stage st \<noteq> Finalized"
  shows "book_inv paths (seal T False st)"
proof -
  define st2 where "st2 = (unlink_body st)\<lparr>x_stage := Finalized\<rparr>\<lparr>x_events := x_events st @ [Handled False]\<rparr>"
  obtain b st3 where s: "send_frame T (End False) st2 = (b, st3)" by fastforce
  have "seal T False st = st3\<lparr>x_sender := False\<rparr>"
    using s by (simp add: seal_def Let_def st2_def unlink_body_fields)
  moreover have "same_unit st2 st3" using same_unit_send_frame [OF s] .
  ultimately show ?thesis
    using assms by (auto simp: book_inv_def same_unit_def st2_def unlink_body_fields split: if_splits)
qed

lemma book_frame [simp]:
  "book_inv paths (st\<lparr>x_sent_body := n\<rparr>) = book_inv paths st"
  by (simp add: book_inv_def)

lemma book_send_body:
  assumes "book_inv paths st" "x_stage st \<noteq> Finalized" "send_body H T len eos frame st = (v, st')"
  shows "book_inv paths st'"
proof (cases "opt_filter (\<lambda>cl. x_sent_body st + len > cl) (x_declared_cl st)")
  case (Some cl)
  obtain ok st1 where e: "emit_head H T (Some cl) st = (ok, st1)" by fastforce
  define st2 where "st2 = (if ok \<and> cl - x_sent_body st > 0 \<and> \<not> x_bodiless st1
      then snd (send_frame T (frame (cl - x_sent_body st)) st1) else st1)"
  have "same_unit st1 st2"
    using same_unit_send_frame [of T "frame (cl - x_sent_body st)" st1]
    by (cases "send_frame T (frame (cl - x_sent_body st)) st1") (auto simp: st2_def)
  then have "same_unit st st2" using same_unit_emit_head [OF e] same_unit_trans by blast
  then have "book_inv paths (st2\<lparr>x_sent_body := cl\<rparr>)" "x_stage st2 \<noteq> Finalized"
    using book_same_unit [OF assms(1)] assms(2) by (auto simp: same_unit_def)
  moreover have "st' = seal T False (st2\<lparr>x_sent_body := cl\<rparr>)"
    using assms(3) by (simp add: send_body_def Some e Let_def st2_def)
  ultimately show ?thesis using book_seal [of paths "st2\<lparr>x_sent_body := cl\<rparr>" T] by simp
next
  case None
  let ?fin = "if eos \<and> x_sent_body st = 0 then Some len else None"
  obtain ok st1 where e: "emit_head H T ?fin st = (ok, st1)" by fastforce
  from same_unit_emit_head [OF e] have s1: "book_inv paths st1" "x_stage st1 \<noteq> Finalized"
    using book_same_unit [OF assms(1)] assms(2) by (auto simp: same_unit_def)
  show ?thesis
  proof (cases ok)
    case False
    with assms(3) e None book_discard [OF s1(1)] show ?thesis
      by (simp add: send_body_def Let_def split: if_splits)
  next
    case True
    define st2 where "st2 = st1\<lparr>x_sent_body := x_sent_body st1 + len\<rparr>"
    obtain ok2 st3 where f: "(if len > 0 \<and> \<not> x_bodiless st2 then send_frame T (frame len) st2
        else (True, st2)) = (ok2, st3)" by fastforce
    then have "same_unit st2 st3"
      using same_unit_send_frame [of T "frame len" st2] by (auto split: if_splits)
    then have s3: "book_inv paths st3" "x_stage st3 \<noteq> Finalized"
      using s1 book_same_unit [of paths st2 st3] by (auto simp: st2_def same_unit_def)
    have "st' = (if \<not> ok2 then discard_unit st3 else if eos then seal T False st3 else st3)"
      using assms(3) e None True f unfolding send_body_def st2_def [symmetric]
      by (auto simp: Let_def st2_def split: if_splits)
    then show ?thesis using s3 by (simp add: book_discard book_seal)
  qed
qed

lemma book_cores:
  assumes "book_inv paths st"
  shows "book_inv paths (snd (write_trailers_core H T st))"
    and "book_inv paths (snd (write_head_core H T status m st))"
    and "book_inv paths (snd (write_body_core H T p eos st))"
    and "book_inv paths (snd (exchange_flush H T st))"
    and "book_inv paths (snd (send_file_core H T E path offset len_opt eos st))"
    and "book_inv paths (snd (cancelled T st))"
proof -
  obtain b st1 where c: "cancelled T st = (b, st1)" by fastforce
  from book_same_unit [OF assms same_unit_cancelled [OF c]] have i: "book_inv paths st1" .
  note d = book_discard [OF i]
  show "book_inv paths (snd (cancelled T st))" by (simp add: c i)
  obtain k2 s2 where e2: "emit_head H T (Some (x_sent_body st1)) st1 = (k2, s2)" by fastforce
  obtain k3 s3 where e3: "emit_head H T None st1 = (k3, s3)" by fastforce
  note u2 = same_unit_emit_head [OF e2] and u3 = same_unit_emit_head [OF e3]
  note i2 = book_same_unit [OF i u2] and i3 = book_same_unit [OF i u3]
  show "book_inv paths (snd (write_trailers_core H T st))"
    using book_seal [OF i2] book_discard [OF i2] i d u2
    by (auto simp: write_trailers_core_def c e2 same_unit_def)
  show "book_inv paths (snd (exchange_flush H T st))"
    using book_discard [OF i3] i i3 d by (auto simp: exchange_flush_def c e3)
  show "book_inv paths (snd (write_head_core H T status m st))"
    using i d by (auto simp: write_head_core_def c book_inv_def split: result.splits)
  show "book_inv paths (snd (write_body_core H T p eos st))"
    using i d book_send_body [OF i]
    by (cases "send_body H T (length p) eos (\<lambda>n. Chunk (take n p)) st1") (auto simp: write_body_core_def c)
  show "book_inv paths (snd (send_file_core H T E path offset len_opt eos st))"
  proof (cases "open_send_file E path offset len_opt")
    case (Ok r)
    then show ?thesis
      using i d book_send_body [OF i]
      by (cases r; cases "send_body H T (snd r) eos (\<lambda>n. File (fst r) offset n) st1")
        (auto simp: send_file_core_def c)
  qed (use i d in \<open>simp add: send_file_core_def c\<close>)
qed

lemma book_call: "book_inv paths st \<Longrightarrow> book_inv paths (snd (call_exchange H T E call st))"
  by (cases call) (auto simp: book_cores split: result.splits)

lemma book_run: "book_inv paths st \<Longrightarrow> book_inv paths (exchange_run H T E calls st)"
  unfolding exchange_run_def
proof (induction calls arbitrary: st)
  case (Cons call calls)
  from Cons.IH [OF book_call [OF Cons.prems, of H T E call]] show ?case by simp
qed simp

lemma book_new: "book_inv (left_paths (body_state_of (rq_body req))) (exchange_new req tx)"
  by (simp add: book_inv_def exchange_new_def)

lemma exchange_release_fields [simp]:
  "x_removed (exchange_release st) = x_removed st" "x_body (exchange_release st) = x_body st"
  "x_chan (exchange_release st) = x_chan st" "x_sender (exchange_release st) = x_sender st"
  "x_stage (exchange_release st) = x_stage st" "x_discarded (exchange_release st) = x_discarded st"
  "x_head_sent (exchange_release st) = x_head_sent st" "x_bodiless (exchange_release st) = x_bodiless st"
  "x_events (exchange_release st) = x_events st @ (if x_stage st = Finalized then [] else [Handled True])"
  by (simp_all add: exchange_release_def settled_def)

lemma exchange_drop_book:
  assumes "book_inv paths st"
  shows "x_removed (exchange_drop H T died st) = paths"
    and "x_events (exchange_drop H T died st) = [Handled (if x_stage st = Finalized then x_discarded st else True)]"
    and "\<not> x_sender (exchange_drop H T died st)"
proof -
  have f: "x_removed (exchange_drop H T died st) = x_removed st @ left_paths (x_body st)
    \<and> x_events (exchange_drop H T died st) = x_events st @ (if x_stage st = Finalized then [] else [Handled True])
    \<and> \<not> x_sender (exchange_drop H T died st)"
    by (simp add: exchange_drop_def Let_def unlink_body_fields)
  with assms show "x_removed (exchange_drop H T died st) = paths"
    "x_events (exchange_drop H T died st) = [Handled (if x_stage st = Finalized then x_discarded st else True)]"
    "\<not> x_sender (exchange_drop H T died st)"
    by (auto simp: book_inv_def)
qed

section \<open>The frames of an exchange\<close>

text \<open>
  What an exchange may have on its channel, \<open>dcl\<close> being the length its head declared: a stream of
  the grammar, no body bytes for a bodiless response, never more bytes than the content-length,
  and exactly that many at a clean end unless the application declared the length itself.
\<close>

definition exch_ok :: "nat option \<Rightarrow> 'm frame list \<Rightarrow> bool" where
  "exch_ok dcl fs \<longleftrightarrow> stream_phase fs \<noteq> None \<and>
     (case fs of Head h cl b # _ \<Rightarrow>
          100 \<le> rh_status h \<and> rh_status h \<le> 599
          \<and> (if b then body_len fs = 0
             else (case cl of None \<Rightarrow> True
                   | Some n \<Rightarrow> body_len fs \<le> n
                       \<and> (End False \<in> set fs \<longrightarrow> body_len fs = n \<or> dcl = Some n)))
      | _ \<Rightarrow> True)"

text \<open>The head carries the declared length.\<close>

definition declares :: "nat option \<Rightarrow> 'm frame list \<Rightarrow> bool" where
  "declares dcl fs \<longleftrightarrow> (case fs of Head _ cl _ # _ \<Rightarrow> dcl = None \<or> cl = dcl | _ \<Rightarrow> True)"

definition strm :: "nat option \<Rightarrow> bool \<Rightarrow> nat \<Rightarrow> 'm frame list \<Rightarrow> bool" where
  "strm cl b k fs \<longleftrightarrow> (\<exists>h rest. fs = Head h cl b # rest \<and> 100 \<le> rh_status h \<and> rh_status h \<le> 599)
     \<and> stream_phase fs = Some PBody \<and> body_len fs = k"

lemma phase_body_no_end: "stream_phase fs = Some PBody \<Longrightarrow> End t \<notin> set fs"
proof (induction fs rule: rev_induct)
  case (snoc f fs)
  then obtain q where q: "stream_phase fs = Some q" "frame_step q f = Some PBody"
    by (cases "stream_phase fs") auto
  have "q = PBody \<or> fs = []"
  proof (rule ccontr)
    assume a: "\<not> ?thesis"
    then have "q = PStart" using q by (cases q; cases f) (auto split: if_splits)
    moreover from a obtain gs g where "fs = gs @ [g]" using rev_exhaust by blast
    then obtain r where "frame_step r g = Some q"
      using q(1) by (cases "stream_phase gs") auto
    ultimately show False by (cases r; cases g) (auto split: if_splits)
  qed
  with snoc q show ?case by (cases q; cases f) auto
qed simp

lemma strm_body:
  "strm cl b k fs \<Longrightarrow> frame_step PBody f = Some PBody \<Longrightarrow> strm cl b (k + frame_len f) (fs @ [f])"
  by (auto simp: strm_def)

lemma exch_ok_Nil [simp]: "exch_ok dcl []" "declares dcl []"
  by (simp_all add: exch_ok_def declares_def)

lemma exch_ok_strm:
  assumes "strm cl b k fs" "b \<Longrightarrow> k = 0" "\<And>n. cl = Some n \<Longrightarrow> \<not> b \<Longrightarrow> k \<le> n"
  shows "exch_ok dcl fs"
proof -
  have "End False \<notin> set fs" using assms(1) phase_body_no_end by (auto simp: strm_def)
  with assms show ?thesis
    by (auto simp: exch_ok_def strm_def split: option.splits)
qed

lemma exch_ok_strm_end:
  assumes "strm cl b k fs" "b \<Longrightarrow> k = 0"
    and "\<And>n. cl = Some n \<Longrightarrow> \<not> b \<Longrightarrow> k \<le> n \<and> (t \<or> k = n \<or> dcl = Some n)"
  shows "exch_ok dcl (fs @ [End t])"
proof -
  have "End False \<notin> set fs" using assms(1) phase_body_no_end by (auto simp: strm_def)
  with assms show ?thesis
    by (auto simp: exch_ok_def strm_def split: option.splits)
qed

lemma declares_strm: "strm cl b k fs \<Longrightarrow> dcl = None \<or> cl = dcl \<Longrightarrow> declares dcl (fs @ gs)"
  by (auto simp: declares_def strm_def)

text \<open>An exchange still open, with \<open>fs\<close> on its channel.\<close>

definition sent_on_wire :: "('m, 'tx) exchange_state \<Rightarrow> nat" where
  "sent_on_wire st = (if x_bodiless st then 0 else x_sent_body st)"

definition live :: "'m frame list \<Rightarrow> nat option \<Rightarrow> ('m, 'tx) exchange_state \<Rightarrow> bool" where
  "live fs cl st \<longleftrightarrow>
     x_sender st \<and> x_stage st \<noteq> Finalized
     \<and> (\<forall>h. x_pending st = Some h \<longrightarrow> 100 \<le> rh_status h \<and> rh_status h \<le> 599)
     \<and> (\<forall>n. x_declared_cl st = Some n \<longrightarrow> x_sent_body st \<le> n \<and> cl = Some n)
     \<and> (if x_head_sent st then strm cl (x_bodiless st) (sent_on_wire st) fs \<and> x_stage st \<noteq> Open
        else fs = [] \<and> x_sent_body st = 0)"

lemma live_exch_ok:
  assumes "live fs (x_declared_cl st) st"
  shows "exch_ok dcl fs \<and> declares (x_declared_cl st) fs"
proof (cases "x_head_sent st")
  case True
  with assms have s: "strm (x_declared_cl st) (x_bodiless st) (sent_on_wire st) fs"
    by (simp add: live_def)
  have "exch_ok dcl fs"
    by (rule exch_ok_strm [OF s]) (use assms in \<open>auto simp: live_def sent_on_wire_def\<close>)
  moreover have "declares (x_declared_cl st) fs" using declares_strm [OF s, of _ "[]"] by simp
  ultimately show ?thesis ..
next
  case False
  then have "fs = []" using assms by (simp add: live_def)
  then show ?thesis by simp
qed

definition xinv :: "('tx \<Rightarrow> 'm frame list) \<Rightarrow> ('m, 'tx) exchange_state \<Rightarrow> bool" where
  "xinv delivered st \<longleftrightarrow>
     (if x_stage st = Finalized
      then exch_ok (x_declared_cl st) (delivered (x_chan st))
           \<and> declares (x_declared_cl st) (delivered (x_chan st)) \<and> \<not> x_sender st
      else live (delivered (x_chan st)) (x_declared_cl st) st)"

lemma live_xinv: "live (d (x_chan st)) (x_declared_cl st) st \<Longrightarrow> xinv d st"
  by (auto simp: xinv_def live_def)

lemma discard_fields:
  "x_chan (discard_unit st) = x_chan st" "x_declared_cl (discard_unit st) = x_declared_cl st"
  by (simp_all add: discard_unit_def Let_def unlink_body_fields)

lemma discard_xinv:
  assumes "x_stage st \<noteq> Finalized"
    and "exch_ok (x_declared_cl st) (d (x_chan st))" "declares (x_declared_cl st) (d (x_chan st))"
  shows "xinv d (discard_unit st)"
  using assms by (simp add: xinv_def discard_Finalized discard_fields)
    (simp add: discard_unit_def Let_def)

context response_channel
begin

lemma cancelled_live:
  "cancelled T st = (b, st') \<Longrightarrow> live (delivered (x_chan st)) cl st \<Longrightarrow>
   live (delivered (x_chan st')) cl st' \<and> x_declared_cl st' = x_declared_cl st
   \<and> x_stage st' = x_stage st \<and> x_sent_body st' = x_sent_body st"
  by (auto simp: cancelled_def live_def sent_on_wire_def dest!: is_closed split: if_splits prod.splits)

lemma push_closed: "closed t \<Longrightarrow> delivered (snd (push_frame T t f)) = delivered t"
  using push_ignored_cases [of t f] by (simp add: push_ignored_def)

lemma send_frame_fields:
  "send_frame T f st = (ok, st') \<Longrightarrow>
     st' = st\<lparr>x_chan := x_chan st'\<rparr>
     \<and> (ok \<longrightarrow> delivered (x_chan st') = delivered (x_chan st) @ [f])
     \<and> (\<not> ok \<longrightarrow> delivered (x_chan st') = delivered (x_chan st)
         \<and> (x_sender st \<longrightarrow> closed (x_chan st')))"
  by (auto simp: send_frame_def split: if_splits prod.splits
      dest: push_frame_True push_frame_False)

lemma emit_head_live:
  assumes "live (delivered (x_chan st)) (x_declared_cl st) st" and "emit_head H T fin st = (ok, st')"
  defines "cl \<equiv> (if x_head_sent st \<or> x_bodiless st then x_declared_cl st
     else case x_declared_cl st of Some n \<Rightarrow> Some n | None \<Rightarrow> fin)"
  shows "x_declared_cl st' = x_declared_cl st \<and> x_sent_body st' = x_sent_body st
     \<and> x_bodiless st' = x_bodiless st \<and> x_stage st' \<noteq> Finalized \<and> x_sender st' \<and> x_head_sent st'
     \<and> (ok \<longrightarrow> live (delivered (x_chan st')) cl st')
     \<and> (\<not> ok \<longrightarrow> delivered (x_chan st') = [] \<and> closed (x_chan st'))"
proof (cases "x_head_sent st")
  case True
  with assms show ?thesis by (auto simp: emit_head_def live_def)
next
  case False
  define head where "head = (case x_pending st of Some h \<Rightarrow> h
                         | None \<Rightarrow> \<lparr>rh_status = 200, rh_headers = h_empty H\<rparr>)"
  define st1 where "st1 = st\<lparr>x_pending := None,
      x_stage := (if x_stage st = Open then HeadCommitted else x_stage st), x_head_sent := True\<rparr>"
  have cl: "cl = (if x_bodiless st then x_declared_cl st
     else case x_declared_cl st of Some n \<Rightarrow> Some n | None \<Rightarrow> fin)"
    using False by (simp add: cl_def)
  have sf: "send_frame T (Head head cl (x_bodiless st)) st1 = (ok, st')"
    using assms(2) False by (simp add: emit_head_def Let_def head_def st1_def cl)
  have empty: "delivered (x_chan st) = []" "x_sent_body st = 0" "x_sender st"
    using assms(1) False by (auto simp: live_def)
  have hs: "100 \<le> rh_status head \<and> rh_status head \<le> 599"
    using assms(1) by (auto simp: live_def head_def split: option.splits)
  from send_frame_fields [OF sf] have f: "st' = st1\<lparr>x_chan := x_chan st'\<rparr>"
    "ok \<Longrightarrow> delivered (x_chan st') = [Head head cl (x_bodiless st)]"
    "\<not> ok \<Longrightarrow> delivered (x_chan st') = [] \<and> closed (x_chan st')"
    by (simp_all add: st1_def empty)
  have g: "x_declared_cl st' = x_declared_cl st" "x_sent_body st' = 0" "x_sender st'"
    "x_bodiless st' = x_bodiless st" "x_head_sent st'" "x_pending st' = None"
    "x_stage st' \<noteq> Finalized \<and> x_stage st' \<noteq> Open"
    using empty assms(1) by (subst f(1), simp add: st1_def live_def)+
  have "strm cl (x_bodiless st) 0 [Head head cl (x_bodiless st)]"
    using hs by (simp add: strm_def stream_phase_def)
  then have "ok \<Longrightarrow> live (delivered (x_chan st')) cl st'"
    using f(2) g by (auto simp: live_def sent_on_wire_def cl)
  then show ?thesis using g f(3) empty by auto
qed

lemma seal_xinv:
  assumes "x_sender st" and "exch_ok (x_declared_cl st) (delivered (x_chan st))"
    and "declares (x_declared_cl st) (delivered (x_chan st))"
    and "\<not> closed (x_chan st) \<Longrightarrow> exch_ok (x_declared_cl st) (delivered (x_chan st) @ [End False])
       \<and> declares (x_declared_cl st) (delivered (x_chan st) @ [End False])"
  shows "xinv delivered (seal T False st)"
proof -
  define st2 where "st2 = (unlink_body st)\<lparr>x_stage := Finalized\<rparr>\<lparr>x_events := x_events st @ [Handled False]\<rparr>"
  obtain b st3 where s: "send_frame T (End False) st2 = (b, st3)" by fastforce
  have e: "seal T False st = st3\<lparr>x_sender := False\<rparr>"
    using s by (simp add: seal_def Let_def st2_def unlink_body_fields)
  from send_frame_fields [OF s] have f: "st3 = st2\<lparr>x_chan := x_chan st3\<rparr>" by simp
  have st2: "x_chan st2 = x_chan st" "x_sender st2"
    using assms(1) by (simp_all add: st2_def unlink_body_fields)
  have c: "x_chan st3 = snd (push_frame T (x_chan st) (End False))"
    using s st2 by (auto simp: send_frame_def split: prod.splits)
  from push_ignored_cases [of "x_chan st" "End False"]
  have "exch_ok (x_declared_cl st) (delivered (x_chan st3)) \<and> declares (x_declared_cl st) (delivered (x_chan st3))"
    using assms c by (auto simp: push_ignored_def)
  moreover have "x_declared_cl st3 = x_declared_cl st" "x_stage st3 = Finalized"
    by (subst f, simp add: st2_def unlink_body_fields)+
  ultimately show ?thesis by (simp add: e xinv_def)
qed

lemma seal_live_xinv:
  assumes "live (delivered (x_chan st)) cl st" "x_head_sent st"
    and "\<And>n. cl = Some n \<Longrightarrow> \<not> x_bodiless st \<Longrightarrow> sent_on_wire st \<le> n
           \<and> (sent_on_wire st = n \<or> x_declared_cl st = Some n)"
  shows "xinv delivered (seal T False st)"
proof -
  have s: "strm cl (x_bodiless st) (sent_on_wire st) (delivered (x_chan st))"
    using assms by (simp add: live_def)
  have dc: "x_declared_cl st = None \<or> cl = x_declared_cl st"
    using assms(1) by (cases "x_declared_cl st") (auto simp: live_def)
  show ?thesis
  proof (rule seal_xinv)
    show "x_sender st" using assms(1) by (simp add: live_def)
    show "exch_ok (x_declared_cl st) (delivered (x_chan st))"
      by (rule exch_ok_strm [OF s]) (use assms(3) in \<open>auto simp: sent_on_wire_def\<close>)
    show "declares (x_declared_cl st) (delivered (x_chan st))"
      using declares_strm [OF s dc, of "[]"] by simp
    have "exch_ok (x_declared_cl st) (delivered (x_chan st) @ [End False])"
      by (rule exch_ok_strm_end [OF s]) (use assms(3) in \<open>auto simp: sent_on_wire_def\<close>)
    then show "exch_ok (x_declared_cl st) (delivered (x_chan st) @ [End False])
       \<and> declares (x_declared_cl st) (delivered (x_chan st) @ [End False])"
      using declares_strm [OF s dc] by blast
  qed
qed

text \<open>The frames a body write builds: the first \<open>n\<close> bytes make one frame of \<open>n\<close> bytes.\<close>

lemma send_body_xinv:
  assumes "live (delivered (x_chan st)) (x_declared_cl st) st"
    and frame: "\<And>n. 0 < n \<Longrightarrow> n \<le> len \<Longrightarrow> frame_step PBody (frame n) = Some PBody \<and> frame_len (frame n) = n"
    and "send_body H T len eos frame st = (v, st')"
  shows "xinv delivered st'"
proof (cases "opt_filter (\<lambda>cl. x_sent_body st + len > cl) (x_declared_cl st)")
  case (Some cl)
  then have dcl: "x_declared_cl st = Some cl" "x_sent_body st + len > cl" "x_sent_body st \<le> cl"
    using assms(1) by (auto simp: opt_filter_Some live_def)
  obtain ok st1 where e: "emit_head H T (Some cl) st = (ok, st1)" by fastforce
  define fit where "fit = cl - x_sent_body st"
  define st2 where "st2 = (if ok \<and> fit > 0 \<and> \<not> x_bodiless st1 then snd (send_frame T (frame fit) st1) else st1)"
  have st': "st' = seal T False (st2\<lparr>x_sent_body := cl\<rparr>)"
    using assms(3) by (auto simp: send_body_def Some e Let_def st2_def fit_def)
  from emit_head_live [OF assms(1) e] have h: "x_declared_cl st1 = Some cl"
    "x_sent_body st1 = x_sent_body st" "x_sender st1" "x_head_sent st1"
    "ok \<Longrightarrow> live (delivered (x_chan st1)) (Some cl) st1"
    "\<not> ok \<Longrightarrow> delivered (x_chan st1) = [] \<and> closed (x_chan st1)"
    by (simp_all add: dcl split: if_splits)
  show ?thesis
  proof (cases ok)
    case False
    then have "st2 = st1" by (simp add: st2_def)
    with h(3,6) False show ?thesis unfolding st' by (intro seal_xinv) auto
  next
    case True
    note live1 = h(5) [OF True]
    show ?thesis
    proof (cases "fit > 0 \<and> \<not> x_bodiless st1")
      case False
      then have s2: "st2 = st1" by (auto simp: st2_def)
      have "live (delivered (x_chan st1)) (Some cl) (st1\<lparr>x_sent_body := cl\<rparr>)"
        using live1 False dcl(3) h(1,2,4) by (auto simp: live_def sent_on_wire_def fit_def)
      then show ?thesis unfolding st' s2
        by (intro seal_live_xinv [where cl = "Some cl"]) (use h in \<open>auto simp: sent_on_wire_def\<close>)
    next
      case True
      obtain ok2 s3 where sf: "send_frame T (frame fit) st1 = (ok2, s3)" by fastforce
      have s2: "st2 = s3" using True \<open>ok\<close> sf by (simp add: st2_def)
      from send_frame_fields [OF sf] have f: "s3 = st1\<lparr>x_chan := x_chan s3\<rparr>"
        "ok2 \<Longrightarrow> delivered (x_chan s3) = delivered (x_chan st1) @ [frame fit]"
        "\<not> ok2 \<Longrightarrow> delivered (x_chan s3) = delivered (x_chan st1) \<and> closed (x_chan s3)"
        using h(3) by auto
      have g: "x_declared_cl s3 = Some cl" "x_sender s3" "x_head_sent s3" "\<not> x_bodiless s3"
        "x_sent_body s3 = x_sent_body st"
        using h True by (subst f(1), simp)+
      have g2: "x_stage s3 = x_stage st1" "x_pending s3 = x_pending st1"
        by (subst f(1), simp)+
      show ?thesis
      proof (cases ok2)
        case ok2: True
        have "strm (Some cl) False (x_sent_body st) (delivered (x_chan st1))"
          using live1 h True by (auto simp: live_def sent_on_wire_def)
        from strm_body [OF this, of "frame fit"]
        have "strm (Some cl) False cl (delivered (x_chan s3))"
          using frame [of fit] True dcl f(2) [OF ok2] by (simp add: fit_def)
        then have "live (delivered (x_chan s3)) (Some cl) (s3\<lparr>x_sent_body := cl\<rparr>)"
          using live1 g g2 h(4) by (auto simp: live_def sent_on_wire_def)
        then show ?thesis unfolding st' s2
          by (intro seal_live_xinv [where cl = "Some cl"]) (use g in \<open>auto simp: sent_on_wire_def\<close>)
      next
        case False
        have "live (delivered (x_chan st1)) (x_declared_cl st1) st1" using live1 h(1) by simp
        from live_exch_ok [OF this] have "exch_ok (Some cl) (delivered (x_chan st1))"
          "declares (Some cl) (delivered (x_chan st1))" by (simp_all add: h(1))
        then show ?thesis unfolding st' s2
          by (intro seal_xinv) (use g f(3) [OF False] in auto)
      qed
    qed
  qed
next
  case None
  let ?fin = "if eos \<and> x_sent_body st = 0 then Some len else None"
  define cl where "cl = (if x_head_sent st \<or> x_bodiless st then x_declared_cl st
     else case x_declared_cl st of Some n \<Rightarrow> Some n | None \<Rightarrow> ?fin)"
  obtain ok st1 where e: "emit_head H T ?fin st = (ok, st1)" by fastforce
  from emit_head_live [OF assms(1) e] have h: "x_declared_cl st1 = x_declared_cl st"
    "x_sent_body st1 = x_sent_body st" "x_sender st1" "x_head_sent st1" "x_stage st1 \<noteq> Finalized"
    "x_bodiless st1 = x_bodiless st"
    "ok \<Longrightarrow> live (delivered (x_chan st1)) cl st1"
    "\<not> ok \<Longrightarrow> delivered (x_chan st1) = []"
    unfolding cl_def by auto
  have fits: "x_sent_body st + len \<le> n" if "x_declared_cl st = Some n" for n
    using None that by (auto split: if_splits)
  show ?thesis
  proof (cases ok)
    case False
    then have "st' = discard_unit st1"
      using assms(3) e None by (auto simp: send_body_def Let_def)
    with h False show ?thesis by (simp add: discard_xinv)
  next
    case True
    define st2 where "st2 = st1\<lparr>x_sent_body := x_sent_body st1 + len\<rparr>"
    obtain ok2 st3 where f: "(if len > 0 \<and> \<not> x_bodiless st2 then send_frame T (frame len) st2
        else (True, st2)) = (ok2, st3)" by fastforce
    have st': "st' = (if \<not> ok2 then discard_unit st3 else if eos then seal T False st3 else st3)"
      using assms(3) e None True f unfolding send_body_def st2_def [symmetric]
      by (auto simp: Let_def st2_def split: if_splits)
    have f1: "st3 = st2\<lparr>x_chan := x_chan st3\<rparr>"
      using f send_frame_fields [of "frame len" st2] by (auto split: if_splits)
    have g: "x_declared_cl st3 = x_declared_cl st" "x_sender st3" "x_head_sent st3"
        "x_bodiless st3 = x_bodiless st" "x_sent_body st3 = x_sent_body st + len" "x_stage st3 \<noteq> Finalized"
      using h by (subst f1, simp add: st2_def)+
    have g2: "x_stage st3 = x_stage st1" "x_pending st3 = x_pending st1"
      by (subst f1, simp add: st2_def)+
    note live1 = h(7) [OF True]
    show ?thesis
    proof (cases ok2)
      case False
      then have "delivered (x_chan st3) = delivered (x_chan st1)"
        using f send_frame_fields [of "frame len" st2] by (auto simp: st2_def split: if_splits)
      moreover have "exch_ok (x_declared_cl st) (delivered (x_chan st1)) \<and> declares (x_declared_cl st) (delivered (x_chan st1))"
      proof -
        have s: "strm cl (x_bodiless st1) (sent_on_wire st1) (delivered (x_chan st1))"
          using live1 h(4) by (simp add: live_def)
        have c: "\<And>n. cl = Some n \<Longrightarrow> \<not> x_bodiless st1 \<Longrightarrow> sent_on_wire st1 \<le> n"
          using fits h(2,6) assms(1)
          by (force simp: sent_on_wire_def cl_def live_def split: if_splits option.splits)
        have "exch_ok (x_declared_cl st) (delivered (x_chan st1))"
          by (rule exch_ok_strm [OF s]) (use c in \<open>auto simp: sent_on_wire_def\<close>)
        moreover have "declares (x_declared_cl st) (delivered (x_chan st1))"
          using declares_strm [OF s, of _ "[]"] live1 h(1)
          by (cases "x_declared_cl st") (auto simp: live_def)
        ultimately show ?thesis ..
      qed
      ultimately show ?thesis using g False by (simp add: st' discard_xinv)
    next
      case ok2: True
      have s1: "strm cl (x_bodiless st) (sent_on_wire st1) (delivered (x_chan st1))"
        using live1 h(4,6) by (simp add: live_def)
      have s3: "strm cl (x_bodiless st3) (sent_on_wire st3) (delivered (x_chan st3))"
      proof (cases "len > 0 \<and> \<not> x_bodiless st")
        case pos: True
        then have "send_frame T (frame len) st2 = (True, st3)"
          using f ok2 h(6) by (simp add: st2_def)
        from send_frame_fields [OF this] have "delivered (x_chan st3) = delivered (x_chan st1) @ [frame len]"
          by (simp add: st2_def)
        with strm_body [OF s1, of "frame len"] frame [of len] pos g h show ?thesis
          by (simp add: sent_on_wire_def)
      next
        case no: False
        then have "st3 = st2" using f h(6) by (auto simp: st2_def split: if_splits)
        with s1 no g h show ?thesis by (auto simp: sent_on_wire_def st2_def)
      qed
      have live3: "live (delivered (x_chan st3)) cl st3"
        using s3 g g2 live1 h fits by (auto simp: live_def)
      show ?thesis
      proof (cases eos)
        case False
        then have "cl = x_declared_cl st3"
          using g by (auto simp: cl_def split: option.splits)
        with live3 False ok2 show ?thesis by (simp add: st' live_xinv)
      next
        case True
        have "xinv delivered (seal T False st3)"
        proof (rule seal_live_xinv [OF live3 g(3)])
          fix n assume "cl = Some n" "\<not> x_bodiless st3"
          then show "sent_on_wire st3 \<le> n \<and> (sent_on_wire st3 = n \<or> x_declared_cl st3 = Some n)"
            using True fits g assms(1)
            by (auto simp: cl_def sent_on_wire_def live_def split: if_splits option.splits)
        qed
        with True ok2 show ?thesis by (simp add: st')
      qed
    qed
  qed
qed

lemma gone_xinv:
  assumes "xinv delivered st" "cancelled T st = (b, st1)"
  shows "xinv delivered st1" and "xinv delivered (discard_unit st1)"
proof -
  have "xinv delivered st1 \<and> xinv delivered (discard_unit st1)"
  proof (cases "x_stage st = Finalized")
    case True
    with assms have "st1 = st" by (auto simp: xinv_def cancelled_def split: if_splits)
    then show ?thesis using assms(1) True by (simp add: discard_unit_def)
  next
    case False
    then have "live (delivered (x_chan st)) (x_declared_cl st) st" using assms(1) by (simp add: xinv_def)
    from cancelled_live [OF assms(2) this]
    have l: "live (delivered (x_chan st1)) (x_declared_cl st1) st1" "x_stage st1 \<noteq> Finalized"
      using False by auto
    show ?thesis
      using live_xinv [where d = delivered, OF l(1)] discard_xinv [OF l(2), where d = delivered] live_exch_ok [OF l(1)] by blast
  qed
  then show "xinv delivered st1" "xinv delivered (discard_unit st1)" by blast+
qed

lemma emit_only_xinv:
  assumes "xinv delivered st" "x_stage st \<noteq> Finalized" "emit_head H T fin st = (ok, st')"
  shows "\<not> ok \<Longrightarrow> xinv delivered (discard_unit st')"
    and "ok \<Longrightarrow> fin = None \<Longrightarrow> xinv delivered st'"
    and "ok \<Longrightarrow> fin = Some (x_sent_body st) \<Longrightarrow> xinv delivered (seal T False st')"
proof -
  have l: "live (delivered (x_chan st)) (x_declared_cl st) st" using assms by (simp add: xinv_def)
  note e = emit_head_live [OF l assms(3)]
  show "xinv delivered (discard_unit st')" if "\<not> ok"
    using e that by (intro discard_xinv) auto
  show "xinv delivered st'" if "ok" "fin = None"
    using e that by (intro live_xinv) (auto split: option.splits if_splits)
  show "xinv delivered (seal T False st')" if ok and f: "fin = Some (x_sent_body st)"
  proof -
    define cl where "cl = (if x_head_sent st \<or> x_bodiless st then x_declared_cl st
       else case x_declared_cl st of Some n \<Rightarrow> Some n | None \<Rightarrow> fin)"
    have l': "live (delivered (x_chan st')) cl st'" "x_head_sent st'"
      "x_declared_cl st' = x_declared_cl st" "x_sent_body st' = x_sent_body st" "x_bodiless st' = x_bodiless st"
      using e \<open>ok\<close> unfolding cl_def by auto
    show ?thesis
    proof (rule seal_live_xinv [OF l'(1,2)])
      fix n assume "cl = Some n" "\<not> x_bodiless st'"
      then show "sent_on_wire st' \<le> n \<and> (sent_on_wire st' = n \<or> x_declared_cl st' = Some n)"
        using l l'(3-5) f by (auto simp: cl_def sent_on_wire_def live_def split: if_splits option.splits)
    qed
  qed
qed

lemma xinv_cores:
  assumes "xinv delivered st"
  shows "xinv delivered (snd (write_trailers_core H T st))"
    and "100 \<le> status \<Longrightarrow> status \<le> 599 \<Longrightarrow> xinv delivered (snd (write_head_core H T status m st))"
    and "xinv delivered (snd (write_body_core H T p eos st))"
    and "xinv delivered (snd (exchange_flush H T st))"
    and "xinv delivered (snd (send_file_core H T E path offset len_opt eos st))"
    and "xinv delivered (snd (cancelled T st))"
proof -
  obtain b st1 where c: "cancelled T st = (b, st1)" by fastforce
  note i = gone_xinv [OF assms c]
  have live1: "live (delivered (x_chan st1)) (x_declared_cl st1) st1" if "x_stage st1 \<noteq> Finalized"
    using i(1) that by (simp add: xinv_def)
  show "xinv delivered (snd (cancelled T st))" by (simp add: c i)
  obtain k2 s2 where e2: "emit_head H T (Some (x_sent_body st1)) st1 = (k2, s2)" by fastforce
  obtain k3 s3 where e3: "emit_head H T None st1 = (k3, s3)" by fastforce
  note x2 = emit_only_xinv [OF i(1) _ e2] and x3 = emit_only_xinv [OF i(1) _ e3]
  show "xinv delivered (snd (write_trailers_core H T st))"
    using i x2 by (auto simp: write_trailers_core_def c e2)
  show "xinv delivered (snd (exchange_flush H T st))"
    using i x3 by (auto simp: exchange_flush_def c e3)
  show "xinv delivered (snd (write_head_core H T status m st))" if r: "100 \<le> status" "status \<le> 599"
  proof (cases "b \<or> x_stage st1 \<noteq> Open \<or> status \<noteq> 101 \<and> 100 \<le> status \<and> status < 200")
    case True
    then show ?thesis using i by (auto simp: write_head_core_def c)
  next
    case False
    then have "live (delivered (x_chan st1)) (x_declared_cl st1) st1" "\<not> x_head_sent st1"
      using live1 by (auto simp: live_def)
    with False i r show ?thesis
      by (cases "split_framing H m") (auto simp: write_head_core_def c xinv_def live_def)
  qed
  show "xinv delivered (snd (write_body_core H T p eos st))"
  proof (cases "b \<or> x_stage st1 = Finalized \<or> length p = 0 \<and> \<not> eos")
    case True
    then show ?thesis using i by (auto simp: write_body_core_def c)
  next
    case False
    obtain v st' where s: "send_body H T (length p) eos (\<lambda>n. Chunk (take n p)) st1 = (v, st')" by fastforce
    have "xinv delivered st'" by (rule send_body_xinv [OF live1 _ s]) (use False in auto)
    with False s show ?thesis by (auto simp: write_body_core_def c)
  qed
  show "xinv delivered (snd (send_file_core H T E path offset len_opt eos st))"
  proof (cases "b \<or> x_stage st1 = Finalized")
    case True
    then show ?thesis using i by (auto simp: send_file_core_def c)
  next
    case False
    show ?thesis
    proof (cases "open_send_file E path offset len_opt")
      case (Ok r)
      obtain hd1 len where r: "r = (hd1, len)" by fastforce
      obtain v st' where s: "send_body H T len eos (\<lambda>n. File hd1 offset n) st1 = (v, st')" by fastforce
      have "xinv delivered st'" by (rule send_body_xinv [OF live1 _ s]) (use False in auto)
      with False s Ok r i(1) show ?thesis by (auto simp: send_file_core_def c)
    qed (use False i in \<open>simp add: send_file_core_def c\<close>)
  qed
qed

lemma xinv_call: "xinv delivered st \<Longrightarrow> xinv delivered (snd (call_exchange H T E call st))"
  by (cases call) (auto simp: xinv_cores split: result.splits)

lemma xinv_run: "xinv delivered st \<Longrightarrow> xinv delivered (exchange_run H T E calls st)"
  unfolding exchange_run_def
proof (induction calls arbitrary: st)
  case (Cons call calls)
  from Cons.IH [OF xinv_call [OF Cons.prems, of H E call]] show ?case by simp
qed simp

lemma xinv_new: "delivered tx = [] \<Longrightarrow> xinv delivered (exchange_new req tx)"
  by (simp add: xinv_def exchange_new_def live_def)

lemma try_send_delivered:
  assumes "tx_try_send T t f = (r, t')"
  shows "delivered t' = delivered t @ [f] \<or> delivered t' = delivered t"
    and "r = Sent \<Longrightarrow> delivered t' = delivered t @ [f]"
  using try_sent [of t f t'] try_closed [of t f t'] try_full [of t f t'] assms
  by (cases r; auto)+

lemma drop_exch_ok:
  assumes "xinv delivered st"
  shows "exch_ok (x_declared_cl st) (delivered (x_chan (exchange_drop H T died st)))"
proof (cases "x_stage st = Finalized \<or> died")
  case True
  then have "x_chan (exchange_drop H T died st) = x_chan st"
    by (auto simp: exchange_drop_def unlink_body_fields)
  then show ?thesis
    using assms live_exch_ok [of "delivered (x_chan st)" st] by (auto simp: xinv_def split: if_splits)
next
  case False
  then have l: "live (delivered (x_chan st)) (x_declared_cl st) st" using assms by (simp add: xinv_def)
  let ?h = "Head \<lparr>rh_status = 500, rh_headers = h_empty H\<rparr> (if x_bodiless st then None else Some 0) (x_bodiless st)"
  obtain r1 t1 where t1: "tx_try_send T (x_chan st) (End True) = (r1, t1)" by fastforce
  obtain r2 t2 where t2: "tx_try_send T (x_chan st) ?h = (r2, t2)" by fastforce
  obtain r3 t3 where t3: "tx_try_send T t2 (End False) = (r3, t3)" by fastforce
  have ch: "x_chan (exchange_drop H T died st)
      = (if x_head_sent st then t1 else if r2 = Sent then t3 else t2)"
    using False l
    by (cases r2) (simp_all add: exchange_drop_def Let_def unlink_body_fields live_def t1 t2 t3)
  show ?thesis
  proof (cases "x_head_sent st")
    case True
    then have s: "strm (x_declared_cl st) (x_bodiless st) (sent_on_wire st) (delivered (x_chan st))"
      using l by (simp add: live_def)
    have "exch_ok (x_declared_cl st) (delivered (x_chan st) @ [End True])"
      by (rule exch_ok_strm_end [OF s]) (use l in \<open>auto simp: live_def sent_on_wire_def\<close>)
    with try_send_delivered(1) [OF t1] live_exch_ok [OF l] True show ?thesis by (auto simp: ch)
  next
    case no: False
    then have "delivered (x_chan st) = []" using l by (simp add: live_def)
    with try_send_delivered [OF t2] have "delivered t2 = [?h] \<or> delivered t2 = []"
      "r2 = Sent \<Longrightarrow> delivered t2 = [?h]" by auto
    with try_send_delivered(1) [OF t3] no show ?thesis
      by (auto simp: ch exch_ok_def stream_phase_def)
  qed
qed

end

section \<open>Properties\<close>

text \<open>
  C1: whatever the PHP handler calls on its exchange, with whatever arguments and wherever the
  client leaves, the frames that reach the transport form a legal stream: one head with a status
  between 100 and 599, non-empty body frames, one end. A bodiless response has no body bytes, a
  response never has more body bytes than its content-length, and at a clean end it has exactly
  that many unless the handler declared the length itself. Before the exchange is dropped, a sent
  head carries the declared length.
\<close>

theorem exchange_stream:
  assumes "response_channel T delivered closed" and "delivered tx = []"
  shows "let st = exchange_run H T E calls (exchange_new req tx) in
     exch_ok (x_declared_cl st) (delivered (x_chan st))
     \<and> declares (x_declared_cl st) (delivered (x_chan st))
     \<and> exch_ok (x_declared_cl st) (delivered (x_chan (exchange_drop H T died st)))"
proof -
  have x: "xinv delivered (exchange_run H T E calls (exchange_new req tx))"
    by (intro response_channel.xinv_run [OF assms(1)] response_channel.xinv_new [OF assms])
  then have "exch_ok (x_declared_cl st) (delivered (x_chan st))
     \<and> declares (x_declared_cl st) (delivered (x_chan st))"
    if "st = exchange_run H T E calls (exchange_new req tx)" for st
    using live_exch_ok [of "delivered (x_chan st)" st] by (auto simp: xinv_def that split: if_splits)
  then show ?thesis using response_channel.drop_exch_ok [OF assms(1) x] by (simp add: Let_def)
qed

definition sample_fs :: fs_ops where
  "sample_fs =
     \<lparr>fs_is_relative = (\<lambda>p. \<not> starts_with p ''/''), fs_join = (\<lambda>d p. d @ ''/'' @ p),
      fs_components = (\<lambda>p. filter (\<lambda>c. c \<noteq> []) (split_on (CHR ''/'') p)),
      fs_canonicalize = (\<lambda>p. Some (filter (\<lambda>c. c \<noteq> []) (split_on (CHR ''/'') p))),
      fs_open = (\<lambda>p. if p = [''srv'', ''f''] then Some 7 else None),
      fs_metadata = (\<lambda>h. if h = 7 then Some (True, 10) else None)\<rparr>"

definition sample_env :: sendfile_env where
  "sample_env = \<lparr>se_fs = sample_fs, se_root = [''srv''], se_cwd = Some ''/srv''\<rparr>"

definition sample_calls :: "exchange_call list" where
  "sample_calls =
     [WriteHead 200 (Some [(KeyStr ''Content-Length'', ZArray [(KeyIndex 0, ZString ''5'')])]),
      WriteBody ''ab'' False, SendFile ''f'' 1 2 False False, WriteBody ''xyz'' False]"

lemma exchange_stream_witness:
  "let st = exchange_run list_headers script_tx sample_env sample_calls
              (exchange_new sample_request (script_open 1 None)) in
     exch_ok (x_declared_cl st) (sc_sent (x_chan st))
     \<and> sc_sent (x_chan st) = [Head \<lparr>rh_status = 200, rh_headers = []\<rparr> (Some 5) False,
         Chunk ''ab'', File 7 1 2, Chunk ''x'', End False]"
proof -
  let ?st = "exchange_run list_headers script_tx sample_env sample_calls
              (exchange_new sample_request (script_open 1 None))"
  have "exch_ok (x_declared_cl ?st) (sc_sent (x_chan ?st))"
    using exchange_stream [OF rsc.response_channel_axioms, of "script_open 1 None" list_headers
        sample_env sample_calls sample_request] by (simp add: Let_def script_open_def)
  moreover have "sc_sent (x_chan ?st) = [Head \<lparr>rh_status = 200, rh_headers = []\<rparr> (Some 5) False,
         Chunk ''ab'', File 7 1 2, Chunk ''x'', End False]" by code_simp
  ultimately show ?thesis by (simp add: Let_def)
qed

text \<open>
  C4: over its whole life, from receive() to the drop of its state, an exchange reports exactly one handled
  unit to the scoreboard, whatever the script calls, whenever the client leaves, and also after a bailout of the
  engine. A finalized exchange reports when it is finalized, as an error exactly when it was discarded, and its
  drop adds nothing; one that is still open when it is dropped is reported then, as an error. The removal of
  each spool file of the request is asked for exactly once, at the latest by the drop.
\<close>

theorem exchange_reports_once:
  "let st = exchange_run H T E calls (exchange_new req tx) in
     x_events st = (if x_stage st = Finalized then [Handled (x_discarded st)] else [])
     \<and> x_removed (exchange_drop H T died st) = left_paths (body_state_of (rq_body req))
     \<and> x_events (exchange_drop H T died st) = [Handled (if x_stage st = Finalized then x_discarded st else True)]
     \<and> \<not> x_sender (exchange_drop H T died st)"
proof -
  have b: "book_inv (left_paths (body_state_of (rq_body req))) (exchange_run H T E calls (exchange_new req tx))"
    by (rule book_run, rule book_new)
  show ?thesis
    using exchange_drop_book [OF b, of H T died] b
    by (simp add: Let_def book_inv_def split: if_splits)
qed

text \<open>
  C5: \<open>sendFile()\<close> opens a slice exactly when the path names a regular file whose canonical path
  lies under the configured root and the slice ends within the file; the slice then has the asked
  length, or runs to the end of the file.
\<close>

theorem open_send_file_exact:
  "open_send_file E path offset len_opt = Ok (fh, len) \<longleftrightarrow>
     (\<exists>full canonical fsize. sendfile_target E path = Some full
        \<and> fs_canonicalize (se_fs E) full = Some canonical
        \<and> (\<exists>below. canonical = se_root E @ below)
        \<and> fs_open (se_fs E) canonical = Some fh
        \<and> fs_metadata (se_fs E) fh = Some (True, fsize)
        \<and> offset + len \<le> fsize
        \<and> (case len_opt of Some l \<Rightarrow> len = l | None \<Rightarrow> offset + len = fsize))"
proof (cases "sendfile_target E path")
  case (Some full)
  have pre: "take (length r) c = r \<longleftrightarrow> (\<exists>below. c = r @ below)" for r c :: "bytes list"
    by (metis append_eq_conv_conj append_take_drop_id)
  show ?thesis
  proof (cases "fs_canonicalize (se_fs E) full")
    case c: (Some canonical)
    show ?thesis
    proof (cases "fs_open (se_fs E) canonical")
      case o: (Some f)
      show ?thesis
      proof (cases "fs_metadata (se_fs E) f")
        case m: (Some meta)
        obtain is_file fsize where "meta = (is_file, fsize)" by fastforce
        with Some c o m show ?thesis
          by (cases len_opt) (auto simp: open_send_file_def Let_def pre)
      qed (use Some c o in \<open>auto simp: open_send_file_def Let_def\<close>)
    qed (use Some c in \<open>auto simp: open_send_file_def Let_def\<close>)
  qed (use Some in \<open>simp add: open_send_file_def Let_def\<close>)
qed (simp add: open_send_file_def Let_def)

text \<open>
  A finalized exchange is inert: every further call leaves its state, its channel and its
  reports alone, and every call but the cancellation query throws.
\<close>

theorem finalized_exchange_is_inert:
  assumes "x_stage st = Finalized" and "\<not> x_sender st"
  shows "snd (call_exchange H T E call st) = st
     \<and> (call \<noteq> IsCancelled \<longrightarrow> fst (call_exchange H T E call st) \<noteq> None)"
proof -
  have c: "cancelled T st = (x_discarded st, st)" using assms by (simp add: cancelled_def)
  have d: "discard_unit st = st" using assms by (simp add: discard_unit_def)
  show ?thesis using assms
    by (cases call) (auto simp: c d write_head_core_def write_body_core_def send_file_core_def
        exchange_flush_def write_trailers_core_def split: result.splits)
qed

lemma finalized_exchange_is_inert_witness:
  "\<exists>st. x_stage st = Finalized \<and> \<not> x_sender st
     \<and> snd (call_exchange list_headers script_tx sample_env (WriteBody ''a'' False) st) = st
     \<and> fst (call_exchange list_headers script_tx sample_env (WriteBody ''a'' False) st) \<noteq> None"
proof -
  let ?st = "(exchange_new sample_request (script_open 1 None))\<lparr>x_stage := Finalized, x_sender := False\<rparr>"
  have "x_stage ?st = Finalized" "\<not> x_sender ?st" by simp_all
  from finalized_exchange_is_inert [OF this, of list_headers script_tx sample_env "WriteBody ''a'' False"]
  show ?thesis by (intro exI [of _ ?st]) simp
qed

text \<open>
  With a client that stays, a handler that writes its whole body in one call gets it out whole:
  an implicit 200 head with the exact content-length, the bytes in one chunk, a clean end.
\<close>

theorem one_shot_body_is_delivered:
  assumes "response_channel T delivered closed" and "\<And>t. \<not> closed t"
    and "delivered tx = []" and "rq_method req \<noteq> ''HEAD''"
  shows "case write_body_core H T p True (exchange_new req tx) of (v, st) \<Rightarrow>
     v = VOk \<and> x_stage st = Finalized
     \<and> delivered (x_chan st) =
         [Head \<lparr>rh_status = 200, rh_headers = h_empty H\<rparr> (Some (length p)) False]
         @ (if p = [] then [] else [Chunk p]) @ [End False]"
proof -
  have push: "\<exists>t'. push_frame T t f = (True, t') \<and> delivered t' = delivered t @ [f]" for t f
    using frame_channel.push_frame_True [of T delivered closed t f]
      frame_channel.push_frame_False [of T delivered closed t f] assms(1,2)
    by (cases "push_frame T t f") (auto simp: response_channel_def)
  let ?st = "exchange_new req tx" and ?hd = "Head \<lparr>rh_status = 200, rh_headers = h_empty H\<rparr> (Some (length p)) False"
  obtain b t0 where c: "tx_is_closed T tx = (b, t0)" by fastforce
  have t0: "\<not> b" "delivered t0 = []"
    using frame_channel.is_closed [OF _ c, of delivered closed] assms by (auto simp: response_channel_def)
  obtain t1 where t1: "push_frame T t0 ?hd = (True, t1)" "delivered t1 = [?hd]"
    using push [of t0 ?hd] t0 by auto
  obtain t2 where t2: "push_frame T t1 (Chunk p) = (True, t2)" "delivered t2 = [?hd, Chunk p]"
    using push [of t1 "Chunk p"] t1 by auto
  obtain t3 where t3: "push_frame T t2 (End False) = (True, t3)" "delivered t3 = [?hd, Chunk p, End False]"
    using push [of t2 "End False"] t2 by auto
  obtain t4 where t4: "push_frame T t1 (End False) = (True, t4)" "delivered t4 = [?hd, End False]"
    using push [of t1 "End False"] t1 by auto
  show ?thesis
    using assms(4) c t0 t1 t2 t3 t4
    by (simp add: write_body_core_def cancelled_def exchange_new_def send_body_def emit_head_def
        send_frame_def seal_def Let_def unlink_body_def split: prod.split)
qed

text \<open>The scripted channel with no closing time never closes on its own; as a channel of that kind.\<close>

definition open_tx :: "('f list, 'f) tx_ops" where
  "open_tx = \<lparr>tx_is_closed = (\<lambda>c. (False, c)), tx_try_send = (\<lambda>c f. (Sent, c @ [f])),
              tx_blocking_send = (\<lambda>c f. (True, c @ [f]))\<rparr>"

interpretation otx: response_channel open_tx "\<lambda>c. c" "\<lambda>_. False"
  by unfold_locales (auto simp: open_tx_def)

lemma one_shot_body_is_delivered_witness:
  "case write_body_core list_headers open_tx ''hi'' True (exchange_new sample_request []) of (v, st) \<Rightarrow>
     v = VOk \<and> x_chan st
       = [Head \<lparr>rh_status = 200, rh_headers = []\<rparr> (Some 2) False, Chunk ''hi'', End False]"
  using one_shot_body_is_delivered [OF otx.response_channel_axioms, of "[]" sample_request list_headers "''hi''"]
  by (simp add: sample_request_def list_headers_def case_prod_beta')

end
