(* ===== verification/Intake.thy ===== *)
theory Intake
  imports Scoreboard
begin

text \<open>
  The intake of a worker pool (\<open>sapi/src/work.rs\<close>): a queue from the plugin tasks to the PHP
  threads, bounded by two semaphores, one over the bytes of all request bodies the pool holds and
  one over the queue slots. The semaphores are tokio's, so they are a parameter with the locale
  \<open>semaphore\<close>. The second half composes any number of plugin tasks and the PHP threads into one
  system and steps it by actions in any order.
\<close>

section \<open>Semaphores\<close>

datatype acquire_outcome = Acquired | NoPermits | SemClosed

record 's sem_ops =
  sem_new :: "nat \<Rightarrow> 's"
  sem_try_acquire :: "'s \<Rightarrow> nat \<Rightarrow> acquire_outcome \<times> 's"
  sem_release :: "'s \<Rightarrow> nat \<Rightarrow> 's"
  sem_close :: "'s \<Rightarrow> 's"

locale semaphore =
  fixes S :: "'s sem_ops" and avail :: "'s \<Rightarrow> nat" and sem_closed :: "'s \<Rightarrow> bool"
  assumes new: "avail (sem_new S n) = n" "\<not> sem_closed (sem_new S n)"
    and acquired: "sem_try_acquire S s n = (Acquired, s') \<Longrightarrow>
      \<not> sem_closed s \<and> \<not> sem_closed s' \<and> n \<le> avail s \<and> avail s' = avail s - n"
    and no_permits: "sem_try_acquire S s n = (NoPermits, s') \<Longrightarrow>
      s' = s \<and> \<not> sem_closed s \<and> avail s < n"
    and was_closed: "sem_try_acquire S s n = (SemClosed, s') \<Longrightarrow> s' = s \<and> sem_closed s"
    and release: "avail (sem_release S s n) = avail s + n"
      "sem_closed (sem_release S s n) = sem_closed s"
    and close: "avail (sem_close S s) = avail s" "sem_closed (sem_close S s)"

definition count_sem :: "(nat \<times> bool) sem_ops" where
  "count_sem =
     \<lparr>sem_new = (\<lambda>n. (n, False)),
      sem_try_acquire = (\<lambda>(a, c) n. if c then (SemClosed, (a, c))
         else if n \<le> a then (Acquired, (a - n, c)) else (NoPermits, (a, c))),
      sem_release = (\<lambda>(a, c) n. (a + n, c)),
      sem_close = (\<lambda>(a, c). (a, True))\<rparr>"

interpretation cs: semaphore count_sem fst snd
  by unfold_locales (auto simp: count_sem_def split: if_splits)

section \<open>The intake\<close>

definition INTAKE_WAIT_SECS :: nat where "INTAKE_WAIT_SECS = 30"
definition INTAKE_SLOTS :: nat where "INTAKE_SLOTS = 1024"
definition BODY_BUDGET :: nat where "BODY_BUDGET = 64 * 2 ^ 20"

datatype refused = Saturated | OverBudget | Stopped

definition refused_text :: "refused \<Rightarrow> string" where
  "refused_text r = (case r of
       Saturated \<Rightarrow> ''worker pool saturated for '' @ decimal INTAKE_WAIT_SECS @ ''s''
     | OverBudget \<Rightarrow> ''request bodies use all '' @ decimal (BODY_BUDGET div 2 ^ 20) @ '' MiB of the pool budget''
     | Stopped \<Rightarrow> ''worker pool stopped'')"

text \<open>
  \<open>i_queue\<close> is the channel: one entry per queued unit, its body permits (each entry also holds one
  slot permit). \<open>i_connected\<close> says that a receiver exists.
\<close>

record 's intake =
  i_pool :: pool
  i_budget :: 's
  i_slots :: 's
  i_queue :: "nat list"
  i_connected :: bool

definition intake_new :: "'s sem_ops \<Rightarrow> pool \<Rightarrow> 's intake" where
  "intake_new S p =
     \<lparr>i_pool = p, i_budget = sem_new S BODY_BUDGET, i_slots = sem_new S INTAKE_SLOTS,
      i_queue = [], i_connected = True\<rparr>"

definition intake_close :: "'s sem_ops \<Rightarrow> 's intake \<Rightarrow> 's intake" where
  "intake_close S i = i\<lparr>i_budget := sem_close S (i_budget i), i_slots := sem_close S (i_slots i)\<rparr>"

definition count_shed :: "'s intake \<Rightarrow> 's intake" where
  "count_shed i = i\<lparr>i_pool := (i_pool i)\<lparr>pool_shed := pool_shed (i_pool i) + 1\<rparr>\<rparr>"

definition add_pending :: "64 word \<Rightarrow> 's intake \<Rightarrow> 's intake" where
  "add_pending d i = i\<lparr>i_pool := (i_pool i)\<lparr>pool_pending := pool_pending (i_pool i) + d\<rparr>\<rparr>"

text \<open>\<open>PendingGuard\<close>: armed by \<open>add_pending 1\<close>, disarmed by doing nothing more.\<close>

definition guard_drop :: "bool \<Rightarrow> 's intake \<Rightarrow> 's intake" where
  "guard_drop found_full i0 =
     (let i = add_pending (- 1) i0 in
      if found_full
      then i\<lparr>i_pool := (i_pool i)\<lparr>pool_failed_on_full := pool_failed_on_full (i_pool i) + 1\<rparr>\<rparr>
      else i)"

definition reserve_body :: "'s sem_ops \<Rightarrow> nat \<Rightarrow> 's intake \<Rightarrow> (nat, refused) result \<times> 's intake" where
  "reserve_body S n i =
     (case sem_try_acquire S (i_budget i) (min n BODY_BUDGET) of
        (Acquired, b) \<Rightarrow> (Ok (min n BODY_BUDGET), i\<lparr>i_budget := b\<rparr>)
      | (SemClosed, b) \<Rightarrow> (Err Stopped, i\<lparr>i_budget := b\<rparr>)
      | (NoPermits, b) \<Rightarrow> (Err OverBudget, count_shed (i\<lparr>i_budget := b\<rparr>)))"

text \<open>The permits held after the call, its result and the intake.\<close>

definition grow_body ::
  "'s sem_ops \<Rightarrow> nat \<Rightarrow> nat \<Rightarrow> 's intake \<Rightarrow> (nat \<times> (unit, refused) result) \<times> 's intake" where
  "grow_body S held n i =
     (let extra = min n BODY_BUDGET - held in
      if extra > 0
      then (case reserve_body S extra i of
              (Ok extra_held, i') \<Rightarrow> ((held + extra_held, Ok ()), i')
            | (Err e, i') \<Rightarrow> ((held, Err e), i'))
      else ((held, Ok ()), i))"

text \<open>Dropping an owned permit returns it.\<close>

definition release_body :: "'s sem_ops \<Rightarrow> nat \<Rightarrow> 's intake \<Rightarrow> 's intake" where
  "release_body S held i = i\<lparr>i_budget := sem_release S (i_budget i) held\<rparr>"

definition release_slot :: "'s sem_ops \<Rightarrow> 's intake \<Rightarrow> 's intake" where
  "release_slot S i = i\<lparr>i_slots := sem_release S (i_slots i) 1\<rparr>"

text \<open>
  The steps of \<open>submit\<close>: it arms the guard, which counts the unit as pending, tries to acquire a slot, and with the
  slot in hand (\<open>None\<close>) it sends the entry. A failed send drops the entry and the guard.
\<close>

datatype submit_outcome = Queued | RefusedAs refused | WaitForSlot | DroppedWhileWaiting

definition submit_arm :: "'s intake \<Rightarrow> 's intake" where
  "submit_arm i = add_pending 1 i"

definition submit_acquire ::
  "'s sem_ops \<Rightarrow> bool \<Rightarrow> nat \<Rightarrow> 's intake \<Rightarrow> submit_outcome option \<times> 's intake" where
  "submit_acquire S found_full held i = (case sem_try_acquire S (i_slots i) 1 of
       (Acquired, s) \<Rightarrow> (None, i\<lparr>i_slots := s\<rparr>)
     | (SemClosed, s) \<Rightarrow>
         (Some (RefusedAs Stopped), guard_drop found_full (release_body S held (i\<lparr>i_slots := s\<rparr>)))
     | (NoPermits, s) \<Rightarrow> (Some WaitForSlot, i\<lparr>i_slots := s\<rparr>))"

definition submit_with_slot ::
  "'s sem_ops \<Rightarrow> bool \<Rightarrow> nat \<Rightarrow> 's intake \<Rightarrow> submit_outcome \<times> 's intake" where
  "submit_with_slot S found_full held i =
     (if i_connected i then (Queued, i\<lparr>i_queue := i_queue i @ [held]\<rparr>)
      else (RefusedAs Stopped, guard_drop found_full (release_slot S (release_body S held i))))"

text \<open>The run of the steps up to the only await, and after it, as one task sees them.\<close>

definition submit_start ::
  "'s sem_ops \<Rightarrow> nat \<Rightarrow> 's intake \<Rightarrow> submit_outcome \<times> 's intake" where
  "submit_start S held i = (case submit_acquire S False held (submit_arm i) of
       (None, i') \<Rightarrow> submit_with_slot S False held i'
     | (Some out, i') \<Rightarrow> (out, i'))"

text \<open>
  How the wait ends: the semaphore answers (a slot, or closed), the timeout passes, or the plugin
  drops the future because the client left.
\<close>

datatype wake = SlotReady | TimedOut | FutureDropped

definition submit_wake ::
  "'s sem_ops \<Rightarrow> wake \<Rightarrow> nat \<Rightarrow> 's intake \<Rightarrow> submit_outcome option \<times> 's intake" where
  "submit_wake S w held i = (case w of
       SlotReady \<Rightarrow> submit_acquire S True held i
     | TimedOut \<Rightarrow> (Some (RefusedAs Saturated), guard_drop True (release_body S held (count_shed i)))
     | FutureDropped \<Rightarrow> (Some DroppedWhileWaiting, guard_drop True (release_body S held i)))"

definition submit_resume ::
  "'s sem_ops \<Rightarrow> wake \<Rightarrow> nat \<Rightarrow> 's intake \<Rightarrow> submit_outcome \<times> 's intake" where
  "submit_resume S w held i = (case submit_wake S w held i of
       (None, i') \<Rightarrow> submit_with_slot S True held i'
     | (Some out, i') \<Rightarrow> (out, i'))"

text \<open>
  A PHP thread takes the oldest entry, lowers \<open>pending\<close> and gives the entry's permits back, in
  \<open>UnitRx::recv\<close> and in \<open>pull_unit_try\<close> alike.
\<close>

definition pull_take :: "'s intake \<Rightarrow> nat option \<times> 's intake" where
  "pull_take i = (case i_queue i of [] \<Rightarrow> (None, i) | held # rest \<Rightarrow> (Some held, i\<lparr>i_queue := rest\<rparr>))"

definition pull_count :: "'s intake \<Rightarrow> 's intake" where
  "pull_count i = add_pending (- 1) i"

definition pull_release :: "'s sem_ops \<Rightarrow> nat \<Rightarrow> 's intake \<Rightarrow> 's intake" where
  "pull_release S held i = release_slot S (release_body S held i)"

definition dequeue :: "'s sem_ops \<Rightarrow> 's intake \<Rightarrow> nat option \<times> 's intake" where
  "dequeue S i = (case pull_take i of
       (None, i') \<Rightarrow> (None, i')
     | (Some held, i') \<Rightarrow> (Some held, pull_release S held (pull_count i')))"

section \<open>Plugin tasks and PHP threads in any order\<close>

text \<open>
  A task between two of its steps; its number is the body permits it holds. A plugin task reads a body, is
  counted as pending, waits for a slot, or has one (and knows whether it found the queue full); a PHP thread
  took an entry from the queue, and then lowered \<open>pending\<close> for it.
\<close>

datatype task = Reading nat | Armed nat | Waiting nat | Slotted bool nat | Taken nat | Counted nat

primrec held_by :: "task \<Rightarrow> nat" where
  "held_by (Reading n) = n"
| "held_by (Armed n) = n"
| "held_by (Waiting n) = n"
| "held_by (Slotted f n) = n"
| "held_by (Taken n) = n"
| "held_by (Counted n) = n"

text \<open>The slot permits and the pending counts that belong to a task.\<close>

primrec slots_by :: "task \<Rightarrow> nat" where
  "slots_by (Reading n) = 0"
| "slots_by (Armed n) = 0"
| "slots_by (Waiting n) = 0"
| "slots_by (Slotted f n) = 1"
| "slots_by (Taken n) = 1"
| "slots_by (Counted n) = 1"

primrec pending_by :: "task \<Rightarrow> nat" where
  "pending_by (Reading n) = 0"
| "pending_by (Armed n) = 1"
| "pending_by (Waiting n) = 1"
| "pending_by (Slotted f n) = 1"
| "pending_by (Taken n) = 1"
| "pending_by (Counted n) = 0"

record 's system =
  sy_intake :: "'s intake"
  sy_tasks :: "task list"
  sy_refused :: "refused list" \<comment> \<open>every refusal so far\<close>
  sy_gone_full :: nat          \<comment> \<open>units that found the queue full and never entered it\<close>

datatype action =
    Arrive nat              \<comment> \<open>a task reserves for its body\<close>
  | Grow nat nat            \<comment> \<open>task, bytes of the body so far\<close>
  | Abandon nat             \<comment> \<open>a reading task is dropped\<close>
  | Arm nat                 \<comment> \<open>the three steps of a submit\<close>
  | Acquire nat
  | Send nat
  | Resume nat wake
  | Take                    \<comment> \<open>the three steps of a PHP thread\<close>
  | CountPull nat
  | ReleasePull nat
  | Close

definition drop_task :: "nat \<Rightarrow> task list \<Rightarrow> task list" where
  "drop_task k ts = take k ts @ drop (Suc k) ts"

definition set_task :: "nat \<Rightarrow> task \<Rightarrow> 's intake \<Rightarrow> 's system \<Rightarrow> 's system" where
  "set_task k t i sy = sy\<lparr>sy_intake := i, sy_tasks := (sy_tasks sy)[k := t]\<rparr>"

text \<open>What a step of a submit leaves of its task: a slot in hand, a wait, or nothing.\<close>

definition after_submit ::
  "nat \<Rightarrow> bool \<Rightarrow> nat \<Rightarrow> submit_outcome option \<times> 's intake \<Rightarrow> 's system \<Rightarrow> 's system" where
  "after_submit k full held r sy = (case r of
       (None, i) \<Rightarrow> set_task k (Slotted full held) i sy
     | (Some Queued, i) \<Rightarrow> sy\<lparr>sy_intake := i, sy_tasks := drop_task k (sy_tasks sy)\<rparr>
     | (Some (RefusedAs e), i) \<Rightarrow>
         sy\<lparr>sy_intake := i, sy_tasks := drop_task k (sy_tasks sy), sy_refused := sy_refused sy @ [e],
            sy_gone_full := sy_gone_full sy + (if full then 1 else 0)\<rparr>
     | (Some DroppedWhileWaiting, i) \<Rightarrow>
         sy\<lparr>sy_intake := i, sy_tasks := drop_task k (sy_tasks sy),
            sy_gone_full := sy_gone_full sy + (if full then 1 else 0)\<rparr>
     | (Some WaitForSlot, i) \<Rightarrow> set_task k (Waiting held) i sy)"

text \<open>The step of the task in question, if the action is one that it can take.\<close>

definition task_at :: "nat \<Rightarrow> 's system \<Rightarrow> task option" where
  "task_at k sy = (if k < length (sy_tasks sy) then Some (sy_tasks sy ! k) else None)"

fun act :: "'s sem_ops \<Rightarrow> action \<Rightarrow> 's system \<Rightarrow> 's system" where
  "act S (Arrive n) sy = (case reserve_body S n (sy_intake sy) of
       (Ok held, i) \<Rightarrow> sy\<lparr>sy_intake := i, sy_tasks := sy_tasks sy @ [Reading held]\<rparr>
     | (Err e, i) \<Rightarrow> sy\<lparr>sy_intake := i, sy_refused := sy_refused sy @ [e]\<rparr>)"
| "act S (Grow k n) sy = (case task_at k sy of
       Some (Reading held) \<Rightarrow> (case grow_body S held n (sy_intake sy) of
           ((held', Ok _), i) \<Rightarrow> set_task k (Reading held') i sy
         | ((held', Err e), i) \<Rightarrow>
             sy\<lparr>sy_intake := release_body S held' i, sy_tasks := drop_task k (sy_tasks sy),
                sy_refused := sy_refused sy @ [e]\<rparr>)
     | _ \<Rightarrow> sy)"
| "act S (Abandon k) sy = (case task_at k sy of
       Some (Reading held) \<Rightarrow>
         sy\<lparr>sy_intake := release_body S held (sy_intake sy), sy_tasks := drop_task k (sy_tasks sy)\<rparr>
     | _ \<Rightarrow> sy)"
| "act S (Arm k) sy = (case task_at k sy of
       Some (Reading held) \<Rightarrow> set_task k (Armed held) (submit_arm (sy_intake sy)) sy
     | _ \<Rightarrow> sy)"
| "act S (Acquire k) sy = (case task_at k sy of
       Some (Armed held) \<Rightarrow> after_submit k False held (submit_acquire S False held (sy_intake sy)) sy
     | _ \<Rightarrow> sy)"
| "act S (Send k) sy = (case task_at k sy of
       Some (Slotted full held) \<Rightarrow>
         after_submit k full held (map_prod Some id (submit_with_slot S full held (sy_intake sy))) sy
     | _ \<Rightarrow> sy)"
| "act S (Resume k w) sy = (case task_at k sy of
       Some (Waiting held) \<Rightarrow> after_submit k True held (submit_wake S w held (sy_intake sy)) sy
     | _ \<Rightarrow> sy)"
| "act S Take sy = (case pull_take (sy_intake sy) of
       (None, i) \<Rightarrow> sy\<lparr>sy_intake := i\<rparr>
     | (Some held, i) \<Rightarrow> sy\<lparr>sy_intake := i, sy_tasks := sy_tasks sy @ [Taken held]\<rparr>)"
| "act S (CountPull k) sy = (case task_at k sy of
       Some (Taken held) \<Rightarrow> set_task k (Counted held) (pull_count (sy_intake sy)) sy
     | _ \<Rightarrow> sy)"
| "act S (ReleasePull k) sy = (case task_at k sy of
       Some (Counted held) \<Rightarrow>
         sy\<lparr>sy_intake := pull_release S held (sy_intake sy), sy_tasks := drop_task k (sy_tasks sy)\<rparr>
     | _ \<Rightarrow> sy)"
| "act S Close sy = sy\<lparr>sy_intake := intake_close S (sy_intake sy)\<rparr>"

definition system_new :: "'s sem_ops \<Rightarrow> pool \<Rightarrow> 's system" where
  "system_new S p = \<lparr>sy_intake = intake_new S p, sy_tasks = [], sy_refused = [], sy_gone_full = 0\<rparr>"

inductive reachable :: "'s sem_ops \<Rightarrow> pool \<Rightarrow> 's system \<Rightarrow> bool" for S p where
  start: "reachable S p (system_new S p)"
| step: "reachable S p sy \<Longrightarrow> reachable S p (act S a sy)"

section \<open>Conservation\<close>

definition total_by :: "(task \<Rightarrow> nat) \<Rightarrow> task list \<Rightarrow> nat" where
  "total_by f ts = sum_list (map f ts)"

lemma total_by_simps [simp]:
  "total_by f [] = 0" "total_by f (t # ts) = f t + total_by f ts"
  "total_by f (ts @ us) = total_by f ts + total_by f us"
  by (simp_all add: total_by_def)

lemma total_by_split:
  assumes "k < length ts"
  shows "total_by f ts = total_by f (take k ts) + f (ts ! k) + total_by f (drop (Suc k) ts)"
  by (subst id_take_nth_drop [OF assms]) simp

lemma total_by_update:
  "task_at k sy = Some t \<Longrightarrow> total_by f ((sy_tasks sy)[k := u]) + f t = total_by f (sy_tasks sy) + f u"
  "task_at k sy = Some t \<Longrightarrow> total_by f (drop_task k (sy_tasks sy)) + f t = total_by f (sy_tasks sy)"
  using total_by_split [of k "sy_tasks sy" f]
  by (auto simp: task_at_def upd_conv_take_nth_drop drop_task_def split: if_splits)

definition sheds :: "refused list \<Rightarrow> nat" where
  "sheds rs = length (filter (\<lambda>r. r \<noteq> Stopped) rs)"

text \<open>What holds of the intake in every reachable state: \<open>held\<close> permits are with tasks.\<close>

definition balanced :: "('s \<Rightarrow> nat) \<Rightarrow> nat \<Rightarrow> 's intake \<Rightarrow> bool" where
  "balanced avail held i \<longleftrightarrow>
     i_connected i
     \<and> avail (i_budget i) + held + sum_list (i_queue i) = BODY_BUDGET
     \<and> avail (i_slots i) + length (i_queue i) = INTAKE_SLOTS"

definition counted :: "pool \<Rightarrow> nat \<Rightarrow> nat \<Rightarrow> nat \<Rightarrow> 's intake \<Rightarrow> bool" where
  "counted p waiting full shed i \<longleftrightarrow>
     pool_pending (i_pool i) = pool_pending p + of_nat (length (i_queue i) + waiting)
     \<and> pool_failed_on_full (i_pool i) = pool_failed_on_full p + of_nat full
     \<and> pool_shed (i_pool i) = pool_shed p + of_nat shed"

text \<open>The same with \<open>slots\<close> slot permits in the hands of tasks.\<close>

definition shares :: "('s \<Rightarrow> nat) \<Rightarrow> nat \<Rightarrow> nat \<Rightarrow> 's intake \<Rightarrow> bool" where
  "shares avail held slots i \<longleftrightarrow>
     i_connected i
     \<and> avail (i_budget i) + held + sum_list (i_queue i) = BODY_BUDGET
     \<and> avail (i_slots i) + slots + length (i_queue i) = INTAKE_SLOTS"

definition sys_inv :: "('s \<Rightarrow> nat) \<Rightarrow> pool \<Rightarrow> 's system \<Rightarrow> bool" where
  "sys_inv avail p sy \<longleftrightarrow>
     shares avail (total_by held_by (sy_tasks sy)) (total_by slots_by (sy_tasks sy)) (sy_intake sy)
     \<and> counted p (total_by pending_by (sy_tasks sy)) (sy_gone_full sy) (sheds (sy_refused sy)) (sy_intake sy)"

lemma sheds_snoc [simp]: "sheds (rs @ [r]) = sheds rs + (if r \<noteq> Stopped then 1 else 0)"
  by (simp add: sheds_def)

lemmas intake_ops = release_body_def release_slot_def guard_drop_def add_pending_def count_shed_def
  submit_with_slot_def submit_arm_def submit_acquire_def submit_wake_def pull_take_def pull_count_def
  pull_release_def

context semaphore
begin

lemma reserve_body_Ok:
  assumes "reserve_body S n i = (Ok h, i')" "balanced avail held i" "counted p w f d i"
  shows "balanced avail (held + h) i' \<and> counted p w f d i' \<and> h \<le> BODY_BUDGET"
  using assms
  by (auto simp: reserve_body_def balanced_def counted_def dest!: acquired split: prod.splits acquire_outcome.splits)

lemma reserve_body_Err:
  assumes "reserve_body S n i = (Err e, i')" "balanced avail held i" "counted p w f d i"
  shows "balanced avail held i' \<and> counted p w f (d + (if e \<noteq> Stopped then 1 else 0)) i'"
  using assms
  by (auto simp: reserve_body_def balanced_def counted_def count_shed_def dest!: no_permits was_closed
      split: prod.splits acquire_outcome.splits)

lemma grow_body_inv:
  assumes "grow_body S h n i = ((h', r), i')" "balanced avail (held + h) i" "counted p w f d i"
  shows "balanced avail (held + h') i'
     \<and> counted p w f (d + (case r of Ok _ \<Rightarrow> 0 | Err e \<Rightarrow> if e \<noteq> Stopped then 1 else 0)) i'"
proof (cases "min n BODY_BUDGET - h > 0")
  case False
  with assms show ?thesis by (auto simp: grow_body_def Let_def split: if_splits)
next
  case True
  obtain q i2 where r: "reserve_body S (min n BODY_BUDGET - h) i = (q, i2)" by fastforce
  show ?thesis
  proof (cases q)
    case (Ok e)
    from reserve_body_Ok [OF r [unfolded Ok] assms(2,3)] True assms(1) Ok show ?thesis
      by (auto simp: grow_body_def Let_def r add.assoc)
  next
    case (Err e)
    from reserve_body_Err [OF r [unfolded Err] assms(2,3)] True assms(1) Err show ?thesis
      by (auto simp: grow_body_def Let_def r)
  qed
qed

lemma release_body_inv:
  "balanced avail (held + h) i \<Longrightarrow> balanced avail held (release_body S h i)"
  "counted p w f d i \<Longrightarrow> counted p w f d (release_body S h i)"
  by (simp_all add: balanced_def counted_def release_body_def release)

lemma submit_start_inv:
  assumes "submit_start S h i = (r, i')" "balanced avail (held + h) i" "counted p w f d i"
  shows "case r of
      Queued \<Rightarrow> balanced avail held i' \<and> counted p w f d i'
    | RefusedAs e \<Rightarrow> e = Stopped \<and> balanced avail held i' \<and> counted p w f d i'
    | WaitForSlot \<Rightarrow> balanced avail (held + h) i' \<and> counted p (w + 1) f d i'
    | DroppedWhileWaiting \<Rightarrow> False"
proof -
  obtain o' s where a: "sem_try_acquire S (i_slots i) 1 = (o', s)" by fastforce
  show ?thesis
    using assms a
    by (cases o') (auto simp: submit_start_def Let_def intake_ops balanced_def counted_def release
        dest: acquired no_permits was_closed)
qed

lemma submit_resume_inv:
  assumes "submit_resume S wk h i = (r, i')" "balanced avail (held + h) i" "counted p (w + 1) f d i"
  shows "case r of
      Queued \<Rightarrow> balanced avail held i' \<and> counted p w f d i'
    | RefusedAs e \<Rightarrow> balanced avail held i' \<and> counted p w (f + 1) (d + (if e \<noteq> Stopped then 1 else 0)) i'
    | WaitForSlot \<Rightarrow> balanced avail (held + h) i' \<and> counted p (w + 1) f d i'
    | DroppedWhileWaiting \<Rightarrow> balanced avail held i' \<and> counted p w (f + 1) d i'"
proof (cases wk)
  case SlotReady
  obtain o' s where a: "sem_try_acquire S (i_slots i) 1 = (o', s)" by fastforce
  show ?thesis
    using assms a SlotReady
    by (cases o') (auto simp: submit_resume_def Let_def intake_ops balanced_def counted_def release
        dest: acquired no_permits was_closed)
qed (use assms in \<open>auto simp: submit_resume_def Let_def intake_ops balanced_def counted_def release\<close>)

lemma dequeue_inv:
  assumes "balanced avail held i" "counted p w f d i"
  shows "balanced avail held (snd (dequeue S i)) \<and> counted p w f d (snd (dequeue S i))"
  using assms
  by (cases "i_queue i")
    (auto simp: dequeue_def intake_ops balanced_def counted_def release)

text \<open>The steps of the system on the shares.\<close>

lemma shares_reserve:
  assumes "reserve_body S n i = (r, i')" "shares avail held slots i" "counted p w f d i"
  shows "case r of Ok h \<Rightarrow> shares avail (held + h) slots i' \<and> counted p w f d i'
    | Err e \<Rightarrow> shares avail held slots i' \<and> counted p w f (d + (if e \<noteq> Stopped then 1 else 0)) i'"
  using assms
  by (auto simp: reserve_body_def shares_def counted_def count_shed_def dest!: acquired no_permits was_closed
      split: prod.splits acquire_outcome.splits)

lemma shares_grow:
  assumes "grow_body S h n i = ((h', r), i')" "shares avail (held + h) slots i" "counted p w f d i"
  shows "shares avail (held + h') slots i'
     \<and> counted p w f (d + (case r of Ok _ \<Rightarrow> 0 | Err e \<Rightarrow> if e \<noteq> Stopped then 1 else 0)) i'"
proof (cases "min n BODY_BUDGET - h > 0")
  case False
  with assms show ?thesis by (auto simp: grow_body_def Let_def split: if_splits)
next
  case True
  obtain q i2 where q: "reserve_body S (min n BODY_BUDGET - h) i = (q, i2)" by fastforce
  from shares_reserve [OF q assms(2,3)] True assms(1) show ?thesis
    by (cases q) (auto simp: grow_body_def Let_def q add.assoc)
qed

lemma shares_release:
  "shares avail (held + h) slots i \<Longrightarrow> shares avail held slots (release_body S h i)"
  "counted p w f d i \<Longrightarrow> counted p w f d (release_body S h i)"
  by (simp_all add: shares_def counted_def release_body_def release)

lemma shares_acquire:
  assumes "submit_acquire S full h i = (r, i')" "shares avail (held + h) slots i" "counted p (w + 1) f d i"
  shows "case r of
      None \<Rightarrow> shares avail (held + h) (slots + 1) i' \<and> counted p (w + 1) f d i'
    | Some WaitForSlot \<Rightarrow> shares avail (held + h) slots i' \<and> counted p (w + 1) f d i'
    | Some (RefusedAs e) \<Rightarrow> e = Stopped \<and> shares avail held slots i'
        \<and> counted p w (f + (if full then 1 else 0)) d i'
    | _ \<Rightarrow> False"
proof -
  obtain o' s where a: "sem_try_acquire S (i_slots i) 1 = (o', s)" by fastforce
  show ?thesis
    using assms a
    by (cases o') (auto simp: submit_acquire_def guard_drop_def add_pending_def release_body_def Let_def
        shares_def counted_def release dest: acquired no_permits was_closed)
qed

lemma shares_wake:
  assumes "submit_wake S wk h i = (r, i')" "shares avail (held + h) slots i" "counted p (w + 1) f d i"
  shows "case r of
      None \<Rightarrow> shares avail (held + h) (slots + 1) i' \<and> counted p (w + 1) f d i'
    | Some WaitForSlot \<Rightarrow> shares avail (held + h) slots i' \<and> counted p (w + 1) f d i'
    | Some (RefusedAs e) \<Rightarrow> shares avail held slots i' \<and> counted p w (f + 1) (d + (if e \<noteq> Stopped then 1 else 0)) i'
    | Some DroppedWhileWaiting \<Rightarrow> shares avail held slots i' \<and> counted p w (f + 1) d i'
    | Some Queued \<Rightarrow> False"
proof (cases wk)
  case SlotReady
  with assms(1) have "submit_acquire S True h i = (r, i')" by (simp add: submit_wake_def)
  from shares_acquire [OF this assms(2,3)] show ?thesis
    by (cases r) (auto split: submit_outcome.splits)
qed (use assms in \<open>auto simp: submit_wake_def Let_def shares_def counted_def release
      guard_drop_def add_pending_def release_body_def count_shed_def\<close>)

lemma shares_send:
  assumes "submit_with_slot S full h i = (r, i')" "shares avail (held + h) (slots + 1) i" "counted p (w + 1) f d i"
  shows "r = Queued \<and> shares avail held slots i' \<and> counted p w f d i'"
  using assms by (auto simp: submit_with_slot_def shares_def counted_def split: if_splits)

text \<open>A step of a submit on the system, from what it does to the shares.\<close>

lemma after_submit_inv:
  assumes t: "task_at k sy = Some t" "held_by t = h" "pending_by t = 1"
    and r: "case r of
      None \<Rightarrow> slots_by t = 0
        \<and> shares avail (total_by held_by (sy_tasks sy)) (total_by slots_by (sy_tasks sy) + 1) i
        \<and> counted p (total_by pending_by (sy_tasks sy)) (sy_gone_full sy) (sheds (sy_refused sy)) i
    | Some WaitForSlot \<Rightarrow> slots_by t = 0
        \<and> shares avail (total_by held_by (sy_tasks sy)) (total_by slots_by (sy_tasks sy)) i
        \<and> counted p (total_by pending_by (sy_tasks sy)) (sy_gone_full sy) (sheds (sy_refused sy)) i
    | Some out \<Rightarrow>
        shares avail (total_by held_by (sy_tasks sy) - h) (total_by slots_by (sy_tasks sy) - slots_by t) i
        \<and> counted p (total_by pending_by (sy_tasks sy) - 1)
            (sy_gone_full sy + (if full \<and> out \<noteq> Queued then 1 else 0))
            (sheds (sy_refused sy) + (case out of RefusedAs e \<Rightarrow> if e \<noteq> Stopped then 1 else 0 | _ \<Rightarrow> 0)) i"
  shows "sys_inv avail p (after_submit k full h (r, i) sy)"
proof -
  note u = total_by_update [OF t(1)]
  have d: "total_by held_by (drop_task k (sy_tasks sy)) = total_by held_by (sy_tasks sy) - h"
    "total_by slots_by (drop_task k (sy_tasks sy)) = total_by slots_by (sy_tasks sy) - slots_by t"
    "total_by pending_by (drop_task k (sy_tasks sy)) = total_by pending_by (sy_tasks sy) - 1"
    using u(2) [of held_by] u(2) [of slots_by] u(2) [of pending_by] t(2,3) by simp_all
  have w: "total_by held_by ((sy_tasks sy)[k := u]) = total_by held_by (sy_tasks sy)"
    "total_by pending_by ((sy_tasks sy)[k := u]) = total_by pending_by (sy_tasks sy)"
    "slots_by t = 0 \<Longrightarrow> total_by slots_by ((sy_tasks sy)[k := u]) = total_by slots_by (sy_tasks sy) + slots_by u"
    if "held_by u = h" "pending_by u = 1" for u
    using u(1) [of held_by u] u(1) [of pending_by u] u(1) [of slots_by u] t(2,3) that by simp_all
  show ?thesis
  proof (cases r)
    case None
    then show ?thesis using r w [of "Slotted full h"]
      by (simp add: after_submit_def set_task_def sys_inv_def)
  next
    case (Some out)
    then show ?thesis using r w [of "Waiting h"]
      by (cases out) (auto simp: after_submit_def set_task_def sys_inv_def d)
  qed
qed

lemma act_inv:
  assumes "sys_inv avail p sy"
  shows "sys_inv avail p (act S a sy)"
proof -
  let ?H = "total_by held_by (sy_tasks sy)" and ?L = "total_by slots_by (sy_tasks sy)"
    and ?W = "total_by pending_by (sy_tasks sy)" and ?F = "sy_gone_full sy" and ?D = "sheds (sy_refused sy)"
  have b: "shares avail ?H ?L (sy_intake sy)" and c: "counted p ?W ?F ?D (sy_intake sy)"
    using assms by (simp_all add: sys_inv_def)
  have at: "held_by t \<le> ?H" "slots_by t \<le> ?L" "pending_by t \<le> ?W"
    if "task_at k sy = Some t" for k t
    using total_by_update(2) [OF that, of held_by] total_by_update(2) [OF that, of slots_by]
      total_by_update(2) [OF that, of pending_by] by linarith+
  have set: "sys_inv avail p (set_task k u i sy)"
    if "task_at k sy = Some t" "shares avail (?H - held_by t + held_by u) (?L - slots_by t + slots_by u) i"
      "counted p (?W - pending_by t + pending_by u) ?F ?D i" for k t u i
  proof -
    have u: "total_by held_by ((sy_tasks sy)[k := u]) = ?H - held_by t + held_by u"
      "total_by slots_by ((sy_tasks sy)[k := u]) = ?L - slots_by t + slots_by u"
      "total_by pending_by ((sy_tasks sy)[k := u]) = ?W - pending_by t + pending_by u"
      using total_by_update(1) [OF that(1), of held_by u] total_by_update(1) [OF that(1), of slots_by u]
        total_by_update(1) [OF that(1), of pending_by u] at [OF that(1)] by linarith+
    show ?thesis using that(2,3) by (simp add: sys_inv_def set_task_def u)
  qed
  have del: "total_by held_by (drop_task k (sy_tasks sy)) = ?H - held_by t"
      "total_by slots_by (drop_task k (sy_tasks sy)) = ?L - slots_by t"
      "total_by pending_by (drop_task k (sy_tasks sy)) = ?W - pending_by t"
    if "task_at k sy = Some t" for k t
    using total_by_update(2) [OF that, of held_by] total_by_update(2) [OF that, of slots_by]
      total_by_update(2) [OF that, of pending_by] by simp_all
  show ?thesis
  proof (cases a)
    case (Arrive n)
    obtain r i where q: "reserve_body S n (sy_intake sy) = (r, i)" by fastforce
    from shares_reserve [OF q b c] show ?thesis
      by (cases r) (simp_all add: Arrive q sys_inv_def)
  next
    case (Grow k n)
    show ?thesis
    proof (cases "\<exists>h. task_at k sy = Some (Reading h)")
      case True
      then obtain h where h: "task_at k sy = Some (Reading h)" by blast
      obtain h' r i where g: "grow_body S h n (sy_intake sy) = ((h', r), i)" by (metis prod_cases3 prod.collapse)
      have bh: "shares avail (?H - h + h) ?L (sy_intake sy)" using b at(1) [OF h] by simp
      note gi = shares_grow [OF g bh c]
      show ?thesis
      proof (cases r)
        case (Ok x)
        then show ?thesis using gi set [OF h, of "Reading h'" i] by (simp add: Grow h g)
      next
        case (Err e)
        then show ?thesis using gi shares_release(1) [of "?H - h" h' ?L i]
          by (auto simp: Grow h g sys_inv_def del [OF h] shares_release)
      qed
    qed (use assms in \<open>auto simp: Grow split: option.splits task.splits\<close>)
  next
    case (Abandon k)
    show ?thesis
    proof (cases "\<exists>h. task_at k sy = Some (Reading h)")
      case True
      then obtain h where h: "task_at k sy = Some (Reading h)" by blast
      have "shares avail (?H - h + h) ?L (sy_intake sy)" using b at(1) [OF h] by simp
      from shares_release(1) [OF this] shares_release(2) [OF c, of h] show ?thesis
        by (simp add: Abandon h sys_inv_def del [OF h])
    qed (use assms in \<open>auto simp: Abandon split: option.splits task.splits\<close>)
  next
    case (Arm k)
    show ?thesis
    proof (cases "\<exists>h. task_at k sy = Some (Reading h)")
      case True
      then obtain h where h: "task_at k sy = Some (Reading h)" by blast
      have "shares avail ?H ?L (submit_arm (sy_intake sy))" "counted p (?W + 1) ?F ?D (submit_arm (sy_intake sy))"
        using b c by (simp_all add: shares_def counted_def submit_arm_def add_pending_def)
      then show ?thesis using set [OF h, of "Armed h" "submit_arm (sy_intake sy)"] at(1) [OF h]
        by (simp add: Arm h)
    qed (use assms in \<open>auto simp: Arm split: option.splits task.splits\<close>)
  next
    case (Acquire k)
    show ?thesis
    proof (cases "\<exists>h. task_at k sy = Some (Armed h)")
      case True
      then obtain h where h: "task_at k sy = Some (Armed h)" by blast
      obtain r i where q: "submit_acquire S False h (sy_intake sy) = (r, i)" by fastforce
      have bh: "shares avail (?H - h + h) ?L (sy_intake sy)" and ch: "counted p (?W - 1 + 1) ?F ?D (sy_intake sy)"
        using b c at [OF h] by simp_all
      have "sys_inv avail p (after_submit k False h (r, i) sy)"
        by (rule after_submit_inv [OF h])
          (use shares_acquire [OF q bh ch] at [OF h] in \<open>auto split: option.splits submit_outcome.splits\<close>)
      then show ?thesis by (simp add: Acquire h q)
    qed (use assms in \<open>auto simp: Acquire split: option.splits task.splits\<close>)
  next
    case (Send k)
    show ?thesis
    proof (cases "\<exists>f h. task_at k sy = Some (Slotted f h)")
      case True
      then obtain f h where h: "task_at k sy = Some (Slotted f h)" by blast
      obtain r i where q: "submit_with_slot S f h (sy_intake sy) = (r, i)" by fastforce
      have bh: "shares avail (?H - h + h) (?L - 1 + 1) (sy_intake sy)" and ch: "counted p (?W - 1 + 1) ?F ?D (sy_intake sy)"
        using b c at [OF h] by simp_all
      have "sys_inv avail p (after_submit k f h (Some r, i) sy)"
        by (rule after_submit_inv [OF h]) (use shares_send [OF q bh ch] in auto)
      then show ?thesis by (simp add: Send h q)
    qed (use assms in \<open>auto simp: Send split: option.splits task.splits\<close>)
  next
    case (Resume k wk)
    show ?thesis
    proof (cases "\<exists>h. task_at k sy = Some (Waiting h)")
      case True
      then obtain h where h: "task_at k sy = Some (Waiting h)" by blast
      obtain r i where q: "submit_wake S wk h (sy_intake sy) = (r, i)" by fastforce
      have bh: "shares avail (?H - h + h) ?L (sy_intake sy)" and ch: "counted p (?W - 1 + 1) ?F ?D (sy_intake sy)"
        using b c at [OF h] by simp_all
      have "sys_inv avail p (after_submit k True h (r, i) sy)"
        by (rule after_submit_inv [OF h])
          (use shares_wake [OF q bh ch] at [OF h] in \<open>auto split: option.splits submit_outcome.splits\<close>)
      then show ?thesis by (simp add: Resume h q)
    qed (use assms in \<open>auto simp: Resume split: option.splits task.splits\<close>)
  next
    case Take
    then show ?thesis using assms
      by (cases "i_queue (sy_intake sy)")
        (auto simp: pull_take_def sys_inv_def shares_def counted_def)
  next
    case (CountPull k)
    show ?thesis
    proof (cases "\<exists>h. task_at k sy = Some (Taken h)")
      case True
      then obtain h where h: "task_at k sy = Some (Taken h)" by blast
      have "counted p (?W - 1 + 1) ?F ?D (sy_intake sy)" using c at(3) [OF h] by simp
      then have "counted p (?W - 1) ?F ?D (pull_count (sy_intake sy))" "shares avail ?H ?L (pull_count (sy_intake sy))"
        using b by (simp_all add: shares_def counted_def pull_count_def add_pending_def)
      then show ?thesis using set [OF h, of "Counted h" "pull_count (sy_intake sy)"] at [OF h]
        by (simp add: CountPull h)
    qed (use assms in \<open>auto simp: CountPull split: option.splits task.splits\<close>)
  next
    case (ReleasePull k)
    show ?thesis
    proof (cases "\<exists>h. task_at k sy = Some (Counted h)")
      case True
      then obtain h where h: "task_at k sy = Some (Counted h)" by blast
      have "shares avail (?H - h + h) (?L - 1 + 1) (sy_intake sy)" using b at [OF h] by simp
      then have "shares avail (?H - h) (?L - 1) (pull_release S h (sy_intake sy))"
        "counted p ?W ?F ?D (pull_release S h (sy_intake sy))"
        using c by (simp_all add: shares_def counted_def pull_release_def release_slot_def release_body_def release)
      then show ?thesis by (simp add: ReleasePull h sys_inv_def del [OF h])
    qed (use assms in \<open>auto simp: ReleasePull split: option.splits task.splits\<close>)
  next
    case Close
    then show ?thesis using assms
      by (simp add: sys_inv_def shares_def counted_def intake_close_def close)
  qed
qed

lemma reachable_inv: "reachable S p sy \<Longrightarrow> sys_inv avail p sy"
proof (induction rule: reachable.induct)
  case start
  show ?case
    by (simp add: system_new_def sys_inv_def shares_def counted_def intake_new_def new sheds_def)
next
  case (step sy a)
  then show ?case by (simp add: act_inv)
qed

end

section \<open>Properties\<close>

text \<open>
  C2: in every reachable state of a pool, each step of a submit and of a PHP thread being an action of its own,
  the body permits of the tasks and of the queued units and the free ones add up to the 64 MiB budget, so the
  bodies the pool buffers never exceed it; the slot permits add up to 1024, so the queue holds at most 1024 units;
  the pending gauge counts exactly the queued units, the submits that were counted and neither refused nor sent, and the
  units taken but not yet uncounted, so it never falls below the length of the queue; the shed counter is
  the number of saturated and over-budget refusals, and the full-queue counter the number of units that found the
  queue full and never entered it.
\<close>

theorem intake_accounting:
  assumes "semaphore S avail sem_closed" and "reachable S p sy"
  shows "avail (i_budget (sy_intake sy)) + total_by held_by (sy_tasks sy) + sum_list (i_queue (sy_intake sy)) = BODY_BUDGET
     \<and> avail (i_slots (sy_intake sy)) + total_by slots_by (sy_tasks sy) + length (i_queue (sy_intake sy)) = INTAKE_SLOTS
     \<and> length (i_queue (sy_intake sy)) \<le> INTAKE_SLOTS
     \<and> pool_pending (i_pool (sy_intake sy))
         = pool_pending p + of_nat (length (i_queue (sy_intake sy)) + total_by pending_by (sy_tasks sy))
     \<and> pool_shed (i_pool (sy_intake sy)) = pool_shed p + of_nat (sheds (sy_refused sy))
     \<and> pool_failed_on_full (i_pool (sy_intake sy)) = pool_failed_on_full p + of_nat (sy_gone_full sy)"
  using semaphore.reachable_inv [OF assms(1,2)]
  by (auto simp: sys_inv_def shares_def counted_def)

lemma intake_accounting_witness:
  "let sy = foldl (\<lambda>sy a. act count_sem a sy) (system_new count_sem (pool_new ''http'' []))
       [Arrive 5, Arrive 100, Arm 0, Acquire 0, Send 0, Take, CountPull 1]
   in fst (i_budget (sy_intake sy)) + total_by held_by (sy_tasks sy) + sum_list (i_queue (sy_intake sy)) = BODY_BUDGET
      \<and> sy_tasks sy = [Reading 100, Counted 5]"
proof -
  let ?sy = "foldl (\<lambda>sy a. act count_sem a sy) (system_new count_sem (pool_new ''http'' []))
       [Arrive 5, Arrive 100, Arm 0, Acquire 0, Send 0, Take, CountPull 1]"
  have "reachable count_sem (pool_new ''http'' []) ?sy"
    unfolding foldl.simps by (intro reachable.intros)
  from intake_accounting [OF cs.semaphore_axioms this]
  have "fst (i_budget (sy_intake ?sy)) + total_by held_by (sy_tasks ?sy) + sum_list (i_queue (sy_intake ?sy)) = BODY_BUDGET"
    by blast
  moreover have "sy_tasks ?sy = [Reading 100, Counted 5]" by code_simp
  ultimately show ?thesis unfolding Let_def by blast
qed

text \<open>
  Once the pool is closed it admits nothing more: a new body gets no permits and a submit, fresh
  or waiting, does not enter the queue; both are refused as stopped, and nothing is counted as shed.
\<close>

theorem closed_intake_refuses:
  assumes "semaphore S avail sem_closed" and "sem_closed (i_budget i)" and "sem_closed (i_slots i)"
  shows "fst (reserve_body S n i) = Err Stopped
     \<and> fst (submit_start S held i) = RefusedAs Stopped
     \<and> fst (submit_resume S SlotReady held i) = RefusedAs Stopped
     \<and> i_queue (snd (submit_start S held i)) = i_queue i
     \<and> pool_shed (i_pool (snd (submit_start S held i))) = pool_shed (i_pool i)
     \<and> pool_shed (i_pool (snd (reserve_body S n i))) = pool_shed (i_pool i)"
proof -
  obtain o1 b where 1: "sem_try_acquire S (i_budget i) (min n BODY_BUDGET) = (o1, b)" by fastforce
  obtain o2 s where 2: "sem_try_acquire S (i_slots i) 1 = (o2, s)" by fastforce
  have "o1 = SemClosed" "o2 = SemClosed"
    using semaphore.acquired [OF assms(1)] semaphore.no_permits [OF assms(1)] 1 2 assms(2,3)
    by (cases o1; cases o2; blast)+
  with 1 2 show ?thesis
    by (simp add: reserve_body_def submit_start_def submit_resume_def Let_def intake_ops)
qed

lemma closed_intake_refuses_witness:
  "fst (submit_start count_sem 5 (intake_close count_sem (intake_new count_sem (pool_new ''http'' []))))
     = RefusedAs Stopped"
  using closed_intake_refuses [OF cs.semaphore_axioms,
      of "intake_close count_sem (intake_new count_sem (pool_new ''http'' []))" 0 5]
  by (simp add: intake_close_def count_sem_def intake_new_def)

end
