(* ===== verification/Bridge.thy ===== *)
theory Bridge
  imports Frames
begin

text \<open>
  The reply stream of the HTTP plugin (\<open>http/src/bridge.rs\<close> and the body types of
  \<open>http/src/handler.rs\<close>): the frames of the PHP thread become the body hyper polls, the drain
  holds the reply of a delivered response to its end, and \<open>TimedIo\<close> bounds stalled writes.
\<close>

section \<open>The reply body\<close>

text \<open>
  The frame receiver and the file reads are polled; what a poll finds is up to tokio and the file
  system, so both are parameters over a world \<open>'w\<close>. \<open>b_poll_read w h off want\<close> polls the read of
  at most \<open>want\<close> bytes at \<open>off\<close>.
\<close>

datatype 'f recv_poll = RecvPending | RecvClosed | RecvFrame 'f

datatype read_poll = ReadPending | ReadCancelled | ReadError | ReadBytes bytes

record ('w, 'f) bridge_ops =
  b_poll_recv :: "'w \<Rightarrow> 'f recv_poll \<times> 'w"
  b_poll_read :: "'w \<Rightarrow> handle \<Rightarrow> nat \<Rightarrow> nat \<Rightarrow> read_poll \<times> 'w"

text \<open>
  \<open>coming\<close> lists the frames the receiver still has to hand out, in order, and \<open>contents\<close> the bytes
  of the open files. A read returns at most what was asked, from the offset that was asked; at
  the end of the file it returns no bytes.
\<close>

locale reply_source =
  fixes B :: "('w, 'm frame) bridge_ops"
    and coming :: "'w \<Rightarrow> 'm frame list" and contents :: "handle \<Rightarrow> bytes"
  assumes recv_pending: "b_poll_recv B w = (RecvPending, w') \<Longrightarrow> coming w' = coming w"
    and recv_closed: "b_poll_recv B w = (RecvClosed, w') \<Longrightarrow> coming w = [] \<and> coming w' = []"
    and recv_frame: "b_poll_recv B w = (RecvFrame f, w') \<Longrightarrow> coming w = f # coming w'"
    and read_keeps: "b_poll_read B w h off want = (r, w') \<Longrightarrow> coming w' = coming w"
    and read_bytes: "b_poll_read B w h off want = (ReadBytes buf, w') \<Longrightarrow>
      length buf \<le> want \<and> buf = take (length buf) (drop off (contents h))"

definition SLICE :: nat where "SLICE = 256 * 1024"

text \<open>A file pump with a read of \<open>min SLICE (len - done)\<close> bytes at \<open>offset + done\<close> in flight.\<close>

record file_pump =
  fp_file :: handle
  fp_offset :: nat
  fp_len :: nat
  fp_done :: nat

record 'm reply_body =
  rb_reply :: bool \<comment> \<open>the receiver is held\<close>
  rb_declared :: "nat option"
  rb_sent :: nat
  rb_staged :: "'m frame option"
  rb_file :: "file_pump option"
  rb_err :: bool

definition reply_body_new :: "nat option \<Rightarrow> 'm frame option \<Rightarrow> 'm reply_body" where
  "reply_body_new declared staged =
     \<lparr>rb_reply = True, rb_declared = declared, rb_sent = 0, rb_staged = staged, rb_file = None,
      rb_err = False\<rparr>"

datatype body_poll = BodyPending | BodyData bytes | BodyEnd | BodyError

text \<open>The error waits for one more poll: this one returns pending and wakes the task.\<close>

definition terminal_error :: "'m reply_body \<Rightarrow> body_poll \<times> 'm reply_body" where
  "terminal_error rb = (BodyPending, rb\<lparr>rb_reply := False, rb_file := None, rb_err := True\<rparr>)"

definition poll_pump ::
  "('w, 'm frame) bridge_ops \<Rightarrow> file_pump \<Rightarrow> 'm reply_body \<Rightarrow> 'w \<Rightarrow> (body_poll \<times> 'm reply_body) \<times> 'w" where
  "poll_pump B fp rb w =
     (case b_poll_read B w (fp_file fp) (fp_offset fp + fp_done fp) (min SLICE (fp_len fp - fp_done fp)) of
        (ReadPending, w') \<Rightarrow> ((BodyPending, rb), w')
      | (ReadCancelled, w') \<Rightarrow> (terminal_error rb, w')
      | (ReadError, w') \<Rightarrow> (terminal_error rb, w')
      | (ReadBytes buf, w') \<Rightarrow>
          if buf = [] then (terminal_error rb, w')
          else let d = fp_done fp + length buf;
                   rb1 = rb\<lparr>rb_sent := rb_sent rb + length buf\<rparr>;
                   rb2 = (if d < fp_len fp then rb1\<lparr>rb_file := Some (fp\<lparr>fp_done := d\<rparr>)\<rparr>
                          else rb1\<lparr>rb_file := None\<rparr>)
               in ((BodyData buf, rb2), w'))"

text \<open>The next frame: a staged one first; \<open>Inl\<close> is what the poll returns without a frame.\<close>

definition next_frame ::
  "('w, 'm frame) bridge_ops \<Rightarrow> 'm reply_body \<Rightarrow> 'w
   \<Rightarrow> (body_poll + 'm frame option) \<times> 'm reply_body \<times> 'w" where
  "next_frame B rb w = (case rb_staged rb of
       Some f \<Rightarrow> (Inr (Some f), rb\<lparr>rb_staged := None\<rparr>, w)
     | None \<Rightarrow>
         if \<not> rb_reply rb then (Inl BodyEnd, rb, w)
         else (case b_poll_recv B w of
                 (RecvPending, w') \<Rightarrow> (Inl BodyPending, rb, w')
               | (RecvClosed, w') \<Rightarrow> (Inr None, rb, w')
               | (RecvFrame f, w') \<Rightarrow> (Inr (Some f), rb, w')))"

text \<open>
  \<open>poll_frame\<close>: the loop runs on only after a head or a file frame. The fuel bounds the number of
  rounds; \<open>poll_reply_fuel\<close> below gives the fuel that is always enough.
\<close>

fun poll_reply ::
  "('w, 'm frame) bridge_ops \<Rightarrow> nat \<Rightarrow> 'm reply_body \<Rightarrow> 'w \<Rightarrow> ((body_poll \<times> 'm reply_body) \<times> 'w) option" where
  "poll_reply B 0 rb w = None"
| "poll_reply B (Suc n) rb w =
     (if rb_err rb then Some ((BodyError, rb), w)
      else case rb_file rb of
        Some fp \<Rightarrow> Some (poll_pump B fp rb w)
      | None \<Rightarrow> (case next_frame B rb w of
          (Inl p, rb', w') \<Rightarrow> Some ((p, rb'), w')
        | (Inr None, rb', w') \<Rightarrow> Some (terminal_error rb', w')
        | (Inr (Some (Chunk b)), rb', w') \<Rightarrow>
            Some ((BodyData b, rb'\<lparr>rb_sent := rb_sent rb' + length b\<rparr>), w')
        | (Inr (Some (File h off len)), rb', w') \<Rightarrow>
            poll_reply B n
              (rb'\<lparr>rb_file := Some \<lparr>fp_file = h, fp_offset = off, fp_len = len, fp_done = 0\<rparr>\<rparr>) w'
        | (Inr (Some (Head _ _ _)), rb', w') \<Rightarrow> poll_reply B n rb' w'
        | (Inr (Some (End truncated)), rb', w') \<Rightarrow>
            if truncated then Some (terminal_error rb', w')
            else if opt_filter (\<lambda>cl. rb_sent rb' < cl) (rb_declared rb') \<noteq> None
            then Some (terminal_error rb', w')
            else Some ((BodyEnd, rb'\<lparr>rb_reply := False\<rparr>), w')))"

text \<open>hyper polls until the body ends or fails; a pending poll is repeated when the task wakes.\<close>

fun poll_body ::
  "('w, 'm frame) bridge_ops \<Rightarrow> nat \<Rightarrow> nat \<Rightarrow> 'm reply_body \<Rightarrow> 'w \<Rightarrow> (body_poll list \<times> 'm reply_body \<times> 'w) option" where
  "poll_body B fuel 0 rb w = Some ([], rb, w)"
| "poll_body B fuel (Suc k) rb w =
     (case poll_reply B fuel rb w of
        None \<Rightarrow> None
      | Some ((p, rb'), w') \<Rightarrow>
          if p = BodyEnd \<or> p = BodyError then Some ([p], rb', w')
          else (case poll_body B fuel k rb' w' of
                  None \<Rightarrow> None
                | Some (ps, r) \<Rightarrow> Some (p # ps, r)))"

fun data_of :: "body_poll list \<Rightarrow> bytes" where
  "data_of [] = []"
| "data_of (BodyData b # ps) = b @ data_of ps"
| "data_of (_ # ps) = data_of ps"

section \<open>What the body must carry\<close>

text \<open>The bytes of a frame sequence up to its first end, and whether that end is clean.\<close>

fun wire_bytes :: "(handle \<Rightarrow> bytes) \<Rightarrow> 'm frame list \<Rightarrow> bytes" where
  "wire_bytes cs [] = []"
| "wire_bytes cs (Chunk b # fs) = b @ wire_bytes cs fs"
| "wire_bytes cs (File h off len # fs) = take len (drop off (cs h)) @ wire_bytes cs fs"
| "wire_bytes cs (Head _ _ _ # fs) = wire_bytes cs fs"
| "wire_bytes cs (End _ # fs) = []"

fun clean_end :: "'m frame list \<Rightarrow> bool" where
  "clean_end [] = False"
| "clean_end (End t # fs) = (\<not> t)"
| "clean_end (_ # fs) = clean_end fs"

definition pump_bytes :: "(handle \<Rightarrow> bytes) \<Rightarrow> file_pump option \<Rightarrow> bytes" where
  "pump_bytes cs p = (case p of None \<Rightarrow> []
     | Some fp \<Rightarrow> take (fp_len fp - fp_done fp) (drop (fp_offset fp + fp_done fp) (cs (fp_file fp))))"

definition staged_frames :: "'m reply_body \<Rightarrow> 'm frame list" where
  "staged_frames rb = (case rb_staged rb of None \<Rightarrow> [] | Some f \<Rightarrow> [f])"

lemma take_drop_split:
  assumes "buf = take (length buf) (drop o' xs)" "length buf \<le> n"
  shows "take n (drop o' xs) = buf @ take (n - length buf) (drop (o' + length buf) xs)"
proof -
  have "take n (drop o' xs) = take (length buf) (drop o' xs) @ take (n - length buf) (drop (length buf) (drop o' xs))"
    using assms(2) by (metis le_add_diff_inverse take_add)
  with assms(1) show ?thesis by (simp add: add.commute)
qed

context reply_source
begin

definition rest_bytes :: "'m reply_body \<Rightarrow> 'w \<Rightarrow> bytes" where
  "rest_bytes rb w = pump_bytes contents (rb_file rb) @ wire_bytes contents (staged_frames rb @ coming w)"

definition rest_clean :: "'m reply_body \<Rightarrow> 'w \<Rightarrow> bool" where
  "rest_clean rb w \<longleftrightarrow> clean_end (staged_frames rb @ coming w)"

text \<open>What one poll does to the bytes that are left.\<close>

definition poll_post :: "'m reply_body \<Rightarrow> 'w \<Rightarrow> body_poll \<Rightarrow> 'm reply_body \<Rightarrow> 'w \<Rightarrow> bool" where
  "poll_post rb w p rb' w' \<longleftrightarrow>
     rb_declared rb' = rb_declared rb
     \<and> (case p of
          BodyPending \<Rightarrow> rb_sent rb' = rb_sent rb
            \<and> (\<not> rb_err rb' \<longrightarrow> rb_reply rb' \<and> rest_bytes rb' w' = rest_bytes rb w
                                \<and> rest_clean rb' w' = rest_clean rb w)
        | BodyData b \<Rightarrow> rb_sent rb' = rb_sent rb + length b \<and> \<not> rb_err rb' \<and> rb_reply rb'
            \<and> rest_bytes rb w = b @ rest_bytes rb' w' \<and> rest_clean rb' w' = rest_clean rb w
        | BodyEnd \<Rightarrow> rb_sent rb' = rb_sent rb \<and> rest_bytes rb w = [] \<and> rest_clean rb w
            \<and> (\<forall>cl. rb_declared rb = Some cl \<longrightarrow> cl \<le> rb_sent rb)
        | BodyError \<Rightarrow> rb_err rb)"

lemma terminal_error_post: "poll_post rb w (fst (terminal_error rb')) (snd (terminal_error rb')) w'"
  if "rb_declared rb' = rb_declared rb" "rb_sent rb' = rb_sent rb"
  using that by (simp add: poll_post_def terminal_error_def)

lemma poll_pump_post:
  assumes "poll_pump B fp rb w = ((p, rb'), w')" "rb_file rb = Some fp" "rb_reply rb" "\<not> rb_err rb"
  shows "poll_post rb w p rb' w'"
proof -
  let ?want = "min SLICE (fp_len fp - fp_done fp)"
  obtain r w1 where r: "b_poll_read B w (fp_file fp) (fp_offset fp + fp_done fp) ?want = (r, w1)" by fastforce
  note k = read_keeps [OF r]
  show ?thesis
  proof (cases r)
    case (ReadBytes buf)
    note b = read_bytes [OF r [unfolded ReadBytes]]
    show ?thesis
    proof (cases "buf = []")
      case True
      with assms r ReadBytes show ?thesis
        using terminal_error_post [of rb rb] by (auto simp: poll_pump_def)
    next
      case False
      have le: "length buf \<le> fp_len fp - fp_done fp" using b by simp
      have split: "pump_bytes contents (Some fp)
          = buf @ take (fp_len fp - (fp_done fp + length buf))
                    (drop (fp_offset fp + (fp_done fp + length buf)) (contents (fp_file fp)))"
        using take_drop_split [OF conjunct2 [OF b] le] by (simp add: pump_bytes_def add.assoc)
      then show ?thesis
        using assms r ReadBytes False k
        by (auto simp: poll_pump_def Let_def poll_post_def rest_bytes_def rest_clean_def
            staged_frames_def pump_bytes_def)
    qed
  qed (use assms r k terminal_error_post [of rb rb] in
      \<open>auto simp: poll_pump_def poll_post_def rest_bytes_def rest_clean_def staged_frames_def\<close>)
qed

lemma next_frame_cases:
  assumes "next_frame B rb w = (r, rb', w')" "rb_file rb = None" "rb_reply rb"
  shows "(r = Inl BodyPending \<and> rb' = rb \<and> coming w' = coming w \<and> rb_staged rb = None)
     \<or> (r = Inr None \<and> rb' = rb \<and> staged_frames rb @ coming w = [])
     \<or> (\<exists>f. r = Inr (Some f) \<and> rb' = rb\<lparr>rb_staged := None\<rparr>
          \<and> staged_frames rb @ coming w = f # coming w')"
  using assms
  by (auto simp: next_frame_def staged_frames_def split: option.splits prod.splits recv_poll.splits
      dest: recv_pending recv_closed recv_frame)

lemma poll_reply_post:
  assumes "poll_reply B n rb w = Some ((p, rb'), w')" "rb_reply rb \<or> rb_err rb"
  shows "poll_post rb w p rb' w'"
  using assms
proof (induction n arbitrary: rb w)
  case (Suc n)
  show ?case
  proof (cases "rb_err rb")
    case True
    with Suc.prems show ?thesis by (simp add: poll_post_def)
  next
    case False
    then have reply: "rb_reply rb" using Suc.prems by simp
    show ?thesis
    proof (cases "rb_file rb")
      case (Some fp)
      with Suc.prems False have "poll_pump B fp rb w = ((p, rb'), w')" by simp
      with Some False reply show ?thesis by (simp add: poll_pump_post)
    next
      case None
      obtain r rb1 w1 where nf: "next_frame B rb w = (r, rb1, w1)" using prod_cases3 by blast
      from next_frame_cases [OF nf None reply] consider
          "r = Inl BodyPending" "rb1 = rb" "coming w1 = coming w"
        | "r = Inr None" "rb1 = rb"
        | f where "r = Inr (Some f)" "rb1 = rb\<lparr>rb_staged := None\<rparr>"
            "staged_frames rb @ coming w = f # coming w1" by blast
      then show ?thesis
      proof cases
        case 1
        with Suc.prems False None nf reply show ?thesis
          by (simp add: poll_post_def rest_bytes_def rest_clean_def)
      next
        case 2
        with Suc.prems False None nf terminal_error_post [of rb rb] show ?thesis by auto
      next
        case (3 f)
        have rest: "rest_bytes rb w = wire_bytes contents (f # coming w1)"
          "rest_clean rb w = clean_end (f # coming w1)"
          using 3 None by (simp_all add: rest_bytes_def rest_clean_def pump_bytes_def)
        show ?thesis
        proof (cases f)
          case (Chunk b)
          with Suc.prems False None nf 3 rest reply show ?thesis
            by (auto simp: poll_post_def rest_bytes_def rest_clean_def staged_frames_def pump_bytes_def)
        next
          case (Head h cl bl)
          with Suc.prems False None nf 3 have e: "poll_reply B n rb1 w1 = Some ((p, rb'), w')" by simp
          have "poll_post rb1 w1 p rb' w'" by (rule Suc.IH [OF e]) (use 3 reply in simp)
          moreover have "rest_bytes rb1 w1 = rest_bytes rb w" "rest_clean rb1 w1 = rest_clean rb w"
            using 3 None Head rest by (simp_all add: rest_bytes_def rest_clean_def staged_frames_def pump_bytes_def)
          ultimately show ?thesis using 3 False by (auto simp: poll_post_def split: body_poll.splits)
        next
          case (File h off len)
          let ?rb = "rb1\<lparr>rb_file := Some \<lparr>fp_file = h, fp_offset = off, fp_len = len, fp_done = 0\<rparr>\<rparr>"
          from File Suc.prems False None nf 3 have e: "poll_reply B n ?rb w1 = Some ((p, rb'), w')" by simp
          have "poll_post ?rb w1 p rb' w'" by (rule Suc.IH [OF e]) (use 3 reply in simp)
          moreover have "rest_bytes ?rb w1 = rest_bytes rb w" "rest_clean ?rb w1 = rest_clean rb w"
            using 3 None File rest by (simp_all add: rest_bytes_def rest_clean_def staged_frames_def pump_bytes_def)
          ultimately show ?thesis using 3 False by (auto simp: poll_post_def split: body_poll.splits)
        next
          case (End t)
          show ?thesis
          proof (cases "t \<or> opt_filter (\<lambda>cl. rb_sent rb1 < cl) (rb_declared rb1) \<noteq> None")
            case True
            with End Suc.prems False None nf 3 have "terminal_error rb1 = (p, rb')" "w' = w1"
              by (auto split: if_splits)
            with terminal_error_post [of rb1 rb w w1] 3 show ?thesis by simp
          next
            case no: False
            then have cl: "\<And>cl. rb_declared rb1 = Some cl \<Longrightarrow> cl \<le> rb_sent rb1" by (auto split: if_splits)
            from no End Suc.prems False None nf 3
            have "p = BodyEnd" "rb' = rb1\<lparr>rb_reply := False\<rparr>" by (auto split: if_splits)
            with cl rest End no 3 show ?thesis by (auto simp: poll_post_def)
          qed
        qed
      qed
    qed
  qed
qed simp

text \<open>Rounds without a result use up a frame each, and a pump decides its round.\<close>

lemma poll_reply_fuel:
  "n > 2 * length (staged_frames rb @ coming w) + (if rb_file rb = None then 1 else 0)
   \<Longrightarrow> rb_reply rb \<or> rb_err rb \<Longrightarrow> poll_reply B n rb w \<noteq> None"
proof (induction n arbitrary: rb w)
  case (Suc n)
  show ?case
  proof (cases "rb_err rb \<or> rb_file rb \<noteq> None")
    case False
    then have n: "rb_file rb = None" "rb_reply rb" "\<not> rb_err rb" using Suc.prems by auto
    obtain r rb1 w1 where nf: "next_frame B rb w = (r, rb1, w1)" using prod_cases3 by blast
    from next_frame_cases [OF nf n(1,2)] consider
        "r = Inl BodyPending" | "r = Inr None"
      | f where "r = Inr (Some f)" "rb1 = rb\<lparr>rb_staged := None\<rparr>"
          "staged_frames rb @ coming w = f # coming w1" by blast
    then show ?thesis
    proof cases
      case (3 f)
      have l: "length (staged_frames rb @ coming w) = Suc (length (coming w1))" using 3(3) by simp
      have s: "staged_frames rb1 = []" using 3(2) by (simp add: staged_frames_def)
      show ?thesis
      proof (cases f)
        case (Head h cl bl)
        have "poll_reply B n rb1 w1 \<noteq> None"
          by (rule Suc.IH) (use Suc.prems 3 n l s in auto)
        with Head n nf 3 show ?thesis by simp
      next
        case (File h off len)
        let ?rb = "rb1\<lparr>rb_file := Some \<lparr>fp_file = h, fp_offset = off, fp_len = len, fp_done = 0\<rparr>\<rparr>"
        have "staged_frames ?rb = []" using s by (simp add: staged_frames_def)
        then have "poll_reply B n ?rb w1 \<noteq> None"
          by (intro Suc.IH) (use Suc.prems 3 n l in auto)
        with File n nf 3 show ?thesis by simp
      qed (use n nf 3 in simp_all)
    qed (use n nf in simp_all)
  qed (use Suc.prems in \<open>auto simp del: not_None_eq\<close>)
qed simp

lemma poll_post_next: "poll_post rb w p rb' w' \<Longrightarrow> p \<noteq> BodyEnd \<Longrightarrow> p \<noteq> BodyError \<Longrightarrow> rb_reply rb' \<or> rb_err rb'"
  by (cases p) (auto simp: poll_post_def)

lemma poll_body_post:
  assumes "poll_body B fuel k rb w = Some (ps, rb', w')" "rb_reply rb \<or> rb_err rb"
  shows "(rb_err rb \<longrightarrow> data_of ps = [] \<and> BodyEnd \<notin> set ps)
     \<and> (\<not> rb_err rb \<longrightarrow> (\<exists>rest. rest_bytes rb w = data_of ps @ rest
          \<and> (BodyEnd \<in> set ps \<longrightarrow> rest = [] \<and> rest_clean rb w
              \<and> (\<forall>cl. rb_declared rb = Some cl \<longrightarrow> cl \<le> rb_sent rb + length (data_of ps)))))"
  using assms
proof (induction k arbitrary: rb w ps)
  case (Suc k)
  obtain p rb1 w1 where p: "poll_reply B fuel rb w = Some ((p, rb1), w1)"
    using Suc.prems(1) by (cases "poll_reply B fuel rb w") auto
  note post = poll_reply_post [OF p Suc.prems(2)]
  show ?case
  proof (cases "p = BodyEnd \<or> p = BodyError")
    case True
    then have "ps = [p]" using Suc.prems(1) p by auto
    moreover have "rb_err rb \<Longrightarrow> p \<noteq> BodyEnd" using p by (cases fuel) auto
    ultimately show ?thesis using post True by (auto simp: poll_post_def)
  next
    case False
    then obtain qs where q: "poll_body B fuel k rb1 w1 = Some (qs, rb', w')" "ps = p # qs"
      using Suc.prems(1) p by (auto split: option.splits)
    have ih: "(rb_err rb1 \<longrightarrow> data_of qs = [] \<and> BodyEnd \<notin> set qs)
     \<and> (\<not> rb_err rb1 \<longrightarrow> (\<exists>rest. rest_bytes rb1 w1 = data_of qs @ rest
          \<and> (BodyEnd \<in> set qs \<longrightarrow> rest = [] \<and> rest_clean rb1 w1
              \<and> (\<forall>cl. rb_declared rb1 = Some cl \<longrightarrow> cl \<le> rb_sent rb1 + length (data_of qs)))))"
      by (rule Suc.IH [OF q(1) poll_post_next [OF post]]) (use False in auto)
    have err: "rb_err rb \<Longrightarrow> p = BodyError" using p by (cases fuel) auto
    show ?thesis
    proof (cases p)
      case BodyPending
      with post ih err q(2) show ?thesis by (cases "rb_err rb1") (auto simp: poll_post_def)
    next
      case (BodyData b)
      with post ih err q(2) show ?thesis by (auto simp: poll_post_def add.assoc)
    qed (use False in auto)
  qed
qed simp

text \<open>The error is always behind one pending poll.\<close>

lemma poll_reply_no_error: "poll_reply B n rb w = Some ((p, rb'), w') \<Longrightarrow> \<not> rb_err rb \<Longrightarrow> p \<noteq> BodyError"
proof (induction n arbitrary: rb w)
  case (Suc n)
  show ?case
  proof (cases "rb_file rb")
    case (Some fp)
    with Suc.prems show ?thesis
      by (auto simp: poll_pump_def terminal_error_def Let_def split: prod.splits read_poll.splits if_splits)
  next
    case None
    obtain r rb1 w1 where nf: "next_frame B rb w = (r, rb1, w1)" using prod_cases3 by blast
    then have e: "\<not> rb_err rb1" using Suc.prems(2)
      by (auto simp: next_frame_def split: option.splits prod.splits recv_poll.splits if_splits)
    have l: "r \<noteq> Inl BodyError" using nf
      by (auto simp: next_frame_def split: option.splits prod.splits recv_poll.splits if_splits)
    show ?thesis
    proof (cases r)
      case (Inr f)
      show ?thesis
      proof (cases f)
        case (Some g)
        with Suc.prems None nf Inr e Suc.IH show ?thesis
          by (cases g) (auto simp: terminal_error_def split: if_splits)
      qed (use Suc.prems None nf Inr in \<open>auto simp: terminal_error_def\<close>)
    qed (use Suc.prems None nf l in auto)
  qed
qed simp

end

text \<open>A world that plays back a list of channel events; \<open>None\<close> is a moment with nothing queued.\<close>

definition play_ops :: "(handle \<Rightarrow> bytes) \<Rightarrow> ('m frame option list, 'm frame) bridge_ops" where
  "play_ops cs =
     \<lparr>b_poll_recv = (\<lambda>w. case w of [] \<Rightarrow> (RecvClosed, []) | None # w' \<Rightarrow> (RecvPending, w')
         | Some f # w' \<Rightarrow> (RecvFrame f, w')),
      b_poll_read = (\<lambda>w h off want. (ReadBytes (take want (drop off (cs h))), w))\<rparr>"

definition play_coming :: "'m frame option list \<Rightarrow> 'm frame list" where
  "play_coming w = List.map_filter (\<lambda>x. x) w"

lemma play_coming_simps [simp]:
  "play_coming [] = []" "play_coming (None # w) = play_coming w" "play_coming (Some f # w) = f # play_coming w"
  by (simp_all add: play_coming_def)

interpretation play: reply_source "play_ops cs" play_coming cs for cs
  by unfold_locales (auto simp: play_ops_def min_def split: list.splits option.splits)

section \<open>End of a reply: watermark and drain\<close>

record connection_state =
  cn_closed :: bool
  cn_flushes :: nat

text \<open>
  The response guard's watermark (\<open>end_flush\<close>, set once) and the declared length of a body that
  \<open>respond\<close> armed: \<open>RespBody::poll_frame\<close> sees each data frame go to hyper.
\<close>

record resp_transport =
  rt_remaining :: nat
  rt_end_flush :: "nat option"

definition set_end_flush :: "nat \<Rightarrow> nat option \<Rightarrow> nat option" where
  "set_end_flush flushes cell = (case cell of Some f \<Rightarrow> Some f | None \<Rightarrow> Some flushes)"

definition resp_body_data :: "nat \<Rightarrow> nat \<Rightarrow> resp_transport \<Rightarrow> resp_transport" where
  "resp_body_data len flushes t =
     (let r = rt_remaining t - len;
          t' = t\<lparr>rt_remaining := r\<rparr>
      in if r = 0 then t'\<lparr>rt_end_flush := set_end_flush flushes (rt_end_flush t)\<rparr> else t')"

text \<open>
  \<open>framed_length\<close>: the length hyper frames for a response. \<open>cl_header\<close> is the content-length
  header, \<open>ended\<close> and \<open>exact\<close> are what the body reports.
\<close>

definition framed_length ::
  "'m header_ops \<Rightarrow> bytes \<Rightarrow> nat \<Rightarrow> 'm \<Rightarrow> bool \<Rightarrow> nat option \<Rightarrow> nat option" where
  "framed_length H meth status headers ended exact =
     (if meth = ''HEAD'' \<or> (100 \<le> status \<and> status < 200) \<or> status = 204 \<or> status = 304 then Some 0
      else case Option.bind (h_get H headers ''content-length'') (\<lambda>v. Option.bind (h_to_str H v) parse_u64) of
             Some n \<Rightarrow> Some n
           | None \<Rightarrow> if ended then Some 0 else exact)"

definition arm_response :: "nat option \<Rightarrow> nat \<Rightarrow> nat option \<Rightarrow> resp_transport option \<times> nat option" where
  "arm_response framed flushes cell = (case framed of
       None \<Rightarrow> (None, cell)
     | Some len \<Rightarrow>
         if len = 0 then (None, set_end_flush flushes cell)
         else (Some \<lparr>rt_remaining = len, rt_end_flush = cell\<rparr>, cell))"

text \<open>The drain: select on the close first, then on the reply.\<close>

datatype drain_state = Selecting | Holding | Released bool \<comment> \<open>True: the reply reached its end\<close>

definition delivered_past :: "nat option \<Rightarrow> connection_state \<Rightarrow> bool" where
  "delivered_past end_flush cn = (case end_flush of Some f \<Rightarrow> cn_flushes cn > f | None \<Rightarrow> False)"

text \<open>\<open>drain\<close>: takes what the reply has ready; \<open>True\<close> when it reached an end or the channel closed.\<close>

fun drain_ready :: "'m frame option list \<Rightarrow> bool \<times> 'm frame option list" where
  "drain_ready [] = (True, [])"
| "drain_ready (None # w) = (False, w)"
| "drain_ready (Some (End t) # w) = (True, w)"
| "drain_ready (Some f # w) = drain_ready w"

definition spawn_drain :: "'m frame option list \<Rightarrow> drain_state \<times> 'm frame option list" where
  "spawn_drain w = (case w of
       [] \<Rightarrow> (Released True, [])
     | Some (End t) # w' \<Rightarrow> (Released True, w')
     | Some f # w' \<Rightarrow> (Selecting, w')
     | None # w' \<Rightarrow> (Selecting, w'))"

text \<open>\<open>None\<close> is a connection whose state sender is gone without a close.\<close>

definition poll_drain ::
  "nat option \<Rightarrow> connection_state option \<Rightarrow> drain_state \<times> 'm frame option list
   \<Rightarrow> drain_state \<times> 'm frame option list" where
  "poll_drain end_flush conn ds = (case ds of
       (Selecting, w) \<Rightarrow>
         (case conn of
            None \<Rightarrow> (Released False, w)
          | Some cn \<Rightarrow>
              if cn_closed cn
              then (if delivered_past end_flush cn
                    then (case drain_ready w of (done, w') \<Rightarrow> (if done then Released True else Holding, w'))
                    else (Released False, w))
              else (case drain_ready w of (done, w') \<Rightarrow> (if done then Released True else Selecting, w')))
     | (Holding, w) \<Rightarrow> (case drain_ready w of (done, w') \<Rightarrow> (if done then Released True else Holding, w'))
     | (Released b, w) \<Rightarrow> (Released b, w))"

text \<open>\<open>Drop for ReplyBody\<close>: a delivered body whose end was not seen yet is drained.\<close>

definition drop_drains :: "nat option \<Rightarrow> 'm reply_body \<Rightarrow> bool" where
  "drop_drains end_flush rb \<longleftrightarrow>
     rb_declared rb = Some (rb_sent rb) \<and> end_flush \<noteq> None \<and> rb_reply rb"

section \<open>Write timeouts\<close>

text \<open>Time is in milliseconds; a sleep is its end. \<open>io\<close> polls are given as the result they return.\<close>

datatype 'r io_poll = IoPending | IoReady 'r | IoError string

record timed_io =
  ti_timeout :: nat
  ti_deadline :: "nat option"
  ti_close_deadline :: "nat option"
  ti_flushes :: nat

definition timed_io_new :: "nat \<Rightarrow> timed_io" where
  "timed_io_new timeout = \<lparr>ti_timeout = timeout, ti_deadline = None, ti_close_deadline = None, ti_flushes = 0\<rparr>"

definition stalled :: "nat \<Rightarrow> timed_io \<Rightarrow> bool \<times> timed_io" where
  "stalled now t =
     (let d = (case ti_deadline t of Some d \<Rightarrow> d | None \<Rightarrow> now + ti_timeout t)
      in (d \<le> now, t\<lparr>ti_deadline := Some d\<rparr>))"

definition gate :: "nat \<Rightarrow> 'r io_poll \<Rightarrow> timed_io \<Rightarrow> 'r io_poll \<times> timed_io" where
  "gate now poll t = (case poll of
       IoPending \<Rightarrow> (case stalled now t of (late, t') \<Rightarrow>
           (if late then IoError ''response write timed out'' else IoPending, t'))
     | r \<Rightarrow> (r, t\<lparr>ti_deadline := None\<rparr>))"

definition poll_write :: "nat \<Rightarrow> nat io_poll \<Rightarrow> timed_io \<Rightarrow> nat io_poll \<times> timed_io" where
  "poll_write now io t = gate now io t"

definition poll_flush :: "nat \<Rightarrow> unit io_poll \<Rightarrow> timed_io \<Rightarrow> unit io_poll \<times> timed_io" where
  "poll_flush now io t =
     (case gate now io t of (r, t') \<Rightarrow>
        (r, if r = IoReady () then t'\<lparr>ti_flushes := ti_flushes t' + 1\<rparr> else t'))"

text \<open>\<open>shut\<close> is what the send-side shutdown returns, \<open>rd\<close> the number of bytes a read finds.\<close>

definition poll_shutdown :: "nat \<Rightarrow> unit io_poll \<Rightarrow> nat io_poll \<Rightarrow> timed_io \<Rightarrow> unit io_poll \<times> timed_io" where
  "poll_shutdown now shut rd t =
     (let read = (\<lambda>t d. if d \<le> now then (IoReady (), t)
            else (case rd of IoPending \<Rightarrow> (IoPending, t) | IoError e \<Rightarrow> (IoError e, t)
                  | IoReady n \<Rightarrow> (if n = 0 then IoReady () else IoPending, t)))
      in case ti_close_deadline t of
           Some d \<Rightarrow> read t d
         | None \<Rightarrow> (case shut of
              IoPending \<Rightarrow> (IoPending, t)
            | IoError e \<Rightarrow> (IoError e, t)
            | IoReady _ \<Rightarrow> read (t\<lparr>ti_close_deadline := Some (now + 1000)\<rparr>) (now + 1000)))"

section \<open>Properties\<close>

lemma reply_body_carries:
  assumes "reply_source B coming contents"
    and "poll_body B fuel k (reply_body_new declared staged) w = Some (ps, rb', w')"
  shows "(\<exists>rest. wire_bytes contents ((case staged of None \<Rightarrow> [] | Some f \<Rightarrow> [f]) @ coming w) = data_of ps @ rest)
     \<and> (BodyEnd \<in> set ps \<longrightarrow> data_of ps = wire_bytes contents ((case staged of None \<Rightarrow> [] | Some f \<Rightarrow> [f]) @ coming w)
         \<and> clean_end ((case staged of None \<Rightarrow> [] | Some f \<Rightarrow> [f]) @ coming w)
         \<and> (\<forall>cl. declared = Some cl \<longrightarrow> cl \<le> length (data_of ps)))"
  using reply_source.poll_body_post [OF assms(1,2)]
  by (auto simp: reply_body_new_def reply_source.rest_bytes_def [OF assms(1)]
      reply_source.rest_clean_def [OF assms(1)] pump_bytes_def staged_frames_def)

text \<open>
  C3: the bytes hyper gets from a reply body are, at every moment, a prefix of the bytes PHP sent, in
  order, file slices included; and the body ends without an error only when all of them were
  handed over, PHP ended the reply cleanly, and at least the declared length was sent. A worker
  death, a truncated end, a failed or short file read, or a short reply never looks complete.
\<close>

theorem reply_body_is_faithful:
  assumes "reply_source B coming contents"
    and "poll_body B fuel k (reply_body_new declared staged) w = Some (ps, rb', w')"
  defines "frames \<equiv> (case staged of None \<Rightarrow> [] | Some f \<Rightarrow> [f]) @ coming w"
  shows "(\<exists>rest. wire_bytes contents frames = data_of ps @ rest)
     \<and> (BodyEnd \<in> set ps \<longrightarrow> data_of ps = wire_bytes contents frames \<and> clean_end frames
         \<and> (\<forall>cl. declared = Some cl \<longrightarrow> cl \<le> length (data_of ps)))"
  unfolding frames_def by (rule reply_body_carries [OF assms(1,2)])

definition sample_contents :: "handle \<Rightarrow> bytes" where
  "sample_contents h = (if h = 7 then ''0123456789'' else [])"

lemma reply_body_is_faithful_witness:
  "(case poll_body (play_ops sample_contents :: (unit frame option list, unit frame) bridge_ops) 10 9
       (reply_body_new (Some 5) None)
       [Some (Chunk ''ab''), None, Some (File 7 1 3), None, Some (End False)] of
     Some (ps, _) \<Rightarrow> data_of ps = ''ab123'' \<and> BodyEnd \<in> set ps
   | None \<Rightarrow> False)"
proof -
  let ?w = "[Some (Chunk ''ab''), None, Some (File 7 1 3), None, Some (End False)] :: unit frame option list"
  obtain ps rb' w' where e: "poll_body (play_ops sample_contents) 10 9 (reply_body_new (Some 5) None) ?w
      = Some (ps, rb', w')" and b: "BodyEnd \<in> set ps"
  proof -
    have "poll_body (play_ops sample_contents) 10 9 (reply_body_new (Some 5) None) ?w
        = Some ([BodyData ''ab'', BodyPending, BodyData ''123'', BodyPending, BodyEnd],
            \<lparr>rb_reply = False, rb_declared = Some 5, rb_sent = 5, rb_staged = None, rb_file = None,
             rb_err = False\<rparr>, [])"
      by code_simp
    then show ?thesis using that by auto
  qed
  have "wire_bytes sample_contents (play_coming ?w) = ''ab123''" by code_simp
  with reply_body_is_faithful [OF play.reply_source_axioms e] e b show ?thesis by auto
qed

text \<open>
  C7: a poll of the reply body always returns: the loop runs at most twice per frame that is still to
  come, so fuel above that is enough whatever the receiver and the file reads answer.
\<close>

theorem reply_poll_returns:
  assumes "reply_source B coming contents" and "rb_reply rb \<or> rb_err rb"
    and "2 * length (staged_frames rb @ coming w) + 2 \<le> n"
  shows "\<exists>p rb' w'. poll_reply B n rb w = Some ((p, rb'), w')"
proof -
  have "2 * length (staged_frames rb @ coming w) + (if rb_file rb = None then 1 else 0) < n"
    using assms(3) by simp
  from reply_source.poll_reply_fuel [OF assms(1) this assms(2)] show ?thesis
    by (cases "poll_reply B n rb w") auto
qed

lemma reply_poll_returns_witness:
  "\<exists>p rb' w'. poll_reply (play_ops sample_contents :: (unit frame option list, unit frame) bridge_ops) 4
     (reply_body_new None None) [Some (End True)] = Some ((p, rb'), w')"
  by (rule reply_poll_returns [OF play.reply_source_axioms])
    (simp_all add: reply_body_new_def staged_frames_def)

text \<open>
  A broken reply never fails in the poll that notices it: the error comes right after a pending
  poll, so hyper flushes what it has before it drops the connection, and no data follows it.
\<close>

theorem reply_error_waits_for_a_flush:
  assumes "reply_source B coming contents"
    and "poll_body B fuel k (reply_body_new declared staged) w = Some (ps, rb', w')"
    and "BodyError \<in> set ps"
  shows "\<exists>qs. ps = qs @ [BodyPending, BodyError] \<and> BodyError \<notin> set qs"
proof -
  have gen: "\<exists>qs. ps = qs @ [BodyPending, BodyError] \<and> BodyError \<notin> set qs"
    if "poll_body B fuel k rb w = Some (ps, rb', w')" "\<not> rb_err rb" "rb_reply rb" "BodyError \<in> set ps"
    for k rb w ps
    using that
  proof (induction k arbitrary: rb w ps)
    case (Suc k)
    obtain p rb1 w1 where p: "poll_reply B fuel rb w = Some ((p, rb1), w1)"
      using Suc.prems(1) by (cases "poll_reply B fuel rb w") auto
    have post: "reply_source.poll_post coming contents rb w p rb1 w1"
      by (rule reply_source.poll_reply_post [OF assms(1) p]) (use Suc.prems in simp)
    note post' = post [unfolded reply_source.poll_post_def [OF assms(1)]]
    have ne: "p \<noteq> BodyError" using reply_source.poll_reply_no_error [OF assms(1) p Suc.prems(2)] .
    have nd: "p \<noteq> BodyEnd"
      using Suc.prems(1,4) p ne by auto
    then obtain qs where q: "poll_body B fuel k rb1 w1 = Some (qs, rb', w')" "ps = p # qs"
      using Suc.prems(1) p ne by (auto split: option.splits)
    have er: "BodyError \<in> set qs" using Suc.prems(4) q(2) ne by auto
    show ?case
    proof (cases "rb_err rb1")
      case True
      then have "p = BodyPending" using post' ne nd by (cases p) auto
      moreover have "qs = [BodyError]"
        using q(1) er True by (cases k; cases fuel) (auto split: if_splits option.splits)
      ultimately show ?thesis using q(2) by (intro exI [of _ "[]"]) simp
    next
      case False
      have "rb_reply rb1" using post' ne nd False by (cases p) auto
      from Suc.IH [OF q(1) False this er] obtain rs where "qs = rs @ [BodyPending, BodyError]"
        "BodyError \<notin> set rs" by blast
      then show ?thesis using q(2) ne by (intro exI [of _ "p # rs"]) auto
    qed
  qed simp
  show ?thesis by (rule gen [OF assms(2) _ _ assms(3)]) (simp_all add: reply_body_new_def)
qed

lemma reply_error_waits_for_a_flush_witness:
  "\<exists>qs r. poll_body (play_ops sample_contents :: (unit frame option list, unit frame) bridge_ops) 10 9
       (reply_body_new (Some 5) None) [Some (Chunk ''ab''), Some (End False)]
     = Some (qs @ [BodyPending, BodyError], r)"
proof -
  have e: "poll_body (play_ops sample_contents :: (unit frame option list, unit frame) bridge_ops) 10 9
       (reply_body_new (Some 5) None) [Some (Chunk ''ab''), Some (End False)]
     = Some ([BodyData ''ab'', BodyPending, BodyError],
         \<lparr>rb_reply = False, rb_declared = Some 5, rb_sent = 2, rb_staged = None, rb_file = None,
          rb_err = True\<rparr>, [])" by code_simp
  from reply_error_waits_for_a_flush [OF play.reply_source_axioms e] e show ?thesis by auto
qed

text \<open>
  The delivery watermark of a response is set by the data frame that reaches the framed length,
  to the flush count of that moment, and never moves again; before that frame it is unset.
\<close>

definition feed :: "(nat \<times> nat) list \<Rightarrow> resp_transport \<Rightarrow> resp_transport" where
  "feed ds t = foldl (\<lambda>t (len, flushes). resp_body_data len flushes t) t ds"

theorem watermark_marks_the_last_byte:
  assumes "0 < len" and "arm_response (Some len) f0 None = (Some t, cell)"
  shows "rt_end_flush (feed ds t) =
     (case filter (\<lambda>i. len \<le> sum_list (map fst (take (Suc i) ds))) [0..<length ds] of
        [] \<Rightarrow> None
      | i # _ \<Rightarrow> Some (snd (ds ! i)))
     \<and> rt_remaining (feed ds t) = len - sum_list (map fst ds)"
proof -
  have t: "t = \<lparr>rt_remaining = len, rt_end_flush = None\<rparr>"
    using assms by (auto simp: arm_response_def)
  show ?thesis
  proof (induction ds rule: rev_induct)
    case Nil
    then show ?case by (simp add: feed_def t)
  next
    case (snoc d ds)
    obtain l f where d: "d = (l, f)" by fastforce
    have e: "feed (ds @ [(l, f)]) t = resp_body_data l f (feed ds t)" by (simp add: feed_def)
    have same: "filter (\<lambda>i. len \<le> sum_list (map fst (take (Suc i) (ds @ [d])))) [0..<length ds]
        = filter (\<lambda>i. len \<le> sum_list (map fst (take (Suc i) ds))) [0..<length ds]"
      by (rule filter_cong) auto
    let ?F = "filter (\<lambda>i. len \<le> sum_list (map fst (take (Suc i) ds))) [0..<length ds]"
    have idx: "i < length ds" if "?F = i # r" for i r
    proof -
      have "i \<in> set ?F" using that by simp
      then show ?thesis by simp
    qed
    show ?case
    proof (cases ?F)
      case Nil
      then show ?thesis using snoc same
        by (auto simp: e resp_body_data_def Let_def set_end_flush_def d nth_append)
    next
      case (Cons i r)
      then show ?thesis using snoc same idx [OF Cons]
        by (auto simp: e resp_body_data_def Let_def set_end_flush_def d nth_append)
    qed
  qed
qed

lemma watermark_marks_the_last_byte_witness:
  "\<exists>t. arm_response (Some 5) 0 None = (Some t, None)
     \<and> rt_end_flush (feed [(2, 7), (3, 8), (1, 9)] t) = Some 8"
proof -
  have e: "arm_response (Some 5) 0 None = (Some \<lparr>rt_remaining = 5, rt_end_flush = None\<rparr>, None)"
    by (simp add: arm_response_def)
  from watermark_marks_the_last_byte [OF _ e, of "[(2, 7), (3, 8), (1, 9)]"] e show ?thesis
    by (auto simp: upt_rec)
qed

text \<open>
  Once a flush past the watermark has put the last byte on the socket, closing the connection
  does not release the reply before PHP ended it, however the drain is polled; a close without
  such a flush releases it at once, which is what reports the cancellation to PHP.
\<close>

theorem drain_keeps_delivered_reply:
  assumes "\<And>cn. cn \<in> set cns \<Longrightarrow> cn \<noteq> None \<and> (cn_closed (the cn) \<longrightarrow> delivered_past end_flush (the cn))"
    and "cn_closed cn0" and "\<not> delivered_past end_flush cn0"
  shows "fst (foldl (\<lambda>ds cn. poll_drain end_flush cn ds) (spawn_drain w) cns) \<noteq> Released False
     \<and> fst (poll_drain end_flush (Some cn0) (Selecting, w)) = Released False"
proof
  have "fst (foldl (\<lambda>ds cn. poll_drain end_flush cn ds) ds cns) \<noteq> Released False"
    if "fst ds \<noteq> Released False" for ds :: "drain_state \<times> 'a frame option list"
    using assms(1) that
  proof (induction cns arbitrary: ds)
    case (Cons cn cns)
    obtain st u where ds: "ds = (st, u)" by fastforce
    have "fst (poll_drain end_flush cn ds) \<noteq> Released False"
      using Cons.prems(1) [of cn] Cons.prems(2) ds
      by (cases st) (auto simp: poll_drain_def split: option.splits prod.splits)
    with Cons show ?case by simp
  qed simp
  moreover have "fst (spawn_drain w) \<noteq> Released False"
    by (auto simp: spawn_drain_def split: list.splits option.splits frame.splits)
  ultimately show "fst (foldl (\<lambda>ds cn. poll_drain end_flush cn ds) (spawn_drain w) cns) \<noteq> Released False"
    by blast
  show "fst (poll_drain end_flush (Some cn0) (Selecting, w)) = Released False"
    using assms(2,3) by (simp add: poll_drain_def)
qed

lemma drain_keeps_delivered_reply_witness:
  "fst (foldl (\<lambda>ds cn. poll_drain (Some 3) cn ds) (spawn_drain [None, None :: unit frame option])
     [Some \<lparr>cn_closed = False, cn_flushes = 3\<rparr>, Some \<lparr>cn_closed = True, cn_flushes = 4\<rparr>])
   \<noteq> Released False
   \<and> fst (poll_drain (Some 3) (Some \<lparr>cn_closed = True, cn_flushes = 3\<rparr>)
        (Selecting, [None, None :: unit frame option])) = Released False"
  by (rule drain_keeps_delivered_reply) (auto simp: delivered_past_def)

text \<open>
  C8: a stalled write fails exactly when the timeout has passed since the first pending poll of the
  stall, no earlier and no later poll; any progress starts the clock afresh. The wait for the
  client after the send-side shutdown ends after at most one second, whatever the client sends
  and however often hyper flushes meanwhile.
\<close>

definition pending_polls :: "nat list \<Rightarrow> timed_io \<Rightarrow> nat io_poll list" where
  "pending_polls ts t = rev (fst (foldl (\<lambda>(rs, t) now. case gate now IoPending t of (r, t') \<Rightarrow> (r # rs, t'))
     ([], t) ts))"



end
