(* ===== verification/StaticCache.thy ===== *)
theory StaticCache
  imports Headers "HOL-Library.AList"
begin

text \<open>
  The static file middleware (\<open>crates/middleware/static_files\<close>): which paths it may serve, how a
  probe becomes a response or a miss, and the file cache all HTTP connections share. The cache map
  is an association list without duplicate keys. Times are in milliseconds on the monotonic
  clock; a modification time is in seconds since 1970.
\<close>

section \<open>cache.rs: the store\<close>

definition MAX_FILE :: nat where "MAX_FILE = 256 * 1024"
definition MAX_TOTAL :: nat where "MAX_TOTAL = 16 * 1024 * 1024"
definition TTL :: nat where "TTL = 1000"
definition ENTRY_OVERHEAD :: nat where "ENTRY_OVERHEAD = 256"

record cached_meta =
  cm_is_dir :: bool
  cm_modified :: "int option"
  cm_len :: nat

definition same_file :: "cached_meta \<Rightarrow> cached_meta \<Rightarrow> bool" where
  "same_file a b \<longleftrightarrow> cm_modified a = cm_modified b \<and> cm_len a = cm_len b"

text \<open>The modification time \<open>ServeDir\<close> sees: absent outside the years 1970 to 9999.\<close>

definition meta_modified :: "cached_meta \<Rightarrow> int option" where
  "meta_modified m = opt_filter (\<lambda>t. 0 \<le> t \<and> t < 253402300800) (cm_modified m)"

record entry =
  en_body :: bytes
  en_meta :: cached_meta
  en_checked :: nat

record store =
  st_map :: "(bytes \<times> entry) list"
  st_bytes :: nat
  st_next_expiry :: "nat option"

definition store_new :: store where
  "store_new = \<lparr>st_map = [], st_bytes = 0, st_next_expiry = None\<rparr>"

abbreviation lookup :: "store \<Rightarrow> bytes \<Rightarrow> entry option" where
  "lookup s \<equiv> map_of (st_map s)"

definition fresh :: "store \<Rightarrow> bytes \<Rightarrow> nat \<Rightarrow> entry option" where
  "fresh s path now = opt_filter (\<lambda>e. now - en_checked e < TTL) (lookup s path)"

definition footprint :: "bytes \<Rightarrow> nat \<Rightarrow> nat" where
  "footprint path body = body + length path + ENTRY_OVERHEAD"

definition store_take :: "bytes \<Rightarrow> store \<Rightarrow> store" where
  "store_take path s = (case lookup s path of
       Some e \<Rightarrow> s\<lparr>st_map := AList.delete path (st_map s),
                  st_bytes := st_bytes s - footprint path (length (en_body e))\<rparr>
     | None \<Rightarrow> s)"

definition fits :: "store \<Rightarrow> bytes \<Rightarrow> nat \<Rightarrow> bool" where
  "fits s path body =
     (let reclaimed = (case lookup s path of Some e \<Rightarrow> footprint path (length (en_body e)) | None \<Rightarrow> 0)
      in st_bytes s - reclaimed + footprint path body \<le> MAX_TOTAL)"

definition entry_fresh :: "nat \<Rightarrow> entry \<Rightarrow> bool" where
  "entry_fresh now e \<longleftrightarrow> now - en_checked e < TTL"

definition drop_expired :: "nat \<Rightarrow> store \<Rightarrow> store" where
  "drop_expired now s =
     (let keep = filter (\<lambda>(p, e). entry_fresh now e) (st_map s);
          gone = filter (\<lambda>(p, e). \<not> entry_fresh now e) (st_map s);
          freed = sum_list (map (\<lambda>(p, e). footprint p (length (en_body e))) gone);
          oldest = foldl (\<lambda>o' (p, e). min o' (en_checked e)) now keep
      in \<lparr>st_map = keep, st_bytes = st_bytes s - freed, st_next_expiry = Some (oldest + TTL)\<rparr>)"

definition make_room :: "bytes \<Rightarrow> nat \<Rightarrow> nat \<Rightarrow> store \<Rightarrow> bool \<times> store" where
  "make_room path body now s =
     (if fits s path body then (True, s)
      else if (case st_next_expiry s of Some expiry \<Rightarrow> now < expiry | None \<Rightarrow> False) then (False, s)
      else let s' = drop_expired now s in (fits s' path body, s'))"

definition revalidate :: "bytes \<Rightarrow> cached_meta \<Rightarrow> nat \<Rightarrow> store \<Rightarrow> store" where
  "revalidate path meta now s = (case lookup s path of
       Some e \<Rightarrow>
         if same_file (en_meta e) meta
         then s\<lparr>st_map := AList.update path (e\<lparr>en_checked := now\<rparr>) (st_map s),
                st_next_expiry := map_option (\<lambda>expiry. min expiry (now + TTL)) (st_next_expiry s)\<rparr>
         else store_take path s
     | None \<Rightarrow> s)"

definition put :: "bytes \<Rightarrow> bytes \<Rightarrow> cached_meta \<Rightarrow> nat \<Rightarrow> store \<Rightarrow> store" where
  "put path body meta now s =
     (case make_room path (length body) now s of (ok, s1) \<Rightarrow>
        if \<not> ok then s1
        else let s2 = store_take path s1
             in s2\<lparr>st_bytes := st_bytes s2 + footprint path (length body),
                   st_map := AList.update path \<lparr>en_body = body, en_meta = meta, en_checked = now\<rparr> (st_map s2)\<rparr>)"

section \<open>cache.rs: stat, hit and fill\<close>

datatype io_kind = NotFound | PermissionDenied | IsADirectory | InvalidFilename | InvalidInput
  | NotADirectory | OtherKind

datatype seek_from = SeekStart nat | SeekEnd int | SeekCurrent int

text \<open>
  A file handle of the system (\<open>std::fs::File\<close>, later \<open>tokio::fs::File\<close>) is a parameter: open at a moment, the metadata
  at a moment, a bounded read to the end, a seek, a read into a buffer of some room.
\<close>

record 'f file_ops =
  fo_open :: "bytes \<Rightarrow> nat \<Rightarrow> ('f, io_kind) result"
  fo_metadata :: "nat \<Rightarrow> 'f \<Rightarrow> (cached_meta, io_kind) result"
  fo_read_to_end :: "nat \<Rightarrow> 'f \<Rightarrow> (bytes, io_kind) result \<times> 'f"
  fo_seek :: "seek_from \<Rightarrow> 'f \<Rightarrow> (nat, io_kind) result \<times> 'f"
  fo_read :: "nat \<Rightarrow> 'f \<Rightarrow> (bytes, io_kind) result \<times> 'f"

record cursor =
  cu_body :: bytes
  cu_pos :: nat

definition cursor_new :: "bytes \<Rightarrow> cursor" where
  "cursor_new body = \<lparr>cu_body = body, cu_pos = 0\<rparr>"

datatype 'f cached_file = Memory cursor cached_meta | Disk 'f cached_meta

text \<open>
  \<open>stat\<close> in its two locked sections: a look, and what it does with the answer of the file system. It reads its
  clock before the first one, so both may run late, and other requests use the store between them.
\<close>

definition stat_look :: "bytes \<Rightarrow> nat \<Rightarrow> store \<Rightarrow> cached_meta option" where
  "stat_look path now s = map_option en_meta (fresh s path now)"

definition stat_end ::
  "bytes \<Rightarrow> nat \<Rightarrow> (cached_meta, io_kind) result \<Rightarrow> store \<Rightarrow> (cached_meta, io_kind) result \<times> store" where
  "stat_end path now disk s = (case disk of
       Ok meta \<Rightarrow> (Ok meta, revalidate path meta now s)
     | Err err \<Rightarrow> (Err err, store_take path s))"

definition cache_stat ::
  "bytes \<Rightarrow> nat \<Rightarrow> (cached_meta, io_kind) result \<Rightarrow> (store \<Rightarrow> store) \<Rightarrow> store
   \<Rightarrow> (cached_meta, io_kind) result \<times> store" where
  "cache_stat path now disk others s = (case stat_look path now s of
       Some meta \<Rightarrow> (Ok meta, s)
     | None \<Rightarrow> stat_end path now disk (others s))"

definition cache_hit :: "bytes \<Rightarrow> nat \<Rightarrow> store \<Rightarrow> 'f cached_file option" where
  "cache_hit path now s = map_option (\<lambda>e. Memory (cursor_new (en_body e)) (en_meta e)) (fresh s path now)"

text \<open>
  \<open>fill\<close> in its two locked parts and the read between them. The first part has the results of the open and of
  the metadata and asks for room; \<open>Inl\<close> is a result without a read. The last part has the bytes that the
  bounded read returned and the metadata after it; a file that changed goes back to its start and is streamed.
\<close>

definition fill_begin ::
  "bytes \<Rightarrow> ('f, io_kind) result \<Rightarrow> (cached_meta, io_kind) result \<Rightarrow> nat \<Rightarrow> store
   \<Rightarrow> (('f cached_file, io_kind) result + 'f \<times> cached_meta) \<times> store" where
  "fill_begin path opened metadata now s = (case opened of
       Err err \<Rightarrow> (Inl (Err err), store_take path s)
     | Ok file \<Rightarrow> (case metadata of
         Err err \<Rightarrow> (Inl (Err err), s)
       | Ok meta \<Rightarrow>
           if cm_is_dir meta then (Inl (Err IsADirectory), s)
           else if cm_len meta > MAX_FILE then (Inl (Ok (Disk file meta)), s)
           else (case make_room path (cm_len meta) now s of (ok, s') \<Rightarrow>
             if ok then (Inr (file, meta), s') else (Inl (Ok (Disk file meta)), s'))))"

definition fill_read ::
  "'f file_ops \<Rightarrow> cached_meta \<Rightarrow> nat \<Rightarrow> bool \<Rightarrow> 'f \<Rightarrow> ('f \<times> bytes \<times> cached_meta, io_kind) result" where
  "fill_read F meta now joined file =
     (if \<not> joined then Err OtherKind
      else (case fo_read_to_end F (cm_len meta + 1) file of
          (Err e, _) \<Rightarrow> Err e
        | (Ok buf, file') \<Rightarrow> (case fo_metadata F now file' of
            Err e \<Rightarrow> Err e
          | Ok reread \<Rightarrow> Ok (file', buf, reread))))"

definition fill_end ::
  "'f file_ops \<Rightarrow> bytes \<Rightarrow> cached_meta \<Rightarrow> 'f \<times> bytes \<times> cached_meta \<Rightarrow> nat \<Rightarrow> store
   \<Rightarrow> ('f cached_file, io_kind) result \<times> store" where
  "fill_end F path meta = (\<lambda>(file, buf, reread) now s.
      if \<not> same_file reread meta \<or> length buf \<noteq> cm_len meta
      then (case fo_seek F (SeekStart 0) file of
          (Err e, _) \<Rightarrow> Err e
        | (Ok _, file') \<Rightarrow> Ok (Disk file' reread), store_take path s)
      else (Ok (Memory (cursor_new buf) meta), put path buf meta now s))"

section \<open>The invariant of the store\<close>

definition total :: "(bytes \<times> entry) list \<Rightarrow> nat" where
  "total m = sum_list (map (\<lambda>(p, e). footprint p (length (en_body e))) m)"

text \<open>
  \<open>clock\<close> is a time not before the last locked section. An entry's body is a whole small file of
  the length its metadata tells.
\<close>

definition store_inv :: "nat \<Rightarrow> store \<Rightarrow> bool" where
  "store_inv clock s \<longleftrightarrow>
     distinct (map fst (st_map s)) \<and> st_bytes s = total (st_map s) \<and> st_bytes s \<le> MAX_TOTAL
     \<and> (\<forall>p e. (p, e) \<in> set (st_map s) \<longrightarrow>
          length (en_body e) = cm_len (en_meta e) \<and> cm_len (en_meta e) \<le> MAX_FILE
          \<and> \<not> cm_is_dir (en_meta e) \<and> en_checked e \<le> clock)
     \<and> (\<forall>x. st_next_expiry s = Some x \<longrightarrow> x \<le> clock + TTL
          \<and> (\<forall>p e. (p, e) \<in> set (st_map s) \<longrightarrow> x \<le> en_checked e + TTL))"

lemma total_simps [simp]:
  "total [] = 0" "total ((p, e) # m) = footprint p (length (en_body e)) + total m"
  by (simp_all add: total_def)

lemma total_split: "total m = total (filter P m) + total (filter (\<lambda>x. \<not> P x) m)"
  by (induction m) auto

lemma total_delete:
  "distinct (map fst m) \<Longrightarrow> map_of m p = Some e \<Longrightarrow>
   total m = footprint p (length (en_body e)) + total (AList.delete p m)"
proof (induction m)
  case (Cons x m)
  obtain q f where x: "x = (q, f)" by fastforce
  show ?case
  proof (cases "q = p")
    case True
    then have "AList.delete p m = m"
      using Cons.prems(1) x by (simp add: AList.delete_eq filter_id_conv) force
    with True Cons.prems x show ?thesis by simp
  next
    case False
    with Cons x show ?thesis by simp
  qed
qed simp

lemma total_update_some:
  "map_of m p = Some e \<Longrightarrow> length (en_body e') = length (en_body e) \<Longrightarrow> distinct (map fst m) \<Longrightarrow>
   total (AList.update p e' m) = total m"
  by (induction m) auto

lemma total_update_none: "map_of m p = None \<Longrightarrow> total (AList.update p e m) = total m + footprint p (length (en_body e))"
  by (induction m) auto

lemma set_update_subset: "set (AList.update p e m) \<subseteq> insert (p, e) (set m)"
  by (induction m) auto

lemma set_delete_subset: "set (AList.delete p m) \<subseteq> set m"
  by (auto simp: AList.delete_eq)

lemma foldl_min_le:
  "foldl (\<lambda>o' (p, e). min o' (en_checked e)) now m \<le> now"
  "(p, e) \<in> set m \<Longrightarrow> foldl (\<lambda>o' (p, e). min o' (en_checked e)) now m \<le> en_checked e"
proof -
  have le: "foldl (\<lambda>o' (p, e). min o' (en_checked e)) a m \<le> a" for a m
  proof (induction m arbitrary: a)
    case (Cons x m)
    obtain q f where "x = (q, f)" by fastforce
    then show ?case using Cons.IH [of "min a (en_checked f)"] by simp
  qed simp
  then show "foldl (\<lambda>o' (p, e). min o' (en_checked e)) now m \<le> now" .
  show "(p, e) \<in> set m \<Longrightarrow> foldl (\<lambda>o' (p, e). min o' (en_checked e)) now m \<le> en_checked e"
  proof (induction m arbitrary: now)
    case (Cons x m)
    obtain q f where x: "x = (q, f)" by fastforce
    show ?case
    proof (cases "x = (p, e)")
      case True
      then show ?thesis using le [of "min now (en_checked e)" m] by simp
    next
      case False
      then show ?thesis using Cons x by auto
    qed
  qed simp
qed

lemma store_inv_new: "store_inv 0 store_new"
  by (simp add: store_inv_def store_new_def)

lemma store_inv_mono: "store_inv c s \<Longrightarrow> c \<le> c' \<Longrightarrow> store_inv c' s"
  by (fastforce simp: store_inv_def)

lemma store_inv_take:
  assumes "store_inv c s"
  shows "store_inv c (store_take p s)" and "lookup (store_take p s) p = None"
    and "st_bytes (store_take p s) = st_bytes s - (case lookup s p of Some e \<Rightarrow> footprint p (length (en_body e)) | None \<Rightarrow> 0)"
    and "st_next_expiry (store_take p s) = st_next_expiry s"
proof -
  show "store_inv c (store_take p s)"
  proof (cases "lookup s p")
    case (Some e)
    have t: "total (st_map s) = footprint p (length (en_body e)) + total (AList.delete p (st_map s))"
      using assms Some by (intro total_delete) (auto simp: store_inv_def)
    then show ?thesis
      using assms Some set_delete_subset [of p "st_map s"]
      by (auto simp: store_inv_def store_take_def AList.distinct_delete)
  qed (use assms in \<open>simp add: store_take_def\<close>)
qed (auto simp: store_take_def AList.delete_conv' split: option.splits)

lemma store_inv_drop_expired:
  assumes "store_inv c s" "c \<le> now"
  shows "store_inv now (drop_expired now s)"
proof -
  define keep where "keep = filter (\<lambda>(p, e). entry_fresh now e) (st_map s)"
  let ?gone = "filter (\<lambda>(p, e). \<not> entry_fresh now e) (st_map s)"
  have t: "total (st_map s) = total keep + total ?gone"
    using total_split [of "st_map s" "\<lambda>(p, e). entry_fresh now e"] by (simp add: case_prod_unfold keep_def)
  have m: "st_map (drop_expired now s) = keep" by (simp add: drop_expired_def Let_def keep_def)
  have b: "st_bytes (drop_expired now s) = st_bytes s - total ?gone"
    by (simp add: drop_expired_def Let_def total_def)
  have x: "st_next_expiry (drop_expired now s)
      = Some (foldl (\<lambda>o' (p, e). min o' (en_checked e)) now keep + TTL)"
    by (simp add: drop_expired_def Let_def keep_def)
  have d: "distinct (map fst keep)" using assms(1) by (simp add: store_inv_def distinct_map_filter keep_def)
  have e: "\<And>p e. (p, e) \<in> set keep \<Longrightarrow> length (en_body e) = cm_len (en_meta e)
      \<and> cm_len (en_meta e) \<le> MAX_FILE \<and> \<not> cm_is_dir (en_meta e) \<and> en_checked e \<le> now"
    using assms by (fastforce simp: store_inv_def keep_def)
  have "st_bytes s - total ?gone = total keep \<and> total keep \<le> MAX_TOTAL"
    using assms(1) t by (simp add: store_inv_def)
  moreover define old where "old = foldl (\<lambda>o' (p, e). min o' (en_checked e)) now keep"
  moreover have "old \<le> now" "\<And>p e. (p, e) \<in> set keep \<Longrightarrow> old \<le> en_checked e"
    unfolding old_def by (rule foldl_min_le)+
  ultimately show ?thesis
    using d e unfolding store_inv_def m b x by (intro conjI allI impI) auto
qed

lemma store_inv_make_room:
  assumes "store_inv c s" "c \<le> now" "make_room p b now s = (ok, s')"
  shows "store_inv now s'" and "ok = fits s' p b"
  using assms store_inv_mono [OF assms(1,2)] store_inv_drop_expired [OF assms(1,2)]
  by (auto simp: make_room_def Let_def split: if_splits)

lemma store_inv_revalidate:
  assumes "store_inv c s" "now \<le> c"
  shows "store_inv c (revalidate p meta now s)"
proof (cases "lookup s p")
  case (Some e)
  show ?thesis
  proof (cases "same_file (en_meta e) meta")
    case False
    then show ?thesis using store_inv_take(1) [OF assms(1)] Some by (simp add: revalidate_def)
  next
    case True
    let ?m = "AList.update p (e\<lparr>en_checked := now\<rparr>) (st_map s)"
    have t: "total ?m = total (st_map s)"
      using assms(1) Some by (intro total_update_some) (auto simp: store_inv_def)
    have e: "(p, e) \<in> set (st_map s)" using Some by (rule map_of_SomeD)
    then have "\<And>q f. (q, f) \<in> set ?m \<Longrightarrow> length (en_body f) = cm_len (en_meta f)
        \<and> cm_len (en_meta f) \<le> MAX_FILE \<and> \<not> cm_is_dir (en_meta f) \<and> en_checked f \<le> c"
      using assms set_update_subset [of p "e\<lparr>en_checked := now\<rparr>" "st_map s"]
      by (fastforce simp: store_inv_def)
    moreover have "\<And>q f x. (q, f) \<in> set ?m \<Longrightarrow> st_next_expiry s = Some x \<Longrightarrow> min x (now + TTL) \<le> en_checked f + TTL"
      using assms(1) set_update_subset [of p "e\<lparr>en_checked := now\<rparr>" "st_map s"]
      by (fastforce simp: store_inv_def)
    ultimately show ?thesis
      using assms Some True t
      by (auto simp: revalidate_def store_inv_def AList.distinct_update)
  qed
qed (use assms in \<open>simp add: revalidate_def\<close>)

lemma store_inv_put:
  assumes "store_inv c s" "c \<le> now"
    and "length body = cm_len meta" "cm_len meta \<le> MAX_FILE" "\<not> cm_is_dir meta"
  shows "store_inv now (put p body meta now s)"
proof -
  obtain ok s1 where r: "make_room p (length body) now s = (ok, s1)" by fastforce
  note i = store_inv_make_room [OF assms(1,2) r]
  show ?thesis
  proof (cases ok)
    case True
    note t = store_inv_take [OF i(1), of p]
    have "st_bytes (store_take p s1) + footprint p (length body) \<le> MAX_TOTAL"
      using i(2) True unfolding t(3) by (simp add: fits_def Let_def)
    moreover have "total (AList.update p \<lparr>en_body = body, en_meta = meta, en_checked = now\<rparr> (st_map (store_take p s1)))
        = total (st_map (store_take p s1)) + footprint p (length body)"
      using total_update_none [OF t(2)] by simp
    moreover define m' where "m' = AList.update p \<lparr>en_body = body, en_meta = meta, en_checked = now\<rparr> (st_map (store_take p s1))"
    moreover have mem: "(q, f) = (p, \<lparr>en_body = body, en_meta = meta, en_checked = now\<rparr>) \<or> (q, f) \<in> set (st_map (store_take p s1))"
      if "(q, f) \<in> set m'" for q f
      using subsetD [OF set_update_subset that [unfolded m'_def]] by simp
    moreover have "put p body meta now s = (store_take p s1)\<lparr>
        st_bytes := st_bytes (store_take p s1) + footprint p (length body), st_map := m'\<rparr>"
      by (simp add: put_def r True Let_def m'_def)
    moreover have "distinct (map fst m')"
      using t(1) unfolding m'_def store_inv_def by (simp add: AList.distinct_update)
    moreover have "\<And>q f. (q, f) \<in> set m' \<Longrightarrow> length (en_body f) = cm_len (en_meta f)
          \<and> cm_len (en_meta f) \<le> MAX_FILE \<and> \<not> cm_is_dir (en_meta f) \<and> en_checked f \<le> now"
    proof -
      fix q f assume "(q, f) \<in> set m'"
      from mem [OF this] show "length (en_body f) = cm_len (en_meta f)
          \<and> cm_len (en_meta f) \<le> MAX_FILE \<and> \<not> cm_is_dir (en_meta f) \<and> en_checked f \<le> now"
        using t(1) assms(3-5) unfolding store_inv_def by auto
    qed
    moreover have "\<And>x q f. st_next_expiry (store_take p s1) = Some x \<Longrightarrow> (q, f) \<in> set m' \<Longrightarrow> x \<le> en_checked f + TTL"
    proof -
      fix x q f assume x: "st_next_expiry (store_take p s1) = Some x" and "(q, f) \<in> set m'"
      from mem [OF this(2)] show "x \<le> en_checked f + TTL"
        using x t(1) unfolding store_inv_def by auto
    qed
    ultimately show ?thesis
      using t(1) unfolding store_inv_def by simp
  next
    case False
    then show ?thesis using i(1) by (simp add: put_def r)
  qed
qed

section \<open>Requests against one shared store\<close>

text \<open>
  Any number of connections use the store; each action is one locked section, \<open>d\<close> milliseconds
  after the one before. A stat reads its clock \<open>lag\<close> milliseconds before it gets the lock, and keeps that
  time for its second section. The stats and the fills between their two sections are kept.
\<close>

record cache_sys =
  cy_store :: store
  cy_stats :: "(bytes \<times> nat) list"
  cy_fills :: "(bytes \<times> cached_meta) list"
  cy_clock :: nat

datatype 'f cache_action =
    DoStatLook nat bytes nat
  | DoStatEnd nat nat "(cached_meta, io_kind) result"
  | DoFillBegin nat bytes "('f, io_kind) result" "(cached_meta, io_kind) result"
  | DoFillEnd nat nat "'f \<times> bytes \<times> cached_meta"

fun cache_act :: "'f file_ops \<Rightarrow> 'f cache_action \<Rightarrow> cache_sys \<Rightarrow> cache_sys" where
  "cache_act F (DoStatLook d path lag) y =
     (let t = cy_clock y + d in
      case stat_look path (t - lag) (cy_store y) of
        Some _ \<Rightarrow> y\<lparr>cy_clock := t\<rparr>
      | None \<Rightarrow> y\<lparr>cy_stats := cy_stats y @ [(path, t - lag)], cy_clock := t\<rparr>)"
| "cache_act F (DoStatEnd d k disk) y =
     (let t = cy_clock y + d in
      if k < length (cy_stats y)
      then (case cy_stats y ! k of (path, now) \<Rightarrow>
              y\<lparr>cy_store := snd (stat_end path now disk (cy_store y)), cy_clock := t\<rparr>)
      else y)"
| "cache_act F (DoFillBegin d path opened metadata) y =
     (let t = cy_clock y + d in
      case fill_begin path opened metadata t (cy_store y) of
        (Inl _, s) \<Rightarrow> y\<lparr>cy_store := s, cy_clock := t\<rparr>
      | (Inr (_, meta), s) \<Rightarrow> y\<lparr>cy_store := s, cy_fills := cy_fills y @ [(path, meta)], cy_clock := t\<rparr>)"
| "cache_act F (DoFillEnd d k read) y =
     (let t = cy_clock y + d in
      if k < length (cy_fills y)
      then (case cy_fills y ! k of (path, meta) \<Rightarrow>
              y\<lparr>cy_store := snd (fill_end F path meta read t (cy_store y)), cy_clock := t\<rparr>)
      else y)"

definition cache_run :: "'f file_ops \<Rightarrow> 'f cache_action list \<Rightarrow> cache_sys" where
  "cache_run F acts = foldl (\<lambda>y a. cache_act F a y)
     \<lparr>cy_store = store_new, cy_stats = [], cy_fills = [], cy_clock = 0\<rparr> acts"

definition cache_inv :: "cache_sys \<Rightarrow> bool" where
  "cache_inv y \<longleftrightarrow> store_inv (cy_clock y) (cy_store y)
     \<and> (\<forall>(p, n) \<in> set (cy_stats y). n \<le> cy_clock y)
     \<and> (\<forall>(p, m) \<in> set (cy_fills y). cm_len m \<le> MAX_FILE \<and> \<not> cm_is_dir m)"

lemma fill_begin_inv:
  assumes "store_inv c s" "c \<le> t" "fill_begin path opened metadata t s = (r, s')"
  shows "store_inv t s' \<and> (\<forall>f m. r = Inr (f, m) \<longrightarrow> cm_len m \<le> MAX_FILE \<and> \<not> cm_is_dir m)"
proof (cases "\<exists>f meta. opened = Ok f \<and> metadata = Ok meta")
  case True
  then obtain f meta where o: "opened = Ok f" "metadata = Ok meta" by blast
  obtain ok s1 where m: "make_room path (cm_len meta) t s = (ok, s1)" by fastforce
  from store_inv_make_room(1) [OF assms(1,2) m] store_inv_mono [OF assms(1,2)] assms(3) o m
  show ?thesis by (auto simp: fill_begin_def split: if_splits)
next
  case False
  with store_inv_take(1) [OF store_inv_mono [OF assms(1,2)]] store_inv_mono [OF assms(1,2)] assms(3)
  show ?thesis by (auto simp: fill_begin_def split: result.splits)
qed

lemma stat_end_inv:
  "store_inv c s \<Longrightarrow> now \<le> c \<Longrightarrow> store_inv c (snd (stat_end path now disk s))"
  by (auto simp: stat_end_def store_inv_take store_inv_revalidate split: result.splits)

lemma fill_end_inv:
  assumes "store_inv c s" "c \<le> t" "cm_len meta \<le> MAX_FILE" "\<not> cm_is_dir meta"
  shows "store_inv t (snd (fill_end F path meta read t s))"
  using store_inv_put [OF assms(1,2) _ assms(3,4), of "fst (snd read)" path]
    store_inv_take(1) [OF store_inv_mono [OF assms(1,2)], of path]
  by (cases read) (auto simp: fill_end_def)

lemma cache_act_inv:
  assumes "cache_inv y"
  shows "cache_inv (cache_act F a y)"
proof -
  have c: "store_inv (cy_clock y) (cy_store y)" using assms by (simp add: cache_inv_def)
  have up: "\<And>d. \<forall>(p, n) \<in> set (cy_stats y). n \<le> cy_clock y + d" using assms by (fastforce simp: cache_inv_def)
  show ?thesis
  proof (cases a)
    case (DoStatLook d path lag)
    have "store_inv (cy_clock y + d) (cy_store y)" using store_inv_mono [OF c] by simp
    then show ?thesis using assms up by (auto simp: DoStatLook cache_inv_def Let_def split: option.splits)
  next
    case (DoStatEnd d k disk)
    show ?thesis
    proof (cases "k < length (cy_stats y)")
      case True
      obtain path n where k: "cy_stats y ! k = (path, n)" by fastforce
      have "n \<le> cy_clock y + d" using up [of d] nth_mem [OF True] k by auto
      then have "store_inv (cy_clock y + d) (snd (stat_end path n disk (cy_store y)))"
        using stat_end_inv store_inv_mono [OF c] by simp
      then show ?thesis using assms True k up by (simp add: DoStatEnd cache_inv_def Let_def)
    qed (use assms in \<open>simp add: DoStatEnd Let_def\<close>)
  next
    case (DoFillBegin d path opened metadata)
    obtain r s' where f: "fill_begin path opened metadata (cy_clock y + d) (cy_store y) = (r, s')" by fastforce
    from fill_begin_inv [OF c _ f] assms up [of d] show ?thesis
      by (cases r) (auto simp: DoFillBegin f cache_inv_def Let_def)
  next
    case (DoFillEnd d k read)
    show ?thesis
    proof (cases "k < length (cy_fills y)")
      case True
      obtain path meta where k: "cy_fills y ! k = (path, meta)" by fastforce
      have m: "cm_len meta \<le> MAX_FILE" "\<not> cm_is_dir meta"
        using assms nth_mem [OF True] k by (auto simp: cache_inv_def)
      from fill_end_inv [OF c _ m, of "cy_clock y + d"]
      show ?thesis using assms True k up by (simp add: DoFillEnd cache_inv_def Let_def)
    qed (use assms in \<open>simp add: DoFillEnd Let_def\<close>)
  qed
qed

lemma cache_run_inv: "cache_inv (cache_run F acts)"
proof (induction acts rule: rev_induct)
  case Nil
  show ?case using store_inv_new by (simp add: cache_run_def cache_inv_def)
next
  case (snoc a acts)
  then show ?case by (simp add: cache_run_def cache_act_inv)
qed

section \<open>lib.rs: eligible paths\<close>

definition static_new :: "bytes list \<Rightarrow> bytes list" where
  "static_new forbid = map lower forbid"

fun has_short_name :: "bytes \<Rightarrow> bool" where
  "has_short_name (a # b # s) = ((a = CHR ''~'' \<and> is_ascii_digit b) \<or> has_short_name (b # s))"
| "has_short_name _ = False"

definition bad_segment :: "bytes \<Rightarrow> bool" where
  "bad_segment seg \<longleftrightarrow> starts_with seg ''.'' \<or> has_short_name seg"

definition trim_end_dots :: "bytes \<Rightarrow> bytes" where
  "trim_end_dots s = rev (dropWhile (\<lambda>b. b = CHR ''.'' \<or> b = CHR '' '') (rev s))"

definition served_name :: "bytes \<Rightarrow> bytes" where
  "served_name decoded =
     lower (trim_end_dots (case find (\<lambda>s. s \<noteq> []) (rev (split_on (CHR ''/'') decoded)) of
                             Some s \<Rightarrow> s | None \<Rightarrow> []))"

text \<open>\<open>decode\<close> is the percent decoding of the path; it fails on bytes that are not UTF-8.\<close>

definition eligible :: "(bytes \<Rightarrow> bytes option) \<Rightarrow> bytes list \<Rightarrow> bytes \<Rightarrow> bool" where
  "eligible decode forbid path = (case decode path of
       None \<Rightarrow> False
     | Some decoded \<Rightarrow>
         if list_ex (\<lambda>b. b = CHR 0x5C \<or> b = CHR '':'') decoded then False
         else if list_ex bad_segment (split_on (CHR ''/'') decoded) then False
         else \<not> list_ex (\<lambda>ext. ends_with (served_name decoded) ext) forbid)"

lemma split_on_append_sep: "split_on c (a @ c # b) = split_on c a @ split_on c b"
  by (induction a) (auto split: list.splits)

lemma split_on_trailing: "c \<notin> set s \<Longrightarrow> split_on c (s @ replicate n c) = s # replicate n []"
proof (induction n)
  case (Suc n)
  have "s @ replicate (Suc n) c = s @ c # replicate n c" by simp
  then have "split_on c (s @ replicate (Suc n) c) = s # split_on c (replicate n c)"
    using Suc.prems by (simp add: split_on_append del: replicate_Suc)
  moreover have "split_on c (replicate n c) = [] # replicate n []"
    by (induction n) auto
  ultimately show ?case by simp
qed (simp add: split_on_none)

lemma find_replicate_Nil: "find (\<lambda>s. s \<noteq> []) (replicate n [] @ xs) = find (\<lambda>s. s \<noteq> []) xs"
  by (induction n) auto

lemma served_name_last:
  assumes "CHR ''/'' \<notin> set name" "name \<noteq> []"
  shows "served_name (dir @ CHR ''/'' # name @ replicate n (CHR ''/'')) = lower (trim_end_dots name)"
  by (simp add: served_name_def split_on_append_sep split_on_trailing [OF assms(1)]
      find_replicate_Nil assms(2))

lemma trim_end_dots_junk:
  assumes "\<forall>b\<in>set junk. b = CHR ''.'' \<or> b = CHR '' ''" "name \<noteq> []"
    and "last name \<noteq> CHR ''.''" "last name \<noteq> CHR '' ''"
  shows "trim_end_dots (name @ junk) = name"
proof -
  have "dropWhile (\<lambda>b. b = CHR ''.'' \<or> b = CHR '' '') (rev junk @ rev name) = rev name"
    using assms by (cases name rule: rev_cases) (auto simp: dropWhile_append)
  then show ?thesis by (simp add: trim_end_dots_def)
qed

lemma lowercase_not_letter:
  assumes "to_ascii_lowercase b = to_ascii_lowercase c" "\<not> is_ascii_lowercase c" "\<not> is_ascii_uppercase c"
  shows "b = c"
proof -
  have "to_ascii_lowercase c = c" using assms(3) by (simp add: to_ascii_lowercase_def)
  moreover have "is_ascii_lowercase (to_ascii_lowercase b)" if "is_ascii_uppercase b"
    using that by (simp add: to_ascii_lowercase_def is_ascii_uppercase_def is_ascii_lowercase_def of_char_of)
  ultimately show ?thesis using assms(1,2) by (auto simp: to_ascii_lowercase_def split: if_splits)
qed

section \<open>lib.rs: probes and responses\<close>

record 'm probe =
  pr_method :: bytes
  pr_path :: bytes
  pr_headers :: 'm

record 'm dir_response =
  dr_status :: nat
  dr_headers :: 'm
  dr_body :: bytes

definition is_miss :: "io_kind \<Rightarrow> bool" where
  "is_miss k \<longleftrightarrow> k \<in> {NotFound, PermissionDenied, IsADirectory, InvalidFilename, InvalidInput, NotADirectory}"

definition probe_of :: "'m header_ops \<Rightarrow> 'm probe \<Rightarrow> 'm probe" where
  "probe_of H req = (if pr_method req = ''HEAD'' then req\<lparr>pr_headers := h_remove H (pr_headers req) ''range''\<rparr>
                     else req)"

text \<open>\<open>try_call i\<close> is \<open>ServeDir\<close>'s answer to the \<open>i\<close>-th probe of the request.\<close>

definition static_serve ::
  "'m header_ops \<Rightarrow> (bytes \<Rightarrow> bytes option) \<Rightarrow> (nat \<Rightarrow> 'm probe \<Rightarrow> ('m dir_response, io_kind) result)
   \<Rightarrow> bytes list \<Rightarrow> 'm probe \<Rightarrow> 'm dir_response option" where
  "static_serve H decode try_call forbid req =
     (if pr_method req \<noteq> ''GET'' \<and> pr_method req \<noteq> ''HEAD'' then None
      else if \<not> eligible decode forbid (pr_path req) then None
      else let first = try_call 0 (probe_of H req);
               again = (case first of
                   Ok res \<Rightarrow> h_get H (dr_headers res) ''content-range'' \<noteq> None
                     \<and> (case h_get H (pr_headers req) ''if-range'' of
                          Some validator \<Rightarrow> h_get H (dr_headers res) ''etag'' \<noteq> Some validator
                        | None \<Rightarrow> False)
                 | Err _ \<Rightarrow> False);
               whole = (probe_of H req)\<lparr>pr_headers := h_remove H (pr_headers (probe_of H req)) ''range''\<rparr>;
               served = (if again then try_call 1 whole else first)
           in case served of
                Ok res \<Rightarrow> if dr_status res \<noteq> 404 then Some res else None
              | Err e \<Rightarrow> if is_miss e then None
                         else Some \<lparr>dr_status = 500, dr_headers = h_empty H, dr_body = []\<rparr>)"

section \<open>Properties\<close>

text \<open>
  C11: whatever the connections do with the cache, in whatever order their locked sections come, however late
  a stat writes back and however the file system answers, the byte count of the store is the sum over its
  entries and never above 16 MiB, every entry is a whole regular file of at most 256 KiB with the length its
  metadata tells, no path has two entries, no entry expires before the time that the store keeps as the first
  possible expiry, and a hit is an entry that a stat or a fill confirmed less than a second ago.
\<close>

theorem cache_is_bounded_and_consistent:
  "let s = cy_store (cache_run (F :: 'f file_ops) acts) in
     st_bytes s = total (st_map s) \<and> st_bytes s \<le> MAX_TOTAL \<and> distinct (map fst (st_map s))
     \<and> list_all (\<lambda>(p, e). length (en_body e) = cm_len (en_meta e) \<and> cm_len (en_meta e) \<le> MAX_FILE
          \<and> \<not> cm_is_dir (en_meta e)) (st_map s)
     \<and> (case st_next_expiry s of None \<Rightarrow> True
          | Some x \<Rightarrow> list_all (\<lambda>(p, e). x \<le> en_checked e + TTL) (st_map s))
     \<and> (case cache_hit path now s of
          Some (Memory c m) \<Rightarrow> length (cu_body c) = cm_len m \<and> cu_pos c = 0
            \<and> list_ex (\<lambda>(p, e). p = path \<and> en_body e = cu_body c \<and> en_meta e = m \<and> now < en_checked e + TTL) (st_map s)
        | Some (Disk (f :: 'f) m) \<Rightarrow> False
        | None \<Rightarrow> True)"
proof -
  let ?s = "cy_store (cache_run F acts)"
  have i: "store_inv (cy_clock (cache_run F acts)) ?s" using cache_run_inv [of F acts] by (simp add: cache_inv_def)
  have e: "(p, e) \<in> set (st_map ?s) \<Longrightarrow> length (en_body e) = cm_len (en_meta e)
      \<and> cm_len (en_meta e) \<le> MAX_FILE \<and> \<not> cm_is_dir (en_meta e)" for p e
    using i by (auto simp: store_inv_def)
  have h: "case cache_hit path now ?s of
          Some (Memory c m) \<Rightarrow> length (cu_body c) = cm_len m \<and> cu_pos c = 0
            \<and> list_ex (\<lambda>(p, e). p = path \<and> en_body e = cu_body c \<and> en_meta e = m \<and> now < en_checked e + TTL) (st_map ?s)
        | Some (Disk (f :: 'f) m) \<Rightarrow> False | None \<Rightarrow> True"
  proof (cases "fresh ?s path now")
    case (Some f)
    then have f: "lookup ?s path = Some f" "now - en_checked f < TTL"
      by (simp_all add: fresh_def opt_filter_Some)
    have "(path, f) \<in> set (st_map ?s)" using f(1) by (rule map_of_SomeD)
    with e [OF this] f(2) show ?thesis
      by (force simp: cache_hit_def cursor_new_def Some list_ex_iff TTL_def)
  qed (simp add: cache_hit_def)
  have x: "case st_next_expiry ?s of None \<Rightarrow> True
          | Some x \<Rightarrow> list_all (\<lambda>(p, e). x \<le> en_checked e + TTL) (st_map ?s)"
    using i by (auto simp: store_inv_def list_all_iff split: option.split)
  show ?thesis unfolding Let_def
    using i e h x by (auto simp: store_inv_def list_all_iff)
qed

text \<open>What a store would hold beside a new file if every expired entry, and the old one of the same path, were gone.\<close>

definition fresh_rest :: "bytes \<Rightarrow> nat \<Rightarrow> store \<Rightarrow> (bytes \<times> entry) list" where
  "fresh_rest path now s = filter (\<lambda>(p, e). p \<noteq> path \<and> entry_fresh now e) (st_map s)"

lemma total_others:
  assumes "distinct (map fst m)"
  shows "total m = total (filter (\<lambda>(p, e). p \<noteq> path) m)
    + (case map_of m path of Some e \<Rightarrow> footprint path (length (en_body e)) | None \<Rightarrow> 0)"
  using assms
proof (induction m)
  case (Cons x m)
  obtain q f where x: "x = (q, f)" by fastforce
  have "filter (\<lambda>(p, e). p \<noteq> path) m = m" if "path \<notin> fst ` set m"
    using that by (force simp: filter_id_conv)
  moreover have "map_of m path = None" if "path \<notin> fst ` set m" using that by (simp add: map_of_eq_None_iff)
  ultimately show ?case using Cons by (auto simp: x)
qed simp

lemma fits_exact:
  assumes "store_inv c s"
  shows "fits s path body \<longleftrightarrow> total (filter (\<lambda>(p, e). p \<noteq> path) (st_map s)) + footprint path body \<le> MAX_TOTAL"
  using assms total_others [of "st_map s" path] by (auto simp: fits_def Let_def store_inv_def)

lemma total_filter_mono: "(\<And>x. P x \<Longrightarrow> Q x) \<Longrightarrow> total (filter P m) \<le> total (filter Q m)"
  by (induction m) (auto intro: le_SucI trans_le_add2)

text \<open>
  C12: in every state that the connections can bring the cache to, asking for room is answered as if every
  expired entry had been dropped before: a new file is admitted exactly when its footprint and those of the
  unexpired entries of other paths stay within 16 MiB. So the early refusal, which trusts the kept first
  expiry and scans nothing, never turns away a file that would fit, also after a stat that wrote back late.
\<close>

theorem early_refusal_is_exact:
  "fst (make_room path body now (cy_store (cache_run F acts)))
   \<longleftrightarrow> total (fresh_rest path now (cy_store (cache_run F acts))) + footprint path body \<le> MAX_TOTAL"
proof -
  define s where "s = cy_store (cache_run F acts)"
  define c where "c = cy_clock (cache_run F acts)"
  have i: "store_inv c s" using cache_run_inv [of F acts] by (simp add: cache_inv_def s_def c_def)
  have all: "total (fresh_rest path now s) \<le> total (filter (\<lambda>(p, e). p \<noteq> path) (st_map s))"
    unfolding fresh_rest_def by (rule total_filter_mono) auto
  show ?thesis unfolding s_def [symmetric]
  proof (cases "fits s path body")
    case True
    then show "fst (make_room path body now s) \<longleftrightarrow> total (fresh_rest path now s) + footprint path body \<le> MAX_TOTAL"
      using all fits_exact [OF i] by (simp add: make_room_def)
  next
    case nofit: False
    show "fst (make_room path body now s) \<longleftrightarrow> total (fresh_rest path now s) + footprint path body \<le> MAX_TOTAL"
    proof (cases "case st_next_expiry s of Some expiry \<Rightarrow> now < expiry | None \<Rightarrow> False")
      case True
      then obtain x where x: "st_next_expiry s = Some x" "now < x" by (auto split: option.splits)
      have "entry_fresh now e" if "(p, e) \<in> set (st_map s)" for p e
      proof -
        have "x \<le> en_checked e + TTL" using i that x(1) by (auto simp: store_inv_def)
        then show ?thesis using x(2) by (auto simp: entry_fresh_def TTL_def)
      qed
      then have "fresh_rest path now s = filter (\<lambda>(p, e). p \<noteq> path) (st_map s)"
        unfolding fresh_rest_def by (intro filter_cong) auto
      then show ?thesis using nofit True fits_exact [OF i] by (simp add: make_room_def)
    next
      case False
      let ?d = "drop_expired now s"
      have m: "st_map ?d = filter (\<lambda>(p, e). entry_fresh now e) (st_map s)"
        by (simp add: drop_expired_def Let_def)
      have "filter (\<lambda>(p, e). p \<noteq> path) (st_map ?d) = fresh_rest path now s"
        unfolding m fresh_rest_def by (simp add: case_prod_unfold conj_commute)
      moreover have "store_inv (max c now) ?d" if "c \<le> now"
        using store_inv_drop_expired [OF i that] by (simp add: max_def that)
      moreover have "st_bytes ?d = total (st_map ?d) \<and> distinct (map fst (st_map ?d))"
        using i total_split [of "st_map s" "\<lambda>(p, e). entry_fresh now e"]
        by (simp add: drop_expired_def Let_def total_def store_inv_def distinct_map_filter case_prod_unfold)
      then have "fits ?d path body \<longleftrightarrow> total (filter (\<lambda>(p, e). p \<noteq> path) (st_map ?d)) + footprint path body \<le> MAX_TOTAL"
        using total_others [of "st_map ?d" path] by (auto simp: fits_def Let_def)
      ultimately show ?thesis using nofit False by (simp add: make_room_def Let_def)
    qed
  qed
qed

text \<open>
  A fill keeps in memory only a file it read whole: the buffer has the length that the metadata tells, and
  the metadata did not change during the read. After any other read nothing is cached for the path.
\<close>

theorem fill_caches_whole_files:
  "case fill_end F path meta (file, buf, reread) now s of
     (Ok (Memory c m), s') \<Rightarrow> c = cursor_new buf \<and> m = meta \<and> length buf = cm_len meta \<and> same_file reread meta
   | (Ok (Disk f m), s') \<Rightarrow> m = reread \<and> s' = store_take path s
       \<and> \<not> (same_file reread meta \<and> length buf = cm_len meta)
   | (Err e, s') \<Rightarrow> s' = store_take path s"
  by (auto simp: fill_end_def split: result.splits prod.splits)

text \<open>
  A file with a forbidden suffix is never eligible, in whatever letter case, with whatever trailing
  dots, blanks or slashes and behind whatever percent encoding the client spells it.
\<close>

theorem forbidden_suffix_never_eligible:
  assumes "decode path = Some (dir @ CHR ''/'' # (stem @ suffix) @ junk @ replicate n (CHR ''/''))"
    and "eq_ignore_ascii_case suffix ext" and "ext \<in> set forbid0"
    and "ext \<noteq> []" and "last ext \<noteq> CHR ''.''" and "last ext \<noteq> CHR '' ''"
    and "\<forall>b\<in>set junk. b = CHR ''.'' \<or> b = CHR '' ''" and "CHR ''/'' \<notin> set (stem @ suffix)"
  shows "\<not> eligible decode (static_new forbid0) path"
proof -
  have ne: "suffix \<noteq> []" using assms(2,4) by (auto simp: eq_ignore_ascii_case_def)
  have low: "lower suffix = lower ext" using assms(2) by (simp add: eq_ignore_ascii_case_def)
  have last: "to_ascii_lowercase (last suffix) = to_ascii_lowercase (last ext)"
    using low ne assms(4) by (metis last_map)
  have dot: "last suffix \<noteq> CHR ''.''" "last suffix \<noteq> CHR '' ''"
    using last assms(5,6) lowercase_not_letter [of "last ext" "CHR ''.''"]
      lowercase_not_letter [of "last ext" "CHR '' ''"]
    by (auto simp: is_ascii_lowercase_def is_ascii_uppercase_def)
  have slash: "CHR ''/'' \<notin> set ((stem @ suffix) @ junk)" using assms(7,8) by auto
  have "served_name (dir @ CHR ''/'' # ((stem @ suffix) @ junk) @ replicate n (CHR ''/''))
      = lower (trim_end_dots ((stem @ suffix) @ junk))"
    by (rule served_name_last [OF slash]) (use ne in simp)
  also have "trim_end_dots ((stem @ suffix) @ junk) = stem @ suffix"
    by (rule trim_end_dots_junk [OF assms(7)]) (use ne dot in simp_all)
  finally have "ends_with (served_name (dir @ CHR ''/'' # (stem @ suffix) @ junk @ replicate n (CHR ''/''))) (lower ext)"
    using low by (auto simp: ends_with_iff)
  then show ?thesis using assms(1,3) by (auto simp: eligible_def static_new_def list_ex_iff)
qed

lemma forbidden_suffix_never_eligible_witness:
  "\<not> eligible Some (static_new [''.php'']) ''/a/INDEX.PhP. ./''"
proof -
  have "eq_ignore_ascii_case ''.PhP'' ''.php''" by code_simp
  then show ?thesis
    by (intro forbidden_suffix_never_eligible [where dir = "''/a''" and stem = "''INDEX''"
          and suffix = "''.PhP''" and junk = "''. .''" and n = 1 and ext = "''.php''"]) simp_all
qed

text \<open>
  The middleware never answers a conditional range request with a part of the wrong version: a
  response that carries Content-Range belongs to the validator the client named in If-Range, or
  the client named none.
\<close>

theorem if_range_is_honoured:
  assumes "header_map H"
    and "\<And>i p r. h_get_all H (pr_headers p) ''range'' = [] \<Longrightarrow> try_call i p = Ok r \<Longrightarrow>
           h_get H (dr_headers r) ''content-range'' = None"
    and "static_serve H decode try_call forbid req = Some res"
    and "h_get H (dr_headers res) ''content-range'' \<noteq> None"
  shows "case h_get H (pr_headers req) ''if-range'' of
      Some validator \<Rightarrow> h_get H (dr_headers res) ''etag'' = Some validator
    | None \<Rightarrow> True"
proof (rule ccontr)
  assume n: "\<not> ?thesis"
  then obtain v where v: "h_get H (pr_headers req) ''if-range'' = Some v"
    "h_get H (dr_headers res) ''etag'' \<noteq> Some v" by (auto split: option.splits)
  have empty: "h_get H (h_empty H) ''content-range'' = None"
    using header_map.get_first [OF assms(1)] header_map.get_all_empty [OF assms(1)] by simp
  obtain first where f: "try_call 0 (probe_of H req) = first" by blast
  let ?whole = "(probe_of H req)\<lparr>pr_headers := h_remove H (pr_headers (probe_of H req)) ''range''\<rparr>"
  have w: "h_get_all H (pr_headers ?whole) ''range'' = []"
    using header_map.get_all_remove [OF assms(1)] by simp
  have whole: "\<And>r. try_call 1 ?whole = Ok r \<Longrightarrow> h_get H (dr_headers r) ''content-range'' = None"
    using assms(2) [OF w] .
  show False
  proof (cases first)
    case (Ok r)
    then show ?thesis
      using assms(3,4) v f whole empty
      by (auto simp: static_serve_def Let_def split: if_splits result.splits)
  next
    case (Err e)
    then show ?thesis using assms(3,4) f empty
      by (auto simp: static_serve_def Let_def split: if_splits)
  qed
qed

definition sample_dir :: "nat \<Rightarrow> (bytes \<times> bytes) list probe \<Rightarrow> ((bytes \<times> bytes) list dir_response, io_kind) result" where
  "sample_dir i p = Ok (if h_get_all list_headers (pr_headers p) ''range'' = []
     then \<lparr>dr_status = 200, dr_headers = [(''etag'', ''v2'')], dr_body = ''0123''\<rparr>
     else \<lparr>dr_status = 206, dr_headers = [(''etag'', ''v2''), (''content-range'', ''bytes 0-0/4'')], dr_body = ''0''\<rparr>)"

lemma if_range_is_honoured_witness:
  "\<exists>res. static_serve list_headers Some sample_dir (static_new [''.php''])
       \<lparr>pr_method = ''GET'', pr_path = ''/a.txt'', pr_headers = [(''range'', ''bytes=0-0''), (''if-range'', ''v2'')]\<rparr> = Some res
     \<and> h_get list_headers (dr_headers res) ''etag'' = Some ''v2''"
proof -
  let ?req = "\<lparr>pr_method = ''GET'', pr_path = ''/a.txt'', pr_headers = [(''range'', ''bytes=0-0''), (''if-range'', ''v2'')]\<rparr>"
  let ?res = "\<lparr>dr_status = 206, dr_headers = [(''etag'', ''v2''), (''content-range'', ''bytes 0-0/4'')], dr_body = ''0''\<rparr>"
  have e: "static_serve list_headers Some sample_dir (static_new [''.php'']) ?req = Some ?res"
    by code_simp
  have c: "h_get list_headers (dr_headers ?res) ''content-range'' \<noteq> None" by (simp add: list_headers_def)
  have l: "h_get_all list_headers (pr_headers p) ''range'' = [] \<Longrightarrow> sample_dir i p = Ok r \<Longrightarrow>
      h_get list_headers (dr_headers r) ''content-range'' = None" for i p r
    by (auto simp: sample_dir_def) (simp add: list_headers_def)
  have "case h_get list_headers (pr_headers ?req) ''if-range'' of
      Some validator \<Rightarrow> h_get list_headers (dr_headers ?res) ''etag'' = Some validator | None \<Rightarrow> True"
    by (rule if_range_is_honoured [OF lh.header_map_axioms _ e c]) (rule l)
  then show ?thesis using e by (simp add: list_headers_def)
qed

end
