(* ===== verification/Auth.thy ===== *)
theory Auth
  imports Headers
begin

text \<open>
  The bearer token interceptor of the gRPC plugin (\<open>crates/interceptors/auth\<close>): the tokens file, the
  token comparison that looks at every byte, and the decision on a request head.
\<close>

unbundle bit_operations_syntax

section \<open>Tokens\<close>

definition HEALTH :: bytes where "HEALTH = ''/grpc.health.v1.Health/''"

text \<open>\<open>str::trim_end_matches\<close> on one character.\<close>

definition trim_end_char :: "byte \<Rightarrow> bytes \<Rightarrow> bytes" where
  "trim_end_char c s = rev (dropWhile (\<lambda>b. b = c) (rev s))"

definition b64_char :: "byte \<Rightarrow> bool" where
  "b64_char b \<longleftrightarrow> is_ascii_alphanumeric b \<or> b \<in> set ''-._~+/''"

definition is_b64token :: "bytes \<Rightarrow> bool" where
  "is_b64token token =
     (let body = trim_end_char (CHR ''='') token in body \<noteq> [] \<and> list_all b64_char body)"

text \<open>\<open>fold(0, |diff, (x, y)| diff | (x ^ y))\<close> on bytes as 8-bit words.\<close>

definition byte_word :: "byte \<Rightarrow> 8 word" where
  "byte_word c = of_nat (code_of c)"

definition same :: "bytes \<Rightarrow> bytes \<Rightarrow> bool" where
  "same a b \<longleftrightarrow> length a = length b
     \<and> foldl (\<lambda>diff (x, y). diff OR (byte_word x XOR byte_word y)) 0 (zip a b) = 0"

definition bearer_token :: "bytes \<Rightarrow> bytes option" where
  "bearer_token value =
     (if length value < 6 then None
      else let scheme = take 6 value; rest = drop 6 value in
        if \<not> eq_ignore_ascii_case scheme ''Bearer'' then None
        else let spaces = length (takeWhile (\<lambda>b. b = CHR '' '') rest) in
          if spaces > 0 then Some (drop spaces rest) else None)"

definition accepts :: "'m header_ops \<Rightarrow> bytes list \<Rightarrow> 'm \<Rightarrow> bool" where
  "accepts H tokens headers = (case h_get_all H headers ''authorization'' of
       [v] \<Rightarrow> (case bearer_token v of
           None \<Rightarrow> False
         | Some token \<Rightarrow> list_ex (\<lambda>t. same t token) tokens)
     | _ \<Rightarrow> False)"

text \<open>A refusal carries the code and the challenge header.\<close>

datatype auth_error = Unauthenticated "(bytes \<times> bytes) list"

definition intercept_head ::
  "'m header_ops \<Rightarrow> bytes list \<Rightarrow> bytes \<Rightarrow> 'm \<Rightarrow> (unit, auth_error) result" where
  "intercept_head H tokens path headers =
     (if starts_with path HEALTH \<or> accepts H tokens headers then Ok ()
      else Err (Unauthenticated [(''www-authenticate'', ''Bearer'')]))"

section \<open>The tokens file\<close>

definition strip_bom :: "bytes \<Rightarrow> bytes" where
  "strip_bom s = (if starts_with s [CHR 0xEF, CHR 0xBB, CHR 0xBF] then drop 3 s else s)"

datatype parse_error = BadLine nat | NoToken

fun parse_lines :: "nat \<Rightarrow> bytes list \<Rightarrow> (bytes list, parse_error) result" where
  "parse_lines i [] = Ok []"
| "parse_lines i (l # ls) =
     (let line = str_trim l in
      if line = [] \<or> starts_with line ''#'' then parse_lines (i + 1) ls
      else if \<not> is_b64token line then Err (BadLine (i + 1))
      else (case parse_lines (i + 1) ls of Ok ts \<Rightarrow> Ok (line # ts) | Err e \<Rightarrow> Err e))"

definition parse_tokens :: "bytes \<Rightarrow> (bytes list, parse_error) result" where
  "parse_tokens text = (case parse_lines 0 (str_lines (strip_bom text)) of
       Err e \<Rightarrow> Err e
     | Ok tokens \<Rightarrow> if tokens = [] then Err NoToken else Ok tokens)"

section \<open>Comparison and parsing\<close>

lemma byte_word_inj: "byte_word a = byte_word b \<longleftrightarrow> a = b"
proof
  assume "byte_word a = byte_word b"
  then have "unat (byte_word a) = unat (byte_word b)" by simp
  then have "code_of a = code_of b"
    by (simp add: byte_word_def unat_of_nat)
  then show "a = b" by simp
qed simp

lemma xor_zero: "(x :: 8 word) XOR y = 0 \<longleftrightarrow> x = y"
  by (metis xor.assoc xor.left_neutral xor.right_neutral xor_self_eq)

lemma fold_or_zero:
  "foldl (\<lambda>diff (x, y). diff OR (byte_word x XOR byte_word y)) d ps = 0 \<longleftrightarrow>
   d = 0 \<and> (\<forall>(x, y)\<in>set ps. x = y)"
proof (induction ps arbitrary: d)
  case (Cons p ps)
  obtain x y where p: "p = (x, y)" by fastforce
  show ?case
    using Cons.IH [of "d OR (byte_word x XOR byte_word y)"]
    by (auto simp: p or_eq_0_iff xor_zero byte_word_inj)
qed simp

lemma same_iff: "same a b \<longleftrightarrow> a = b"
proof -
  have "length a = length b \<Longrightarrow> (\<forall>(x, y)\<in>set (zip a b). x = y) \<longleftrightarrow> a = b"
    by (induction a b rule: list_induct2) auto
  then show ?thesis by (auto simp: same_def fold_or_zero)
qed

lemma bearer_token_Some:
  assumes "t \<noteq> []" "hd t \<noteq> CHR '' ''"
  shows "bearer_token v = Some t \<longleftrightarrow>
    (\<exists>scheme n. v = scheme @ replicate (Suc n) (CHR '' '') @ t \<and> eq_ignore_ascii_case scheme ''Bearer'')"
proof
  assume a: "bearer_token v = Some t"
  let ?r = "drop 6 v" and ?s = "takeWhile (\<lambda>b. b = CHR '' '') (drop 6 v)"
  from a have l: "\<not> length v < 6" and c: "eq_ignore_ascii_case (take 6 v) ''Bearer''"
    and n: "length ?s > 0" and t: "t = drop (length ?s) ?r"
    by (auto simp: bearer_token_def Let_def split: if_splits)
  have "?s = replicate (length ?s) (CHR '' '')"
    by (rule replicate_eqI) (auto dest: set_takeWhileD)
  moreover have "?r = ?s @ t" unfolding t by (metis dropWhile_eq_drop takeWhile_dropWhile_id)
  moreover obtain n' where "length ?s = Suc n'" using n gr0_implies_Suc by blast
  ultimately have "v = take 6 v @ replicate (Suc n') (CHR '' '') @ t"
    by (metis append_take_drop_id)
  with c show "\<exists>scheme n. v = scheme @ replicate (Suc n) (CHR '' '') @ t \<and> eq_ignore_ascii_case scheme ''Bearer''"
    by blast
next
  assume "\<exists>scheme n. v = scheme @ replicate (Suc n) (CHR '' '') @ t \<and> eq_ignore_ascii_case scheme ''Bearer''"
  then obtain scheme n where v: "v = scheme @ replicate (Suc n) (CHR '' '') @ t"
    and c: "eq_ignore_ascii_case scheme ''Bearer''" by blast
  have l: "length scheme = 6" using eq_ignore_ascii_case_length [OF c] by simp
  have "takeWhile (\<lambda>b. b = CHR '' '') (replicate m (CHR '' '') @ t) = replicate m (CHR '' '')" for m
    using assms by (cases t) (auto simp: takeWhile_append)
  from this [of "Suc n"] show "bearer_token v = Some t"
    using c l unfolding v by (simp add: bearer_token_def Let_def del: replicate_Suc)
qed

lemma b64token_first:
  assumes "is_b64token t"
  shows "t \<noteq> [] \<and> hd t \<noteq> CHR '' ''"
proof -
  let ?b = "trim_end_char (CHR ''='') t"
  have b: "?b \<noteq> []" "list_all b64_char ?b" using assms by (simp_all add: is_b64token_def Let_def)
  have "\<exists>z. t = ?b @ z"
    unfolding trim_end_char_def
    by (metis rev_append rev_rev_ident takeWhile_dropWhile_id)
  then obtain z where z: "t = ?b @ z" by blast
  have "t \<noteq> []" using z b(1) by (metis append_is_Nil_conv)
  moreover have "hd t = hd ?b" using z b(1) by (metis hd_append2)
  moreover have "b64_char (hd ?b)" using b by (metis hd_in_set list_all_iff)
  ultimately show ?thesis by (auto simp: b64_char_def ascii_simps)
qed

lemma parse_lines_Ok:
  "parse_lines i ls = Ok ts \<Longrightarrow>
     ts = filter (\<lambda>l. l \<noteq> [] \<and> \<not> starts_with l ''#'') (map str_trim ls) \<and> list_all is_b64token ts"
  by (induction ls arbitrary: i ts) (auto simp: Let_def split: if_splits result.splits)

lemma parse_lines_Err:
  "parse_lines i ls = Err e \<Longrightarrow>
     \<exists>k < length ls. e = BadLine (i + k + 1) \<and> str_trim (ls ! k) \<noteq> []
       \<and> \<not> starts_with (str_trim (ls ! k)) ''#'' \<and> \<not> is_b64token (str_trim (ls ! k))"
proof (induction ls arbitrary: i e)
  case (Cons l ls)
  show ?case
  proof (cases "parse_lines (i + 1) ls")
    case (Ok ts)
    then show ?thesis using Cons.prems by (auto simp: Let_def split: if_splits)
  next
    case (Err e')
    show ?thesis
    proof (cases "e = e'")
      case True
      from Cons.IH [OF Err] obtain k where "k < length ls" "e' = BadLine (i + 1 + k + 1)"
        "str_trim (ls ! k) \<noteq> []" "\<not> starts_with (str_trim (ls ! k)) ''#''" "\<not> is_b64token (str_trim (ls ! k))"
        by blast
      then show ?thesis using True by (intro exI [of _ "Suc k"]) simp
    next
      case False
      then show ?thesis using Cons.prems Err
        by (intro exI [of _ 0]) (auto simp: Let_def split: if_splits)
    qed
  qed
qed simp

section \<open>Properties\<close>

text \<open>
  C13: with a tokens file that loads, the interceptor lets a request through exactly when it is a health
  check or carries one Authorization line that is the Bearer scheme, in any letter case, one or
  more blanks, and a configured token, byte for byte. A second Authorization line, another
  scheme, a prefix or an extension of a token is refused with a challenge.
\<close>

theorem auth_accepts_exactly:
  assumes "header_map H" and "parse_tokens text = Ok tokens"
  shows "intercept_head H tokens path headers =
     (if starts_with path HEALTH
         \<or> (\<exists>scheme n t. h_get_all H headers ''authorization'' = [scheme @ replicate (Suc n) (CHR '' '') @ t]
              \<and> eq_ignore_ascii_case scheme ''Bearer'' \<and> t \<in> set tokens)
      then Ok () else Err (Unauthenticated [(''www-authenticate'', ''Bearer'')]))"
proof -
  have tok: "t \<noteq> [] \<and> hd t \<noteq> CHR '' ''" if "t \<in> set tokens" for t
    using assms(2) that parse_lines_Ok b64token_first
    by (fastforce simp: parse_tokens_def list_all_iff split: result.splits if_splits)
  have "(case bearer_token v of None \<Rightarrow> False | Some token \<Rightarrow> list_ex (\<lambda>t. same t token) tokens)
      \<longleftrightarrow> (\<exists>t\<in>set tokens. bearer_token v = Some t)" for v
    by (auto simp: same_iff list_ex_iff split: option.splits)
  then have "accepts H tokens headers \<longleftrightarrow> (\<exists>v. h_get_all H headers ''authorization'' = [v]
      \<and> (\<exists>t\<in>set tokens. bearer_token v = Some t))"
    by (auto simp: accepts_def split: list.splits)
  also have "\<dots> \<longleftrightarrow> (\<exists>v. h_get_all H headers ''authorization'' = [v]
      \<and> (\<exists>t\<in>set tokens. \<exists>scheme n. v = scheme @ replicate (Suc n) (CHR '' '') @ t
            \<and> eq_ignore_ascii_case scheme ''Bearer''))"
    using bearer_token_Some tok by (intro ex_cong1 conj_cong bex_cong refl) simp
  also have "\<dots> \<longleftrightarrow> (\<exists>scheme n t. h_get_all H headers ''authorization'' = [scheme @ replicate (Suc n) (CHR '' '') @ t]
              \<and> eq_ignore_ascii_case scheme ''Bearer'' \<and> t \<in> set tokens)"
    by blast
  finally show ?thesis by (simp add: intercept_head_def)
qed

lemma auth_accepts_exactly_witness:
  "intercept_head list_headers [''abc'', ''x=='' ] ''/pkg.Svc/Do'' [(''authorization'', ''bEARER  x=='')] = Ok ()"
proof -
  have p: "parse_tokens (''# tokens'' @ [CHR 0x0A] @ '' abc'' @ [CHR 0x0D, CHR 0x0A] @ ''x=='') = Ok [''abc'', ''x=='']"
    by code_simp
  have "eq_ignore_ascii_case ''bEARER'' ''Bearer''" by code_simp
  then have "\<exists>scheme n t. h_get_all list_headers [(''authorization'', ''bEARER  x=='')] ''authorization''
        = [scheme @ replicate (Suc n) (CHR '' '') @ t]
      \<and> eq_ignore_ascii_case scheme ''Bearer'' \<and> t \<in> set [''abc'', ''x=='']"
    by (intro exI [of _ "''bEARER''"] exI [of _ 1] exI [of _ "''x==''"]) (simp add: list_headers_def)
  then show ?thesis using auth_accepts_exactly [OF lh.header_map_axioms p] by simp
qed

text \<open>
  Loading a tokens file succeeds exactly when some line, trimmed, is neither blank nor a comment and
  every such line is a bearer token; the tokens are those lines in order. A failure names the
  number of a line that is not a token, or says that there is none.
\<close>

theorem parse_tokens_exact:
  "let ls = str_lines (strip_bom text);
       cand = filter (\<lambda>l. l \<noteq> [] \<and> \<not> starts_with l ''#'') (map str_trim ls)
   in case parse_tokens text of
        Ok tokens \<Rightarrow> tokens = cand \<and> tokens \<noteq> [] \<and> list_all is_b64token cand
      | Err NoToken \<Rightarrow> cand = []
      | Err (BadLine n) \<Rightarrow> \<exists>k < length ls. n = k + 1 \<and> str_trim (ls ! k) \<in> set cand
          \<and> \<not> is_b64token (str_trim (ls ! k))"
proof (cases "parse_lines 0 (str_lines (strip_bom text))")
  case (Ok ts)
  with parse_lines_Ok [OF Ok] show ?thesis by (auto simp: parse_tokens_def Let_def)
next
  case (Err e)
  with parse_lines_Err [OF Err] show ?thesis
    by (auto simp: parse_tokens_def Let_def intro!: exI)
qed

end
