(* ===== verification/MultipartScan.thy ===== *)
theory MultipartScan
  imports Headers
begin

text \<open>
  The scanners of the multipart parser (\<open>http/src/multipart.rs\<close>): the content type and its boundary
  parameter, the search for delimiter lines, and the parameters of a content-disposition field.

  The byte searches belong to the \<open>memchr\<close> crate, so they are the record \<open>search_ops\<close>, with their
  documented meaning in the locale \<open>byte_search\<close>: the index of the first occurrence.
\<close>

section \<open>Byte searches\<close>

record search_ops =
  q_memchr :: "byte \<Rightarrow> bytes \<Rightarrow> nat option"
  q_memmem :: "bytes \<Rightarrow> bytes \<Rightarrow> nat option"

definition occurs_at :: "bytes \<Rightarrow> bytes \<Rightarrow> nat \<Rightarrow> bool" where
  "occurs_at needle hay i \<longleftrightarrow> i + length needle \<le> length hay \<and> starts_with (drop i hay) needle"

locale byte_search =
  fixes Q :: search_ops
  assumes memchr: "q_memchr Q c s = position (\<lambda>b. b = c) s"
    and memmem_Some: "q_memmem Q n h = Some i \<Longrightarrow> occurs_at n h i \<and> (\<forall>j<i. \<not> occurs_at n h j)"
    and memmem_None: "q_memmem Q n h = None \<Longrightarrow> \<not> occurs_at n h i"

text \<open>The searches by their meaning.\<close>

definition first_match :: "bytes \<Rightarrow> bytes \<Rightarrow> nat option" where
  "first_match n h = position (occurs_at n h) [0..<Suc (length h)]"

definition plain_search :: search_ops where
  "plain_search = \<lparr>q_memchr = (\<lambda>c. position (\<lambda>b. b = c)), q_memmem = first_match\<rparr>"

interpretation ps: byte_search plain_search
proof
  fix n h and i :: nat
  show "q_memmem plain_search n h = Some i \<Longrightarrow> occurs_at n h i \<and> (\<forall>j<i. \<not> occurs_at n h j)"
    using position_Some [of "occurs_at n h" "[0..<Suc (length h)]" i]
    by (auto simp: plain_search_def first_match_def simp del: upt_Suc)
  assume "q_memmem plain_search n h = None"
  then have "\<forall>j\<in>set [0..<Suc (length h)]. \<not> occurs_at n h j"
    by (simp add: plain_search_def first_match_def position_None del: upt_Suc)
  then show "\<not> occurs_at n h i" by (auto simp: occurs_at_def simp del: upt_Suc)
qed (simp add: plain_search_def)

text \<open>\<open>slice::get\<close>.\<close>

definition get :: "'a list \<Rightarrow> nat \<Rightarrow> 'a option" where
  "get xs k = (if k < length xs then Some (xs ! k) else None)"

abbreviation LF :: byte where "LF \<equiv> CHR 0x0A"
abbreviation CR :: byte where "CR \<equiv> CHR 0x0D"

definition blank :: "byte \<Rightarrow> bool" where
  "blank b \<longleftrightarrow> b = CHR '' '' \<or> b = CHR 0x09"

text \<open>\<open>while matches!(v.get(k), Some(b' ' | b'\t')) \{ k += 1 \}\<close>.\<close>

definition skip_blanks :: "bytes \<Rightarrow> nat \<Rightarrow> nat" where
  "skip_blanks v k = k + length (takeWhile blank (drop k v))"

section \<open>Content type\<close>

definition bad :: "string \<Rightarrow> rejection" where
  "bad reason = \<lparr>rej_status = 400, rej_reason = reason\<rparr>"

definition over :: "string \<Rightarrow> rejection" where
  "over reason = \<lparr>rej_status = 413, rej_reason = reason\<rparr>"

definition is_multipart :: "bytes \<Rightarrow> bool" where
  "is_multipart content_type =
     (let media = (case split_on (CHR '';'') content_type of [] \<Rightarrow> [] | m # _ \<Rightarrow> m)
      in eq_ignore_ascii_case (trim_ascii media) ''multipart/form-data'')"

definition boundary_value :: "search_ops \<Rightarrow> bytes \<Rightarrow> (bytes, rejection) result" where
  "boundary_value Q val =
     (if val \<noteq> [] \<and> hd val = CHR 0x22 then
        (case q_memchr Q (CHR 0x22) (tl val) of
           Some e \<Rightarrow> Ok (take e (tl val))
         | None \<Rightarrow> Err (bad ''unterminated quoted boundary parameter''))
      else (case q_memchr Q (CHR '','') val of
           Some e \<Rightarrow> Ok (trim_ascii (take e val))
         | None \<Rightarrow> Ok val))"

fun boundary_segs :: "search_ops \<Rightarrow> bytes list \<Rightarrow> (bytes, rejection) result" where
  "boundary_segs Q [] = Err (bad ''multipart/form-data without a boundary parameter'')"
| "boundary_segs Q (seg # segs) =
     (case q_memchr Q (CHR ''='') seg of
        None \<Rightarrow> boundary_segs Q segs
      | Some eq \<Rightarrow>
          if \<not> eq_ignore_ascii_case (trim_ascii (take eq seg)) ''boundary'' then boundary_segs Q segs
          else (case boundary_value Q (trim_ascii (drop (eq + 1) seg)) of
                  Err e \<Rightarrow> Err e
                | Ok val \<Rightarrow> if val = [] then Err (bad ''empty boundary parameter'') else Ok val))"

definition boundary :: "search_ops \<Rightarrow> bytes \<Rightarrow> (bytes, rejection) result" where
  "boundary Q content_type = boundary_segs Q (drop 1 (split_on (CHR '';'') content_type))"

section \<open>Delimiter lines\<close>

record delim_hit =
  dh_line_start :: nat
  dh_after :: nat
  dh_close :: bool

text \<open>The checks behind a delimiter found at \<open>i\<close>, a line start.\<close>

definition delim_line :: "bytes \<Rightarrow> nat \<Rightarrow> nat \<Rightarrow> delim_hit option" where
  "delim_line body dlen i =
     (let j = i + dlen; k = skip_blanks body (j + 2); j' = skip_blanks body j in
      if starts_with (drop j body) ''--''
         \<and> (get body k = None \<or> get body k = Some LF \<or> (get body k = Some CR \<and> get body (k + 1) = Some LF))
      then Some \<lparr>dh_line_start = i, dh_after = j + 2, dh_close = True\<rparr>
      else if get body j' = Some LF
      then Some \<lparr>dh_line_start = i, dh_after = j' + 1, dh_close = False\<rparr>
      else if get body j' = Some CR \<and> get body (j' + 1) = Some LF
      then Some \<lparr>dh_line_start = i, dh_after = j' + 2, dh_close = False\<rparr>
      else None)"

text \<open>A delimiter must start a line.\<close>

definition line_hit :: "bytes \<Rightarrow> nat \<Rightarrow> nat \<Rightarrow> delim_hit option" where
  "line_hit body dlen i =
     (if i = 0 \<or> get body (i - 1) = Some LF then delim_line body dlen i else None)"

text \<open>The slice \<open>body[from..]\<close> panics past the end; the guard keeps that case apart, and it does not occur.\<close>

function next_delimiter :: "search_ops \<Rightarrow> bytes \<Rightarrow> nat \<Rightarrow> bytes \<Rightarrow> nat \<Rightarrow> delim_hit option" where
  "next_delimiter Q body start finder dlen =
     (if length body < start then None
      else case q_memmem Q finder (drop start body) of
        None \<Rightarrow> None
      | Some off \<Rightarrow> let i = off + start in
          (case line_hit body dlen i of
             Some hit \<Rightarrow> Some hit
           | None \<Rightarrow> (case q_memchr Q LF (drop i body) of
                        None \<Rightarrow> None
                      | Some nl \<Rightarrow> next_delimiter Q body (i + nl + 1) finder dlen)))"
  by pat_completeness auto
termination
  by (relation "measure (\<lambda>(Q, body, start, finder, dlen). Suc (length body) - start)") auto

declare next_delimiter.simps [simp del]

section \<open>Content-disposition parameters\<close>

record disposition =
  d_name :: "bytes option"
  d_filename :: "bytes option"

text \<open>The quoted-string loop: the unescaped value and the index behind the closing quote.\<close>

function unquote :: "bytes \<Rightarrow> nat \<Rightarrow> bytes \<Rightarrow> (bytes \<times> nat) option" where
  "unquote v k out =
     (case get v k of
        None \<Rightarrow> None
      | Some b \<Rightarrow>
          if b = CHR 0x22 then Some (out, k + 1)
          else if b = CHR 0x5C \<and> (get v (k + 1) = Some (CHR 0x5C) \<or> get v (k + 1) = Some (CHR 0x22))
          then unquote v (k + 2) (out @ [v ! (k + 1)])
          else unquote v (k + 1) (out @ [b]))"
  by pat_completeness auto
termination
  by (relation "measure (\<lambda>(v, k, out). length v - k)") (auto simp: get_def split: if_splits)

declare unquote.simps [simp del]

definition param_value :: "search_ops \<Rightarrow> bytes \<Rightarrow> nat \<Rightarrow> (bytes \<times> nat) option" where
  "param_value Q v j =
     (if get v j = Some (CHR 0x22) then unquote v (j + 1) []
      else let e = (case q_memchr Q (CHR '';'') (drop j v) of Some off \<Rightarrow> off + j | None \<Rightarrow> length v)
           in Some (trim_ascii (drop j (take e v)), e))"

definition store_param :: "disposition \<Rightarrow> bytes \<Rightarrow> bytes \<Rightarrow> (disposition, rejection) result" where
  "store_param d key val =
     (let dup = Err (bad ''duplicated name/filename parameter in content-disposition'') in
      if eq_ignore_ascii_case key ''name''
      then (if d_name d \<noteq> None then dup else Ok (d\<lparr>d_name := Some val\<rparr>))
      else if eq_ignore_ascii_case key ''filename''
      then (if d_filename d \<noteq> None then dup else Ok (d\<lparr>d_filename := Some val\<rparr>))
      else Ok d)"

lemma unquote_next: "unquote v k out = Some (r, n) \<Longrightarrow> k < n"
proof (induction v k out rule: unquote.induct)
  case (1 v k out)
  show ?case
  proof (cases "get v k")
    case None
    with 1(3) show ?thesis by (subst (asm) unquote.simps) simp
  next
    case (Some b)
    show ?thesis
      using 1(1) [OF Some] 1(2) [OF Some] 1(3) Some
      by (subst (asm) (3) unquote.simps) (auto split: if_splits)
  qed
qed

lemma param_value_next: "param_value Q v j = Some (r, n) \<Longrightarrow> j \<le> n \<or> n = length v"
  by (auto simp: param_value_def Let_def dest!: unquote_next split: if_splits option.splits)

function disposition_loop :: "search_ops \<Rightarrow> bytes \<Rightarrow> nat \<Rightarrow> disposition \<Rightarrow> (disposition, rejection) result" where
  "disposition_loop Q v i d =
     (if \<not> i < length v then Ok d
      else case q_memchr Q (CHR ''='') (drop i v) of
        None \<Rightarrow> Ok d
      | Some off \<Rightarrow>
          let eq = off + i; key = trim_ascii (drop i (take eq v)); j = skip_blanks v (eq + 1) in
          (case param_value Q v j of
             None \<Rightarrow> Err (bad ''unterminated quoted-string in content-disposition'')
           | Some (val, nxt) \<Rightarrow>
               (case store_param d key val of
                  Err e \<Rightarrow> Err e
                | Ok d' \<Rightarrow> disposition_loop Q v
                    (case q_memchr Q (CHR '';'') (drop nxt v) of Some off \<Rightarrow> off + nxt + 1 | None \<Rightarrow> length v) d')))"
  by pat_completeness auto
termination
  apply (relation "measure (\<lambda>(Q, v, i, d). length v - i)")
   apply simp
  apply (auto simp: skip_blanks_def dest!: param_value_next split: option.splits)
  done

declare disposition_loop.simps [simp del]

definition disposition_params :: "search_ops \<Rightarrow> bytes \<Rightarrow> (disposition, rejection) result" where
  "disposition_params Q v = disposition_loop Q v
     (case q_memchr Q (CHR '';'') v of Some i \<Rightarrow> i + 1 | None \<Rightarrow> length v) \<lparr>d_name = None, d_filename = None\<rparr>"

section \<open>The delimiter search\<close>

definition delimiter_at :: "bytes \<Rightarrow> bytes \<Rightarrow> nat \<Rightarrow> bool" where
  "delimiter_at body delim i \<longleftrightarrow> occurs_at delim body i \<and> line_hit body (length delim) i \<noteq> None"

lemma line_hit_Some: "line_hit body d i = Some h \<longleftrightarrow>
    (i = 0 \<or> get body (i - 1) = Some LF) \<and> delim_line body d i = Some h"
  by (auto simp: line_hit_def)

lemma get_drop [simp]: "get (drop n xs) k = get xs (n + k)"
  by (auto simp: get_def)

lemma get_Some: "get xs k = Some x \<longleftrightarrow> k < length xs \<and> xs ! k = x"
  by (auto simp: get_def)

lemma occurs_at_drop: "n \<noteq> [] \<Longrightarrow> occurs_at n (drop k h) i \<longleftrightarrow> occurs_at n h (k + i)"
  by (cases n) (auto simp: occurs_at_def starts_with_def add.commute)

lemma delim_line_fields:
  "delim_line body d i = Some h \<Longrightarrow> dh_line_start h = i \<and> i + d < dh_after h \<and> dh_after h \<le> length body"
proof -
  have k: "j \<le> skip_blanks body j" for j by (simp add: skip_blanks_def)
  have "starts_with (drop j body) ''--'' \<Longrightarrow> j + 2 \<le> length body" for j
    by (auto simp: starts_with_iff) (metis add.commute add_2_eq_Suc' drop_eq_Nil le_add_diff_inverse length_Cons
      length_append length_drop list.size(3) nat_le_linear not_less_eq_eq list.distinct(1) le_add1 numeral_2_eq_2 Suc_eq_plus1 add_Suc_right)
  then show "delim_line body d i = Some h \<Longrightarrow> ?thesis"
    using k [of "i + d"] by (auto simp: delim_line_def Let_def get_Some split: if_splits)
qed

context byte_search begin

lemma memchr_Some: "q_memchr Q c s = Some i \<Longrightarrow> i < length s \<and> s ! i = c \<and> (\<forall>j<i. s ! j \<noteq> c)"
  using position_Some [of "\<lambda>b. b = c" s i] by (simp add: memchr)

lemma memchr_None: "q_memchr Q c s = None \<longleftrightarrow> c \<notin> set s"
  by (auto simp: memchr position_None)

text \<open>The line of a rejected occurrence holds no delimiter: the search may go on behind it.\<close>

lemma rejected_line:
  assumes "q_memchr Q LF (drop i body) = Some nl" "i < m" "m < i + nl + 1"
  shows "\<not> delimiter_at body delim m"
proof
  assume "delimiter_at body delim m"
  with assms(2) have "get body (m - 1) = Some LF" by (auto simp: delimiter_at_def line_hit_Some)
  then have "drop i body ! (m - 1 - i) = LF" using assms(2) by (auto simp: get_Some)
  moreover have "m - 1 - i < nl" using assms(2,3) by linarith
  ultimately show False using memchr_Some [OF assms(1)] by blast
qed

lemma rejected_tail:
  assumes "q_memchr Q LF (drop i body) = None" "i < m"
  shows "\<not> delimiter_at body delim m"
proof
  assume "delimiter_at body delim m"
  with assms(2) have "m - 1 < length body" "body ! (m - 1) = LF"
    by (auto simp: delimiter_at_def line_hit_Some get_Some)
  moreover have "drop i body ! (m - 1 - i) = body ! (m - 1)" using assms(2) calculation by simp
  moreover have "m - 1 - i < length (drop i body)" using assms(2) calculation(1) by auto
  ultimately have "LF \<in> set (drop i body)" by (metis nth_mem)
  with assms(1) show False by (simp add: memchr_None)
qed

lemma next_delimiter_spec:
  assumes "start \<le> length body" "delim \<noteq> []"
  shows "case next_delimiter Q body start delim (length delim) of
      None \<Rightarrow> \<forall>m\<ge>start. \<not> delimiter_at body delim m
    | Some h \<Rightarrow> start \<le> dh_line_start h \<and> delimiter_at body delim (dh_line_start h)
        \<and> line_hit body (length delim) (dh_line_start h) = Some h
        \<and> (\<forall>m. start \<le> m \<and> m < dh_line_start h \<longrightarrow> \<not> delimiter_at body delim m)"
  using assms(1)
proof (induction "length body - start" arbitrary: start rule: less_induct)
  case less
  note start = less.prems
  show ?case
  proof (cases "q_memmem Q delim (drop start body)")
    case None
    have "\<not> occurs_at delim body m" if "start \<le> m" for m
      using memmem_None [OF None, of "m - start"] that assms(2) by (simp add: occurs_at_drop)
    then show ?thesis using None by (subst next_delimiter.simps) (simp add: delimiter_at_def)
  next
    case (Some off)
    define i where "i = off + start"
    have occ: "occurs_at delim body i" and before: "\<And>m. start \<le> m \<Longrightarrow> m < i \<Longrightarrow> \<not> occurs_at delim body m"
    proof -
      from memmem_Some [OF Some] assms(2) show "occurs_at delim body i"
        by (simp add: occurs_at_drop i_def add.commute)
      fix m assume "start \<le> m" "m < i"
      then have "m - start < off" by (auto simp: i_def)
      with memmem_Some [OF Some] have "\<not> occurs_at delim (drop start body) (m - start)" by blast
      with \<open>start \<le> m\<close> assms(2) show "\<not> occurs_at delim body m" by (simp add: occurs_at_drop)
    qed
    show ?thesis
    proof (cases "line_hit body (length delim) i")
      case hit: (Some h)
      have r: "next_delimiter Q body start delim (length delim) = Some h"
        using Some hit start by (subst next_delimiter.simps) (simp add: i_def Let_def)
      have "dh_line_start h = i" using hit delim_line_fields by (auto simp: line_hit_Some)
      with hit occ before show ?thesis by (auto simp: r delimiter_at_def i_def)
    next
      case no: None
      then have ni: "\<not> delimiter_at body delim i" by (simp add: delimiter_at_def)
      show ?thesis
      proof (cases "q_memchr Q LF (drop i body)")
        case nl: None
        have r: "next_delimiter Q body start delim (length delim) = None"
          using Some no nl start by (subst next_delimiter.simps) (simp add: i_def Let_def)
        have "\<not> delimiter_at body delim m" if "start \<le> m" for m
          using before [OF that] ni rejected_tail [OF nl, of m] by (cases m i rule: linorder_cases) (auto simp: delimiter_at_def)
        then show ?thesis by (simp add: r)
      next
        case nl: (Some n)
        have r: "next_delimiter Q body start delim (length delim)
            = next_delimiter Q body (i + n + 1) delim (length delim)"
          using Some no nl start by (subst next_delimiter.simps) (simp add: i_def Let_def)
        have le: "i + n + 1 \<le> length body" using memchr_Some [OF nl] by auto
        have gap: "\<not> delimiter_at body delim m" if "start \<le> m" "m < i + n + 1" for m
          using before [OF that(1)] ni rejected_line [OF nl _ that(2)]
          by (cases m i rule: linorder_cases) (auto simp: delimiter_at_def)
        have "length body - (i + n + 1) < length body - start" using le by (simp add: i_def)
        from less.hyps [OF this le] show ?thesis
          unfolding r using gap by (fastforce simp: i_def not_less split: option.splits)
      qed
    qed
  qed
qed

end

section \<open>Quoted parameters\<close>

text \<open>The inverse of the quoted-string loop, the way PHP clients write a value.\<close>

definition quote_escape :: "bytes \<Rightarrow> bytes" where
  "quote_escape s =
     concat (map (\<lambda>b. if b = CHR 0x22 \<or> b = CHR 0x5C then [CHR 0x5C, b] else [b]) s)"

definition quoted :: "bytes \<Rightarrow> bytes" where
  "quoted s = CHR 0x22 # quote_escape s @ [CHR 0x22]"

lemma get_suffix: "drop k v = x # r \<Longrightarrow> get v k = Some x \<and> drop (k + 1) v = r"
proof -
  assume a: "drop k v = x # r"
  then have "k < length v" by (metis drop_all leI list.distinct(1))
  with a show ?thesis
    by (metis Cons_nth_drop_Suc Suc_eq_plus1 get_Some list.inject)
qed

lemma unquote_escape:
  "drop k v = quote_escape s @ CHR 0x22 # rest \<Longrightarrow>
     unquote v k out = Some (out @ s, k + length (quote_escape s) + 1)"
proof (induction s arbitrary: k out)
  case Nil
  then have "get v k = Some (CHR 0x22)" using get_suffix by (fastforce simp: quote_escape_def)
  then show ?case by (subst unquote.simps) (simp add: quote_escape_def)
next
  case (Cons b s)
  show ?case
  proof (cases "b = CHR 0x22 \<or> b = CHR 0x5C")
    case True
    then have e: "quote_escape (b # s) = CHR 0x5C # b # quote_escape s" by (simp add: quote_escape_def)
    with Cons.prems have d: "drop k v = CHR 0x5C # b # quote_escape s @ CHR 0x22 # rest" by simp
    from get_suffix [OF d] have g: "get v k = Some (CHR 0x5C)"
      and d1: "drop (k + 1) v = b # quote_escape s @ CHR 0x22 # rest" by auto
    from get_suffix [OF d1] have g1: "get v (k + 1) = Some b"
      and d2: "drop (k + 2) v = quote_escape s @ CHR 0x22 # rest" by (auto simp: numeral_2_eq_2)
    from g1 have b: "v ! Suc k = b" by (simp add: get_Some)
    show ?thesis
      using g g1 True Cons.IH [OF d2, of "out @ [b]"] by (subst unquote.simps) (auto simp: e b)
  next
    case False
    then have e: "quote_escape (b # s) = b # quote_escape s" by (simp add: quote_escape_def)
    with Cons.prems have d: "drop k v = b # quote_escape s @ CHR 0x22 # rest" by simp
    from get_suffix [OF d] have g: "get v k = Some b"
      and d1: "drop (k + 1) v = quote_escape s @ CHR 0x22 # rest" by auto
    show ?thesis
      using g False Cons.IH [OF d1, of "out @ [b]"] by (subst unquote.simps) (auto simp: e)
  qed
qed

context byte_search begin

lemma memchr_append: "c \<notin> set a \<Longrightarrow> q_memchr Q c (a @ c # b) = Some (length a)"
  unfolding memchr by (rule position_append) auto

lemma disposition_quoted:
  assumes d: "drop i v = key @ CHR ''='' # quoted s @ rest" and key: "CHR ''='' \<notin> set key"
  shows "disposition_loop Q v i dp =
    (case store_param dp (trim_ascii key) s of
       Err e \<Rightarrow> Err e
     | Ok d' \<Rightarrow> disposition_loop Q v
         (case q_memchr Q (CHR '';'') rest of
            Some off \<Rightarrow> off + (i + length key + length (quoted s) + 1) + 1 | None \<Rightarrow> length v) d')"
proof -
  have i: "i < length v" using d by (cases "i < length v") auto
  have m: "q_memchr Q (CHR ''='') (drop i v) = Some (length key)"
    unfolding d by (rule memchr_append [OF key])
  have k: "drop i (take (length key + i) v) = key"
    using d by (simp add: drop_take)
  have de: "drop (length key + i) v = CHR ''='' # quoted s @ rest"
    using d by (metis append_eq_conv_conj drop_drop)
  from get_suffix [OF de] have dq: "drop (length key + i + 1) v = CHR 0x22 # quote_escape s @ CHR 0x22 # rest"
    by (simp add: quoted_def)
  have j: "skip_blanks v (length key + i + 1) = length key + i + 1"
    unfolding skip_blanks_def dq by (simp add: blank_def)
  from get_suffix [OF dq] have gq: "get v (length key + i + 1) = Some (CHR 0x22)"
    and du: "drop (length key + i + 2) v = quote_escape s @ CHR 0x22 # rest" by (auto simp: numeral_2_eq_2)
  define n where "n = i + length key + length (quoted s) + 1"
  have u: "unquote v (length key + i + 2) [] = Some (s, n)"
    using unquote_escape [OF du] by (simp add: n_def quoted_def)
  have p: "param_value Q v (length key + i + 1) = Some (s, n)"
    using gq u by (simp add: param_value_def)
  have r: "drop n v = rest"
  proof -
    have "drop n v = drop (length (quote_escape s) + 1) (drop (length key + i + 2) v)"
      by (simp add: n_def quoted_def add.commute add.left_commute)
    then show ?thesis unfolding du by simp
  qed
  show ?thesis
    unfolding n_def [symmetric] using i m k j p r
    by (subst disposition_loop.simps) (simp split: option.splits result.splits)
qed

lemma disposition_end: "disposition_loop Q v (length v) d = Ok d"
  by (subst disposition_loop.simps) simp

lemma disposition_start:
  "disposition_params Q (''form-data; name='' @ quoted n @ rest) =
     (case q_memchr Q (CHR '';'') rest of
        Some off \<Rightarrow> disposition_loop Q (''form-data; name='' @ quoted n @ rest) (off + length (quoted n) + 17)
                      \<lparr>d_name = Some n, d_filename = None\<rparr>
      | None \<Rightarrow> Ok \<lparr>d_name = Some n, d_filename = None\<rparr>)"
proof -
  let ?v = "''form-data; name='' @ quoted n @ rest"
  have m: "q_memchr Q (CHR '';'') ?v = Some 9"
    using memchr_append [of "CHR '';''" "''form-data''" "'' name='' @ quoted n @ rest"] by simp
  have d: "drop 10 ?v = '' name'' @ CHR ''='' # quoted n @ rest" by simp
  have t: "trim_ascii '' name'' = ''name''" by code_simp
  show ?thesis
    unfolding disposition_params_def m
    using disposition_quoted [OF d, of "\<lparr>d_name = None, d_filename = None\<rparr>"] disposition_end [of ?v]
    by (simp add: t store_param_def add_ac split: option.splits)
qed

lemma disposition_one:
  "disposition_params Q (''form-data; name='' @ quoted n) = Ok \<lparr>d_name = Some n, d_filename = None\<rparr>"
  using disposition_start [of n "[]"] memchr_None [of "CHR '';''" "[]"] by simp

lemma disposition_next:
  assumes "CHR ''='' \<notin> set key"
  shows "disposition_params Q (''form-data; name='' @ quoted n @ CHR '';'' # key @ CHR ''='' # quoted f) =
     store_param \<lparr>d_name = Some n, d_filename = None\<rparr> (trim_ascii key) f"
proof -
  let ?rest = "CHR '';'' # key @ CHR ''='' # quoted f"
  let ?v = "''form-data; name='' @ quoted n @ ?rest"
  have m: "q_memchr Q (CHR '';'') ?rest = Some 0"
    using memchr_append [of "CHR '';''" "[]"] by simp
  have d: "drop (length (quoted n) + 17) ?v = key @ CHR ''='' # quoted f @ []"
  proof -
    let ?a = "''form-data; name='' @ quoted n @ [CHR '';'']"
    have "length ?a = length (quoted n) + 17" and "?v = ?a @ key @ CHR ''='' # quoted f @ []" by simp_all
    then show ?thesis by (metis append_eq_conv_conj)
  qed
  show ?thesis
    unfolding disposition_start m
    using disposition_quoted [OF d assms, of "\<lparr>d_name = Some n, d_filename = None\<rparr>"]
      disposition_end [of ?v] memchr_None [of "CHR '';''" "[]"]
    by (simp split: option.splits result.splits)
qed

lemma disposition_two:
  "disposition_params Q (''form-data; name='' @ quoted n @ ''; filename='' @ quoted f)
     = Ok \<lparr>d_name = Some n, d_filename = Some f\<rparr>"
proof -
  have t: "trim_ascii '' filename'' = ''filename''"
    "eq_ignore_ascii_case ''filename'' ''filename''" "\<not> eq_ignore_ascii_case ''filename'' ''name''"
    by code_simp+
  show ?thesis using disposition_next [of "'' filename''" n f] by (simp add: t store_param_def)
qed

lemma disposition_dup:
  "disposition_params Q (''form-data; name='' @ quoted n @ ''; name='' @ quoted f)
     = Err (bad ''duplicated name/filename parameter in content-disposition'')"
proof -
  have t: "trim_ascii '' name'' = ''name''" by code_simp
  show ?thesis using disposition_next [of "'' name''" n f] by (simp add: t store_param_def)
qed

end

section \<open>Properties\<close>

text \<open>
  C14: the delimiter search returns the first line at or behind its start that is a delimiter line of the
  boundary, a close delimiter or an opening one with only blanks behind it, and nothing when no such
  line exists; skipping the rest of a rejected line misses none.
\<close>

theorem next_delimiter_exact:
  assumes "byte_search Q" "start \<le> length body" "delim \<noteq> []"
  shows "case next_delimiter Q body start delim (length delim) of
      None \<Rightarrow> \<forall>m\<ge>start. \<not> delimiter_at body delim m
    | Some h \<Rightarrow> start \<le> dh_line_start h \<and> delimiter_at body delim (dh_line_start h)
        \<and> line_hit body (length delim) (dh_line_start h) = Some h
        \<and> (\<forall>m. start \<le> m \<and> m < dh_line_start h \<longrightarrow> \<not> delimiter_at body delim m)"
  using byte_search.next_delimiter_spec [OF assms] .

lemma next_delimiter_exact_witness:
  "\<not> delimiter_at (''x--b'' @ [LF] @ ''--b-y'' @ [LF] @ ''--b '' @ [CR, LF]) ''--b'' 5
   \<and> delimiter_at (''x--b'' @ [LF] @ ''--b-y'' @ [LF] @ ''--b '' @ [CR, LF]) ''--b'' 11"
proof -
  let ?body = "''x--b'' @ [LF] @ ''--b-y'' @ [LF] @ ''--b '' @ [CR, LF]"
  have n: "next_delimiter plain_search ?body 0 ''--b'' (length ''--b'')
      = Some \<lparr>dh_line_start = 11, dh_after = 17, dh_close = False\<rparr>"
    by code_simp
  have "0 \<le> length ?body" "''--b'' \<noteq> ''''" by simp_all
  from next_delimiter_exact [OF ps.byte_search_axioms this] show ?thesis
    unfolding n by (simp del: append.simps append_Cons)
qed

text \<open>
  The parameters of a content-disposition field survive quoting: any name and any file name, with
  their quotes and backslashes escaped, come back byte for byte, and a second name is refused.
\<close>

theorem disposition_roundtrip:
  assumes "byte_search Q"
  shows "disposition_params Q (''form-data; name='' @ quoted n) = Ok \<lparr>d_name = Some n, d_filename = None\<rparr>
    \<and> disposition_params Q (''form-data; name='' @ quoted n @ ''; filename='' @ quoted f)
        = Ok \<lparr>d_name = Some n, d_filename = Some f\<rparr>
    \<and> disposition_params Q (''form-data; name='' @ quoted n @ ''; name='' @ quoted f)
        = Err (bad ''duplicated name/filename parameter in content-disposition'')"
  by (intro conjI byte_search.disposition_one byte_search.disposition_two byte_search.disposition_dup assms)

lemma disposition_roundtrip_witness:
  "disposition_params plain_search (''form-data; name='' @ quoted [CHR 0x22, CHR 0x5C] @ ''; filename='' @ quoted ''a;b'')
     = Ok \<lparr>d_name = Some [CHR 0x22, CHR 0x5C], d_filename = Some ''a;b''\<rparr>"
  using disposition_roundtrip [OF ps.byte_search_axioms] by blast

text \<open>
  A parameter without a value takes the key of the next one with it, so the name behind it is not
  seen.
\<close>

lemma valueless_parameter_hides_name:
  "disposition_params plain_search ''form-data; voice; name=x'' = Ok \<lparr>d_name = None, d_filename = None\<rparr>
   \<and> disposition_params plain_search ''form-data; name=x; voice'' = Ok \<lparr>d_name = Some ''x'', d_filename = None\<rparr>"
  by code_simp

end
