(* ===== verification/Multipart.thy ===== *)
theory Multipart
  imports MultipartScan Frames
begin

text \<open>
  The parts of a multipart body (\<open>http/src/multipart.rs\<close>): one part's header section and disposition,
  the spool file of a file part, and the loop over the delimiter lines with its limits.

  The header parser (\<open>httparse\<close>) and the temporary files (\<open>tempfile\<close>, \<open>std::fs\<close>) are parameters with
  their documented behaviour in the locales \<open>part_parser\<close> and \<open>temp_files\<close>.
\<close>

section \<open>The interfaces\<close>

datatype hp_status =
    HpComplete nat "(string \<times> bytes) list"
  | HpPartial
  | HpTooMany
  | HpError

text \<open>\<open>httparse::parse_headers\<close> with a buffer for so many headers.\<close>

type_synonym parse_headers = "nat \<Rightarrow> bytes \<Rightarrow> hp_status"

locale part_parser =
  fixes P :: parse_headers
  assumes complete: "P n part = HpComplete len hs \<Longrightarrow> len \<le> length part \<and> length hs \<le> n"

text \<open>
  \<open>NamedTempFile::new_in\<close>, \<open>write_all\<close>, \<open>keep\<close> and the removal by path that a dropped temporary file
  and \<open>SpooledFile::unlink\<close> make. The system may refuse a removal, for instance of a file that another process has
  open; \<open>stuck\<close> are the paths whose removal it refused so far.
\<close>

record 'fs temp_ops =
  t_new :: "'fs \<Rightarrow> bytes \<Rightarrow> 'fs \<times> (bytes, string) result"
  t_write :: "'fs \<Rightarrow> bytes \<Rightarrow> bytes \<Rightarrow> 'fs \<times> (unit, string) result"
  t_keep :: "'fs \<Rightarrow> bytes \<Rightarrow> 'fs \<times> (unit, string) result"
  t_remove :: "'fs \<Rightarrow> bytes \<Rightarrow> 'fs \<times> (unit, string) result"

locale temp_files =
  fixes T :: "'fs temp_ops" and view :: "'fs \<Rightarrow> bytes \<Rightarrow> bytes option" and stuck :: "'fs \<Rightarrow> bytes set"
  assumes new_Ok: "t_new T fs dir = (fs', Ok p) \<Longrightarrow> p \<noteq> [] \<and> view fs p = None \<and> view fs' = (view fs)(p \<mapsto> [])"
    and new_Err: "t_new T fs dir = (fs', Err e) \<Longrightarrow> view fs' = view fs"
    and write_Ok: "t_write T fs p b = (fs', Ok u) \<Longrightarrow> view fs p = Some c \<Longrightarrow> view fs' = (view fs)(p \<mapsto> c @ b)"
    and write_Err: "t_write T fs p b = (fs', Err e) \<Longrightarrow> q \<noteq> p \<Longrightarrow> view fs' q = view fs q"
    and keep: "t_keep T fs p = (fs', r) \<Longrightarrow> view fs' = view fs"
    and remove_Ok: "t_remove T fs p = (fs', Ok u) \<Longrightarrow> view fs' = (view fs)(p := None) \<and> stuck fs' = stuck fs"
    and remove_Err: "t_remove T fs p = (fs', Err e) \<Longrightarrow> view fs' = view fs \<and> stuck fs' = insert p (stuck fs)"
    and stuck_same: "stuck (fst (t_new T fs dir)) = stuck fs" "stuck (fst (t_write T fs p b)) = stuck fs"
      "stuck (fst (t_keep T fs p)) = stuck fs"

section \<open>The code\<close>

record limits =
  l_dir :: bytes
  l_max_file_size :: nat
  l_max_field_size :: nat
  l_max_files :: nat
  l_max_parts :: nat
  l_max_part_headers :: nat

text \<open>A removal that fails is logged, and the file stays.\<close>

definition remove_or_log :: "'fs temp_ops \<Rightarrow> 'fs \<Rightarrow> bytes \<Rightarrow> 'fs" where
  "remove_or_log T fs p = fst (t_remove T fs p)"

text \<open>Every early return drops the temporary file, which removes it.\<close>

definition spool :: "'fs temp_ops \<Rightarrow> bytes \<Rightarrow> bytes \<Rightarrow> 'fs \<Rightarrow> 'fs \<times> (spooled_file, string) result" where
  "spool T b dir fs =
     (case t_new T fs dir of
        (fs1, Err e) \<Rightarrow> (fs1, Err e)
      | (fs1, Ok tmp) \<Rightarrow> (case t_write T fs1 tmp b of
            (fs2, Err e) \<Rightarrow> (remove_or_log T fs2 tmp, Err e)
          | (fs2, Ok _) \<Rightarrow> (case t_keep T fs2 tmp of
                (fs3, Err e) \<Rightarrow> (remove_or_log T fs3 tmp, Err e)
              | (fs3, Ok _) \<Rightarrow> (fs3, Ok \<lparr>spool_path = tmp\<rparr>))))"

text \<open>The header loop: every header, the single content-disposition and the first content-type.\<close>

fun part_headers ::
  "(string \<times> bytes) list \<Rightarrow> (string \<times> bytes) list \<Rightarrow> bytes option \<Rightarrow> bytes option
     \<Rightarrow> ((string \<times> bytes) list \<times> bytes option \<times> bytes option, rejection) result" where
  "part_headers [] hs disp media = Ok (hs, disp, media)"
| "part_headers ((n, v) # rest) hs disp media =
     (if eq_ignore_ascii_case n ''content-disposition'' then
        (if disp \<noteq> None then Err (bad ''duplicated content-disposition in a part'')
         else part_headers rest (hs @ [(n, v)]) (Some v) media)
      else if eq_ignore_ascii_case n ''content-type'' \<and> media = None then
        part_headers rest (hs @ [(n, v)]) disp (Some v)
      else part_headers rest (hs @ [(n, v)]) disp media)"

type_synonym parsed = "form_field list \<times> uploaded_file list"

definition parse_part ::
  "search_ops \<Rightarrow> parse_headers \<Rightarrow> 'fs temp_ops \<Rightarrow> limits \<Rightarrow> bytes \<Rightarrow> parsed \<Rightarrow> 'fs
     \<Rightarrow> 'fs \<times> (parsed, rejection) result" where
  "parse_part Q P T lim part acc fs =
     (case P (l_max_part_headers lim) part of
        HpPartial \<Rightarrow> (fs, Err (bad ''part without a header/body separator''))
      | HpTooMany \<Rightarrow> (fs, Err (over ''part headers over max_part_headers''))
      | HpError \<Rightarrow> (fs, Err (bad ''unparseable part header section''))
      | HpComplete len parsed \<Rightarrow>
         (let body = drop len part in
          case part_headers parsed [] None None of
            Err e \<Rightarrow> (fs, Err e)
          | Ok (headers, None, media) \<Rightarrow> (fs, Err (bad ''part without content-disposition''))
          | Ok (headers, Some disp, media) \<Rightarrow>
             (case disposition_params Q disp of
                Err e \<Rightarrow> (fs, Err e)
              | Ok d \<Rightarrow>
                 (case opt_filter (\<lambda>n. n \<noteq> []) (d_name d) of
                    None \<Rightarrow> (fs, Err (bad ''content-disposition without a non-empty name parameter''))
                  | Some name \<Rightarrow>
                     (case d_filename d of
                        Some client_filename \<Rightarrow>
                          if length (snd acc) + 1 > l_max_files lim
                          then (fs, Err (over ''file parts over max_files''))
                          else if length body > l_max_file_size lim
                          then (fs, Err (over ''file part over max_file_size''))
                          else (case spool T body (l_dir lim) fs of
                              (fs', Err e) \<Rightarrow> (fs', Err \<lparr>rej_status = 500, rej_reason = ''upload spool failed: '' @ e\<rparr>)
                            | (fs', Ok f) \<Rightarrow> (fs', Ok (fst acc, snd acc @
                                [\<lparr>uf_name = name, uf_client_filename = client_filename,
                                  uf_client_media_type = opt_filter (\<lambda>v. v \<noteq> []) media,
                                  uf_headers = headers, uf_file = f, uf_size = length body\<rparr>])))
                      | None \<Rightarrow>
                          if length body > l_max_field_size lim
                          then (fs, Err (over ''field part over max_field_size''))
                          else (fs, Ok (fst acc @ [\<lparr>ff_name = name, ff_value = body, ff_headers = headers\<rparr>],
                                        snd acc)))))))"

text \<open>Dropping the files of a refused body unlinks each of them.\<close>

definition drop_files :: "'fs temp_ops \<Rightarrow> uploaded_file list \<Rightarrow> 'fs \<Rightarrow> 'fs" where
  "drop_files T files fs =
     foldl (remove_or_log T) fs (concat (map (\<lambda>f. snd (spool_unlink (uf_file f))) files))"

text \<open>The part between two delimiter lines: the line end before a delimiter belongs to it.\<close>

definition part_end :: "bytes \<Rightarrow> nat \<Rightarrow> nat \<Rightarrow> nat" where
  "part_end body part_start line_start =
     (if line_start > part_start \<and> get body (line_start - 1) = Some LF then
        (if line_start - 1 > part_start \<and> get body (line_start - 2) = Some CR
         then line_start - 2 else line_start - 1)
      else line_start)"

lemma next_delimiter_after:
  "next_delimiter Q body start finder d = Some h \<Longrightarrow> start < dh_after h \<and> start \<le> length body"
proof (induction Q body start finder d rule: next_delimiter.induct)
  case (1 Q body start finder d)
  show ?case
  proof (cases "length body < start \<or> q_memmem Q finder (drop start body) = None")
    case True
    with 1(2) show ?thesis by (subst (asm) next_delimiter.simps) (auto split: if_splits)
  next
    case False
    then obtain off where le: "\<not> length body < start" and off: "q_memmem Q finder (drop start body) = Some off" by auto
    show ?thesis
    proof (cases "line_hit body d (off + start)")
      case (Some x)
      with 1(2) le off have "h = x" by (subst (asm) next_delimiter.simps) simp
      with Some le show ?thesis by (auto simp: line_hit_Some dest: delim_line_fields)
    next
      case None
      then have "next_delimiter Q body start finder d = (case q_memchr Q LF (drop (off + start) body) of
          None \<Rightarrow> None | Some nl \<Rightarrow> next_delimiter Q body (off + start + nl + 1) finder d)"
        using le off by (subst next_delimiter.simps) (simp add: Let_def)
      with 1(2) obtain nl where nl: "q_memchr Q LF (drop (off + start) body) = Some nl"
        and n: "next_delimiter Q body (off + start + nl + 1) finder d = Some h"
        by (auto split: option.splits)
      from 1(1) [OF le off refl None nl n] le show ?thesis by auto
    qed
  qed
qed

function parse_loop ::
  "search_ops \<Rightarrow> parse_headers \<Rightarrow> 'fs temp_ops \<Rightarrow> limits \<Rightarrow> bytes \<Rightarrow> bytes \<Rightarrow> nat \<Rightarrow> parsed \<Rightarrow> 'fs
     \<Rightarrow> 'fs \<times> (parsed, rejection) result" where
  "parse_loop Q P T lim body delim part_start acc fs =
     (if length (fst acc) + length (snd acc) + 1 > l_max_parts lim
      then (drop_files T (snd acc) fs, Err (over ''part count over max_parts''))
      else case next_delimiter Q body part_start delim (length delim) of
        None \<Rightarrow> (drop_files T (snd acc) fs, Err (bad ''no closing boundary line''))
      | Some ending \<Rightarrow>
         (case parse_part Q P T lim
                 (drop part_start (take (part_end body part_start (dh_line_start ending)) body)) acc fs of
            (fs', Err e) \<Rightarrow> (drop_files T (snd acc) fs', Err e)
          | (fs', Ok acc') \<Rightarrow>
              if dh_close ending then (fs', Ok acc')
              else parse_loop Q P T lim body delim (dh_after ending) acc' fs'))"
  by pat_completeness auto
termination
  by (relation "measure (\<lambda>(Q, P, T, lim, body, delim, part_start, acc, fs). Suc (length body) - part_start)")
    (auto dest!: next_delimiter_after)

declare parse_loop.simps [simp del]

definition parse ::
  "search_ops \<Rightarrow> parse_headers \<Rightarrow> 'fs temp_ops \<Rightarrow> bytes \<Rightarrow> bytes \<Rightarrow> limits \<Rightarrow> 'fs
     \<Rightarrow> 'fs \<times> (parsed, rejection) result" where
  "parse Q P T body bnd lim fs =
     (let delim = ''--'' @ bnd in
      case next_delimiter Q body 0 delim (length delim) of
        None \<Rightarrow> (fs, Err (bad ''no opening boundary line''))
      | Some opening \<Rightarrow>
          if dh_close opening then (fs, Ok ([], []))
          else parse_loop Q P T lim body delim (dh_after opening) ([], []) fs)"

section \<open>Ownership and limits\<close>

definition spool_paths :: "uploaded_file list \<Rightarrow> bytes list" where
  "spool_paths files = map (\<lambda>f. spool_path (uf_file f)) files"

text \<open>What holds between two parts: the limits, and that the new files are exactly the owned ones.\<close>

definition field_ok :: "limits \<Rightarrow> form_field \<Rightarrow> bool" where
  "field_ok lim f \<longleftrightarrow> ff_name f \<noteq> [] \<and> length (ff_value f) \<le> l_max_field_size lim
     \<and> length (ff_headers f) \<le> l_max_part_headers lim"

definition file_ok :: "limits \<Rightarrow> uploaded_file \<Rightarrow> bool" where
  "file_ok lim f \<longleftrightarrow> uf_name f \<noteq> [] \<and> uf_size f \<le> l_max_file_size lim
     \<and> length (uf_headers f) \<le> l_max_part_headers lim \<and> uf_client_media_type f \<noteq> Some []"

definition within_limits :: "limits \<Rightarrow> parsed \<Rightarrow> bool" where
  "within_limits lim acc \<longleftrightarrow> length (fst acc) + length (snd acc) \<le> l_max_parts lim
     \<and> length (snd acc) \<le> l_max_files lim
     \<and> list_all (field_ok lim) (fst acc) \<and> list_all (file_ok lim) (snd acc)"

definition owns :: "(bytes \<Rightarrow> bytes option) \<Rightarrow> (bytes \<Rightarrow> bytes option) \<Rightarrow> uploaded_file list \<Rightarrow> bool" where
  "owns before after files \<longleftrightarrow>
     distinct (spool_paths files) \<and> (\<forall>p. p \<notin> set (spool_paths files) \<longrightarrow> after p = before p)
     \<and> (\<forall>f\<in>set files. spool_path (uf_file f) \<noteq> [] \<and> before (spool_path (uf_file f)) = None
          \<and> (\<exists>c. after (spool_path (uf_file f)) = Some c \<and> length c = uf_size f))"

text \<open>The same after failures: a path is as before, owned, or new and refused by the system when it was removed.\<close>

definition kept_but :: "bytes set \<Rightarrow> (bytes \<Rightarrow> bytes option) \<Rightarrow> (bytes \<Rightarrow> bytes option) \<Rightarrow> bool" where
  "kept_but S before after \<longleftrightarrow> (\<forall>p. after p = before p \<or> before p = None \<and> p \<in> S)"

definition owns_but :: "bytes set \<Rightarrow> (bytes \<Rightarrow> bytes option) \<Rightarrow> (bytes \<Rightarrow> bytes option) \<Rightarrow> uploaded_file list \<Rightarrow> bool" where
  "owns_but S before after files \<longleftrightarrow>
     (\<forall>p. p \<notin> set (spool_paths files) \<longrightarrow> after p = before p \<or> before p = None \<and> p \<in> S)
     \<and> (\<forall>f\<in>set files. spool_path (uf_file f) \<noteq> [] \<and> before (spool_path (uf_file f)) = None)"

lemma owns_kept: "owns before mid files \<Longrightarrow> kept_but S mid after \<Longrightarrow> owns_but S before after files"
  unfolding owns_def kept_but_def owns_but_def by metis

lemma kept_refl: "kept_but S before before"
  by (simp add: kept_but_def)

lemma owns_owns_but: "owns before after files \<Longrightarrow> owns_but S before after files"
  using owns_kept kept_refl by blast

lemma owns_Nil: "owns b b []"
  by (simp add: owns_def spool_paths_def)

lemma part_headers_length:
  "part_headers ps hs d m = Ok (hs', d', m') \<Longrightarrow> hs' = hs @ ps"
  by (induction ps hs d m rule: part_headers.induct) (auto split: if_splits)

context temp_files begin

lemma spool_Ok:
  assumes "spool T b dir fs = (fs', Ok f)"
  shows "spool_path f \<noteq> [] \<and> view fs (spool_path f) = None \<and> view fs' = (view fs)(spool_path f \<mapsto> b)"
proof -
  from assms obtain fs1 tmp fs2 u u' where
    n: "t_new T fs dir = (fs1, Ok tmp)" and w: "t_write T fs1 tmp b = (fs2, Ok u)"
    and k: "t_keep T fs2 tmp = (fs', Ok u')" and f: "f = \<lparr>spool_path = tmp\<rparr>"
    by (auto simp: spool_def split: prod.splits result.splits)
  from new_Ok [OF n] have v1: "tmp \<noteq> []" "view fs tmp = None" "view fs1 = (view fs)(tmp \<mapsto> [])" by auto
  then have "view fs2 = (view fs)(tmp \<mapsto> b)" using write_Ok [OF w, of "[]"] by simp
  with v1 keep [OF k] show ?thesis by (simp add: f)
qed

lemma remove_or_log_view:
  "view (remove_or_log T fs p) = (view fs)(p := None) \<and> stuck (remove_or_log T fs p) = stuck fs
   \<or> view (remove_or_log T fs p) = view fs \<and> stuck (remove_or_log T fs p) = insert p (stuck fs)"
proof (cases "t_remove T fs p")
  case (Pair fs' r)
  then show ?thesis using remove_Ok [of fs p fs'] remove_Err [of fs p fs'] by (cases r) (auto simp: remove_or_log_def)
qed

lemma remove_new:
  assumes "view fs p = None" "\<And>q. q \<noteq> p \<Longrightarrow> view fs' q = view fs q"
  shows "kept_but (stuck (remove_or_log T fs' p)) (view fs) (view (remove_or_log T fs' p))"
  unfolding kept_but_def
proof
  fix q
  from remove_or_log_view [of fs' p] assms
  show "view (remove_or_log T fs' p) q = view fs q \<or> view fs q = None \<and> q \<in> stuck (remove_or_log T fs' p)"
    by (cases "q = p") auto
qed

lemma spool_Err:
  assumes "spool T b dir fs = (fs', Err e)"
  shows "kept_but (stuck fs') (view fs) (view fs')"
proof (cases "t_new T fs dir")
  case new: (Pair fs1 r)
  show ?thesis
  proof (cases r)
    case (Err e')
    with assms new new_Err show ?thesis by (auto simp: spool_def kept_but_def)
  next
    case (Ok tmp)
    with new have n: "t_new T fs dir = (fs1, Ok tmp)" by simp
    from new_Ok [OF n] have v1: "view fs tmp = None" "view fs1 = (view fs)(tmp \<mapsto> [])" by auto
    obtain fs2 r2 where w: "t_write T fs1 tmp b = (fs2, r2)" by fastforce
    show ?thesis
    proof (cases r2)
      case (Err e')
      with w have "view fs2 q = view fs q" if "q \<noteq> tmp" for q using write_Err [OF _ that] v1 that by simp
      moreover have "fs' = remove_or_log T fs2 tmp" using assms n w Err by (simp add: spool_def)
      ultimately show ?thesis using remove_new [OF v1(1)] by simp
    next
      case (Ok u)
      with w v1 have v2: "view fs2 = (view fs)(tmp \<mapsto> b)" using write_Ok [of fs1 tmp b fs2 u "[]"] by simp
      obtain fs3 r3 where k: "t_keep T fs2 tmp = (fs3, r3)" by fastforce
      with assms n w Ok have "fs' = remove_or_log T fs3 tmp" by (auto simp: spool_def split: result.splits)
      moreover have "view fs3 q = view fs q" if "q \<noteq> tmp" for q using keep [OF k] v2 that by simp
      ultimately show ?thesis using remove_new [OF v1(1)] by simp
    qed
  qed
qed

lemma remove_all:
  "stuck fs \<subseteq> stuck (foldl (remove_or_log T) fs ps)
   \<and> (view (foldl (remove_or_log T) fs ps) p = view fs p \<and> (p \<in> set ps \<longrightarrow> p \<in> stuck (foldl (remove_or_log T) fs ps))
      \<or> p \<in> set ps \<and> view (foldl (remove_or_log T) fs ps) p = None)"
proof (induction ps arbitrary: fs)
  case (Cons q ps)
  let ?fs = "remove_or_log T fs q"
  from Cons.IH [of ?fs] remove_or_log_view [of fs q] show ?case by (auto split: if_splits)
qed simp

lemma drop_owned:
  assumes "owns_but (stuck fs) before (view fs) files"
  shows "kept_but (stuck (drop_files T files fs)) before (view (drop_files T files fs))"
proof -
  let ?ps = "concat (map (\<lambda>f. snd (spool_unlink (uf_file f))) files)"
  note o = assms [unfolded owns_but_def]
  have ps: "set ?ps = set (spool_paths files)"
    using o by (auto simp: spool_paths_def spool_unlink_def Let_def split: if_splits)
  have new: "before p = None" if "p \<in> set (spool_paths files)" for p
    using o that by (auto simp: spool_paths_def)
  show ?thesis
    unfolding kept_but_def
  proof
    fix p
    let ?left = "drop_files T files fs"
    from remove_all [of fs ?ps p] have r: "stuck fs \<subseteq> stuck ?left"
      "view ?left p = view fs p \<and> (p \<in> set ?ps \<longrightarrow> p \<in> stuck ?left) \<or> p \<in> set ?ps \<and> view ?left p = None"
      by (auto simp: drop_files_def)
    show "view ?left p = before p \<or> before p = None \<and> p \<in> stuck ?left"
    proof (cases "p \<in> set (spool_paths files)")
      case True
      with r(2) new [OF True] ps show ?thesis by auto
    next
      case False
      with r ps o show ?thesis by auto
    qed
  qed
qed

lemma owns_add:
  assumes o: "owns before (view fs) files" and s: "spool T b dir fs = (fs', Ok f)"
    and u: "uf_file u = f" "uf_size u = length b"
  shows "owns before (view fs') (files @ [u])"
proof -
  note sp = spool_Ok [OF s]
  have new: "spool_path f \<notin> set (spool_paths files)"
    using o sp by (auto simp: owns_def spool_paths_def)
  moreover have "before (spool_path f) = None" using o new sp by (auto simp: owns_def)
  ultimately show ?thesis
    using o sp u by (auto simp: owns_def spool_paths_def)
qed

end

lemma part_headers_Err: "part_headers ps hs d m = Err e \<Longrightarrow> rej_status e = 400"
  by (induction ps hs d m rule: part_headers.induct) (auto simp: bad_def split: if_splits)

lemma store_param_Err: "store_param d k v = Err e \<Longrightarrow> rej_status e = 400"
  by (auto simp: store_param_def bad_def Let_def split: if_splits)

lemma disposition_loop_Err: "disposition_loop Q v i d = Err e \<Longrightarrow> rej_status e = 400"
proof (induction Q v i d rule: disposition_loop.induct)
  case (1 Q v i d)
  show ?case
  proof (cases "i < length v \<and> q_memchr Q (CHR ''='') (drop i v) \<noteq> None")
    case False
    with 1(2) show ?thesis by (subst (asm) disposition_loop.simps) (auto split: if_splits)
  next
    case True
    then obtain off where i: "\<not> \<not> i < length v" and off: "q_memchr Q (CHR ''='') (drop i v) = Some off" by auto
    let ?j = "skip_blanks v (off + i + 1)" and ?key = "trim_ascii (drop i (take (off + i) v))"
    show ?thesis
    proof (cases "param_value Q v ?j")
      case None
      have "disposition_loop Q v i d = Err (bad ''unterminated quoted-string in content-disposition'')"
        using i off None by (subst disposition_loop.simps) simp
      with 1(2) show ?thesis by (auto simp: bad_def)
    next
      case (Some x)
      obtain val nxt where x: "x = (val, nxt)" by fastforce
      show ?thesis
      proof (cases "store_param d ?key val")
        case (Err e')
        have "disposition_loop Q v i d = Err e'"
          using i off Some x Err by (subst disposition_loop.simps) simp
        with 1(2) store_param_Err [OF Err] show ?thesis by simp
      next
        case (Ok d')
        let ?n = "case q_memchr Q (CHR '';'') (drop nxt v) of Some off \<Rightarrow> off + nxt + 1 | None \<Rightarrow> length v"
        have "disposition_loop Q v i d = disposition_loop Q v ?n d'"
          using i off Some x Ok by (subst disposition_loop.simps) simp
        with 1(2) have "disposition_loop Q v ?n d' = Err e" by simp
        from 1(1) [OF i off refl refl refl Some x [symmetric] Ok this] show ?thesis .
      qed
    qed
  qed
qed

lemma disposition_params_Err: "disposition_params Q v = Err e \<Longrightarrow> rej_status e = 400"
  by (auto simp: disposition_params_def intro: disposition_loop_Err)

text \<open>One part: a refusal leaves the files as they were; an accepted part adds one field or one file.\<close>

lemma parse_part_outcome:
  assumes "part_parser P" "temp_files T view stuck"
    and acc: "within_limits lim acc" "owns before (view fs) (snd acc)"
    and room: "length (fst acc) + length (snd acc) + 1 \<le> l_max_parts lim"
    and p: "parse_part Q P T lim part acc fs = (fs', r)"
    and ob: "owns_but (stuck fs) before (view fs) (snd acc)"
  shows "(\<exists>e. r = Err e \<and> owns_but (stuck fs') before (view fs') (snd acc) \<and> rej_status e \<in> {400, 413, 500})
    \<or> (\<exists>acc'. r = Ok acc' \<and> within_limits lim acc' \<and> owns before (view fs') (snd acc'))"
proof (cases "P (l_max_part_headers lim) part")
  case (HpComplete len parsed)
  have n: "length parsed \<le> l_max_part_headers lim"
    using part_parser.complete [OF assms(1) HpComplete] by simp
  define body where "body = drop len part"
  note pp = p [unfolded parse_part_def HpComplete hp_status.case Let_def body_def [symmetric]]
  show ?thesis
  proof (cases "part_headers parsed [] None None")
    case (Err e)
    with pp acc ob part_headers_Err [OF Err] show ?thesis by auto
  next
    case (Ok x)
    then obtain headers dispo media where h: "part_headers parsed [] None None = Ok (headers, dispo, media)"
      by (cases x) auto
    have hl: "length headers \<le> l_max_part_headers lim" using part_headers_length [OF h] n by simp
    show ?thesis
    proof (cases dispo)
      case None
      with pp h acc ob show ?thesis by (auto simp: bad_def)
    next
      case (Some disp)
      note pd = pp [unfolded h Some result.case prod.case option.case]
      show ?thesis
      proof (cases "disposition_params Q disp")
        case (Err e)
        with pd acc ob disposition_params_Err [OF Err] show ?thesis by auto
      next
        case d: (Ok d)
        note pd2 = pd [unfolded d result.case]
        show ?thesis
        proof (cases "opt_filter (\<lambda>n. n \<noteq> []) (d_name d)")
          case None
          with pd2 acc ob show ?thesis by (auto simp: bad_def)
        next
          case nm: (Some name)
          then have ne: "name \<noteq> []" by (simp add: opt_filter_Some)
          note pd3 = pd2 [unfolded nm option.case]
          show ?thesis
          proof (cases "d_filename d")
            case None
            with pd3 acc ob room hl ne show ?thesis
              by (auto simp: over_def within_limits_def field_ok_def split: if_splits)
          next
            case (Some cf)
            show ?thesis
            proof (cases "length (snd acc) + 1 > l_max_files lim \<or> length body > l_max_file_size lim")
              case True
              with pd3 Some acc ob show ?thesis by (auto simp: over_def split: if_splits)
            next
              case False
              obtain fs1 r1 where s: "spool T body (l_dir lim) fs = (fs1, r1)" by fastforce
              show ?thesis
              proof (cases r1)
                case (Err e)
                with pd3 Some False s owns_kept [OF acc(2) temp_files.spool_Err [OF assms(2)]] show ?thesis by auto
              next
                case (Ok f)
                define u where "u = \<lparr>uf_name = name, uf_client_filename = cf,
                  uf_client_media_type = opt_filter (\<lambda>v. v \<noteq> []) media,
                  uf_headers = headers, uf_file = f, uf_size = length body\<rparr>"
                have r: "r = Ok (fst acc, snd acc @ [u])" "fs' = fs1"
                  using pd3 Some False s Ok by (auto simp: u_def)
                have "owns before (view fs1) (snd acc @ [u])"
                  by (rule temp_files.owns_add [OF assms(2) acc(2)]) (use s Ok in \<open>auto simp: u_def\<close>)
                moreover have "within_limits lim (fst acc, snd acc @ [u])"
                  using acc(1) room False hl ne
                  by (auto simp: within_limits_def file_ok_def u_def opt_filter_Some)
                ultimately show ?thesis by (simp add: r)
              qed
            qed
          qed
        qed
      qed
    qed
  qed
qed (use p acc ob in \<open>auto simp: parse_part_def bad_def over_def\<close>)

lemma parse_loop_outcome:
  assumes "part_parser P" "temp_files T view stuck"
  shows "within_limits lim acc \<Longrightarrow> owns before (view fs) (snd acc) \<Longrightarrow>
    (case parse_loop Q P T lim body delim part_start acc fs of
       (fs', Ok acc') \<Rightarrow> within_limits lim acc' \<and> owns before (view fs') (snd acc')
     | (fs', Err e) \<Rightarrow> kept_but (stuck fs') before (view fs') \<and> rej_status e \<in> {400, 413, 500})"
  using assms
proof (induction Q P T lim body delim part_start acc fs rule: parse_loop.induct)
  case (1 Q P T lim body delim part_start acc fs)
  note drp = temp_files.drop_owned [OF 1(5)]
  show ?case
  proof (cases "length (fst acc) + length (snd acc) + 1 > l_max_parts lim")
    case True
    then show ?thesis using drp [OF owns_owns_but [OF 1(3)]] by (subst parse_loop.simps) (simp add: over_def)
  next
    case False
    show ?thesis
    proof (cases "next_delimiter Q body part_start delim (length delim)")
      case None
      then show ?thesis using False drp [OF owns_owns_but [OF 1(3)]] by (subst parse_loop.simps) (simp add: bad_def)
    next
      case (Some h)
      let ?part = "drop part_start (take (part_end body part_start (dh_line_start h)) body)"
      obtain fs1 r where p: "parse_part Q P T lim ?part acc fs = (fs1, r)" by fastforce
      have o: "(\<exists>e. r = Err e \<and> owns_but (stuck fs1) before (view fs1) (snd acc) \<and> rej_status e \<in> {400, 413, 500})
          \<or> (\<exists>acc'. r = Ok acc' \<and> within_limits lim acc' \<and> owns before (view fs1) (snd acc'))"
        using False by (intro parse_part_outcome [OF 1(4,5,2,3) _ p owns_owns_but [OF 1(3)]]) simp
      show ?thesis
      proof (cases r)
        case (Err e)
        then have "parse_loop Q P T lim body delim part_start acc fs = (drop_files T (snd acc) fs1, Err e)"
          using False Some p by (subst parse_loop.simps) simp
        with o Err show ?thesis using drp by simp
      next
        case (Ok acc')
        show ?thesis
        proof (cases "dh_close h")
          case True
          then have "parse_loop Q P T lim body delim part_start acc fs = (fs1, Ok acc')"
            using False Some p Ok by (subst parse_loop.simps) simp
          with o Ok show ?thesis by simp
        next
          case no: False
          have e: "parse_loop Q P T lim body delim part_start acc fs
              = parse_loop Q P T lim body delim (dh_after h) acc' fs1"
            using False Some p Ok no by (subst parse_loop.simps) simp
          show ?thesis
            unfolding e
            by (rule 1(1) [OF False Some p [symmetric] Ok no]) (use o Ok 1(4,5) in auto)
        qed
      qed
    qed
  qed
qed

section \<open>A well-formed body\<close>

text \<open>The body a client writes: delimiter lines around the parts and a close delimiter.\<close>

fun mp_encode :: "bytes \<Rightarrow> bytes list \<Rightarrow> bytes" where
  "mp_encode delim [] = delim @ ''--'' @ [CR, LF]"
| "mp_encode delim (p # ps) = delim @ [CR, LF] @ p @ [CR, LF] @ mp_encode delim ps"

text \<open>A part in which no line begins with the delimiter.\<close>

definition delim_free :: "bytes \<Rightarrow> bytes \<Rightarrow> bool" where
  "delim_free delim p \<longleftrightarrow>
     (\<forall>i \<le> length p. (i = 0 \<or> get p (i - 1) = Some LF) \<longrightarrow> \<not> starts_with (drop i p) delim)"

text \<open>The parts one after the other, without the search.\<close>

fun parse_parts ::
  "search_ops \<Rightarrow> parse_headers \<Rightarrow> 'fs temp_ops \<Rightarrow> limits \<Rightarrow> bytes list \<Rightarrow> parsed \<Rightarrow> 'fs
     \<Rightarrow> 'fs \<times> (parsed, rejection) result" where
  "parse_parts Q P T lim [] acc fs = (fs, Ok acc)"
| "parse_parts Q P T lim (p # ps) acc fs =
     (if length (fst acc) + length (snd acc) + 1 > l_max_parts lim
      then (drop_files T (snd acc) fs, Err (over ''part count over max_parts''))
      else case parse_part Q P T lim p acc fs of
        (fs', Err e) \<Rightarrow> (drop_files T (snd acc) fs', Err e)
      | (fs', Ok acc') \<Rightarrow> parse_parts Q P T lim ps acc' fs')"

lemma get_append: "get (a @ b) k = (if k < length a then get a k else get b (k - length a))"
  by (auto simp: get_def nth_append)

lemma line_hit_encode:
  assumes "pre = [] \<or> last pre = LF"
  shows "line_hit (pre @ mp_encode delim ps) (length delim) (length pre) =
    Some \<lparr>dh_line_start = length pre, dh_after = length pre + length delim + 2, dh_close = (ps = [])\<rparr>"
proof -
  have g: "length pre = 0 \<or> get (pre @ mp_encode delim ps) (length pre - 1) = Some LF"
    using assms by (cases pre rule: rev_cases) (auto simp: get_def nth_append)
  have s: "takeWhile blank (CR # r) = []" for r by (simp add: blank_def)
  have d: "drop (length pre + length delim + n) (pre @ delim @ r) = drop n r"
    "get (pre @ delim @ r) (length pre + length delim + n) = get r n" for n r
    by (auto simp: get_append)
  show ?thesis
  proof (cases ps)
    case Nil
    have k: "skip_blanks (pre @ delim @ ''--'' @ [CR, LF]) (length pre + length delim + 2)
        = length pre + length delim + 2"
      unfolding skip_blanks_def d by (simp add: blank_def)
    show ?thesis
      using g d(1) [of 0 "''--'' @ [CR, LF]"] d(2) [where n = 2 and r = "''--'' @ [CR, LF]"] d(2) [where n = 3 and r = "''--'' @ [CR, LF]"]
      unfolding line_hit_def delim_line_def Let_def Nil mp_encode.simps k
      by (simp add: starts_with_def get_def numeral_3_eq_3)
  next
    case (Cons p qs)
    let ?r = "[CR, LF] @ p @ [CR, LF] @ mp_encode delim qs"
    have k: "skip_blanks (pre @ delim @ ?r) (length pre + length delim) = length pre + length delim"
      unfolding skip_blanks_def using d(1) [of 0 ?r] by (simp add: blank_def)
    show ?thesis
      using g d(1) [of 0 ?r] d(2) [where n = 0 and r = ?r] d(2) [where n = 1 and r = ?r]
      unfolding line_hit_def delim_line_def Let_def Cons mp_encode.simps k
      by (simp add: starts_with_def get_def blank_def)
  qed
qed

lemma encode_occurs: "occurs_at delim (pre @ mp_encode delim ps) (length pre)"
  by (cases ps) (simp_all add: occurs_at_def)

lemma delim_free_gap:
  assumes free: "delim_free delim p" and cr: "CR \<notin> set delim" and ne: "delim \<noteq> []"
    and pre: "pre \<noteq> []"
    and m: "length pre \<le> m" "m < length pre + length p + 2"
  shows "\<not> delimiter_at (pre @ p @ [CR, LF] @ rest) delim m"
proof
  let ?body = "pre @ p @ [CR, LF] @ rest"
  assume d: "delimiter_at ?body delim m"
  define i where "i = m - length pre"
  have mi: "m = length pre + i" and i: "i < length p + 2" using m by (auto simp: i_def)
  have m0: "m \<noteq> 0" using m(1) pre by (cases pre) auto
  have o: "starts_with (drop i (p @ [CR, LF] @ rest)) delim"
    using d by (simp add: delimiter_at_def occurs_at_def mi)
  have lf: "get ?body (m - 1) = Some LF" using d m0 by (auto simp: delimiter_at_def line_hit_def split: if_splits)
  show False
  proof (cases "i \<le> length p")
    case False
    with i have "i = Suc (length p)" by simp
    then have "get ?body (m - 1) = Some CR" by (simp add: mi get_def nth_append)
    with lf show False by simp
  next
    case le: True
    have line: "i = 0 \<or> get p (i - 1) = Some LF"
      using lf le by (cases i) (auto simp: mi get_append)
    show False
    proof (cases "i + length delim \<le> length p")
      case True
      with o le have "starts_with (drop i p) delim" by (simp add: starts_with_def)
      with free le line show False unfolding delim_free_def by blast
    next
      case False
      with le have lt: "length p - i < length delim" by simp
      have "delim = take (length delim) (drop i p @ CR # LF # rest)" using o le by (simp add: starts_with_def)
      then have "delim ! (length p - i) = (drop i p @ CR # LF # rest) ! (length p - i)"
        using lt by (metis nth_take)
      also have "\<dots> = CR" using le by (simp add: nth_append)
      finally show False using cr lt nth_mem by metis
    qed
  qed
qed

lemma encoded_step:
  "part_end (pre @ p @ [CR, LF] @ r) (length pre) (length pre + length p + 2) = length pre + length p"
  "drop (length pre) (take (length pre + length p) (pre @ p @ [CR, LF] @ r)) = p"
  by (auto simp: part_end_def get_def nth_append numeral_2_eq_2)

context byte_search begin

lemma next_delimiter_encoded:
  assumes free: "delim_free delim p" and cr: "CR \<notin> set delim" and ne: "delim \<noteq> []" and pre: "pre \<noteq> []"
  shows "next_delimiter Q (pre @ p @ [CR, LF] @ mp_encode delim ps) (length pre) delim (length delim) =
    Some \<lparr>dh_line_start = length pre + length p + 2, dh_after = length pre + length p + 2 + length delim + 2,
          dh_close = (ps = [])\<rparr>"
proof -
  let ?body = "pre @ p @ [CR, LF] @ mp_encode delim ps" and ?L = "length pre + length p + 2"
  have b: "?body = (pre @ p @ [CR, LF]) @ mp_encode delim ps" "?L = length (pre @ p @ [CR, LF])" by simp_all
  have h: "line_hit ?body (length delim) ?L
      = Some \<lparr>dh_line_start = ?L, dh_after = ?L + length delim + 2, dh_close = (ps = [])\<rparr>"
    unfolding b by (rule line_hit_encode) simp
  have at: "delimiter_at ?body delim ?L"
    unfolding delimiter_at_def h using encode_occurs [of delim "pre @ p @ [CR, LF]" ps] by (simp add: b(2))
  have gap: "\<not> delimiter_at ?body delim m" if "length pre \<le> m" "m < ?L" for m
    by (rule delim_free_gap [OF free cr ne pre that])
  have "length pre \<le> length ?body" by simp
  from next_delimiter_spec [OF this ne] show ?thesis
  proof (cases "next_delimiter Q ?body (length pre) delim (length delim)")
    case None
    with next_delimiter_spec [OF \<open>length pre \<le> length ?body\<close> ne] at show ?thesis by simp
  next
    case (Some x)
    with next_delimiter_spec [OF \<open>length pre \<le> length ?body\<close> ne]
    have x: "length pre \<le> dh_line_start x" "delimiter_at ?body delim (dh_line_start x)"
      "line_hit ?body (length delim) (dh_line_start x) = Some x"
      "\<forall>m. length pre \<le> m \<and> m < dh_line_start x \<longrightarrow> \<not> delimiter_at ?body delim m"
      by simp_all
    then have "dh_line_start x = ?L"
      using gap [of "dh_line_start x"] at by (metis le_add1 linorder_neqE_nat nat_le_iff_add add.assoc)
    with x(3) h have "x = \<lparr>dh_line_start = ?L, dh_after = ?L + length delim + 2, dh_close = (ps = [])\<rparr>"
      by (metis option.inject)
    with Some show ?thesis by blast
  qed
qed

lemma parse_loop_encoded:
  "list_all (delim_free delim) (p # ps) \<Longrightarrow> CR \<notin> set delim \<Longrightarrow> delim \<noteq> [] \<Longrightarrow> pre \<noteq> [] \<Longrightarrow>
   parse_loop Q P T lim (pre @ p @ [CR, LF] @ mp_encode delim ps) delim (length pre) acc fs
     = parse_parts Q P T lim (p # ps) acc fs"
proof (induction ps arbitrary: p pre acc fs)
  case Nil
  define body where "body = pre @ p @ [CR, LF] @ mp_encode delim []"
  note enc = encoded_step [of pre p "mp_encode delim []", folded body_def]
  have "next_delimiter Q body (length pre) delim (length delim) =
    Some \<lparr>dh_line_start = length pre + length p + 2, dh_after = length pre + length p + 2 + length delim + 2,
          dh_close = True\<rparr>"
    unfolding body_def using next_delimiter_encoded [of delim p pre "[]"] Nil by simp
  note n = this
  have "parse_loop Q P T lim body delim (length pre) acc fs = parse_parts Q P T lim [p] acc fs"
    unfolding parse_loop.simps [of Q P T lim body delim "length pre"] n option.case enc delim_hit.select_convs
    by (simp split: prod.splits result.splits)
  then show ?case by (simp add: body_def)
next
  case (Cons q qs)
  define body where "body = pre @ p @ [CR, LF] @ mp_encode delim (q # qs)"
  let ?pre = "pre @ p @ [CR, LF] @ delim @ [CR, LF]"
  note enc = encoded_step [of pre p "mp_encode delim (q # qs)", folded body_def]
  have n: "next_delimiter Q body (length pre) delim (length delim) =
    Some \<lparr>dh_line_start = length pre + length p + 2, dh_after = length pre + length p + 2 + length delim + 2,
          dh_close = False\<rparr>"
    unfolding body_def using next_delimiter_encoded [of delim p pre "q # qs"] Cons.prems by simp
  have b: "body = ?pre @ q @ [CR, LF] @ mp_encode delim qs"
    and l: "length ?pre = length pre + length p + 2 + length delim + 2" by (simp_all add: body_def)
  have ih: "parse_loop Q P T lim body delim (length pre + length p + 2 + length delim + 2) acc' fs'
      = parse_parts Q P T lim (q # qs) acc' fs'" for acc' fs'
    unfolding b l [symmetric] by (rule Cons.IH) (use Cons.prems in auto)
  have "parse_loop Q P T lim body delim (length pre) acc fs = parse_parts Q P T lim (p # q # qs) acc fs"
    unfolding parse_loop.simps [of Q P T lim body delim "length pre"] n option.case enc ih delim_hit.select_convs
      parse_parts.simps(2) [of Q P T lim p]
    by (simp split: prod.splits result.splits del: parse_parts.simps)
  then show ?case unfolding body_def .
qed

lemma next_delimiter_first:
  assumes "delim \<noteq> []"
  shows "next_delimiter Q (mp_encode delim ps) 0 delim (length delim) =
    Some \<lparr>dh_line_start = 0, dh_after = length delim + 2, dh_close = (ps = [])\<rparr>"
proof -
  let ?body = "mp_encode delim ps"
  have h: "line_hit ?body (length delim) 0
      = Some \<lparr>dh_line_start = 0, dh_after = length delim + 2, dh_close = (ps = [])\<rparr>"
    using line_hit_encode [of "[]" delim ps] by simp
  have at: "delimiter_at ?body delim 0"
    unfolding delimiter_at_def h using encode_occurs [of delim "[]" ps] by simp
  show ?thesis
  proof (cases "next_delimiter Q ?body 0 delim (length delim)")
    case None
    with next_delimiter_spec [of 0 ?body delim] assms at show ?thesis by simp
  next
    case (Some x)
    with next_delimiter_spec [of 0 ?body delim] assms at
    have "dh_line_start x = 0" "line_hit ?body (length delim) (dh_line_start x) = Some x" by auto
    with h Some show ?thesis by simp
  qed
qed

lemma parse_encoded:
  assumes "list_all (delim_free (''--'' @ bnd)) parts" and "CR \<notin> set bnd"
  shows "parse Q P T (mp_encode (''--'' @ bnd) parts) bnd lim fs = parse_parts Q P T lim parts ([], []) fs"
proof -
  define delim where "delim = ''--'' @ bnd"
  have d: "delim \<noteq> []" "CR \<notin> set delim" using assms(2) by (auto simp: delim_def)
  show ?thesis
  proof (cases parts)
    case Nil
    then show ?thesis
      using next_delimiter_first [OF d(1), of "[]"] unfolding parse_def Let_def delim_def [symmetric]
      by simp
  next
    case (Cons p ps)
    have b: "mp_encode delim (p # ps) = (delim @ [CR, LF]) @ p @ [CR, LF] @ mp_encode delim ps" by simp
    have l: "length delim + 2 = length (delim @ [CR, LF])" by simp
    have "parse_loop Q P T lim (mp_encode delim (p # ps)) delim (length delim + 2) ([], []) fs
        = parse_parts Q P T lim (p # ps) ([], []) fs"
      unfolding b l by (rule parse_loop_encoded) (use assms d Cons in \<open>auto simp: delim_def\<close>)
    then show ?thesis
      using next_delimiter_first [OF d(1), of "p # ps"] unfolding parse_def Let_def delim_def [symmetric] Cons
      by (simp del: mp_encode.simps parse_parts.simps)
  qed
qed

end

section \<open>Instances of the interfaces\<close>

text \<open>A header section up to the first empty line, one field per line.\<close>

definition simple_headers :: parse_headers where
  "simple_headers n part =
     (case first_match [CR, LF, CR, LF] part of
        None \<Rightarrow> HpPartial
      | Some i \<Rightarrow>
          let fields = map (split_once (CHR '':'')) (map strip_cr (split_on LF (take i part))) in
          if list_ex (\<lambda>f. f = None) fields then HpError
          else if length fields > n then HpTooMany
          else HpComplete (i + 4) (map (\<lambda>f. (fst (the f), trim_ascii (snd (the f)))) fields))"

interpretation sh: part_parser simple_headers
proof
  fix n part len hs assume a: "simple_headers n part = HpComplete len hs"
  then obtain i where i: "first_match [CR, LF, CR, LF] part = Some i" "len = i + 4" "length hs \<le> n"
    by (auto simp: simple_headers_def Let_def split: option.splits if_splits)
  have "occurs_at [CR, LF, CR, LF] part i"
    using ps.memmem_Some [of "[CR, LF, CR, LF]" part i] i(1) by (simp add: plain_search_def)
  with i show "len \<le> length part \<and> length hs \<le> n" by (simp add: occurs_at_def)
qed

text \<open>A disk with a limited space, names that were never in use, and files that others hold open.\<close>

record disk =
  dk_files :: "(bytes \<times> bytes) list"
  dk_free :: nat
  dk_open :: "bytes list"
  dk_stuck :: "bytes list"

definition empty_disk :: "bytes list \<Rightarrow> disk" where
  "empty_disk opened = \<lparr>dk_files = [], dk_free = 9, dk_open = opened, dk_stuck = []\<rparr>"

definition disk_view :: "disk \<Rightarrow> bytes \<Rightarrow> bytes option" where
  "disk_view d = map_of (dk_files d)"

definition disk_ops :: "disk temp_ops" where
  "disk_ops = \<lparr>
     t_new = (\<lambda>d dir. let p = dir @ CHR 0x5C # replicate (sum_list (map (length \<circ> fst) (dk_files d))) (CHR ''x'')
                in if dk_free d = 0 then (d, Err ''disk full'')
                   else (d\<lparr>dk_files := (p, []) # dk_files d\<rparr>, Ok p)),
     t_write = (\<lambda>d p b. if length b > dk_free d then (d, Err ''disk full'')
                else (d\<lparr>dk_files := map (\<lambda>(q, c). (q, if q = p then c @ b else c)) (dk_files d),
                        dk_free := dk_free d - length b\<rparr>, Ok ())),
     t_keep = (\<lambda>d p. (d, Ok ())),
     t_remove = (\<lambda>d p. if List.member (dk_open d) p then (d\<lparr>dk_stuck := p # dk_stuck d\<rparr>, Err ''in use'')
                 else (d\<lparr>dk_files := filter (\<lambda>(q, c). q \<noteq> p) (dk_files d)\<rparr>, Ok ()))\<rparr>"

lemma map_of_append_to: "map_of (map (\<lambda>(q, c). (q, if q = p then c @ b else c)) xs) q =
    (if q = p then map_option (\<lambda>c. c @ b) (map_of xs q) else map_of xs q)"
  by (induction xs) auto

lemma map_of_remove: "map_of (filter (\<lambda>(q, c). q \<noteq> p) xs) = (map_of xs)(p := None)"
  by (induction xs) (auto simp: fun_eq_iff)

lemma fresh_name: "map_of xs (dir @ CHR 0x5C # replicate (sum_list (map (length \<circ> fst) xs)) (CHR ''x'')) = None"
proof -
  have "length q \<le> sum_list (map (length \<circ> fst) xs)" if "q \<in> fst ` set xs" for q
    using that member_le_sum_list [of "length q" "map (length \<circ> fst) xs"] by force
  then show ?thesis
    unfolding map_of_eq_None_iff
    by (metis (no_types, lifting) Suc_n_not_le_n add_Suc_right le_add2 le_trans length_Cons length_append length_replicate)
qed

interpretation dk: temp_files disk_ops disk_view "\<lambda>d. set (dk_stuck d)"
proof
  fix fs dir fs' p assume "t_new disk_ops fs dir = (fs', Ok p)"
  then show "p \<noteq> [] \<and> disk_view fs p = None \<and> disk_view fs' = (disk_view fs)(p \<mapsto> [])"
    using fresh_name [of "dk_files fs" dir]
    by (auto simp: disk_ops_def disk_view_def Let_def split: if_splits)
next
  fix fs p b fs' u c assume "t_write disk_ops fs p b = (fs', Ok u)" "disk_view fs p = Some c"
  then show "disk_view fs' = (disk_view fs)(p \<mapsto> c @ b)"
    by (auto simp: disk_ops_def disk_view_def map_of_append_to fun_eq_iff split: if_splits)
qed (auto simp: disk_ops_def disk_view_def map_of_remove Let_def split: if_splits)

definition sample_limits :: limits where
  "sample_limits = \<lparr>l_dir = ''d'', l_max_file_size = 2, l_max_field_size = 0, l_max_files = 1, l_max_parts = 1,
     l_max_part_headers = 1\<rparr>"

section \<open>Properties\<close>

lemma parse_outcome:
  assumes "part_parser P" "temp_files T view stuck"
  shows "case parse Q P T body bnd lim fs of
      (fs', Ok acc) \<Rightarrow> within_limits lim acc \<and> owns (view fs) (view fs') (snd acc)
    | (fs', Err e) \<Rightarrow> kept_but (stuck fs') (view fs) (view fs') \<and> rej_status e \<in> {400, 413, 500}"
proof -
  have "within_limits lim ([], [])" by (simp add: within_limits_def)
  then show ?thesis
    using parse_loop_outcome [OF assms, of lim "([], [])" "view fs" fs Q body "''--'' @ bnd"]
    by (simp add: parse_def Let_def bad_def owns_Nil kept_refl split: option.splits)
qed

text \<open>
  C15: a multipart parse that succeeds keeps every limit, gives every part a non-empty name, and leaves
  exactly one new file per file part, holding as many bytes as the part records; a parse that is
  refused, in whatever part, answers 400, 413 or 500 and leaves every path of the spool directory as it was,
  but for new files whose removal the system itself refused.
\<close>

theorem parse_owns_its_files:
  assumes "part_parser P" "temp_files T view stuck"
  shows "case parse Q P T body bnd lim fs of
      (fs', Ok acc) \<Rightarrow> within_limits lim acc \<and> owns (view fs) (view fs') (snd acc)
    | (fs', Err e) \<Rightarrow> rej_status e \<in> {400, 413, 500}
        \<and> (\<forall>p. view fs' p = view fs p \<or> view fs p = None \<and> p \<in> stuck fs')"
  using parse_outcome [OF assms, where Q = Q and body = body and bnd = bnd and lim = lim and fs = fs] by (auto simp: kept_but_def split: prod.splits result.splits)

text \<open>
  One file part is accepted. A second one is over the limit, and the first one's file goes with the refusal;
  where another process has that file open, it stays and is known to be stuck.
\<close>

definition file_part :: bytes where
  "file_part = ''Content-Disposition: x;name=f;filename='' @ [CR, LF, CR, LF] @ ''ab''"

definition part_file :: uploaded_file where
  "part_file = \<lparr>uf_name = ''f'', uf_client_filename = '''', uf_client_media_type = None,
     uf_headers = [(''Content-Disposition'', ''x;name=f;filename='')],
     uf_file = \<lparr>spool_path = ''d'' @ [CHR 0x5C]\<rparr>, uf_size = 2\<rparr>"

definition first_path :: bytes where
  "first_path = spool_path (uf_file part_file)"

definition parse_sample :: "bytes list \<Rightarrow> bytes list \<Rightarrow> disk \<times> (parsed, rejection) result" where
  "parse_sample opened parts = parse plain_search simple_headers disk_ops (mp_encode ''--b'' parts) ''b''
     (sample_limits\<lparr>l_max_parts := 2\<rparr>) (empty_disk opened)"

lemma parse_sample_accepts:
  "parse_sample [] [file_part] = (\<lparr>dk_files = [(first_path, ''ab'')], dk_free = 7, dk_open = [], dk_stuck = []\<rparr>,
     Ok ([], [part_file]))"
  by code_simp

lemma parse_sample_refuses:
  "parse_sample [] [file_part, file_part] = (\<lparr>dk_files = [], dk_free = 7, dk_open = [], dk_stuck = []\<rparr>,
     Err (over ''file parts over max_files''))"
  by code_simp

lemma parse_sample_stuck:
  "parse_sample [first_path] [file_part, file_part] =
     (\<lparr>dk_files = [(first_path, ''ab'')], dk_free = 7, dk_open = [first_path], dk_stuck = [first_path]\<rparr>,
     Err (over ''file parts over max_files''))"
  by code_simp

lemma parse_owns_its_files_witness:
  "owns (disk_view (empty_disk [])) (disk_view (fst (parse_sample [] [file_part]))) [part_file]
   \<and> (\<forall>p. disk_view (fst (parse_sample [] [file_part, file_part])) p = None)
   \<and> (\<forall>p. disk_view (fst (parse_sample [first_path] [file_part, file_part])) p = None \<or> p = first_path)"
proof -
  note parsed = parse_owns_its_files [OF sh.part_parser_axioms dk.temp_files_axioms,
      where Q = plain_search and bnd = "''b''" and lim = "sample_limits\<lparr>l_max_parts := 2\<rparr>"]
  have v: "disk_view (empty_disk opened) = (\<lambda>_. None)" for opened by (simp add: disk_view_def empty_disk_def)
  from parsed [where body = "mp_encode ''--b'' [file_part]" and fs = "empty_disk []"]
    parsed [where body = "mp_encode ''--b'' [file_part, file_part]" and fs = "empty_disk []"]
    parsed [where body = "mp_encode ''--b'' [file_part, file_part]" and fs = "empty_disk [first_path]"]
  show ?thesis
    unfolding parse_sample_def [symmetric]
    by (simp add: parse_sample_accepts parse_sample_refuses parse_sample_stuck v)
qed

text \<open>
  C16: a body written in the standard form, with the parts between delimiter lines, is parsed as those
  parts byte for byte, one after the other under the limits: a line end inside a part, the delimiter
  in the middle of a line, and anything that only looks like a delimiter stay with the part.
\<close>

theorem parse_encoded_body:
  assumes "byte_search Q" and "list_all (delim_free (''--'' @ bnd)) parts" and "CR \<notin> set bnd"
  shows "parse Q P T (mp_encode (''--'' @ bnd) parts) bnd lim fs = parse_parts Q P T lim parts ([], []) fs"
  by (rule byte_search.parse_encoded [OF assms])

lemma parse_encoded_body_witness:
  "parse plain_search simple_headers disk_ops
     (mp_encode (''--'' @ ''b'') [''A: x--b'' @ [CR, LF], ''-'' @ [LF] @ ''--'']) ''b'' sample_limits (empty_disk [])
   = parse_parts plain_search simple_headers disk_ops sample_limits
       [''A: x--b'' @ [CR, LF], ''-'' @ [LF] @ ''--''] ([], []) (empty_disk [])"
proof (rule parse_encoded_body [OF ps.byte_search_axioms])
  have d: "delim_free delim p \<longleftrightarrow>
      list_all (\<lambda>i. (i = 0 \<or> get p (i - 1) = Some LF) \<longrightarrow> \<not> starts_with (drop i p) delim) [0..<Suc (length p)]"
    for delim p by (auto simp: delim_free_def list_all_iff less_Suc_eq_le simp del: upt_Suc)
  show "list_all (delim_free (''--'' @ ''b'')) [''A: x--b'' @ [CR, LF], ''-'' @ [LF] @ ''--'']"
    unfolding d by code_simp
qed simp

end

