(* ===== verification/GrpcMetadata.thy ===== *)
theory GrpcMetadata
  imports Headers
begin

text \<open>
  The metadata of a gRPC call (\<open>crates/plugins/grpc/src/php/call.rs\<close>): the request metadata PHP sees,
  the checks and the store of response metadata, and its wire form.

  The base64 codec is a crate, so it is a record of operations with its documented behaviour in the
  locale \<open>base64_codec\<close>; \<open>plain_base64\<close> is the codec written out.
\<close>

section \<open>The interfaces\<close>

record base64_ops =
  b64_encode :: "bytes \<Rightarrow> bytes"
  b64_decode :: "bytes \<Rightarrow> bytes option"

definition b64_alphabet :: bytes where
  "b64_alphabet = ''ABCDEFGHIJKLMNOPQRSTUVWXYZabcdefghijklmnopqrstuvwxyz0123456789+/''"

locale base64_codec =
  fixes B :: base64_ops
  assumes decode_encode: "b64_decode B (b64_encode B v) = Some v"
    and alphabet: "set (b64_encode B v) \<subseteq> set b64_alphabet"

text \<open>The value bytes that \<open>HeaderValue::from_bytes\<close> accepts include printable ASCII.\<close>

definition printable :: "bytes \<Rightarrow> bool" where
  "printable v \<longleftrightarrow> list_all (\<lambda>b. 32 \<le> code_of b \<and> code_of b \<le> 126) v"

locale text_header_map = header_map +
  assumes value_printable: "printable v \<Longrightarrow> h_value H v = Some v"

section \<open>Metadata\<close>

record metadata_field =
  mf_name :: bytes
  mf_values :: "bytes list"

definition reserved_prefixes :: "bytes list" where
  "reserved_prefixes = [''grpc-'', ''connect-'', ''content-'', ''trailer-'']"

definition reserved_names :: "bytes list" where
  "reserved_names = [''te'', ''trailer'', ''connection'', ''keep-alive'', ''proxy-connection'',
     ''transfer-encoding'', ''upgrade'', ''host'', ''accept-encoding'']"

definition reserved :: "bytes \<Rightarrow> bool" where
  "reserved name \<longleftrightarrow> list_ex (starts_with name) reserved_prefixes \<or> name \<in> set reserved_names"

definition is_binary :: "bytes \<Rightarrow> bool" where
  "is_binary name = ends_with name ''-bin''"

definition field_values :: "base64_ops \<Rightarrow> bool \<Rightarrow> bytes list \<Rightarrow> bytes list" where
  "field_values B binary lines = concat (map (\<lambda>v.
     if \<not> binary then (if printable v then [v] else [])
     else concat (map (\<lambda>piece. case b64_decode B piece of Some d \<Rightarrow> [d] | None \<Rightarrow> [])
            (map trim_ascii (split_on (CHR '','') v)))) lines)"

definition context_metadata :: "'m header_ops \<Rightarrow> base64_ops \<Rightarrow> 'm \<Rightarrow> metadata_field list" where
  "context_metadata H B headers = concat (map (\<lambda>name.
     if reserved name then []
     else let values = field_values B (is_binary name) (h_get_all H headers name)
          in if values = [] then [] else [\<lparr>mf_name = name, mf_values = values\<rparr>])
     (h_keys H headers))"

text \<open>
  None is a panic: the \<open>expect\<close> on the header value, and \<open>append\<close> on a map that has no room for the entry.
\<close>

fun wire_values :: "'m header_ops \<Rightarrow> base64_ops \<Rightarrow> bytes \<Rightarrow> bytes list \<Rightarrow> 'm \<Rightarrow> 'm option" where
  "wire_values H B name [] m = Some m"
| "wire_values H B name (v # vs) m =
     (case h_value H (if is_binary name then b64_encode B v else trim_ascii v) of
        None \<Rightarrow> None
      | Some value \<Rightarrow>
          if h_full H m name then None else wire_values H B name vs (h_append H m name value))"

fun wire_fields :: "'m header_ops \<Rightarrow> base64_ops \<Rightarrow> metadata_field list \<Rightarrow> 'm \<Rightarrow> 'm option" where
  "wire_fields H B [] m = Some m"
| "wire_fields H B (f # fs) m =
     (case wire_values H B (mf_name f) (mf_values f) m of
        None \<Rightarrow> None
      | Some m' \<Rightarrow> wire_fields H B fs m')"

definition wire :: "'m header_ops \<Rightarrow> base64_ops \<Rightarrow> metadata_field list \<Rightarrow> 'm option" where
  "wire H B fs = wire_fields H B fs (h_empty H)"

section \<open>Entry checks\<close>

definition metadata_name_byte :: "byte \<Rightarrow> bool" where
  "metadata_name_byte b \<longleftrightarrow> is_ascii_digit b \<or> is_ascii_lowercase b \<or> b \<in> set ''_-.''"

text \<open>The entry checks, in the code's order: the accepted name or the message of the \<open>ValueError\<close>.\<close>

definition check_entry ::
  "'m header_ops \<Rightarrow> bool \<Rightarrow> bytes \<Rightarrow> bytes \<Rightarrow> (bytes, string) result" where
  "check_entry H binary name value =
     (case h_name H name of
        None \<Rightarrow> Err ''the metadata name is not a valid header name''
      | Some n \<Rightarrow>
          if \<not> list_all metadata_name_byte n then Err ''a metadata name must use only 0-9 a-z _ - .''
          else if reserved n then Err ''the metadata name is reserved for the transport''
          else if \<not> binary \<and> is_binary n
          then Err ''a metadata name with the -bin suffix takes binary values: use addBinaryHeader() or addBinaryTrailer()''
          else if binary \<and> \<not> is_binary n then Err ''a binary metadata name must have the -bin suffix''
          else if \<not> binary \<and> \<not> printable value then Err ''a text metadata value must be printable ASCII''
          else Ok n)"

fun push_value :: "bytes \<Rightarrow> bytes \<Rightarrow> metadata_field list \<Rightarrow> metadata_field list" where
  "push_value name value [] = [\<lparr>mf_name = name, mf_values = [value]\<rparr>]"
| "push_value name value (f # fs) =
     (if mf_name f = name then f\<lparr>mf_values := mf_values f @ [value]\<rparr> # fs
      else f # push_value name value fs)"

section \<open>An instance of the codec\<close>

text \<open>The standard alphabet, written without padding and read with or without it.\<close>

fun encode_vals :: "nat list \<Rightarrow> nat list" where
  "encode_vals [] = []"
| "encode_vals [a] = [a div 4, a mod 4 * 16]"
| "encode_vals [a, b] = [a div 4, a mod 4 * 16 + b div 16, b mod 16 * 4]"
| "encode_vals (a # b # c # r) =
     [a div 4, a mod 4 * 16 + b div 16, b mod 16 * 4 + c div 64, c mod 64] @ encode_vals r"

fun decode_vals :: "nat list \<Rightarrow> nat list option" where
  "decode_vals [] = Some []"
| "decode_vals [x] = None"
| "decode_vals [x, y] = (if y mod 16 = 0 then Some [x * 4 + y div 16] else None)"
| "decode_vals [x, y, z] =
     (if z mod 4 = 0 then Some [x * 4 + y div 16, y mod 16 * 16 + z div 4] else None)"
| "decode_vals (x # y # z # w # r) =
     map_option (\<lambda>s. [x * 4 + y div 16, y mod 16 * 16 + z div 4, z mod 4 * 64 + w] @ s) (decode_vals r)"

fun alphabet_vals :: "bytes \<Rightarrow> nat list option" where
  "alphabet_vals [] = Some []"
| "alphabet_vals (c # s) = (case (position (\<lambda>x. x = c) b64_alphabet, alphabet_vals s) of
       (Some n, Some ns) \<Rightarrow> Some (n # ns) | _ \<Rightarrow> None)"

definition plain_base64 :: base64_ops where
  "plain_base64 = \<lparr>
     b64_encode = (\<lambda>v. map ((!) b64_alphabet) (encode_vals (map code_of v))),
     b64_decode = (\<lambda>s. map_option (map char_of)
        (Option.bind (alphabet_vals (rev (dropWhile (\<lambda>b. b = CHR ''='') (rev s)))) decode_vals))\<rparr>"

lemma digit_arith:
  assumes "a < 256" "b < (256 :: nat)"
  shows "a mod 4 * 16 + b div 16 < 64" "b mod 16 * 4 + a div 64 < 64" "b div 16 div 16 = 0"
    "a div 64 div 4 = 0"
proof -
  have "a mod 4 < 4" "b div 16 < 16" using assms by auto
  then show "a mod 4 * 16 + b div 16 < 64" by linarith
  have "b mod 16 < 16" "a div 64 < 4" using assms by auto
  then show "b mod 16 * 4 + a div 64 < 64" by linarith
  show "b div 16 div 16 = 0" "a div 64 div 4 = 0" using assms by (simp_all add: div_mult2_eq [symmetric])
qed

lemma decode_encode_vals: "(\<forall>n\<in>set v. n < 256) \<Longrightarrow> decode_vals (encode_vals v) = Some v"
  by (induction v rule: encode_vals.induct) (auto simp: digit_arith)

lemma encode_vals_lt: "(\<forall>n\<in>set v. n < 256) \<Longrightarrow> \<forall>n\<in>set (encode_vals v). n < 64"
proof (induction v rule: encode_vals.induct)
  case (2 a)
  then have "a div 4 < 64" by auto
  moreover have "a mod 4 < 4" by simp
  ultimately show ?case by simp
next
  case (3 a b)
  then have ab: "a < 256" "b < 256" by simp_all
  then have "a div 4 < 64" by auto
  moreover have "b mod 16 < 16" by simp
  ultimately show ?case using digit_arith(1) [OF ab] by simp
next
  case (4 a b c r)
  then have abc: "a < 256" "b < 256" "c < 256" and r: "\<forall>n\<in>set r. n < 256" by simp_all
  then have "a div 4 < 64" by auto
  then show ?case
    using digit_arith(1) [OF abc(1,2)] digit_arith(2) [OF abc(3,2)] "4.IH" [OF r] by simp
qed simp

lemma alphabet_position: "n < 64 \<Longrightarrow> position (\<lambda>x. x = b64_alphabet ! n) b64_alphabet = Some n"
proof -
  have "list_all (\<lambda>n. position (\<lambda>x. x = b64_alphabet ! n) b64_alphabet = Some n) [0..<64]" by code_simp
  then show "n < 64 \<Longrightarrow> ?thesis" by (simp only: list_all_iff set_upt) simp
qed

lemma alphabet_vals_map: "(\<forall>n\<in>set ns. n < 64) \<Longrightarrow> alphabet_vals (map ((!) b64_alphabet) ns) = Some ns"
  by (induction ns) (auto simp: alphabet_position)

lemma length_alphabet: "length b64_alphabet = 64"
  by code_simp

lemma no_pad: "CHR ''='' \<notin> set b64_alphabet"
  by code_simp

lemma no_drop: "\<forall>b\<in>set s. b \<noteq> c \<Longrightarrow> dropWhile (\<lambda>b. b = c) s = s"
  by (cases s) auto

interpretation pb: base64_codec plain_base64
proof
  fix v
  let ?e = "map ((!) b64_alphabet) (encode_vals (map code_of v))"
  have lt: "\<forall>n\<in>set (map code_of v). n < 256" by simp
  note e = encode_vals_lt [OF lt]
  have sub: "set ?e \<subseteq> set b64_alphabet" using e by (auto simp: length_alphabet intro!: nth_mem)
  then show "set (b64_encode plain_base64 v) \<subseteq> set b64_alphabet" by (simp add: plain_base64_def)
  from sub no_pad have "\<forall>b\<in>set (rev ?e). b \<noteq> CHR ''=''" by (simp only: set_rev) blast
  then have "dropWhile (\<lambda>b. b = CHR ''='') (rev ?e) = rev ?e" by (rule no_drop)
  then show "b64_decode plain_base64 (b64_encode plain_base64 v) = Some v"
    using alphabet_vals_map [OF e] decode_encode_vals [OF lt]
    by (simp add: plain_base64_def comp_def)
qed

interpretation lt: text_header_map list_headers
  by unfold_locales (auto simp: list_headers_def printable_def list_all_iff)

section \<open>Response metadata\<close>

definition meta_values :: "metadata_field list \<Rightarrow> bytes \<Rightarrow> bytes list" where
  "meta_values fs k = concat (map mf_values (filter (\<lambda>f. mf_name f = k) fs))"

text \<open>What accepted entries build up.\<close>

definition field_fine :: "metadata_field \<Rightarrow> bool" where
  "field_fine f \<longleftrightarrow> \<not> reserved (mf_name f)
     \<and> (\<not> is_binary (mf_name f) \<longrightarrow> list_all printable (mf_values f))"

definition meta_ok :: "metadata_field list \<Rightarrow> bool" where
  "meta_ok fs \<longleftrightarrow> distinct (map mf_name fs) \<and> list_all field_fine fs"

lemma meta_ok_Nil: "meta_ok []"
  by (simp add: meta_ok_def)

lemma names_push: "mf_name ` set (push_value k v fs) = insert k (mf_name ` set fs)"
  by (induction k v fs rule: push_value.induct) auto

lemma distinct_push: "distinct (map mf_name fs) \<Longrightarrow> distinct (map mf_name (push_value k v fs))"
proof (induction k v fs rule: push_value.induct)
  case (2 k v f fs)
  have "mf_name ` set (push_value k v fs) = insert k (mf_name ` set fs)" by (rule names_push)
  with 2 show ?case by auto
qed simp

lemma check_entry_Ok:
  "check_entry H b n v = Ok k \<Longrightarrow> \<not> reserved k \<and> is_binary k = b \<and> (\<not> b \<longrightarrow> printable v)
     \<and> list_all metadata_name_byte k \<and> h_name H n = Some k"
  by (auto simp: check_entry_def split: option.splits if_splits)

lemma fine_push:
  "list_all field_fine fs \<Longrightarrow> \<not> reserved k \<Longrightarrow> (\<not> is_binary k \<longrightarrow> printable v) \<Longrightarrow>
     list_all field_fine (push_value k v fs)"
  by (induction k v fs rule: push_value.induct) (auto simp: field_fine_def)

lemma meta_ok_push:
  assumes "meta_ok fs" "check_entry H b n v = Ok k"
  shows "meta_ok (push_value k v fs)"
  using assms(1) check_entry_Ok [OF assms(2)] by (auto simp: meta_ok_def intro: fine_push distinct_push)

lemma meta_values_none: "k \<notin> mf_name ` set fs \<Longrightarrow> meta_values fs k = []"
  by (auto simp: meta_values_def filter_empty_conv)

lemma meta_values_push:
  "distinct (map mf_name fs) \<Longrightarrow>
     meta_values (push_value k v fs) k' = meta_values fs k' @ (if k' = k then [v] else [])"
proof (induction k v fs rule: push_value.induct)
  case (2 k v f fs)
  show ?case
  proof (cases "mf_name f = k")
    case True
    with 2 have "filter (\<lambda>f. mf_name f = k) fs = []" by (auto simp: filter_empty_conv) (metis image_eqI)
    with True show ?thesis by (auto simp: meta_values_def)
  next
    case False
    with 2 show ?thesis by (auto simp: meta_values_def)
  qed
qed (simp add: meta_values_def)

text \<open>The values of the accepted entries under one name, in the order they were added.\<close>

type_synonym meta_entry = "bool \<times> bytes \<times> bytes"

fun accepted_values :: "'m header_ops \<Rightarrow> bytes \<Rightarrow> meta_entry list \<Rightarrow> bytes list" where
  "accepted_values H k [] = []"
| "accepted_values H k ((b, n, v) # es) =
     (if check_entry H b n v = Ok k then [v] else []) @ accepted_values H k es"

section \<open>The wire form\<close>

definition wire_text :: "base64_ops \<Rightarrow> bytes \<Rightarrow> bytes \<Rightarrow> bytes" where
  "wire_text B name v = (if is_binary name then b64_encode B v else trim_ascii v)"

lemma alphabet_bytes: "b \<in> set b64_alphabet \<Longrightarrow>
    b \<noteq> CHR '','' \<and> \<not> is_ascii_whitespace b \<and> 32 \<le> code_of b \<and> code_of b \<le> 126"
proof -
  have "list_all (\<lambda>b. b \<noteq> CHR '','' \<and> \<not> is_ascii_whitespace b \<and> 32 \<le> code_of b \<and> code_of b \<le> 126) b64_alphabet"
    by code_simp
  then show "b \<in> set b64_alphabet \<Longrightarrow> ?thesis" unfolding list_all_iff by blast
qed

lemma trim_ascii_id: "\<forall>b\<in>set s. \<not> is_ascii_whitespace b \<Longrightarrow> trim_ascii s = s"
proof -
  assume a: "\<forall>b\<in>set s. \<not> is_ascii_whitespace b"
  have d: "dropWhile is_ascii_whitespace t = t" if "\<forall>b\<in>set t. \<not> is_ascii_whitespace b" for t
    using that by (cases t) auto
  show ?thesis using d [OF a] d [of "rev s"] a by (simp add: trim_ascii_def trim_ascii_end_def trim_ascii_start_def)
qed

context base64_codec begin

lemma encode_bytes: "b \<in> set (b64_encode B v) \<Longrightarrow> b \<in> set b64_alphabet"
  using alphabet by blast

lemma encode_printable: "printable (b64_encode B v)"
  using alphabet_bytes encode_bytes by (simp only: printable_def list_all_iff) blast

lemma field_values_binary: "field_values B True (map (b64_encode B) vs) = vs"
proof -
  have "split_on (CHR '','') (b64_encode B v) = [b64_encode B v]" for v
    using alphabet_bytes encode_bytes by (intro split_on_none) blast
  moreover have "trim_ascii (b64_encode B v) = b64_encode B v" for v
    using alphabet_bytes encode_bytes by (intro trim_ascii_id) blast
  ultimately show ?thesis
    by (induction vs) (simp_all add: field_values_def decode_encode)
qed

lemma printable_trim: "printable v \<Longrightarrow> printable (trim_ascii v)"
  using set_trim_ascii by (auto simp: printable_def list_all_iff)

lemma field_values_text:
  "list_all printable vs \<Longrightarrow> field_values B False (map trim_ascii vs) = map trim_ascii vs"
  by (induction vs) (simp_all add: field_values_def printable_trim)

lemma field_values_wire:
  assumes "\<not> is_binary k \<longrightarrow> list_all printable vs"
  shows "field_values B (is_binary k) (map (wire_text B k) vs)
    = map (if is_binary k then (\<lambda>v. v) else trim_ascii) vs"
proof (cases "is_binary k")
  case True
  then have "wire_text B k = b64_encode B" by (simp add: wire_text_def fun_eq_iff)
  with True show ?thesis by (simp add: field_values_binary)
next
  case False
  then have "wire_text B k = trim_ascii" by (simp add: wire_text_def fun_eq_iff)
  with False assms show ?thesis by (simp add: field_values_text)
qed

end

text \<open>The values of checked entries are header values, so the wire form only fails on a map without room.\<close>

lemma wire_values_Some:
  assumes "text_header_map H" "base64_codec B" "\<not> is_binary k \<longrightarrow> list_all printable vs"
  shows "case wire_values H B k vs m of
      Some m' \<Rightarrow> set (h_keys H m') \<subseteq> insert k (set (h_keys H m)) \<and>
        (\<forall>k'. h_get_all H m' k' = h_get_all H m k' @ (if k' = k then map (wire_text B k) vs else []))
    | None \<Rightarrow> \<exists>m' n. h_full H m' n \<and> set (h_keys H m') \<subseteq> insert k (set (h_keys H m))"
  using assms(3)
proof (induction vs arbitrary: m)
  case Nil
  then show ?case by auto
next
  case (Cons v vs)
  have hm: "header_map H" using assms(1) by (rule text_header_map.axioms(1))
  have "printable (wire_text B k v)"
    using Cons.prems base64_codec.encode_printable [OF assms(2)] base64_codec.printable_trim [OF assms(2)]
    by (auto simp: wire_text_def)
  then have hv: "h_value H (if is_binary k then b64_encode B v else trim_ascii v) = Some (wire_text B k v)"
    using text_header_map.value_printable [OF assms(1)] by (simp add: wire_text_def)
  have vs: "\<not> is_binary k \<longrightarrow> list_all printable vs" using Cons.prems by simp
  let ?m = "h_append H m k (wire_text B k v)"
  have keys: "set (h_keys H ?m) = insert k (set (h_keys H m))"
    by (auto simp: header_map.set_keys [OF hm] header_map.get_all_append [OF hm])
  show ?case
  proof (cases "h_full H m k")
    case True
    then show ?thesis unfolding wire_values.simps hv option.case by auto
  next
    case False
    then have w: "wire_values H B k (v # vs) m = wire_values H B k vs ?m" unfolding wire_values.simps hv by simp
    from Cons.IH [OF vs, of ?m] show ?thesis
      unfolding w keys by (auto simp: header_map.get_all_append [OF hm] split: option.splits)
  qed
qed

lemma wire_fields_Some:
  assumes "text_header_map H" "base64_codec B" "list_all field_fine fs"
  shows "case wire_fields H B fs m of
      Some m' \<Rightarrow> \<forall>k. h_get_all H m' k = h_get_all H m k @ map (wire_text B k) (meta_values fs k)
    | None \<Rightarrow> \<exists>m' n. h_full H m' n \<and> set (h_keys H m') \<subseteq> set (map mf_name fs) \<union> set (h_keys H m)"
  using assms(3)
proof (induction fs arbitrary: m)
  case Nil
  then show ?case by (simp add: meta_values_def)
next
  case (Cons f fs)
  have fine: "\<not> is_binary (mf_name f) \<longrightarrow> list_all printable (mf_values f)"
    using Cons.prems by (simp add: field_fine_def)
  have rest: "list_all field_fine fs" using Cons.prems by simp
  note v = wire_values_Some [OF assms(1,2) fine, of m]
  show ?case
  proof (cases "wire_values H B (mf_name f) (mf_values f) m")
    case None
    with v obtain m' n where "h_full H m' n" "set (h_keys H m') \<subseteq> insert (mf_name f) (set (h_keys H m))" by auto
    with None show ?thesis by (auto intro!: exI [of _ m'] exI [of _ n])
  next
    case (Some m1)
    with v have m1: "set (h_keys H m1) \<subseteq> insert (mf_name f) (set (h_keys H m))"
      "\<And>k'. h_get_all H m1 k' = h_get_all H m k' @ (if k' = mf_name f then map (wire_text B (mf_name f)) (mf_values f) else [])"
      by auto
    note ih = Cons.IH [OF rest, of m1]
    show ?thesis
    proof (cases "wire_fields H B fs m1")
      case None
      with ih obtain m' n where "h_full H m' n" "set (h_keys H m') \<subseteq> set (map mf_name fs) \<union> set (h_keys H m1)" by auto
      with None Some m1(1) show ?thesis by (auto intro!: exI [of _ m'] exI [of _ n])
    next
      case (Some m2)
      with ih m1(2) \<open>wire_values H B (mf_name f) (mf_values f) m = Some m1\<close> show ?thesis
        by (simp add: meta_values_def)
    qed
  qed
qed

lemma wire_Some:
  assumes "text_header_map H" "base64_codec B" "meta_ok fs"
  shows "case wire H B fs of
      Some m \<Rightarrow> \<forall>k. h_get_all H m k = map (wire_text B k) (meta_values fs k)
    | None \<Rightarrow> \<exists>m n. h_full H m n \<and> length (h_keys H m) \<le> length fs"
proof -
  have hm: "header_map H" using assms(1) by (rule text_header_map.axioms(1))
  have "list_all field_fine fs" using assms(3) by (simp add: meta_ok_def)
  note w = wire_fields_Some [OF assms(1,2) this, of "h_empty H"]
  have e: "set (h_keys H (h_empty H)) = {}"
    by (simp add: header_map.set_keys [OF hm] header_map.get_all_empty [OF hm])
  have "length (h_keys H m) \<le> length fs" if "set (h_keys H m) \<subseteq> set (map mf_name fs)" for m
    using card_mono [OF _ that] distinct_card [OF header_map.distinct_keys [OF hm, of m]]
      card_length [of "map mf_name fs"] by simp
  with w show ?thesis
    unfolding wire_def e by (auto simp: header_map.get_all_empty [OF hm] split: option.splits)
qed

lemma meta_values_fine:
  "meta_ok fs \<Longrightarrow> meta_values fs k \<noteq> [] \<Longrightarrow>
     \<not> reserved k \<and> (\<not> is_binary k \<longrightarrow> list_all printable (meta_values fs k))"
  by (auto simp: meta_ok_def meta_values_def list_all_iff field_fine_def)

lemma meta_values_context:
  assumes "distinct ks"
  shows "meta_values (concat (map (\<lambda>name. if reserved name then []
        else let values = F name in if values = [] then [] else [\<lparr>mf_name = name, mf_values = values\<rparr>]) ks)) k
    = (if k \<in> set ks \<and> \<not> reserved k then F k else [])"
  using assms
proof (induction ks)
  case (Cons a ks)
  then show ?case by (cases "k = a") (auto simp: meta_values_def Let_def)
qed (simp add: meta_values_def)

lemma context_of_wire:
  assumes "text_header_map H" "base64_codec B" "meta_ok fs" "wire H B fs = Some m"
  shows "meta_values (context_metadata H B m) k = map (if is_binary k then (\<lambda>v. v) else trim_ascii) (meta_values fs k)"
proof -
  have hm: "header_map H" using assms(1) by (rule text_header_map.axioms(1))
  have m: "h_get_all H m k = map (wire_text B k) (meta_values fs k)" for k
    using wire_Some [OF assms(1-3)] assms(4) by simp
  show ?thesis
  proof (cases "meta_values fs k = []")
    case True
    then have "k \<notin> set (h_keys H m)" using m header_map.in_keys_iff [OF hm] by simp
    then show ?thesis
      unfolding context_metadata_def meta_values_context [OF header_map.distinct_keys [OF hm]] by (simp add: True)
  next
    case False
    then have "k \<in> set (h_keys H m)" using m header_map.in_keys_iff [OF hm] by simp
    moreover note fine = meta_values_fine [OF assms(3) False]
    ultimately show ?thesis
      unfolding context_metadata_def meta_values_context [OF header_map.distinct_keys [OF hm]]
      using base64_codec.field_values_wire [OF assms(2)] fine by (simp add: m)
  qed
qed

end
