(* ===== verification/Grpc.thy ===== *)
theory Grpc
  imports GrpcMetadata Scoreboard
begin

text \<open>
  The gRPC work unit (\<open>crates/plugins/grpc/src/php/call.rs\<close>, \<open>call.rs\<close>): response metadata is added, one
  outcome is sent, and the call is settled once.

  The reply channel is a tokio oneshot channel: a record of its operations with their documented
  behaviour in the locale \<open>oneshot\<close>.
\<close>

section \<open>The reply channel\<close>

text \<open>The receiver may be dropped between any two operations, so each returns the channel it leaves.\<close>

record ('tx, 'r) oneshot_ops =
  os_is_closed :: "'tx \<Rightarrow> bool \<times> 'tx"
  os_send :: "'tx \<Rightarrow> 'r \<Rightarrow> bool \<times> 'tx"

locale oneshot =
  fixes C :: "('tx, 'r) oneshot_ops" and received :: "'tx \<Rightarrow> 'r list"
  assumes is_closed: "os_is_closed C tx = (b, tx') \<Longrightarrow> received tx' = received tx"
    and send: "os_send C tx r = (ok, tx') \<Longrightarrow> received tx' = received tx @ (if ok then [r] else [])"

text \<open>A receiver that stays for so many sender operations and keeps what it got.\<close>

definition script_oneshot :: "(nat \<times> 'r list, 'r) oneshot_ops" where
  "script_oneshot = \<lparr>
     os_is_closed = (\<lambda>(n, rs). (n = 0, (n - 1, rs))),
     os_send = (\<lambda>(n, rs) r. if n = 0 then (False, (0, rs)) else (True, (n - 1, rs @ [r])))\<rparr>"

interpretation so: oneshot script_oneshot snd
  by unfold_locales (auto simp: script_oneshot_def split: if_splits)

section \<open>The call\<close>

record status_detail =
  sd_type_url :: bytes
  sd_value :: bytes

record rpc_status =
  rs_code :: nat
  rs_message :: bytes
  rs_details :: "status_detail list"

record 'm unary_reply =
  ur_headers :: 'm
  ur_trailers :: 'm
  ur_outcome :: "(bytes, rpc_status) result"

text \<open>\<open>g_reply\<close> says that the sender of \<open>g_chan\<close> is still held; \<open>g_events\<close> are the scoreboard events.\<close>

record ('m, 'tx) grpc_state =
  g_metadata :: 'm
  g_reply :: bool
  g_chan :: 'tx
  g_discarded :: bool
  g_headers :: "metadata_field list"
  g_trailers :: "metadata_field list"
  g_events :: "event list"

definition grpc_new :: "'m \<Rightarrow> 'tx \<Rightarrow> ('m, 'tx) grpc_state" where
  "grpc_new metadata tx =
     \<lparr>g_metadata = metadata, g_reply = True, g_chan = tx, g_discarded = False, g_headers = [],
      g_trailers = [], g_events = []\<rparr>"

definition GRPC_UNAVAILABLE :: nat where "GRPC_UNAVAILABLE = 14"

definition grpc_shed ::
  "'m header_ops \<Rightarrow> ('tx, 'm unary_reply) oneshot_ops \<Rightarrow> ('m, 'tx) grpc_state \<Rightarrow> 'tx" where
  "grpc_shed H C st =
     (if g_reply st
      then snd (os_send C (g_chan st)
        \<lparr>ur_headers = h_empty H, ur_trailers = h_empty H,
         ur_outcome = Err \<lparr>rs_code = GRPC_UNAVAILABLE, rs_message = ''the worker failed to boot'',
                           rs_details = []\<rparr>\<rparr>)
      else g_chan st)"

definition grpc_settled :: "('m, 'tx) grpc_state \<Rightarrow> bool" where
  "grpc_settled st \<longleftrightarrow> \<not> g_reply st"

definition grpc_cancelled ::
  "('tx, 'r) oneshot_ops \<Rightarrow> ('m, 'tx) grpc_state \<Rightarrow> bool \<times> ('m, 'tx) grpc_state" where
  "grpc_cancelled C st =
     (if g_discarded st then (True, st)
      else if g_reply st then (case os_is_closed C (g_chan st) of (b, tx) \<Rightarrow> (b, st\<lparr>g_chan := tx\<rparr>))
      else (False, st))"

definition grpc_is_finalized ::
  "('tx, 'r) oneshot_ops \<Rightarrow> ('m, 'tx) grpc_state \<Rightarrow> bool \<times> ('m, 'tx) grpc_state" where
  "grpc_is_finalized C st = (if grpc_settled st then (True, st) else grpc_cancelled C st)"

definition grpc_discard :: "('m, 'tx) grpc_state \<Rightarrow> ('m, 'tx) grpc_state" where
  "grpc_discard st =
     (if grpc_settled st then st
      else st\<lparr>g_discarded := True, g_reply := False, g_events := g_events st @ [Handled True]\<rparr>)"

datatype grpc_verb = GOk | GFinalized | GDiscarded | GBadField string

fun grpc_thrown :: "grpc_verb \<Rightarrow> (string \<times> string) option" where
  "grpc_thrown GOk = None"
| "grpc_thrown GFinalized = Some (''AlreadyFinalizedError'', ''the call was already finalized'')"
| "grpc_thrown GDiscarded = Some (''WorkDiscardedException'', ''the host closed the call first'')"
| "grpc_thrown (GBadField msg) = Some (''ValueError'', msg)"

definition add_core ::
  "'m header_ops \<Rightarrow> ('m, 'tx) grpc_state option \<Rightarrow> bool \<Rightarrow> bool \<Rightarrow> bytes \<Rightarrow> bytes
     \<Rightarrow> grpc_verb \<times> ('m, 'tx) grpc_state option" where
  "add_core H st trailer binary name value =
     (case check_entry H binary name value of
        Err msg \<Rightarrow> (GBadField msg, st)
      | Ok n \<Rightarrow> (case st of
            None \<Rightarrow> (GFinalized, None)
          | Some s \<Rightarrow>
              if grpc_settled s then (GFinalized, Some s)
              else (GOk, Some (if trailer then s\<lparr>g_trailers := push_value n value (g_trailers s)\<rparr>
                               else s\<lparr>g_headers := push_value n value (g_headers s)\<rparr>))))"

text \<open>
  A verb \<open>None\<close> is a panic of \<open>wire\<close>, which \<open>guard\<close> catches at the FFI boundary. The sender was taken before, so it is
  dropped with the panic: the receiver gets nothing, and the call is settled without a report.
\<close>

definition grpc_finish ::
  "'m header_ops \<Rightarrow> base64_ops \<Rightarrow> ('tx, 'm unary_reply) oneshot_ops \<Rightarrow> ('m, 'tx) grpc_state
     \<Rightarrow> (bytes, rpc_status) result \<Rightarrow> grpc_verb option \<times> ('m, 'tx) grpc_state" where
  "grpc_finish H B C st0 r =
     (case grpc_cancelled C st0 of
        (True, st) \<Rightarrow> (Some GDiscarded, grpc_discard st)
      | (False, st) \<Rightarrow>
          if \<not> g_reply st then (Some GFinalized, st)
          else (let taken = st\<lparr>g_reply := False\<rparr> in
            case (wire H B (g_headers st), wire H B (g_trailers st)) of
              (Some hs, Some ts) \<Rightarrow>
                (case os_send C (g_chan st) \<lparr>ur_headers = hs, ur_trailers = ts, ur_outcome = r\<rparr> of
                   (True, tx) \<Rightarrow>
                     (Some GOk, taken\<lparr>g_chan := tx, g_events := g_events st @ [Handled False]\<rparr>)
                 | (False, tx) \<Rightarrow>
                     (Some GDiscarded, taken\<lparr>g_chan := tx, g_discarded := True, g_events := g_events st @ [Handled True]\<rparr>))
            | _ \<Rightarrow> (None, taken)))"

text \<open>\<open>rapira_rs_grpc_drop\<close> and \<open>release\<close>: the unit leaves the cycle; an unfinalized one is an error.\<close>

definition grpc_drop :: "('m, 'tx) grpc_state \<Rightarrow> ('m, 'tx) grpc_state" where
  "grpc_drop st =
     (if grpc_settled st then st
      else st\<lparr>g_reply := False, g_events := g_events st @ [Handled True]\<rparr>)"

definition grpc_snapshot :: "('m, 'tx) grpc_state option \<Rightarrow> bool \<Rightarrow> metadata_field list" where
  "grpc_snapshot st trailer =
     (case st of None \<Rightarrow> [] | Some s \<Rightarrow> if trailer then g_trailers s else g_headers s)"

fun add_entries :: "'m header_ops \<Rightarrow> bool \<Rightarrow> meta_entry list \<Rightarrow> ('m, 'tx) grpc_state option \<Rightarrow> ('m, 'tx) grpc_state option" where
  "add_entries H t [] st = st"
| "add_entries H t ((b, n, v) # es) st = add_entries H t es (snd (add_core H st t b n v))"

lemma add_core_held:
  assumes "g_reply s"
  shows "\<exists>s'. snd (add_core H (Some s) t b n v) = Some s' \<and> g_reply s' \<and>
    (meta_ok (grpc_snapshot (Some s) t) \<longrightarrow> meta_ok (grpc_snapshot (Some s') t)
       \<and> meta_values (grpc_snapshot (Some s') t) k
         = meta_values (grpc_snapshot (Some s) t) k @ (if check_entry H b n v = Ok k then [v] else []))"
proof (cases "check_entry H b n v")
  case (Ok x)
  then show ?thesis
    using assms meta_ok_push [OF _ Ok] meta_values_push
    by (auto simp: add_core_def grpc_settled_def grpc_snapshot_def meta_ok_def)
qed (simp add: assms add_core_def)

lemma add_entries_held:
  "g_reply s \<Longrightarrow> meta_ok (grpc_snapshot (Some s) t) \<Longrightarrow>
     \<exists>s'. add_entries H t es (Some s) = Some s' \<and> g_reply s' \<and> meta_ok (grpc_snapshot (Some s') t)
       \<and> (\<forall>k. meta_values (grpc_snapshot (Some s') t) k
              = meta_values (grpc_snapshot (Some s) t) k @ accepted_values H k es)"
proof (induction es arbitrary: s)
  case (Cons e es)
  obtain b n v where e: "e = (b, n, v)" by (cases e)
  obtain s1 where s1: "snd (add_core H (Some s) t b n v) = Some s1" "g_reply s1"
    "meta_ok (grpc_snapshot (Some s1) t)"
    "\<And>k. meta_values (grpc_snapshot (Some s1) t) k
         = meta_values (grpc_snapshot (Some s) t) k @ (if check_entry H b n v = Ok k then [v] else [])"
    using add_core_held [OF Cons.prems(1), of H t b n v] Cons.prems(2) by (metis option.inject)
  from Cons.IH [OF s1(2,3)] show ?case by (auto simp: e s1)
qed simp

section \<open>The life of a call\<close>

text \<open>
  What PHP and the worker do with a call: add metadata (trailer, binary), finish it, ask for its state,
  and the discard by the next \<open>receive()\<close> of a call whose client left.
\<close>

datatype grpc_action =
    GAdd bool bool bytes bytes
  | GFinish "(bytes, rpc_status) result"
  | GIsCancelled
  | GIsFinalized
  | GReclaim

fun grpc_act ::
  "'m header_ops \<Rightarrow> base64_ops \<Rightarrow> ('tx, 'm unary_reply) oneshot_ops \<Rightarrow> grpc_action
     \<Rightarrow> ('m, 'tx) grpc_state \<Rightarrow> grpc_verb option \<times> ('m, 'tx) grpc_state" where
  "grpc_act H B C (GAdd t b n v) st =
     (case add_core H (Some st) t b n v of (verb, st') \<Rightarrow> (Some verb, case st' of Some s \<Rightarrow> s | None \<Rightarrow> st))"
| "grpc_act H B C (GFinish r) st = grpc_finish H B C st r"
| "grpc_act H B C GIsCancelled st = (Some GOk, snd (grpc_cancelled C st))"
| "grpc_act H B C GIsFinalized st = (Some GOk, snd (grpc_is_finalized C st))"
| "grpc_act H B C GReclaim st = (Some GOk,
     (if grpc_settled st then st
      else case grpc_cancelled C st of (True, st') \<Rightarrow> grpc_discard st' | (False, st') \<Rightarrow> st'))"

fun grpc_run ::
  "'m header_ops \<Rightarrow> base64_ops \<Rightarrow> ('tx, 'm unary_reply) oneshot_ops \<Rightarrow> grpc_action list
     \<Rightarrow> ('m, 'tx) grpc_state \<Rightarrow> grpc_verb option list \<times> ('m, 'tx) grpc_state" where
  "grpc_run H B C [] st = ([], st)"
| "grpc_run H B C (a # as) st =
     (case grpc_act H B C a st of
        (v, st') \<Rightarrow> (case grpc_run H B C as st' of (vs, st'') \<Rightarrow> (v # vs, st'')))"

text \<open>The contract of a call, without channels and metadata: it is open, answered once, or lost.\<close>

datatype call_phase = Pending | Answered | Lost

inductive call_step :: "call_phase \<Rightarrow> grpc_action \<Rightarrow> grpc_verb \<Rightarrow> call_phase \<Rightarrow> bool" where
  bad_entry: "call_step p (GAdd t b n v) (GBadField msg) p"
| add: "call_step Pending (GAdd t b n v) GOk Pending"
| add_late: "p \<noteq> Pending \<Longrightarrow> call_step p (GAdd t b n v) GFinalized p"
| answer: "call_step Pending (GFinish r) GOk Answered"
| client_left: "call_step Pending (GFinish r) GDiscarded Lost"
| answer_again: "call_step Answered (GFinish r) GFinalized Answered"
| answer_lost: "call_step Lost (GFinish r) GDiscarded Lost"
| ask_cancelled: "call_step p GIsCancelled GOk p"
| ask_finalized: "call_step p GIsFinalized GOk p"
| reclaim: "p = q \<or> (p = Pending \<and> q = Lost) \<Longrightarrow> call_step p GReclaim GOk q"

inductive call_steps :: "call_phase \<Rightarrow> (grpc_action \<times> grpc_verb) list \<Rightarrow> call_phase \<Rightarrow> bool" where
  none: "call_steps p [] p"
| more: "call_step p a v q \<Longrightarrow> call_steps q avs r \<Longrightarrow> call_steps p ((a, v) # avs) r"

inductive_cases call_stepsE: "call_steps p ((a, v) # avs) r"
inductive_cases finish_okE: "call_step p (GFinish r) GOk q"
inductive_cases from_answeredE: "call_step Answered a v q"

definition phase_of :: "('m, 'tx) grpc_state \<Rightarrow> call_phase" where
  "phase_of st = (if g_reply st then Pending else if g_discarded st then Lost else Answered)"

definition call_inv :: "('tx \<Rightarrow> 'm unary_reply list) \<Rightarrow> ('m, 'tx) grpc_state \<Rightarrow> bool" where
  "call_inv received st \<longleftrightarrow> meta_ok (g_headers st) \<and> meta_ok (g_trailers st)
     \<and> (case phase_of st of
          Pending \<Rightarrow> g_events st = [] \<and> received (g_chan st) = [] \<and> \<not> g_discarded st
        | Answered \<Rightarrow> g_events st = [Handled False] \<and> length (received (g_chan st)) = 1
        | Lost \<Rightarrow> g_events st = [Handled True] \<and> received (g_chan st) = [])"

lemma cancelled_step:
  assumes "oneshot C received" "call_inv received st" "grpc_cancelled C st = (b, st')"
  shows "call_inv received st' \<and> phase_of st' = phase_of st \<and> g_reply st' = g_reply st
    \<and> (g_discarded st \<longrightarrow> b) \<and> (\<not> g_discarded st \<and> \<not> g_reply st \<longrightarrow> \<not> b)"
proof (cases "g_discarded st \<or> \<not> g_reply st")
  case False
  then obtain tx where tx: "os_is_closed C (g_chan st) = (b, tx)" "st' = st\<lparr>g_chan := tx\<rparr>"
    using assms(3) by (auto simp: grpc_cancelled_def split: prod.splits)
  with oneshot.is_closed [OF assms(1) tx(1)] False assms(2) show ?thesis
    by (simp add: call_inv_def phase_of_def)
qed (use assms in \<open>auto simp: grpc_cancelled_def split: if_splits\<close>)

lemma discard_step:
  "call_inv received st \<Longrightarrow> g_reply st \<Longrightarrow>
     call_inv received (grpc_discard st) \<and> phase_of (grpc_discard st) = Lost"
  by (simp add: grpc_discard_def grpc_settled_def call_inv_def phase_of_def)

lemma phase_reply: "phase_of st = Pending \<longleftrightarrow> g_reply st"
  by (simp add: phase_of_def)

text \<open>The maps of the wire form have room for \<open>limit\<close> names.\<close>

definition room_for :: "nat \<Rightarrow> 'm header_ops \<Rightarrow> bool" where
  "room_for limit H \<longleftrightarrow> (\<forall>m n. h_full H m n \<longrightarrow> limit \<le> length (h_keys H m))"

lemma wire_None:
  assumes "text_header_map H" "base64_codec B" "room_for limit H" "meta_ok fs" "wire H B fs = None"
  shows "limit \<le> length fs"
proof -
  obtain m n where "h_full H m n" "length (h_keys H m) \<le> length fs"
    using wire_Some [OF assms(1,2,4)] assms(5) by auto
  with assms(3) show ?thesis unfolding room_for_def by (meson order_trans)
qed

text \<open>
  After the panic the call is settled, unanswered and uncounted, with that many names in one half of its metadata.
\<close>

definition broken_call :: "('tx \<Rightarrow> 'm unary_reply list) \<Rightarrow> nat \<Rightarrow> ('m, 'tx) grpc_state \<Rightarrow> bool" where
  "broken_call received limit st \<longleftrightarrow>
     \<not> g_reply st \<and> \<not> g_discarded st \<and> g_events st = [] \<and> received (g_chan st) = []
     \<and> (limit \<le> length (g_headers st) \<or> limit \<le> length (g_trailers st))"

lemma broken_stays:
  assumes "broken_call received limit st"
  shows "\<exists>v. grpc_act H B C a st = (Some v, st)"
proof (cases a)
  case (GAdd t b n v)
  then show ?thesis
    using assms by (cases "check_entry H b n v") (auto simp: broken_call_def add_core_def grpc_settled_def)
qed (use assms in \<open>auto simp: broken_call_def grpc_finish_def grpc_cancelled_def grpc_is_finalized_def grpc_settled_def\<close>)

lemma act_simulated:
  assumes H: "text_header_map H" and B: "base64_codec B" and C: "oneshot C received"
    and room: "room_for limit H"
    and inv: "call_inv received st"
  shows "(\<exists>v st'. grpc_act H B C a st = (Some v, st') \<and> call_inv received st'
      \<and> call_step (phase_of st) a v (phase_of st'))
    \<or> (\<exists>r st'. a = GFinish r \<and> grpc_act H B C a st = (None, st') \<and> broken_call received limit st')"
proof (cases a)
  case (GAdd t b n v)
  show ?thesis
  proof (cases "check_entry H b n v")
    case (Err msg)
    then show ?thesis using inv by (auto simp: GAdd add_core_def intro: call_step.intros)
  next
    case (Ok k)
    note push = meta_ok_push [OF _ Ok]
    show ?thesis
    proof (cases "g_reply st")
      case True
      then show ?thesis
        using Ok inv push
        by (auto simp: GAdd add_core_def grpc_settled_def call_inv_def phase_of_def intro: call_step.intros)
    next
      case False
      then show ?thesis
        using Ok inv by (auto simp: GAdd add_core_def grpc_settled_def phase_reply intro!: call_step.intros)
    qed
  qed
next
  case (GFinish r)
  obtain b st1 where c: "grpc_cancelled C st = (b, st1)" by fastforce
  note s1 = cancelled_step [OF C inv c]
  show ?thesis
  proof (cases "g_reply st")
    case False
    then show ?thesis
      using s1 c by (cases "g_discarded st")
        (auto simp: GFinish grpc_finish_def grpc_discard_def grpc_settled_def phase_of_def Let_def intro: call_step.intros)
  next
    case True
    show ?thesis
    proof (cases b)
      case True
      then show ?thesis
        using s1 c \<open>g_reply st\<close> discard_step [of received st1]
        by (auto simp: GFinish grpc_finish_def phase_reply [symmetric] intro: call_step.intros)
    next
      case False
      have m: "meta_ok (g_headers st1)" "meta_ok (g_trailers st1)" using s1 by (simp_all add: call_inv_def)
      have p: "phase_of st = Pending" "g_reply st1" "g_events st1 = []" "received (g_chan st1) = []" "\<not> g_discarded st1"
        using s1 \<open>g_reply st\<close> by (auto simp: call_inv_def phase_of_def split: if_splits)
      show ?thesis
      proof (cases "wire H B (g_headers st1) = None \<or> wire H B (g_trailers st1) = None")
        case True
        then have "limit \<le> length (g_headers st1) \<or> limit \<le> length (g_trailers st1)"
          using wire_None [OF H B room] m by blast
        with c False p True show ?thesis
          by (auto simp: GFinish grpc_finish_def broken_call_def Let_def split: option.splits)
      next
        case wired: False
        then obtain hs ts where w: "wire H B (g_headers st1) = Some hs" "wire H B (g_trailers st1) = Some ts" by auto
        let ?r = "\<lparr>ur_headers = hs, ur_trailers = ts, ur_outcome = r\<rparr>"
        obtain ok tx where s: "os_send C (g_chan st1) ?r = (ok, tx)" by fastforce
        note sent = oneshot.send [OF C s]
        show ?thesis
          using c False w s sent p m
          by (cases ok) (auto simp: GFinish grpc_finish_def call_inv_def phase_of_def Let_def intro: call_step.intros)
      qed
    qed
  qed
next
  case GIsCancelled
  obtain b st1 where c: "grpc_cancelled C st = (b, st1)" by fastforce
  show ?thesis using cancelled_step [OF C inv c] c by (auto simp: GIsCancelled intro: call_step.intros)
next
  case GIsFinalized
  obtain b st1 where c: "grpc_cancelled C st = (b, st1)" by fastforce
  show ?thesis
    using cancelled_step [OF C inv c] c inv
    by (auto simp: GIsFinalized grpc_is_finalized_def intro: call_step.intros)
next
  case GReclaim
  obtain b st1 where c: "grpc_cancelled C st = (b, st1)" by fastforce
  note s1 = cancelled_step [OF C inv c]
  show ?thesis
  proof (cases "grpc_settled st \<or> \<not> b")
    case True
    then show ?thesis using s1 c inv by (auto simp: GReclaim intro: call_step.intros)
  next
    case False
    then have "phase_of st = Pending" "g_reply st1" using s1 by (auto simp: grpc_settled_def phase_reply)
    then show ?thesis
      using s1 c False discard_step [of received st1] by (auto simp: GReclaim intro!: call_step.reclaim)
  qed
qed

lemma broken_run:
  "broken_call received limit st \<Longrightarrow> \<exists>vs. grpc_run H B C as st = (map Some vs, st) \<and> length vs = length as"
proof (induction "as")
  case (Cons a as)
  with broken_stays [OF Cons.prems, where H = H and B = B and C = C and a = a] obtain v vs where
    "grpc_act H B C a st = (Some v, st)" "grpc_run H B C as st = (map Some vs, st)" "length vs = length as" by blast
  then show ?case by (auto intro!: exI [of _ "v # vs"])
qed simp

text \<open>A run keeps to the contract throughout, or up to a finish that panics.\<close>

lemma run_simulated:
  assumes "text_header_map H" "base64_codec B" "oneshot C received"
    and room: "room_for limit H"
  shows "call_inv received st \<Longrightarrow> case grpc_run H B C as st of (vs, st') \<Rightarrow> length vs = length as \<and>
    ((\<exists>ws. vs = map Some ws \<and> call_inv received st' \<and> call_steps (phase_of st) (zip as ws) (phase_of st'))
     \<or> (\<exists>i r. i < length as \<and> as ! i = GFinish r \<and> (\<forall>j<length as. vs ! j = None \<longleftrightarrow> j = i) \<and> broken_call received limit st'))"
proof (induction "as" arbitrary: st)
  case Nil
  then show ?case by (auto intro: call_steps.intros)
next
  case (Cons a as)
  from act_simulated [OF assms(1-3) room Cons.prems, where a = a] consider
    (step) v st1 where "grpc_act H B C a st = (Some v, st1)" "call_inv received st1" "call_step (phase_of st) a v (phase_of st1)"
    | (panic) r st1 where "a = GFinish r" "grpc_act H B C a st = (None, st1)" "broken_call received limit st1" by blast
  then show ?case
  proof cases
    case step
    obtain vs st2 where run: "grpc_run H B C as st1 = (vs, st2)" by fastforce
    from Cons.IH [OF step(2)] have ih: "length vs = length as"
      "(\<exists>ws. vs = map Some ws \<and> call_inv received st2 \<and> call_steps (phase_of st1) (zip as ws) (phase_of st2))
       \<or> (\<exists>i r. i < length as \<and> as ! i = GFinish r \<and> (\<forall>j<length as. vs ! j = None \<longleftrightarrow> j = i) \<and> broken_call received limit st2)"
      by (simp_all add: run)
    from ih(2) show ?thesis
    proof
      assume "\<exists>ws. vs = map Some ws \<and> call_inv received st2 \<and> call_steps (phase_of st1) (zip as ws) (phase_of st2)"
      then obtain ws where "vs = map Some ws" "call_inv received st2" "call_steps (phase_of st1) (zip as ws) (phase_of st2)"
        by blast
      with step run ih(1) show ?thesis by (auto intro!: exI [of _ "v # ws"] call_steps.more)
    next
      assume "\<exists>i r. i < length as \<and> as ! i = GFinish r \<and> (\<forall>j<length as. vs ! j = None \<longleftrightarrow> j = i) \<and> broken_call received limit st2"
      then obtain i r where "i < length as" "as ! i = GFinish r" "\<forall>j<length as. vs ! j = None \<longleftrightarrow> j = i"
        "broken_call received limit st2" by blast
      with step run ih(1) show ?thesis by (auto simp: nth_Cons' intro!: exI [of _ "Suc i"])
    qed
  next
    case panic
    from broken_run [OF panic(3)] obtain vs where "grpc_run H B C as st1 = (map Some vs, st1)" "length vs = length as"
      by blast
    with panic show ?thesis by (auto simp: nth_Cons')
  qed
qed

lemma call_inv_new: "received tx = [] \<Longrightarrow> call_inv received (grpc_new md tx)"
  by (simp add: call_inv_def grpc_new_def phase_of_def meta_ok_Nil)

text \<open>The contract allows one answer.\<close>

lemma answered_finish:
  "call_steps Answered (zip as vs) q \<Longrightarrow> length vs = length as \<Longrightarrow> m < length as \<Longrightarrow> as ! m = GFinish r
     \<Longrightarrow> vs ! m = GFinalized"
proof (induction "as" arbitrary: vs m)
  case (Cons a as)
  then obtain v vs' where vs: "vs = v # vs'" by (cases vs) auto
  from Cons.prems(1) obtain p' where s: "call_step Answered a v p'" "call_steps p' (zip as vs') q"
    unfolding vs zip_Cons_Cons by (rule call_stepsE)
  from s(1) have p: "p' = Answered" "a = GFinish r' \<Longrightarrow> v = GFinalized" for r' by (auto elim: from_answeredE)
  then show ?case
    using Cons.IH [of vs'] Cons.prems s(2) vs by (cases m) auto
qed simp

lemma answered_rest:
  "call_steps p (zip as vs) q \<Longrightarrow> length vs = length as \<Longrightarrow>
   \<forall>i j r r'. i < j \<and> j < length as \<and> as ! i = GFinish r \<and> vs ! i = GOk \<and> as ! j = GFinish r'
     \<longrightarrow> vs ! j = GFinalized"
proof (induction "as" arbitrary: vs p)
  case (Cons a as)
  then obtain v vs' where vs: "vs = v # vs'" by (cases vs) auto
  from Cons.prems(1) obtain p' where s: "call_step p a v p'" "call_steps p' (zip as vs') q"
    unfolding vs zip_Cons_Cons by (rule call_stepsE)
  have l: "length vs' = length as" using Cons.prems(2) vs by simp
  note ih = Cons.IH [OF s(2) l]
  show ?case
  proof (intro allI impI)
    fix i j r r'
    assume a: "i < j \<and> j < length (a # as) \<and> (a # as) ! i = GFinish r \<and> vs ! i = GOk \<and> (a # as) ! j = GFinish r'"
    show "vs ! j = GFinalized"
    proof (cases i)
      case (Suc k)
      then show ?thesis using a ih vs by (cases j) auto
    next
      case 0
      obtain m where j: "j = Suc m" using a by (cases j) auto
      have "p' = Answered" using s(1) a 0 vs by (auto elim: finish_okE)
      with s(2) have "call_steps Answered (zip as vs') q" by simp
      from answered_finish [OF this l] a show ?thesis by (auto simp: j vs)
    qed
  qed
qed simp

lemma add_entries_chan: "add_entries H t es (Some s) = Some s' \<Longrightarrow> g_chan s' = g_chan s"
proof (induction es arbitrary: s)
  case (Cons e es)
  obtain b n v where e: "e = (b, n, v)" by (cases e)
  obtain s1 where s1: "snd (add_core H (Some s) t b n v) = Some s1" "g_chan s1 = g_chan s"
    by (cases "check_entry H b n v"; cases "grpc_settled s"; cases t) (auto simp: add_core_def)
  with Cons show ?case by (simp add: e)
qed simp

lemma cancelled_fields:
  "g_headers (snd (grpc_cancelled C st)) = g_headers st"
  "g_trailers (snd (grpc_cancelled C st)) = g_trailers st"
  by (auto simp: grpc_cancelled_def split: prod.splits)

lemma finish_answers:
  assumes "oneshot C received" "grpc_finish H B C st r = (Some GOk, st')" "received (g_chan st) = []"
  shows "\<exists>hs ts. wire H B (g_headers st) = Some hs \<and> wire H B (g_trailers st) = Some ts
    \<and> received (g_chan st') = [\<lparr>ur_headers = hs, ur_trailers = ts, ur_outcome = r\<rparr>]"
proof -
  obtain b st1 where c: "grpc_cancelled C st = (b, st1)" by fastforce
  have f: "g_headers st1 = g_headers st" "g_trailers st1 = g_trailers st"
    using cancelled_fields [of C st] c by auto
  have e: "received (g_chan st1) = []"
    using c assms(1,3) oneshot.is_closed [OF assms(1)]
    by (auto simp: grpc_cancelled_def split: if_splits prod.splits)
  from assms(2) c f obtain hs ts tx where w: "wire H B (g_headers st) = Some hs" "wire H B (g_trailers st) = Some ts"
    and s: "os_send C (g_chan st1) \<lparr>ur_headers = hs, ur_trailers = ts, ur_outcome = r\<rparr> = (True, tx)"
    and st': "g_chan st' = tx"
    by (auto simp: grpc_finish_def Let_def split: bool.splits if_splits option.splits prod.splits)
  with oneshot.send [OF assms(1) s] e show ?thesis by simp
qed

section \<open>Properties\<close>

text \<open>
  C17: whatever PHP does with a call, in whatever order and however often, and whenever the client leaves: when
  the call object is gone the scoreboard has counted the call exactly once, as handled together with exactly one
  reply sent, or as an error with no reply, and no verb panicked. The one exception is a finish that panics, which
  takes response metadata with more names in one half than a header map has room for: that call is neither answered
  nor counted, and nothing panics a second time.
\<close>

theorem grpc_call_settles_once:
  assumes "text_header_map H" "base64_codec B" "oneshot C received" "received tx = []"
    and "room_for limit H"
  shows "case grpc_run H B C actions (grpc_new metadata tx) of (vs, st) \<Rightarrow> length vs = length actions \<and>
    (None \<notin> set vs \<and>
       (g_events (grpc_drop st) = [Handled False] \<and> length (received (g_chan (grpc_drop st))) = 1
        \<or> g_events (grpc_drop st) = [Handled True] \<and> received (g_chan (grpc_drop st)) = [])
     \<or> (\<exists>i r. i < length actions \<and> actions ! i = GFinish r \<and> (\<forall>j<length actions. vs ! j = None \<longleftrightarrow> j = i))
       \<and> (limit \<le> length (g_headers st) \<or> limit \<le> length (g_trailers st))
       \<and> g_events (grpc_drop st) = [] \<and> received (g_chan (grpc_drop st)) = [])"
proof -
  obtain vs st where run: "grpc_run H B C actions (grpc_new metadata tx) = (vs, st)" by fastforce
  note sim = run_simulated [OF assms(1-3,5) call_inv_new [of received tx metadata, OF assms(4)], where as = actions]
  have once: "g_events (grpc_drop st) = [Handled False] \<and> length (received (g_chan (grpc_drop st))) = 1
      \<or> g_events (grpc_drop st) = [Handled True] \<and> received (g_chan (grpc_drop st)) = []" if "call_inv received st"
    using that by (auto simp: grpc_drop_def grpc_settled_def call_inv_def phase_of_def split: if_splits)
  have lost: "(limit \<le> length (g_headers st) \<or> limit \<le> length (g_trailers st))
      \<and> g_events (grpc_drop st) = [] \<and> received (g_chan (grpc_drop st)) = []" if "broken_call received limit st"
    using that by (auto simp: broken_call_def grpc_drop_def grpc_settled_def)
  show ?thesis using sim once lost unfolding run prod.case by auto
qed

text \<open>A header map with room for so many names, for the two outcomes of a finish.\<close>

definition narrow_headers :: "nat \<Rightarrow> (bytes \<times> bytes) list header_ops" where
  "narrow_headers limit = list_headers\<lparr>h_full := (\<lambda>m k. limit \<le> length (h_keys list_headers m))\<rparr>"

lemma narrow_text: "text_header_map (narrow_headers limit)"
  using lt.text_header_map_axioms
  by (simp add: narrow_headers_def text_header_map_def text_header_map_axioms_def header_map_def)

definition sample_run :: "nat \<Rightarrow> grpc_verb option list \<times> ((bytes \<times> bytes) list, nat \<times> (bytes \<times> bytes) list unary_reply list) grpc_state" where
  "sample_run limit = grpc_run (narrow_headers limit) plain_base64 script_oneshot
     [GAdd False False ''x'' ''y'', GFinish (Ok ''m''), GFinish (Ok ''n'')] (grpc_new [] (9, []))"

lemma grpc_call_settles_once_witness:
  "fst (sample_run 2) = [Some GOk, Some GOk, Some GFinalized]
   \<and> g_events (grpc_drop (snd (sample_run 2))) = [Handled False]
   \<and> length (snd (g_chan (grpc_drop (snd (sample_run 2))))) = 1
   \<and> fst (sample_run 0) = [Some GOk, None, Some GFinalized] \<and> g_events (grpc_drop (snd (sample_run 0))) = []
   \<and> snd (g_chan (grpc_drop (snd (sample_run 0)))) = []"
proof -
  have room: "room_for limit (narrow_headers limit)" for limit by (simp add: narrow_headers_def room_for_def)
  have v: "fst (sample_run 2) = [Some GOk, Some GOk, Some GFinalized]"
    "fst (sample_run 0) = [Some GOk, None, Some GFinalized]"
    "g_events (grpc_drop (snd (sample_run 2))) \<notin> {[Handled True], []}"
    by (code_simp, code_simp, code_simp)
  note settled = grpc_call_settles_once [OF narrow_text pb.base64_codec_axioms so.oneshot_axioms _ room,
      where tx = "(9, [])" and metadata = "[]"
        and actions = "[GAdd False False ''x'' ''y'', GFinish (Ok ''m''), GFinish (Ok ''n'')]",
      folded sample_run_def, unfolded case_prod_beta]
  from settled [of 2] settled [of 0] v show ?thesis by simp
qed



text \<open>
  C19: response metadata survives the wire: when the answer of a call is sent, reading its header half the
  way request metadata is read gives, under every name, exactly the values PHP added and that were
  accepted, in order; binary values byte for byte, text values without their edge whitespace.
\<close>

theorem metadata_roundtrip:
  assumes "text_header_map H" "base64_codec B" "oneshot C received" "received tx = []"
    and "add_entries H False entries (Some (grpc_new metadata tx)) = Some st"
    and "grpc_finish H B C st r = (Some GOk, st')"
  shows "\<exists>reply. received (g_chan st') = [reply] \<and> ur_outcome reply = r \<and>
    (\<forall>k. meta_values (context_metadata H B (ur_headers reply)) k
        = map (if is_binary k then (\<lambda>v. v) else trim_ascii) (accepted_values H k entries))"
proof -
  let ?new = "grpc_new metadata tx"
  have n: "g_reply ?new" "meta_ok (grpc_snapshot (Some ?new) False)" "grpc_snapshot (Some ?new) False = []"
    by (simp_all add: grpc_new_def grpc_snapshot_def meta_ok_Nil)
  from add_entries_held [OF n(1,2), of H entries] assms(5) n(3)
  have st: "meta_ok (g_headers st)" "\<And>k. meta_values (g_headers st) k = accepted_values H k entries"
    by (auto simp: grpc_snapshot_def meta_values_def)
  have "received (g_chan st) = []" using add_entries_chan [OF assms(5)] assms(4) by (simp add: grpc_new_def)
  from finish_answers [OF assms(3,6) this] obtain hs ts where
    "wire H B (g_headers st) = Some hs"
    "received (g_chan st') = [\<lparr>ur_headers = hs, ur_trailers = ts, ur_outcome = r\<rparr>]" by blast
  moreover from context_of_wire [OF assms(1,2) st(1) this(1)] st(2)
  have "\<forall>k. meta_values (context_metadata H B hs) k = map (if is_binary k then (\<lambda>v. v) else trim_ascii) (accepted_values H k entries)"
    by simp
  ultimately show ?thesis by simp
qed

lemma metadata_roundtrip_witness:
  "meta_values (context_metadata list_headers plain_base64 [(''x-bin'', ''/w''), (''t'', ''a b'')]) ''x-bin''
     = [[CHR 0xFF]]"
proof -
  let ?es = "[(True, ''X-Bin'', [CHR 0xFF]), (False, ''x-bin'', ''a''), (False, ''t'', '' a b'')]"
  let ?tx = "(9 :: nat, [] :: (bytes \<times> bytes) list unary_reply list)"
  let ?H = "[(''x-bin'', ''/w''), (''t'', ''a b'')]"
  let ?st = "\<lparr>g_metadata = [], g_reply = True, g_chan = ?tx, g_discarded = False,
    g_headers = [\<lparr>mf_name = ''x-bin'', mf_values = [[CHR 0xFF]]\<rparr>, \<lparr>mf_name = ''t'', mf_values = ['' a b'']\<rparr>],
    g_trailers = [], g_events = []\<rparr>"
  have st: "add_entries list_headers False ?es (Some (grpc_new [] ?tx)) = Some ?st" by code_simp
  have w: "wire list_headers plain_base64 (g_headers ?st) = Some ?H"
    "wire list_headers plain_base64 (g_trailers ?st) = Some []"
    by code_simp+
  obtain st' where f: "grpc_finish list_headers plain_base64 script_oneshot ?st (Ok []) = (Some GOk, st')"
    and r: "map ur_headers (snd (g_chan st')) = [?H]"
    using w by (simp add: grpc_finish_def grpc_cancelled_def script_oneshot_def)
  have "snd ?tx = []" by simp
  from metadata_roundtrip [OF lt.text_header_map_axioms pb.base64_codec_axioms so.oneshot_axioms this st f] r
  have "meta_values (context_metadata list_headers plain_base64 ?H) ''x-bin''
      = map (if is_binary ''x-bin'' then (\<lambda>v. v) else trim_ascii) (accepted_values list_headers ''x-bin'' ?es)"
    by auto
  also have "\<dots> = [[CHR 0xFF]]" by code_simp
  finally show ?thesis .
qed

end
