(* ===== verification/GrpcServe.thy ===== *)
theory GrpcServe
  imports Grpc Intake
begin

text \<open>
  The serving side of the gRPC plugin: the routes of a descriptor set (\<open>schema.rs\<close>), the dispatch of a
  unary call and the mapping of its outcome (\<open>dispatch.rs\<close>), the request body budget (\<open>serve.rs\<close>),
  and the metadata value PHP may construct (\<open>php/values.rs\<close>).

  The descriptor pool, the JSON codec and the error codes of connectrpc are parameters. So is the
  key conversion of a PHP array (\<open>array_keys\<close>).
\<close>

section \<open>Metadata values\<close>

text \<open>The text of an array key: an integer key is a signed 64-bit number.\<close>

definition zkey_text :: "zkey \<Rightarrow> bytes" where
  "zkey_text k = (case k of
       KeyStr s \<Rightarrow> s
     | KeyIndex n \<Rightarrow> if n < 2 ^ 63 then decimal n else CHR ''-'' # decimal (2 ^ 64 - n))"

datatype meta_fault =
    BadMetaKey
  | NotAList bytes
  | NotPrintable bytes

definition array_is_list :: "(zkey \<times> zval) list \<Rightarrow> bool" where
  "array_is_list entries \<longleftrightarrow> map fst entries = map KeyIndex [0..<length entries]"

fun list_valid :: "bytes \<Rightarrow> (zkey \<times> zval) list \<Rightarrow> (unit, meta_fault) result" where
  "list_valid key [] = Ok ()"
| "list_valid key ((_, item) # rest) =
     (case item of
        ZString s \<Rightarrow> if \<not> is_binary key \<and> \<not> printable s then Err (NotPrintable key) else list_valid key rest
      | _ \<Rightarrow> Err (NotAList key))"

fun metadata_valid :: "(zkey \<times> zval) list \<Rightarrow> (unit, meta_fault) result" where
  "metadata_valid [] = Ok ()"
| "metadata_valid ((k, v) # rest) =
     (let key = zkey_text k in
      if key = [] \<or> \<not> list_all (\<lambda>b. is_ascii b \<and> \<not> is_ascii_uppercase b) key then Err BadMetaKey
      else (case v of
          ZArray items \<Rightarrow>
            if \<not> array_is_list items then Err (NotAList key)
            else (case list_valid key items of Err e \<Rightarrow> Err e | Ok _ \<Rightarrow> metadata_valid rest)
        | _ \<Rightarrow> Err (NotAList key)))"

definition kind_streams :: "bytes \<Rightarrow> bool \<Rightarrow> bool" where
  "kind_streams kind request =
     (if kind = ''bidi-streaming'' then True
      else if kind = ''client-streaming'' then request
      else if kind = ''server-streaming'' then \<not> request
      else False)"

text \<open>\<open>build_metadata\<close>: the array behind a Metadata object; \<open>K\<close> is the engine's key conversion.\<close>

definition build_metadata :: "(bytes \<Rightarrow> zkey) \<Rightarrow> metadata_field list \<Rightarrow> (zkey \<times> zval) list" where
  "build_metadata K fs = map (\<lambda>f. (K (mf_name f),
     ZArray (zip (map KeyIndex [0..<length (mf_values f)]) (map ZString (mf_values f))))) fs"

locale array_keys =
  fixes K :: "bytes \<Rightarrow> zkey"
  assumes key_text: "zkey_text (K s) = s"

text \<open>Canonical decimal keys become integers.\<close>

definition symtable_key :: "bytes \<Rightarrow> zkey" where
  "symtable_key s =
     (let n = digits_val 0 s in if decimal n = s \<and> n < 2 ^ 63 then KeyIndex n else KeyStr s)"

interpretation sk: array_keys symtable_key
  by unfold_locales (simp add: symtable_key_def zkey_text_def Let_def)

section \<open>Routes\<close>

record desc_file =
  df_name :: bytes
  df_dependency :: "bytes list"

record desc_method =
  dm_name :: bytes
  dm_input :: nat
  dm_output :: nat
  dm_client_streaming :: bool
  dm_server_streaming :: bool
  dm_no_side_effects :: bool

record desc_service =
  ds_full_name :: bytes
  ds_methods :: "desc_method list"

record desc_pool =
  dp_files :: "desc_file list"
  dp_services :: "desc_service list"
  dp_service_by_name :: "bytes \<Rightarrow> desc_service option"
  dp_file_of :: "bytes \<Rightarrow> desc_file option"  \<comment> \<open>\<open>file_containing_symbol\<close>\<close>
  dp_has_file :: "bytes \<Rightarrow> bool"            \<comment> \<open>\<open>file_by_name\<close>\<close>
  dp_message_name :: "nat \<Rightarrow> bytes"

record method_info =
  mi_name :: bytes
  mi_input_type :: bytes
  mi_output_type :: bytes
  mi_client_streaming :: bool
  mi_server_streaming :: bool

record service_info =
  si_name :: bytes
  si_methods :: "method_info list"

record route =
  rt_input :: nat
  rt_output :: nat
  rt_idempotent :: bool

record schema =
  sc_methods :: "(bytes \<times> route) list" \<comment> \<open>the map; the newest entry of a key comes first\<close>
  sc_services :: "service_info list"

datatype schema_error =
    MissingImport bytes bytes
  | PluginService bytes
  | NotInSet bytes
  | ListedTwice bytes
  | NoService

fun check_imports :: "desc_pool \<Rightarrow> desc_file list \<Rightarrow> (unit, schema_error) result" where
  "check_imports P [] = Ok ()"
| "check_imports P (f # fs) =
     (case find (\<lambda>n. \<not> dp_has_file P n) (df_dependency f) of
        Some import \<Rightarrow> Err (MissingImport (df_name f) import)
      | None \<Rightarrow> check_imports P fs)"

text \<open>\<open>plugin\<close> are the names of the services the plugin answers itself.\<close>

fun select_named ::
  "desc_pool \<Rightarrow> bytes list \<Rightarrow> bytes list \<Rightarrow> desc_service list \<Rightarrow> (desc_service list, schema_error) result" where
  "select_named P plugin [] selected = Ok selected"
| "select_named P plugin (name # names) selected =
     (if dropWhile (\<lambda>b. b = CHR ''.'') name \<in> set plugin then Err (PluginService name)
      else (case dp_service_by_name P name of
          None \<Rightarrow> Err (NotInSet name)
        | Some service \<Rightarrow>
            if list_ex (\<lambda>s. ds_full_name s = ds_full_name service) selected
            then Err (ListedTwice (ds_full_name service))
            else select_named P plugin names (selected @ [service])))"

definition select_all :: "desc_pool \<Rightarrow> bytes list \<Rightarrow> (desc_service list, schema_error) result" where
  "select_all P plugin =
     (let imported = concat (map df_dependency (dp_files P));
          selected = filter (\<lambda>s. case dp_file_of P (ds_full_name s) of
              None \<Rightarrow> False
            | Some f \<Rightarrow> df_name f \<notin> set imported \<and> ds_full_name s \<notin> set plugin) (dp_services P)
      in if selected = [] then Err NoService else Ok selected)"

definition route_name :: "bytes \<Rightarrow> bytes \<Rightarrow> bytes" where
  "route_name service meth = service @ ''/'' @ meth"

fun add_methods :: "bytes \<Rightarrow> desc_method list \<Rightarrow> (bytes \<times> route) list \<Rightarrow> (bytes \<times> route) list" where
  "add_methods service [] routes = routes"
| "add_methods service (m # ms) routes =
     add_methods service ms
       (if dm_client_streaming m \<or> dm_server_streaming m then routes
        else (route_name service (dm_name m),
              \<lparr>rt_input = dm_input m, rt_output = dm_output m, rt_idempotent = dm_no_side_effects m\<rparr>) # routes)"

definition service_info_of ::
  "desc_pool \<Rightarrow> desc_service \<Rightarrow> (bytes \<times> route) list \<Rightarrow> service_info \<times> (bytes \<times> route) list" where
  "service_info_of P s routes =
     (\<lparr>si_name = ds_full_name s,
       si_methods = map (\<lambda>m. \<lparr>mi_name = dm_name m, mi_input_type = dp_message_name P (dm_input m),
         mi_output_type = dp_message_name P (dm_output m),
         mi_client_streaming = dm_client_streaming m, mi_server_streaming = dm_server_streaming m\<rparr>) (ds_methods s)\<rparr>,
      add_methods (ds_full_name s) (ds_methods s) routes)"

fun list_services ::
  "desc_pool \<Rightarrow> desc_service list \<Rightarrow> schema \<Rightarrow> schema" where
  "list_services P [] sc = sc"
| "list_services P (s # ss) sc =
     (case service_info_of P s (sc_methods sc) of (info, routes) \<Rightarrow>
        list_services P ss \<lparr>sc_methods = routes, sc_services = sc_services sc @ [info]\<rparr>)"

definition schema_load ::
  "desc_pool \<Rightarrow> bytes list \<Rightarrow> bytes list option \<Rightarrow> (schema, schema_error) result" where
  "schema_load P plugin services =
     (case check_imports P (dp_files P) of
        Err e \<Rightarrow> Err e
      | Ok _ \<Rightarrow> (case (case services of Some names \<Rightarrow> select_named P plugin names []
                              | None \<Rightarrow> select_all P plugin) of
            Err e \<Rightarrow> Err e
          | Ok selected \<Rightarrow> Ok (list_services P selected \<lparr>sc_methods = [], sc_services = []\<rparr>)))"

definition schema_method :: "schema \<Rightarrow> bytes \<Rightarrow> route option" where
  "schema_method sc path = map_of (sc_methods sc) path"

text \<open>\<open>Dispatcher::lookup\<close>: the descriptor of a unary method with its idempotency.\<close>

definition lookup_unary :: "schema \<Rightarrow> bytes \<Rightarrow> bool option" where
  "lookup_unary sc path = map_option rt_idempotent (schema_method sc path)"

section \<open>The unary call\<close>

datatype protocol = ProtoConnect | ProtoGrpc | ProtoGrpcWeb

definition protocol_case :: "protocol \<Rightarrow> string" where
  "protocol_case p = (case p of ProtoGrpc \<Rightarrow> ''Grpc'' | ProtoGrpcWeb \<Rightarrow> ''GrpcWeb'' | _ \<Rightarrow> ''Connect'')"

datatype codec = CodecProto | CodecJson | CodecOther string

record error_detail =
  ed_type_url :: bytes
  ed_value :: bytes

datatype error_code =
    CodeUnimplemented | CodeUnavailable | CodeInternal | CodeDeadline | CodeUnknown | CodeInvalidArgument
  | CodeResourceExhausted | CodeOf nat

record 'm connect_error =
  ce_code :: error_code
  ce_message :: bytes
  ce_details :: "error_detail list"
  ce_headers :: 'm
  ce_trailers :: 'm

definition connect_error_of :: "'m header_ops \<Rightarrow> error_code \<Rightarrow> bytes \<Rightarrow> 'm connect_error" where
  "connect_error_of H code msg =
     \<lparr>ce_code = code, ce_message = msg, ce_details = [], ce_headers = h_empty H, ce_trailers = h_empty H\<rparr>"

text \<open>\<open>str::rsplit_once\<close> on one character.\<close>

definition rsplit_once :: "byte \<Rightarrow> bytes \<Rightarrow> (bytes \<times> bytes) option" where
  "rsplit_once c s = (if c \<in> set s
     then Some (rev (tl (dropWhile (\<lambda>b. b \<noteq> c) (rev s))), rev (takeWhile (\<lambda>b. b \<noteq> c) (rev s))) else None)"

text \<open>\<open>known\<close> are the gRPC codes that connectrpc maps to its own.\<close>

definition status_error ::
  "'m header_ops \<Rightarrow> base64_ops \<Rightarrow> (nat \<Rightarrow> bool) \<Rightarrow> rpc_status \<Rightarrow> protocol \<Rightarrow> 'm connect_error" where
  "status_error H B known status protocol =
     (let whole_url = (protocol = ProtoGrpc \<or> protocol = ProtoGrpcWeb) in
      (connect_error_of H (if known (rs_code status) then CodeOf (rs_code status) else CodeUnknown) (rs_message status))
        \<lparr>ce_details := map (\<lambda>d. \<lparr>ed_type_url = (case rsplit_once (CHR ''/'') (sd_type_url d) of
               Some (_, name) \<Rightarrow> if \<not> whole_url then name else sd_type_url d
             | None \<Rightarrow> sd_type_url d),
             ed_value = b64_encode B (sd_value d)\<rparr>) (rs_details status)\<rparr>)"

text \<open>The request message: \<open>J\<close> transcodes JSON, its errors with their code and text.\<close>

definition unary_message ::
  "'m header_ops \<Rightarrow> (bytes \<Rightarrow> (bytes, error_code \<times> bytes) result) \<Rightarrow> codec \<Rightarrow> bytes
     \<Rightarrow> (bytes, 'm connect_error) result" where
  "unary_message H J format body = (case format of
       CodecProto \<Rightarrow> Ok body
     | CodecJson \<Rightarrow> map_err (\<lambda>(code, msg). connect_error_of H code msg) (J body)
     | CodecOther name \<Rightarrow> Err (connect_error_of H CodeUnimplemented (''codec '' @ name @ '' is not supported'')))"

definition plain_reply :: "protocol \<Rightarrow> bytes option \<Rightarrow> bool" where
  "plain_reply protocol grpc_encoding \<longleftrightarrow> (protocol = ProtoGrpc \<or> protocol = ProtoGrpcWeb)
     \<and> (case grpc_encoding of None \<Rightarrow> True | Some v \<Rightarrow> v = ''identity'')"

record 'm encoded_response =
  er_body :: bytes
  er_headers :: 'm
  er_trailers :: 'm
  er_compress :: "bool option"

text \<open>
  The end of \<open>unary\<close>: what the reply channel gave (\<open>None\<close> when PHP lost the call) becomes the response.
  \<open>J\<close> transcodes the message to JSON.
\<close>

definition unary_response ::
  "'m header_ops \<Rightarrow> base64_ops \<Rightarrow> (nat \<Rightarrow> bool) \<Rightarrow> (bytes \<Rightarrow> bytes option) \<Rightarrow> codec \<Rightarrow> protocol \<Rightarrow> bool
     \<Rightarrow> 'm unary_reply option \<Rightarrow> ('m encoded_response, 'm connect_error) result" where
  "unary_response H B known J format protocol plain reply =
     (case reply of
        None \<Rightarrow> Err (connect_error_of H CodeInternal ''internal error'')
      | Some r \<Rightarrow> (case ur_outcome r of
          Err status \<Rightarrow> Err ((status_error H B known status protocol)
            \<lparr>ce_headers := ur_headers r, ce_trailers := ur_trailers r\<rparr>)
        | Ok message \<Rightarrow>
           (case (if format = CodecJson then J message else Some message) of
              None \<Rightarrow> Err (connect_error_of H CodeInternal ''internal error'')
            | Some body \<Rightarrow> Ok \<lparr>er_body = body,
                er_headers = (if protocol = ProtoConnect
                  then h_append H (ur_headers r) ''vary'' ''accept-encoding'' else ur_headers r),
                er_trailers = ur_trailers r,
                er_compress = (if plain then Some False else None)\<rparr>)))"

text \<open>
  \<open>unary\<close> up to the submit: the message counts against the body budget before the call is queued. A body
  that does not decode leaves the permits with the request budget.
\<close>

definition unary_start ::
  "'m header_ops \<Rightarrow> 's sem_ops \<Rightarrow> (bytes \<Rightarrow> (bytes, error_code \<times> bytes) result) \<Rightarrow> codec \<Rightarrow> bytes \<Rightarrow> nat \<Rightarrow> 's intake
     \<Rightarrow> (bytes \<times> nat \<times> submit_outcome, 'm connect_error) result \<times> 's intake" where
  "unary_start H S J format body held i =
     (case unary_message H J format body of
        Err e \<Rightarrow> (Err e, i)
      | Ok message \<Rightarrow>
         (case grow_body S held (length message) i of
            ((held', Err e), i') \<Rightarrow>
               (Err (connect_error_of H CodeUnavailable (refused_text e)), release_body S held' i')
          | ((held', Ok _), i') \<Rightarrow>
              (case submit_start S held' i' of
                 (RefusedAs e, i'') \<Rightarrow> (Err (connect_error_of H CodeUnavailable (refused_text e)), i'')
               | (out, i'') \<Rightarrow> (Ok (message, held', out), i''))))"

text \<open>The deadline in Unix time, in nanoseconds; the code converts the sum to a float.\<close>

definition unix_deadline :: "nat \<Rightarrow> nat \<Rightarrow> int \<Rightarrow> int" where
  "unix_deadline deadline now wall = max wall 0 + int (deadline - now)"

section \<open>The request body\<close>

record request_budget =
  rb_held :: "nat option"
  rb_error :: "(error_code \<times> bytes) option"

datatype rpc_frame = RpcData bytes | RpcTrailers

datatype body_event = FrameReady rpc_frame | FrameFailed | BodyEnd | FramePending

datatype body_poll = PollFrame rpc_frame | PollErr | PollEnd | PollPending

text \<open>
  \<open>RequestBody::poll_frame\<close>: \<open>idle_over\<close> says that the idle timer has run out; the last component says
  that the timer is set again.
\<close>

definition request_body_poll ::
  "'s sem_ops \<Rightarrow> bool \<Rightarrow> body_event \<Rightarrow> request_budget \<Rightarrow> 's intake
     \<Rightarrow> body_poll \<times> request_budget \<times> 's intake \<times> bool" where
  "request_body_poll S idle_over ev rb i =
     (if rb_held rb \<noteq> None \<and> idle_over
      then (PollErr, rb\<lparr>rb_error := Some (CodeDeadline, ''request body idle timeout'')\<rparr>, i, False)
      else case ev of
        FramePending \<Rightarrow> (PollPending, rb, i, False)
      | FrameFailed \<Rightarrow> (PollErr, rb, i, False)
      | BodyEnd \<Rightarrow> (PollEnd, rb, i, False)
      | FrameReady f \<Rightarrow>
         (case (f, rb_held rb) of
            (RpcData data, Some held) \<Rightarrow>
              if data = [] then (PollFrame f, rb, i, False)
              else (case grow_body S held (held + length data) i of
                  ((held', Err e), i') \<Rightarrow>
                    (PollErr, rb\<lparr>rb_held := Some held', rb_error := Some (CodeUnavailable, refused_text e)\<rparr>, i', False)
                | ((held', Ok _), i') \<Rightarrow> (PollFrame f, rb\<lparr>rb_held := Some held'\<rparr>, i', True))
          | _ \<Rightarrow> (PollFrame f, rb, i, False)))"

text \<open>After the service has answered: the budget goes back and a body error replaces the response.\<close>

definition finish_request ::
  "'s sem_ops \<Rightarrow> 'r \<Rightarrow> (error_code \<times> bytes \<Rightarrow> 'r) \<Rightarrow> request_budget \<Rightarrow> 's intake \<Rightarrow> 'r \<times> 's intake" where
  "finish_request S response err_response rb i =
     (case rb_error rb of Some e \<Rightarrow> err_response e | None \<Rightarrow> response,
      case rb_held rb of Some held \<Rightarrow> release_body S held i | None \<Rightarrow> i)"

definition status_in_trailers :: "'m header_ops \<Rightarrow> 'm \<Rightarrow> 'm" where
  "status_in_trailers H headers = h_remove H (h_remove H headers ''grpc-status'') ''grpc-message''"

text \<open>How the drain ends: \<open>drained\<close> says that the last connection closed within the grace.\<close>

datatype drain_result = DrainFatal string | DrainTimedOut nat nat | DrainedCleanly

definition grpc_drain :: "string option \<Rightarrow> bool \<Rightarrow> nat \<Rightarrow> nat \<Rightarrow> drain_result" where
  "grpc_drain fatal drained inflight http2 =
     (case fatal of Some e \<Rightarrow> DrainFatal e
      | None \<Rightarrow> if \<not> drained \<and> (inflight > 0 \<or> http2 > 0) then DrainTimedOut inflight http2 else DrainedCleanly)"

section \<open>Routes of a schema\<close>

definition unary_of :: "service_info \<Rightarrow> bytes list" where
  "unary_of s = map (\<lambda>m. route_name (si_name s) (mi_name m))
     (filter (\<lambda>m. \<not> mi_client_streaming m \<and> \<not> mi_server_streaming m) (si_methods s))"

lemma add_methods_keys:
  "fst ` set (add_methods service ms routes) = fst ` set routes \<union>
     (\<lambda>m. route_name service (dm_name m)) ` {m \<in> set ms. \<not> dm_client_streaming m \<and> \<not> dm_server_streaming m}"
  by (induction service ms routes rule: add_methods.induct) auto

lemma service_info_routes:
  assumes "service_info_of P s routes = (info, routes')"
  shows "si_name info = ds_full_name s \<and> fst ` set routes' = fst ` set routes \<union> set (unary_of info)"
proof -
  have u: "set (unary_of info) = (\<lambda>m. route_name (ds_full_name s) (dm_name m)) `
      {m \<in> set (ds_methods s). \<not> dm_client_streaming m \<and> \<not> dm_server_streaming m}"
    using assms by (force simp: service_info_of_def unary_of_def)
  have r: "routes' = add_methods (ds_full_name s) (ds_methods s) routes" "si_name info = ds_full_name s"
    using assms by (auto simp: service_info_of_def)
  show ?thesis unfolding u r(1) add_methods_keys using r(2) by blast
qed

lemma list_services_routes:
  "\<exists>infos. sc_services (list_services P ss sc) = sc_services sc @ infos
     \<and> map si_name infos = map ds_full_name ss
     \<and> fst ` set (sc_methods (list_services P ss sc)) = fst ` set (sc_methods sc) \<union> \<Union> (set ` unary_of ` set infos)"
proof (induction P ss sc rule: list_services.induct)
  case (2 P s ss sc)
  obtain info routes where i: "service_info_of P s (sc_methods sc) = (info, routes)" by fastforce
  note info = service_info_routes [OF i]
  let ?sc = "\<lparr>sc_methods = routes, sc_services = sc_services sc @ [info]\<rparr>"
  from 2 [OF i [symmetric]] obtain infos where
    "sc_services (list_services P ss ?sc) = sc_services ?sc @ infos" "map si_name infos = map ds_full_name ss"
    "fst ` set (sc_methods (list_services P ss ?sc)) = fst ` set (sc_methods ?sc) \<union> \<Union> (set ` unary_of ` set infos)" by blast
  with info show ?case by (intro exI [of _ "info # infos"]) (simp add: i Un_assoc)
qed simp

lemma select_named_names:
  assumes "\<And>n s. dp_service_by_name P n = Some s \<Longrightarrow> ds_full_name s = dropWhile (\<lambda>b. b = CHR ''.'') n"
  shows "select_named P plugin names sel = Ok r \<Longrightarrow> \<forall>s\<in>set sel. ds_full_name s \<notin> set plugin \<Longrightarrow>
    distinct (map ds_full_name sel) \<Longrightarrow>
    (\<forall>s\<in>set r. ds_full_name s \<notin> set plugin) \<and> distinct (map ds_full_name r)"
proof (induction names arbitrary: sel)
  case (Cons n names)
  from Cons.prems(1) obtain s where s: "dropWhile (\<lambda>b. b = CHR ''.'') n \<notin> set plugin" "dp_service_by_name P n = Some s"
    "\<not> list_ex (\<lambda>t. ds_full_name t = ds_full_name s) sel" "select_named P plugin names (sel @ [s]) = Ok r"
    by (auto split: if_splits option.splits)
  have sel: "\<forall>x\<in>set (sel @ [s]). ds_full_name x \<notin> set plugin"
    using assms [OF s(2)] s(1) Cons.prems(2) by simp
  have "distinct (map ds_full_name (sel @ [s]))" using Cons.prems(3) s(3) by (auto simp: list_ex_iff)
  from Cons.IH [OF s(4) sel this] show ?case .
qed simp

lemma list_valid_ok:
  "(\<not> is_binary key \<longrightarrow> list_all printable vs) \<Longrightarrow>
     list_valid key (zip (map KeyIndex ns) (map ZString vs)) = Ok ()"
proof (induction vs arbitrary: ns)
  case (Cons v vs)
  then show ?case by (cases ns) auto
qed simp

lemma field_values_printable: "list_all printable (field_values B False lines)"
  by (induction lines) (auto simp: field_values_def)

lemma context_metadata_fields:
  assumes "f \<in> set (context_metadata H B m)"
  shows "mf_name f \<in> set (h_keys H m) \<and> (\<not> is_binary (mf_name f) \<longrightarrow> list_all printable (mf_values f))"
  using assms field_values_printable by (fastforce simp: context_metadata_def Let_def split: if_splits)

lemma metadata_valid_ok:
  assumes "array_keys K"
    and "\<forall>f\<in>set fs. mf_name f \<noteq> [] \<and> list_all (\<lambda>b. is_ascii b \<and> \<not> is_ascii_uppercase b) (mf_name f)
       \<and> (\<not> is_binary (mf_name f) \<longrightarrow> list_all printable (mf_values f))"
  shows "metadata_valid (build_metadata K fs) = Ok ()"
  using assms(2)
proof (induction fs)
  case (Cons f fs)
  then have v: "list_valid (mf_name f) (zip (map KeyIndex [0..<length (mf_values f)]) (map ZString (mf_values f))) = Ok ()"
    by (intro list_valid_ok) simp
  have l: "array_is_list (zip (map KeyIndex [0..<length (mf_values f)]) (map ZString (mf_values f)))"
    by (simp add: array_is_list_def)
  show ?case
    using Cons v l array_keys.key_text [OF assms(1)] by (simp add: build_metadata_def Let_def)
qed (simp add: build_metadata_def)

section \<open>Properties\<close>

text \<open>
  The metadata a call shows to PHP always has the type the Metadata constructor demands: lower-case
  ASCII keys, each with a list of strings, printable unless the key ends in -bin, whatever bytes the
  client sent.
\<close>

theorem context_metadata_is_valid:
  assumes "array_keys K"
    and "\<forall>k\<in>set (h_keys H m). k \<noteq> [] \<and> list_all (\<lambda>b. is_ascii b \<and> \<not> is_ascii_uppercase b) k"
  shows "metadata_valid (build_metadata K (context_metadata H B m)) = Ok ()"
proof (rule metadata_valid_ok [OF assms(1)], rule ballI)
  fix f assume "f \<in> set (context_metadata H B m)"
  from context_metadata_fields [OF this] assms(2)
  show "mf_name f \<noteq> [] \<and> list_all (\<lambda>b. is_ascii b \<and> \<not> is_ascii_uppercase b) (mf_name f)
      \<and> (\<not> is_binary (mf_name f) \<longrightarrow> list_all printable (mf_values f))"
    by (simp only: Ball_def) simp
qed

lemma context_metadata_is_valid_witness:
  "metadata_valid (build_metadata symtable_key (context_metadata list_headers plain_base64
     [(''7'', ''a''), (''x-bin'', ''/w,!''), (''t'', [CHR 0xFF]), (''t'', ''b'')])) = Ok ()"
proof (rule context_metadata_is_valid [OF sk.array_keys_axioms])
  show "\<forall>k\<in>set (h_keys list_headers [(''7'', ''a''), (''x-bin'', ''/w,!''), (''t'', [CHR 0xFF]), (''t'', ''b'')]).
      k \<noteq> [] \<and> list_all (\<lambda>b. is_ascii b \<and> \<not> is_ascii_uppercase b) k"
    by code_simp
qed

text \<open>
  C20: the dispatcher routes exactly the unary methods of the services that a loaded schema lists, so a
  streaming method has no route, and no service that the plugin answers itself is ever listed,
  however its name is spelled in the configuration.
\<close>

theorem schema_routes_exactly:
  assumes "schema_load P plugin services = Ok sc"
    and "\<And>n s. dp_service_by_name P n = Some s \<Longrightarrow> ds_full_name s = dropWhile (\<lambda>b. b = CHR ''.'') n"
  shows "(lookup_unary sc path \<noteq> None \<longleftrightarrow> (\<exists>s\<in>set (sc_services sc). path \<in> set (unary_of s)))
    \<and> (\<forall>s\<in>set (sc_services sc). si_name s \<notin> set plugin)"
proof -
  from assms(1) obtain selected where
    sel: "(case services of Some names \<Rightarrow> select_named P plugin names [] | None \<Rightarrow> select_all P plugin) = Ok selected"
    and sc: "sc = list_services P selected \<lparr>sc_methods = [], sc_services = []\<rparr>"
    by (auto simp: schema_load_def split: result.splits)
  have p: "\<forall>s\<in>set selected. ds_full_name s \<notin> set plugin"
  proof (cases services)
    case None
    with sel show ?thesis by (auto simp: select_all_def Let_def split: if_splits option.splits)
  next
    case (Some names)
    with sel select_named_names [OF assms(2)] show ?thesis by simp
  qed
  have n: "map si_name (sc_services sc) = map ds_full_name selected"
    and r: "fst ` set (sc_methods sc) = \<Union> (set ` unary_of ` set (sc_services sc))"
    using list_services_routes [of P selected "\<lparr>sc_methods = [], sc_services = []\<rparr>"] by (simp_all add: sc)
  have look: "lookup_unary sc path \<noteq> None \<longleftrightarrow> path \<in> fst ` set (sc_methods sc)"
    by (simp add: lookup_unary_def schema_method_def map_of_eq_None_iff)
  have "si_name ` set (sc_services sc) = ds_full_name ` set selected"
    using arg_cong [OF n, of set] by simp
  with p have "\<forall>s\<in>set (sc_services sc). si_name s \<notin> set plugin"
    by (metis image_iff)
  moreover have "(path \<in> fst ` set (sc_methods sc)) = (\<exists>s\<in>set (sc_services sc). path \<in> set (unary_of s))"
    unfolding r by blast
  ultimately show ?thesis using look by blast
qed

definition sample_service :: desc_service where
  "sample_service = \<lparr>ds_full_name = ''a.S'', ds_methods =
     [\<lparr>dm_name = ''Get'', dm_input = 0, dm_output = 1, dm_client_streaming = False, dm_server_streaming = False,
       dm_no_side_effects = True\<rparr>,
      \<lparr>dm_name = ''Watch'', dm_input = 0, dm_output = 1, dm_client_streaming = False, dm_server_streaming = True,
       dm_no_side_effects = False\<rparr>]\<rparr>"

definition sample_pool :: desc_pool where
  "sample_pool = \<lparr>dp_files = [], dp_services = [sample_service],
     dp_service_by_name = (\<lambda>n. if dropWhile (\<lambda>b. b = CHR ''.'') n = ''a.S'' then Some sample_service else None),
     dp_file_of = (\<lambda>_. None), dp_has_file = (\<lambda>_. True), dp_message_name = (\<lambda>_. ''M'')\<rparr>"

lemma schema_routes_exactly_witness:
  "\<exists>sc. schema_load sample_pool [''h.Health''] (Some [''.a.S'']) = Ok sc
     \<and> lookup_unary sc ''a.S/Get'' \<noteq> None \<and> lookup_unary sc ''a.S/Watch'' = None"
proof -
  define sc where "sc = list_services sample_pool [sample_service] \<lparr>sc_methods = [], sc_services = []\<rparr>"
  have l: "schema_load sample_pool [''h.Health''] (Some [''.a.S'']) = Ok sc"
    by (simp add: schema_load_def sc_def sample_pool_def)
  have u: "(\<exists>s\<in>set (sc_services sc). path \<in> set (unary_of s)) \<longleftrightarrow> path = ''a.S/Get''" for path
    by (simp add: sc_def service_info_of_def sample_service_def unary_of_def route_name_def)
  have law: "ds_full_name s = dropWhile (\<lambda>b. b = CHR ''.'') n" if "dp_service_by_name sample_pool n = Some s" for n s
    using that by (auto simp: sample_pool_def sample_service_def split: if_splits)
  have look: "lookup_unary sc path \<noteq> None \<longleftrightarrow> path = ''a.S/Get''" for path
    using conjunct1 [OF schema_routes_exactly [OF l law]] unfolding u .
  have "lookup_unary sc ''a.S/Get'' \<noteq> None" unfolding look ..
  moreover have "\<not> lookup_unary sc ''a.S/Watch'' \<noteq> None" unfolding look by simp
  ultimately show ?thesis using l by (intro exI [of _ sc] conjI) simp_all
qed

end
