(* ===== verification/Worker.thy ===== *)
theory Worker
  imports Exchange Grpc
begin

text \<open>
  The PHP worker threads (\<open>sapi/src/start.rs\<close>, \<open>rapira_worker.rs\<close>, \<open>classic_worker.rs\<close>,
  \<open>exchange/receive.rs\<close> and \<open>exchange/mod.rs\<close>): pulling units from the queue, the \<open>receive()\<close> verb of
  the dispatcher mode, the request loop of the worker and classic modes, and the boot and restart
  rules around them.

  The queue is a crossbeam channel with other threads on both ends, so a receiver carries the list of
  what its next waits meet. A unit that \<open>receive()\<close> hands out is seen through the record \<open>held_ops\<close>,
  the code's trait \<open>Held\<close>; the locale \<open>held_unit\<close> states what the loop relies on, and the HTTP
  exchange and the gRPC call are its two interpretations.
\<close>

section \<open>The queue's receiving end\<close>

text \<open>
  What a wait meets: a unit, nothing for its whole length, or the end: the stop channel, which has
  priority, or a queue without senders.
\<close>

datatype 'u arrival = Arrived 'u | Quiet | Gone

record 'u unit_rx =
  rx_stopping :: bool
  rx_next :: "'u arrival list"
  rx_pending :: "64 word"
  rx_handled :: bool

datatype 'u pulled = PUnit 'u | PTimeout | PEmpty | PClosed

text \<open>Microseconds.\<close>

definition IDLE_PURGE_AFTER :: nat where "IDLE_PURGE_AFTER = 2 * 10 ^ 6"

text \<open>A wait without a timeout does not end in silence.\<close>

fun rx_wait :: "nat option \<Rightarrow> 'u arrival list \<Rightarrow> 'u arrival \<times> 'u arrival list" where
  "rx_wait timeout [] = (Gone, [])"
| "rx_wait timeout (a # as) =
     (case (a, timeout) of (Quiet, None) \<Rightarrow> rx_wait timeout as | _ \<Rightarrow> (a, as))"

definition rx_recv :: "nat option \<Rightarrow> 'u unit_rx \<Rightarrow> 'u pulled \<times> 'u unit_rx" where
  "rx_recv timeout rx =
     (if rx_stopping rx then (PClosed, rx)
      else let first = (case timeout of None \<Rightarrow> IDLE_PURGE_AFTER | Some t \<Rightarrow> min t IDLE_PURGE_AFTER);
               (got0, as0) = rx_wait (Some first) (rx_next rx);
               (got, as) = (if got0 = Quiet \<and> first = IDLE_PURGE_AFTER
                            then rx_wait (map_option (\<lambda>t. t - first) timeout) as0 else (got0, as0))
           in case got of
                Arrived u \<Rightarrow> (PUnit u, rx\<lparr>rx_next := as, rx_pending := rx_pending rx - 1\<rparr>)
              | Quiet \<Rightarrow> (PTimeout, rx\<lparr>rx_next := as\<rparr>)
              | Gone \<Rightarrow> (PClosed, rx\<lparr>rx_next := as\<rparr>))"

section \<open>Pulling\<close>

text \<open>
  The thread-local state of a PHP thread: its scoreboard and quota cells, the receiver, the cycle flags
  and the unit handed out; \<open>w_log\<close> keeps the scoreboard events and \<open>w_timed\<close> says that the engine's
  timer runs.
\<close>

record ('u, 'h) worker =
  w_thread :: php_thread
  w_rx :: "'u unit_rx option"
  w_first_call :: bool
  w_recycle :: bool
  w_closed_seen :: bool
  w_received :: bool
  w_unit :: "'h option"
  w_timed :: bool
  w_log :: "event list"

definition emit :: "event \<Rightarrow> ('u, 'h) worker \<Rightarrow> ('u, 'h) worker" where
  "emit ev w = w\<lparr>w_thread := sb_update ev (w_thread w), w_log := w_log w @ [ev]\<rparr>"

definition pull_unit_wait :: "nat option \<Rightarrow> ('u, 'h) worker \<Rightarrow> 'u pulled \<times> ('u, 'h) worker" where
  "pull_unit_wait timeout w =
     (if is_draining (w_thread w) then (PClosed, emit Idle w)
      else case w_rx w of
        None \<Rightarrow> (PClosed, w)
      | Some rx \<Rightarrow>
          let w1 = emit Idle w; (p, rx') = rx_recv timeout rx
          in (p, emit (if p = PClosed then Draining else Active) (w1\<lparr>w_rx := Some rx'\<rparr>)))"

definition pull_unit_to_shed :: "nat \<Rightarrow> ('u, 'h) worker \<Rightarrow> 'u pulled \<times> ('u, 'h) worker" where
  "pull_unit_to_shed timeout w =
     (if is_draining (w_thread w) then (PClosed, w)
      else case w_rx w of
        None \<Rightarrow> (PClosed, w)
      | Some rx \<Rightarrow> (case rx_recv (Some timeout) rx of (p, rx') \<Rightarrow> (p, w\<lparr>w_rx := Some rx'\<rparr>)))"

definition pull_unit_try :: "('u, 'h) worker \<Rightarrow> 'u pulled \<times> ('u, 'h) worker" where
  "pull_unit_try w =
     (if is_draining (w_thread w) then (PClosed, emit Idle w)
      else case w_rx w of
        None \<Rightarrow> (PClosed, w)
      | Some rx \<Rightarrow>
          if rx_stopping rx then (PClosed, emit Draining w)
          else let w1 = emit Idle w in
            (case rx_next rx of
               [] \<Rightarrow> (PClosed, emit Draining w1)
             | Gone # as \<Rightarrow> (PClosed, emit Draining (w1\<lparr>w_rx := Some (rx\<lparr>rx_next := as\<rparr>)\<rparr>))
             | Quiet # as \<Rightarrow> (PEmpty, emit Active (w1\<lparr>w_rx := Some (rx\<lparr>rx_next := as\<rparr>)\<rparr>))
             | Arrived u # as \<Rightarrow>
                 (PUnit u, emit Active
                    (w1\<lparr>w_rx := Some (rx\<lparr>rx_next := as, rx_pending := rx_pending rx - 1\<rparr>)\<rparr>))))"

text \<open>\<open>pull_unit\<close>: a wait without a timeout; anything but a unit ends the loop that calls it.\<close>

definition pull_unit :: "('u, 'h) worker \<Rightarrow> 'u option \<times> ('u, 'h) worker" where
  "pull_unit w = (case pull_unit_wait None w of (PUnit u, w') \<Rightarrow> (Some u, w') | (_, w') \<Rightarrow> (None, w'))"

definition pending_depth :: "('u, 'h) worker \<Rightarrow> 64 word" where
  "pending_depth w = (case w_rx w of Some rx \<Rightarrow> rx_pending rx | None \<Rightarrow> 0)"

subsection \<open>What a pull takes from the queue\<close>

definition queue_of :: "('u, 'h) worker \<Rightarrow> 'u arrival list" where
  "queue_of w = (case w_rx w of Some rx \<Rightarrow> rx_next rx | None \<Rightarrow> [])"

fun units_in :: "'u arrival list \<Rightarrow> 'u list" where
  "units_in [] = []"
| "units_in (Arrived u # as) = u # units_in as"
| "units_in (_ # as) = units_in as"

fun pulled_units :: "'u pulled \<Rightarrow> 'u list" where
  "pulled_units (PUnit u) = [u]"
| "pulled_units _ = []"

lemma units_in_append [simp]: "units_in (xs @ ys) = units_in xs @ units_in ys"
  by (induction xs rule: units_in.induct) auto

definition takes :: "'u list \<Rightarrow> ('u, 'h) worker \<Rightarrow> ('u, 'h) worker \<Rightarrow> bool" where
  "takes us w w' \<longleftrightarrow> (\<exists>used. queue_of w = used @ queue_of w' \<and> units_in used = us)
     \<and> pending_depth w' = pending_depth w - of_nat (length us)
     \<and> (w_rx w' = None \<longleftrightarrow> w_rx w = None)
     \<and> w_unit w' = w_unit w \<and> w_received w' = w_received w \<and> w_closed_seen w' = w_closed_seen w"

lemma takes_refl: "takes [] w w"
  by (simp add: takes_def)

lemma takes_trans: "takes us w w' \<Longrightarrow> takes vs w' w'' \<Longrightarrow> takes (us @ vs) w w''"
  unfolding takes_def by (fastforce intro: exI [of _ "a @ b" for a b] simp: diff_diff_eq)

lemma emit_frame [simp]:
  "w_rx (emit ev w) = w_rx w" "w_unit (emit ev w) = w_unit w" "w_received (emit ev w) = w_received w"
  "w_closed_seen (emit ev w) = w_closed_seen w" "queue_of (emit ev w) = queue_of w"
  "pending_depth (emit ev w) = pending_depth w" "w_log (emit ev w) = w_log w @ [ev]"
  "takes us w (emit ev w') = takes us w w'" "takes us (emit ev w) w' = takes us w w'"
  by (simp_all add: emit_def queue_of_def pending_depth_def takes_def)

lemma rx_wait_takes: "rx_wait t as = (a, bs) \<Longrightarrow> \<exists>used. as = used @ bs
    \<and> units_in used = (case a of Arrived u \<Rightarrow> [u] | _ \<Rightarrow> [])"
proof (induction t "as" rule: rx_wait.induct)
  case (2 t x xs)
  show ?case
  proof (cases "x = Quiet \<and> t = None")
    case True
    with 2 obtain used where "xs = used @ bs" "units_in used = (case a of Arrived u \<Rightarrow> [u] | _ \<Rightarrow> [])"
      by fastforce
    with True show ?thesis by (intro exI [of _ "x # used"]) simp
  next
    case False
    with 2(2) have "x = a" "xs = bs" by (auto split: arrival.splits option.splits)
    then show ?thesis by (intro exI [of _ "[x]"]) (simp split: arrival.split)
  qed
qed simp

lemma rx_recv_takes:
  assumes "rx_recv t rx = (p, rx')"
  shows "\<exists>used. rx_next rx = used @ rx_next rx' \<and> units_in used = pulled_units p
     \<and> rx_pending rx' = rx_pending rx - of_nat (length (pulled_units p))"
proof (cases "rx_stopping rx")
  case True
  with assms show ?thesis by (auto simp: rx_recv_def)
next
  case False
  define first where "first = (case t of None \<Rightarrow> IDLE_PURGE_AFTER | Some t \<Rightarrow> min t IDLE_PURGE_AFTER)"
  obtain g0 as0 where w0: "rx_wait (Some first) (rx_next rx) = (g0, as0)" by fastforce
  obtain g as1 where w1: "(if g0 = Quiet \<and> first = IDLE_PURGE_AFTER
      then rx_wait (map_option (\<lambda>t. t - first) t) as0 else (g0, as0)) = (g, as1)" by fastforce
  have p: "(p, rx') = (case g of
      Arrived u \<Rightarrow> (PUnit u, rx\<lparr>rx_next := as1, rx_pending := rx_pending rx - 1\<rparr>)
    | Quiet \<Rightarrow> (PTimeout, rx\<lparr>rx_next := as1\<rparr>) | Gone \<Rightarrow> (PClosed, rx\<lparr>rx_next := as1\<rparr>))"
    using assms False unfolding rx_recv_def Let_def first_def [symmetric] by (simp add: w0 w1)
  have "\<exists>used. rx_next rx = used @ as1 \<and> units_in used = (case g of Arrived u \<Rightarrow> [u] | _ \<Rightarrow> [])"
  proof (cases "g0 = Quiet \<and> first = IDLE_PURGE_AFTER")
    case True
    from rx_wait_takes [OF w0] obtain used0 where u0: "rx_next rx = used0 @ as0" "units_in used0 = []"
      using True by auto
    from w1 True have "rx_wait (map_option (\<lambda>t. t - first) t) as0 = (g, as1)" by simp
    from rx_wait_takes [OF this] obtain used1 where
      u1: "as0 = used1 @ as1" "units_in used1 = (case g of Arrived u \<Rightarrow> [u] | _ \<Rightarrow> [])" by blast
    from u0 u1 show ?thesis by (intro exI [of _ "used0 @ used1"]) simp
  next
    case False
    with w1 have "g0 = g" "as0 = as1" by auto
    with rx_wait_takes [OF w0] show ?thesis by simp
  qed
  then show ?thesis using p by (cases g) auto
qed

definition sheds :: "('u, 'h) worker \<Rightarrow> nat" where
  "sheds w = count_ev (\<lambda>ev. ev = Shed) (w_log w)"

lemma sheds_emit [simp]: "sheds (emit ev w) = sheds w + (if ev = Shed then 1 else 0)"
  by (simp add: sheds_def count_ev_def)

lemma sheds_frame [simp]:
  "sheds (w\<lparr>w_rx := rx\<rparr>) = sheds w" "sheds (w\<lparr>w_unit := h\<rparr>) = sheds w"
  "sheds (w\<lparr>w_timed := b\<rparr>) = sheds w" "sheds (w\<lparr>w_received := b\<rparr>) = sheds w"
  "sheds (w\<lparr>w_closed_seen := b\<rparr>) = sheds w" "sheds (w\<lparr>w_first_call := b\<rparr>) = sheds w"
  "sheds (w\<lparr>w_recycle := b\<rparr>) = sheds w"
  by (simp_all add: sheds_def)

lemma takes_timed [simp]:
  "takes us w (w'\<lparr>w_timed := b\<rparr>) = takes us w w'" "takes us (w\<lparr>w_timed := b\<rparr>) w' = takes us w w'"
  "takes us w (w'\<lparr>w_first_call := b\<rparr>) = takes us w w'" "takes us (w\<lparr>w_first_call := b\<rparr>) w' = takes us w w'"
  by (simp_all add: takes_def queue_of_def pending_depth_def)

lemma takes_rx:
  "w_rx w = Some rx \<Longrightarrow> rx_next rx = used @ rx_next rx' \<Longrightarrow> units_in used = us
   \<Longrightarrow> rx_pending rx' = rx_pending rx - of_nat (length us) \<Longrightarrow> takes us w (w\<lparr>w_rx := Some rx'\<rparr>)"
  by (auto simp: takes_def queue_of_def pending_depth_def)

lemma emit_rx: "emit ev w\<lparr>w_rx := r\<rparr> = emit ev (w\<lparr>w_rx := r\<rparr>)"
  by (simp add: emit_def)

lemma pull_wait_takes:
  assumes "pull_unit_wait t w = (p, w')"
  shows "takes (pulled_units p) w w' \<and> sheds w' = sheds w"
proof (cases "is_draining (w_thread w)")
  case True
  with assms show ?thesis by (auto simp: pull_unit_wait_def takes_refl)
next
  case nd: False
  show ?thesis
  proof (cases "w_rx w")
    case None
    with nd assms show ?thesis by (auto simp: pull_unit_wait_def takes_refl)
  next
    case (Some rx)
    obtain q rx' where r: "rx_recv t rx = (q, rx')" by fastforce
    with nd Some assms have "q = p"
      and w': "w' = emit (if p = PClosed then Draining else Active) (emit Idle (w\<lparr>w_rx := Some rx'\<rparr>))"
      by (auto simp: pull_unit_wait_def Let_def emit_rx)
    from rx_recv_takes [OF r] \<open>q = p\<close> Some show ?thesis
      by (auto simp: w' intro: takes_rx)
  qed
qed

lemma pull_try_takes:
  assumes "pull_unit_try w = (p, w')"
  shows "takes (pulled_units p) w w' \<and> sheds w' = sheds w"
proof (cases "is_draining (w_thread w) \<or> w_rx w = None \<or> rx_stopping (the (w_rx w))")
  case True
  with assms show ?thesis
    by (auto simp: pull_unit_try_def Let_def takes_refl split: option.splits if_splits)
next
  case False
  then obtain rx where rx: "w_rx w = Some rx" "\<not> rx_stopping rx" by auto
  show ?thesis
  proof (cases "rx_next rx")
    case Nil
    with assms False rx show ?thesis by (auto simp: pull_unit_try_def Let_def takes_refl)
  next
    case (Cons a as)
    have "takes (pulled_units (case a of Arrived u \<Rightarrow> PUnit u | _ \<Rightarrow> PEmpty)) w (w\<lparr>w_rx := Some
        (rx\<lparr>rx_next := as, rx_pending := rx_pending rx - (case a of Arrived u \<Rightarrow> 1 | _ \<Rightarrow> 0)\<rparr>)\<rparr>)"
      by (rule takes_rx [where used = "[a]", OF rx(1)]) (auto simp: Cons split: arrival.split)
    with assms False rx Cons show ?thesis
      by (cases a) (auto simp: pull_unit_try_def Let_def emit_rx)
  qed
qed

lemma pull_shed_takes:
  assumes "pull_unit_to_shed t w = (p, w')"
  shows "takes (pulled_units p) w w' \<and> sheds w' = sheds w"
  using assms
  by (auto simp: pull_unit_to_shed_def takes_refl split: if_splits option.splits prod.splits
      dest!: rx_recv_takes intro: takes_rx)

lemma pull_unit_takes:
  "pull_unit w = (r, w') \<Longrightarrow> takes (case r of Some u \<Rightarrow> [u] | None \<Rightarrow> []) w w' \<and> sheds w' = sheds w"
  by (auto simp: pull_unit_def takes_def split: prod.splits pulled.splits dest!: pull_wait_takes)

section \<open>Units of work\<close>

text \<open>
  The traits \<open>Work\<close> (a queued unit) and \<open>Held\<close> (the unit \<open>receive()\<close> attached to its object). The
  discard reports to the scoreboard, so it also returns its events.
\<close>

record ('u, 'h) unit_ops =
  un_cancelled :: "'u \<Rightarrow> bool \<times> 'u"
  un_attach :: "'u \<Rightarrow> 'h"
  hd_settled :: "'h \<Rightarrow> bool"
  hd_cancelled :: "'h \<Rightarrow> bool \<times> 'h"
  hd_discard :: "'h \<Rightarrow> event list \<times> 'h"

locale held_unit =
  fixes W :: "('u, 'h) unit_ops"
  assumes attach_open: "\<not> hd_settled W (un_attach W u)"
    and cancelled_settled: "hd_settled W (snd (hd_cancelled W h)) = hd_settled W h"
    and discard_settles: "hd_settled W (snd (hd_discard W h))"
    and discard_reports: "\<not> hd_settled W h \<Longrightarrow> fst (hd_discard W h) = [Handled True]"

text \<open>
  A queued HTTP exchange: its request, the sender of its reply and, for the worker and classic modes, the
  CGI view built for the script.
\<close>

type_synonym ('m, 'tx) http_exchange = "'m request \<times> 'tx \<times> reqc option"

definition exchange_queue ::
  "'m header_ops \<Rightarrow> 'm request \<Rightarrow> 'tx \<Rightarrow> bytes option \<Rightarrow> ('m, 'tx) http_exchange" where
  "exchange_queue H req tx script = (req, tx, map_option (reqc_build H req) script)"

definition http_unit ::
  "('tx, 'm frame) tx_ops \<Rightarrow> (('m, 'tx) http_exchange, ('m, 'tx) exchange_state) unit_ops" where
  "http_unit T =
     \<lparr>un_cancelled = (\<lambda>(req, tx, cgi). case tx_is_closed T tx of (b, tx') \<Rightarrow> (b, (req, tx', cgi))),
      un_attach = (\<lambda>(req, tx, _). exchange_new req tx),
      hd_settled = settled, hd_cancelled = cancelled T,
      hd_discard = (\<lambda>st. let st' = discard_unit st in (drop (length (x_events st)) (x_events st'), st'))\<rparr>"

definition http_into_cgi :: "'m header_ops \<Rightarrow> ('m, 'tx) http_exchange \<Rightarrow> ('m, 'tx) php_context" where
  "http_into_cgi H u = (case u of (req, tx, cgi) \<Rightarrow>
     context_new req tx (case cgi of Some c \<Rightarrow> c | None \<Rightarrow> reqc_build H req []))"

definition http_shed ::
  "'m header_ops \<Rightarrow> ('tx, 'm frame) tx_ops \<Rightarrow> ('m, 'tx) http_exchange \<Rightarrow> ('m, 'tx) php_context" where
  "http_shed H T u = ctx_finish H T False (send_error_head H 503 (http_into_cgi H u))"

text \<open>A shed exchange is answered with 503 and an empty body, as far as its channel takes it.\<close>

lemma http_shed_is_503:
  assumes "header_map H" "response_channel T delivered closed" "delivered tx = []"
  shows "\<exists>k m. delivered (c_chan (http_shed H T (req, tx, cgi)))
      = take k [Head \<lparr>rh_status = 503, rh_headers = m\<rparr> (if rq_method req = ''HEAD'' then None else Some 0)
                     (rq_method req = ''HEAD''), End False]
    \<and> (k < 2 \<longrightarrow> closed (c_chan (http_shed H T (req, tx, cgi))))"
proof -
  define c where "c = send_error_head H 503 (http_into_cgi H (req, tx, cgi))"
  define h where "h = \<lparr>rh_status = 503, rh_headers = h_remove H (h_empty H) ''status''\<rparr>"
  have c: "c_sender c" "c_head c = Some h" "c_body c = []" "c_chan c = tx" "c_req c = req"
    by (simp_all add: c_def h_def http_into_cgi_def send_error_head_def context_new_def commit_head_def
        header_map.get_all_empty [OF assms(1)])
  have hf: "head_frame H req [] False h
     = Head h (if rq_method req = ''HEAD'' then None else Some 0) (rq_method req = ''HEAD'')"
    using header_map.get_first [OF assms(1)] header_map.get_all_remove [OF assms(1)]
      header_map.get_all_empty [OF assms(1)]
    by (simp add: head_frame_def Let_def no_content_def h_def)
  from response_channel.ctx_finish_frames [OF assms(2) c(1), of H False] obtain k fs where
    fs: "fs = [head_frame H req [] False h, End False]"
    and k: "delivered (c_chan (ctx_finish H T False c)) = take k fs"
      "k < length fs \<longrightarrow> closed (c_chan (ctx_finish H T False c))"
    unfolding c assms(3) by auto
  have "delivered (c_chan (ctx_finish H T False c)) = take k [head_frame H req [] False h, End False]
      \<and> (k < 2 \<longrightarrow> closed (c_chan (ctx_finish H T False c)))"
    using k unfolding fs by simp
  then show ?thesis unfolding http_shed_def c_def [symmetric] hf unfolding h_def by blast
qed

interpretation hu: held_unit "http_unit T"
  by unfold_locales
    (auto simp: http_unit_def settled_def exchange_new_def cancelled_def discard_unit_def Let_def
       unlink_body_def split: prod.splits)

text \<open>A queued gRPC call is its metadata and the sender of its reply.\<close>

definition grpc_unit ::
  "('tx, 'r) oneshot_ops \<Rightarrow> ('m \<times> 'tx, ('m, 'tx) grpc_state) unit_ops" where
  "grpc_unit C =
     \<lparr>un_cancelled = (\<lambda>(m, tx). case grpc_cancelled C (grpc_new m tx) of (b, st) \<Rightarrow> (b, (m, g_chan st))),
      un_attach = (\<lambda>(m, tx). grpc_new m tx),
      hd_settled = grpc_settled, hd_cancelled = grpc_cancelled C,
      hd_discard = (\<lambda>st. let st' = grpc_discard st in (drop (length (g_events st)) (g_events st'), st'))\<rparr>"

interpretation gu: held_unit "grpc_unit C"
  by unfold_locales
    (auto simp: grpc_unit_def grpc_settled_def grpc_new_def grpc_cancelled_def grpc_discard_def Let_def
       split: prod.splits)

section \<open>The verb \<open>receive()\<close>\<close>

datatype recv_mode = WaitFor int | TryNow

datatype received = GotUnit | GotNull | ThrewClosed | ThrewTimeout | ThrewBusy | ThrewBadTimeout

definition recv_pull :: "recv_mode \<Rightarrow> bool \<Rightarrow> ('u, 'h) worker \<Rightarrow> 'u pulled \<times> ('u, 'h) worker" where
  "recv_pull mode armed w = (case mode of
       TryNow \<Rightarrow> pull_unit_try w
     | WaitFor t \<Rightarrow>
         if armed \<or> t = 0 then pull_unit_try w
         else if t = - 1 then pull_unit_wait None w
         else pull_unit_wait (Some (nat t)) w)"

lemma recv_pull_takes:
  "recv_pull mode armed w = (p, w') \<Longrightarrow> takes (pulled_units p) w w' \<and> sheds w' = sheds w"
  by (auto simp: recv_pull_def split: recv_mode.splits if_splits dest: pull_try_takes pull_wait_takes)

lemma units_in_length: "length (units_in as) \<le> length as"
  by (induction "as" rule: units_in.induct) auto

lemma takes_length: "takes us w w' \<Longrightarrow> length (queue_of w') + length us \<le> length (queue_of w)"
  using units_in_length by (fastforce simp: takes_def)

lemma queue_of_timed [simp]: "queue_of (w\<lparr>w_timed := b\<rparr>) = queue_of w"
  by (simp add: queue_of_def)

function receive_loop ::
  "('u, 'h) unit_ops \<Rightarrow> recv_mode \<Rightarrow> bool \<Rightarrow> ('u, 'h) worker \<Rightarrow> received \<times> ('u, 'h) worker" where
  "receive_loop W mode armed w = (case recv_pull mode armed w of
       (PUnit u, w1) \<Rightarrow>
         (case un_cancelled W u of
            (True, _) \<Rightarrow> receive_loop W mode armed (emit Shed w1)
          | (False, u') \<Rightarrow> (GotUnit, w1\<lparr>w_timed := True, w_unit := Some (un_attach W u'), w_received := True\<rparr>))
     | (p, w1) \<Rightarrow>
         if armed then receive_loop W mode False (w1\<lparr>w_timed := False\<rparr>)
         else if p = PClosed then (ThrewClosed, w1\<lparr>w_closed_seen := True\<rparr>)
         else if p = PEmpty \<and> mode = TryNow then (GotNull, w1)
         else (ThrewTimeout, w1))"
  by pat_completeness auto
termination
  by (relation "measure (\<lambda>(W, mode, armed, w). 2 * length (queue_of w) + (if armed then 1 else 0))")
    (auto dest!: recv_pull_takes [OF sym] takes_length)

declare receive_loop.simps [simp del]

text \<open>The two tests of the held unit at the head of \<open>receive_into\<close>: discard it when its client left.\<close>

definition drop_abandoned :: "('u, 'h) unit_ops \<Rightarrow> ('u, 'h) worker \<Rightarrow> ('u, 'h) worker" where
  "drop_abandoned W w = (case w_unit w of
       Some h \<Rightarrow>
         if hd_settled W h then w
         else (case hd_cancelled W h of
             (False, h1) \<Rightarrow> w\<lparr>w_unit := Some h1\<rparr>
           | (True, h1) \<Rightarrow> (case hd_discard W h1 of
               (evs, h2) \<Rightarrow> fold emit evs (w\<lparr>w_unit := Some h2\<rparr>)))
     | None \<Rightarrow> w)"

definition receive_into ::
  "('u, 'h) unit_ops \<Rightarrow> recv_mode \<Rightarrow> ('u, 'h) worker \<Rightarrow> received \<times> ('u, 'h) worker" where
  "receive_into W mode w0 =
     (let w = drop_abandoned W w0 in
      if (case w_unit w of Some h \<Rightarrow> \<not> hd_settled W h | None \<Rightarrow> False) then (ThrewBusy, w)
      else let armed = (case mode of WaitFor t \<Rightarrow> t \<noteq> 0 | TryNow \<Rightarrow> False);
               w1 = (if armed then w else w\<lparr>w_timed := False\<rparr>)
           in receive_loop W mode armed w1)"

definition rapira_receive ::
  "('u, 'h) unit_ops \<Rightarrow> int \<Rightarrow> ('u, 'h) worker \<Rightarrow> received \<times> ('u, 'h) worker" where
  "rapira_receive W timeout_us w =
     (if timeout_us < - 1 then (ThrewBadTimeout, w) else receive_into W (WaitFor timeout_us) w)"

definition rapira_try_receive :: "('u, 'h) unit_ops \<Rightarrow> ('u, 'h) worker \<Rightarrow> received \<times> ('u, 'h) worker" where
  "rapira_try_receive W w = receive_into W TryNow w"

text \<open>\<open>dispatcher_info\<close>: the pending counter as an \<open>i64\<close>, and the units in hand, zero or one.\<close>

definition dispatcher_info :: "('u, 'h) unit_ops \<Rightarrow> ('u, 'h) worker \<Rightarrow> (int \<times> int) \<times> ('u, 'h) worker" where
  "dispatcher_info W w = (case w_unit w of
       None \<Rightarrow> ((sint (pending_depth w), 0), w)
     | Some h \<Rightarrow>
         if hd_settled W h then ((sint (pending_depth w), 0), w)
         else (case hd_cancelled W h of (b, h1) \<Rightarrow>
           ((sint (pending_depth w), if b then 0 else 1), w\<lparr>w_unit := Some h1\<rparr>)))"

subsection \<open>What a receive hands out\<close>

definition hands_out ::
  "('u, 'h) unit_ops \<Rightarrow> ('u, 'h) worker \<Rightarrow> 'u list \<Rightarrow> 'u list \<Rightarrow> ('u, 'h) worker \<Rightarrow> bool" where
  "hands_out W w skipped got w' \<longleftrightarrow>
     (\<exists>used. queue_of w = used @ queue_of w' \<and> units_in used = skipped @ got)
     \<and> list_all (\<lambda>u. fst (un_cancelled W u)) skipped \<and> sheds w' = sheds w + length skipped
     \<and> pending_depth w' = pending_depth w - of_nat (length skipped + length got)
     \<and> (case got of
          [] \<Rightarrow> w_unit w' = w_unit w \<and> w_received w' = w_received w
        | [u] \<Rightarrow> \<not> fst (un_cancelled W u) \<and> w_received w'
                \<and> w_unit w' = Some (un_attach W (snd (un_cancelled W u)))
        | _ \<Rightarrow> False)"

lemma hands_out_nothing: "takes [] w w' \<Longrightarrow> sheds w' = sheds w \<Longrightarrow> hands_out W w [] [] w'"
  by (simp add: hands_out_def takes_def)

lemma hands_out_frame [simp]:
  "hands_out W w sk got (w'\<lparr>w_closed_seen := b\<rparr>) = hands_out W w sk got w'"
  "hands_out W (w\<lparr>w_timed := b\<rparr>) sk got w' = hands_out W w sk got w'"
  "hands_out W w sk got (w'\<lparr>w_timed := b\<rparr>) = hands_out W w sk got w'"
  by (simp_all add: hands_out_def queue_of_def pending_depth_def cong: list.case_cong)

lemma hands_out_one:
  "takes [u] w w' \<Longrightarrow> sheds w' = sheds w \<Longrightarrow> un_cancelled W u = (False, u')
   \<Longrightarrow> hands_out W w [] [u] (w'\<lparr>w_timed := b, w_unit := Some (un_attach W u'), w_received := True\<rparr>)"
  by (auto simp: hands_out_def takes_def queue_of_def pending_depth_def)

lemma hands_out_skip:
  assumes "takes us w w1" "sheds w1 = sheds w" "list_all (\<lambda>u. fst (un_cancelled W u)) us"
    "w2 = fold (\<lambda>_. emit Shed) us w1" "hands_out W w2 sk got w'"
  shows "hands_out W w (us @ sk) got w'"
proof -
  have f: "queue_of w2 = queue_of w1 \<and> pending_depth w2 = pending_depth w1 \<and> w_unit w2 = w_unit w1
      \<and> w_received w2 = w_received w1 \<and> sheds w2 = sheds w1 + length us"
    unfolding assms(4) by (induction us arbitrary: w1) simp_all
  from assms(1) obtain u1 where u1: "queue_of w = u1 @ queue_of w1" "units_in u1 = us"
    and t: "pending_depth w1 = pending_depth w - of_nat (length us)" "w_unit w1 = w_unit w"
      "w_received w1 = w_received w"
    by (auto simp: takes_def)
  from assms(5) obtain u2 where u2: "queue_of w1 = u2 @ queue_of w'" "units_in u2 = sk @ got"
    by (auto simp: hands_out_def f)
  have "\<exists>used. queue_of w = used @ queue_of w' \<and> units_in used = (us @ sk) @ got"
    using u1 u2 by (intro exI [of _ "u1 @ u2"]) simp
  then show ?thesis using assms(2,3,5) t f
    by (auto simp: hands_out_def algebra_simps split: list.splits)
qed

text \<open>The timer runs after a receive exactly when a unit was handed out.\<close>

lemma pull_timed: "recv_pull mode armed w = (p, w') \<Longrightarrow> w_timed w' = w_timed w"
  by (auto simp: recv_pull_def pull_unit_try_def pull_unit_wait_def emit_def Let_def
      split: recv_mode.splits if_splits option.splits list.splits arrival.splits prod.splits)

lemma receive_loop_hands_out:
  assumes "receive_loop W mode armed w = (r, w')" "armed \<or> \<not> w_timed w"
  shows "\<exists>sk got. hands_out W w sk got w' \<and> (r = GotUnit \<longleftrightarrow> got \<noteq> []) \<and> (w_timed w' \<longleftrightarrow> r = GotUnit)
    \<and> r \<in> {GotUnit, GotNull, ThrewClosed, ThrewTimeout} \<and> (r = ThrewClosed \<longrightarrow> w_closed_seen w')
    \<and> (r = GotNull \<longrightarrow> mode = TryNow)"
  using assms
proof (induction "2 * length (queue_of w) + (if armed then 1 else 0::nat)" arbitrary: armed w
    rule: less_induct)
  case less
  obtain p w1 where pull: "recv_pull mode armed w = (p, w1)" by fastforce
  note t = recv_pull_takes [OF pull] and tm = pull_timed [OF pull]
  have len: "length (queue_of w1) + length (pulled_units p) \<le> length (queue_of w)"
    using t takes_length by blast
  show ?case
  proof (cases "\<exists>u. p = PUnit u")
    case True
    then obtain u where PUnit: "p = PUnit u" by blast
    obtain b u' where c: "un_cancelled W u = (b, u')" by fastforce
    show ?thesis
    proof (cases b)
      case True
      have "receive_loop W mode armed (emit Shed w1) = (r, w')"
        using less.prems(1) by (subst (asm) receive_loop.simps) (simp add: pull PUnit c True)
      moreover have "w_timed (emit Shed w1) = w_timed w" using tm by (simp add: emit_def)
      ultimately obtain sk got where "hands_out W (emit Shed w1) sk got w'"
        "r = GotUnit \<longleftrightarrow> got \<noteq> []" "w_timed w' \<longleftrightarrow> r = GotUnit"
        "r \<in> {GotUnit, GotNull, ThrewClosed, ThrewTimeout}" "r = ThrewClosed \<longrightarrow> w_closed_seen w'"
        "r = GotNull \<longrightarrow> mode = TryNow"
        using less.hyps [of "emit Shed w1" armed] less.prems(2) len PUnit by auto
      moreover from this(1) have "hands_out W w ([u] @ sk) got w'"
        using t PUnit c True by (intro hands_out_skip [of "[u]"]) auto
      ultimately show ?thesis by blast
    next
      case False
      have e: "(r, w') = (GotUnit, w1\<lparr>w_timed := True, w_unit := Some (un_attach W u'), w_received := True\<rparr>)"
        using less.prems(1) by (subst (asm) receive_loop.simps) (simp add: pull PUnit c False)
      have "hands_out W w [] [u] w'"
        using hands_out_one [of u w w1 W u' True] t PUnit c False e by simp
      with e show ?thesis by (intro exI [of _ "[]"] exI [of _ "[u]"]) simp
    qed
  next
    case False
    then have nil: "pulled_units p = []" by (cases p) auto
    have e: "receive_loop W mode armed w =
       (if armed then receive_loop W mode False (w1\<lparr>w_timed := False\<rparr>)
        else if p = PClosed then (ThrewClosed, w1\<lparr>w_closed_seen := True\<rparr>)
        else if p = PEmpty \<and> mode = TryNow then (GotNull, w1)
        else (ThrewTimeout, w1))"
      using False by (subst receive_loop.simps) (simp add: pull split: pulled.split)
    show ?thesis
    proof (cases armed)
      case True
      have "receive_loop W mode False (w1\<lparr>w_timed := False\<rparr>) = (r, w')"
        using less.prems(1) e True by simp
      then obtain sk got where "hands_out W (w1\<lparr>w_timed := False\<rparr>) sk got w'"
        "r = GotUnit \<longleftrightarrow> got \<noteq> []" "w_timed w' \<longleftrightarrow> r = GotUnit"
        "r \<in> {GotUnit, GotNull, ThrewClosed, ThrewTimeout}" "r = ThrewClosed \<longrightarrow> w_closed_seen w'"
        "r = GotNull \<longrightarrow> mode = TryNow"
        using less.hyps [of "w1\<lparr>w_timed := False\<rparr>" False] len nil True by auto
      moreover from this(1) have "hands_out W w ([] @ sk) got w'"
        using t nil by (intro hands_out_skip [of "[]"]) auto
      ultimately show ?thesis by auto
    next
      case False
      have "hands_out W w [] [] w1" using t nil by (simp add: hands_out_nothing)
      moreover have "\<not> w_timed w1" using tm False less.prems(2) by simp
      ultimately show ?thesis using less.prems(1) e False
        by (intro exI [of _ "[]"]) (auto split: if_splits)
    qed
  qed
qed

text \<open>A unit in hand that is still open.\<close>

definition in_hand :: "('u, 'h) unit_ops \<Rightarrow> ('u, 'h) worker \<Rightarrow> bool" where
  "in_hand W w \<longleftrightarrow> (case w_unit w of Some h \<Rightarrow> \<not> hd_settled W h | None \<Rightarrow> False)"

definition abandoned :: "('u, 'h) unit_ops \<Rightarrow> ('u, 'h) worker \<Rightarrow> bool" where
  "abandoned W w \<longleftrightarrow> (case w_unit w of Some h \<Rightarrow> \<not> hd_settled W h \<and> fst (hd_cancelled W h) | None \<Rightarrow> False)"

context held_unit
begin

lemma drop_abandoned_effect:
  "queue_of (drop_abandoned W w) = queue_of w \<and> pending_depth (drop_abandoned W w) = pending_depth w
   \<and> sheds (drop_abandoned W w) = sheds w \<and> w_received (drop_abandoned W w) = w_received w
   \<and> w_log (drop_abandoned W w) = w_log w @ (if abandoned W w then [Handled True] else [])
   \<and> (in_hand W (drop_abandoned W w) \<longleftrightarrow> in_hand W w \<and> \<not> abandoned W w)"
proof (cases "w_unit w")
  case None
  then show ?thesis by (simp add: drop_abandoned_def abandoned_def in_hand_def)
next
  case (Some h)
  obtain b h1 where c: "hd_cancelled W h = (b, h1)" by fastforce
  obtain evs h2 where d: "hd_discard W h1 = (evs, h2)" by fastforce
  have s1: "hd_settled W h1 = hd_settled W h" using cancelled_settled [of h] c by simp
  have s2: "hd_settled W h2" using discard_settles [of h1] d by simp
  have evs: "evs = [Handled True]" if "\<not> hd_settled W h"
    using discard_reports [of h1] that s1 d by simp
  show ?thesis
    using Some c d s1 s2 evs
    by (cases "hd_settled W h"; cases b)
      (simp_all add: drop_abandoned_def abandoned_def in_hand_def queue_of_def pending_depth_def emit_def
         sheds_def count_ev_def)
qed

lemma receive_into_hands_out:
  assumes "receive_into W mode w = (r, w')"
  shows "if in_hand W w \<and> \<not> abandoned W w
    then r = ThrewBusy \<and> w' = drop_abandoned W w
    else \<exists>sk got. hands_out W (drop_abandoned W w) sk got w'
      \<and> (r = GotUnit \<longleftrightarrow> got \<noteq> []) \<and> (w_timed w' \<longleftrightarrow> r = GotUnit)
      \<and> r \<in> {GotUnit, GotNull, ThrewClosed, ThrewTimeout} \<and> (r = ThrewClosed \<longrightarrow> w_closed_seen w')
      \<and> (r = GotNull \<longrightarrow> mode = TryNow)"
proof (cases "in_hand W w \<and> \<not> abandoned W w")
  case True
  with assms drop_abandoned_effect [of w] show ?thesis
    by (simp add: receive_into_def Let_def in_hand_def [symmetric])
next
  case False
  let ?w = "drop_abandoned W w"
  define armed where "armed = (case mode of WaitFor t \<Rightarrow> t \<noteq> 0 | TryNow \<Rightarrow> False)"
  have nb: "\<not> in_hand W ?w" using drop_abandoned_effect [of w] False by simp
  have "receive_loop W mode armed (if armed then ?w else ?w\<lparr>w_timed := False\<rparr>) = (r, w')"
    using assms nb unfolding receive_into_def Let_def in_hand_def [symmetric] armed_def [symmetric] by simp
  from receive_loop_hands_out [OF this] have "\<exists>sk got. hands_out W
        (if armed then ?w else ?w\<lparr>w_timed := False\<rparr>) sk got w'
      \<and> (r = GotUnit \<longleftrightarrow> got \<noteq> []) \<and> (w_timed w' \<longleftrightarrow> r = GotUnit)
      \<and> r \<in> {GotUnit, GotNull, ThrewClosed, ThrewTimeout} \<and> (r = ThrewClosed \<longrightarrow> w_closed_seen w')
      \<and> (r = GotNull \<longrightarrow> mode = TryNow)" by simp
  then obtain sk got where
    "hands_out W (if armed then ?w else ?w\<lparr>w_timed := False\<rparr>) sk got w'"
    "(r = GotUnit \<longleftrightarrow> got \<noteq> []) \<and> (w_timed w' \<longleftrightarrow> r = GotUnit)
      \<and> r \<in> {GotUnit, GotNull, ThrewClosed, ThrewTimeout} \<and> (r = ThrewClosed \<longrightarrow> w_closed_seen w')
      \<and> (r = GotNull \<longrightarrow> mode = TryNow)" by blast
  moreover from this(1) have "hands_out W ?w sk got w'" by (cases armed) simp_all
  ultimately have "\<exists>sk got. hands_out W ?w sk got w'
      \<and> (r = GotUnit \<longleftrightarrow> got \<noteq> []) \<and> (w_timed w' \<longleftrightarrow> r = GotUnit)
      \<and> r \<in> {GotUnit, GotNull, ThrewClosed, ThrewTimeout} \<and> (r = ThrewClosed \<longrightarrow> w_closed_seen w')
      \<and> (r = GotNull \<longrightarrow> mode = TryNow)" by blast
  then show ?thesis unfolding if_not_P [OF False] .
qed

end

text \<open>
  C23: receive() in dispatcher mode, for the HTTP exchange. A timeout below -1 is refused before anything happens. A held
  exchange that is open refuses the call, unless its client left: then it is discarded and reported once
  as an error. Otherwise the receive takes units from the front of the queue: it skips exactly the ones
  whose client left, with one Shed each, and hands out the next one, attached; the pending counter goes
  down by the units taken; the engine's timer runs afterwards exactly when a unit was handed out; only a
  closed queue sets the flag that stops the worker.
\<close>

theorem receive_hands_out_one_unit:
  assumes "rapira_receive (http_unit T) t w = (r, w')"
  shows "if t < - 1 then r = ThrewBadTimeout \<and> w' = w
    else let W = http_unit T; w1 = drop_abandoned W w in
      w_log w1 = w_log w @ (if abandoned W w then [Handled True] else []) \<and> queue_of w1 = queue_of w
      \<and> (if in_hand W w \<and> \<not> abandoned W w then r = ThrewBusy \<and> w' = w1
         else \<exists>sk got. hands_out W w1 sk got w'
           \<and> (r = GotUnit \<longleftrightarrow> got \<noteq> []) \<and> (w_timed w' \<longleftrightarrow> r = GotUnit)
           \<and> r \<in> {GotUnit, ThrewClosed, ThrewTimeout} \<and> (r = ThrewClosed \<longrightarrow> w_closed_seen w'))"
proof (cases "t < - 1")
  case True
  with assms show ?thesis by (auto simp: rapira_receive_def)
next
  case False
  with assms have "receive_into (http_unit T) (WaitFor t) w = (r, w')" by (simp add: rapira_receive_def)
  from hu.receive_into_hands_out [OF this] hu.drop_abandoned_effect [of T w] False show ?thesis
    unfolding Let_def by (auto split: if_splits)
qed

definition sample_worker ::
  "(((bytes \<times> bytes) list, (bytes \<times> bytes) list frame script_chan) http_exchange,
    ((bytes \<times> bytes) list, (bytes \<times> bytes) list frame script_chan) exchange_state) worker" where
  "sample_worker =
     \<lparr>w_thread = \<lparr>t_slot = Some slot_default, t_draining = False,
        t_quota = \<lparr>q_served = 0, q_max = 0, q_draining = False, q_unhealthy = False\<rparr>, t_handled = Some False\<rparr>,
      w_rx = Some \<lparr>rx_stopping = False,
        rx_next = [Arrived (sample_request, script_open 4 (Some 0), None), Quiet, Quiet,
                   Arrived (sample_request, script_open 4 None, None), Quiet],
        rx_pending = 2, rx_handled = False\<rparr>,
      w_first_call = True, w_recycle = False, w_closed_seen = False, w_received = False, w_unit = None,
      w_timed = False, w_log = []\<rparr>"

lemma receive_hands_out_one_unit_witness:
  "fst (rapira_receive (http_unit script_tx) (- 1) sample_worker) = GotUnit
   \<and> (\<exists>sk got. hands_out (http_unit script_tx) (drop_abandoned (http_unit script_tx) sample_worker) sk got
         (snd (rapira_receive (http_unit script_tx) (- 1) sample_worker)) \<and> got \<noteq> [])"
proof -
  have r: "fst (rapira_receive (http_unit script_tx) (- 1) sample_worker) = GotUnit" by code_simp
  have "\<not> in_hand (http_unit script_tx) sample_worker" by code_simp
  with receive_hands_out_one_unit [of script_tx "- 1" sample_worker, OF surjective_pairing] r
  show ?thesis by (auto simp: Let_def)
qed

section \<open>The request loop of the worker mode\<close>

text \<open>
  What the PHP engine did for one request: for each of its four steps the SAPI calls it made and how it
  ended.
\<close>

datatype engine = EngOk | EngThrow | EngBailout

record cgi_job =
  jb_activate :: "sapi_call list \<times> engine"
  jb_handler :: "sapi_call list \<times> engine"
  jb_flush :: "sapi_call list \<times> engine"
  jb_teardown :: "sapi_call list \<times> engine"

text \<open>
  \<open>next_unit\<close>. The first call of a cycle tears down the bootstrap request; \<open>boot_bails\<close> says that it
  bailed.
\<close>

function next_unit_loop :: "('u, 'h) unit_ops \<Rightarrow> ('u, 'h) worker \<Rightarrow> 'u option \<times> ('u, 'h) worker" where
  "next_unit_loop W w = (case pull_unit w of
       (Some u, w1) \<Rightarrow>
         (case un_cancelled W u of
            (True, _) \<Rightarrow> next_unit_loop W (emit Shed w1)
          | (False, u') \<Rightarrow> (Some u', w1\<lparr>w_received := True\<rparr>))
     | (None, w1) \<Rightarrow> (None, w1\<lparr>w_closed_seen := True\<rparr>))"
  by pat_completeness auto
termination
  by (relation "measure (\<lambda>(W, w). length (queue_of w))") (auto dest!: pull_unit_takes [OF sym] takes_length)

declare next_unit_loop.simps [simp del]

definition next_unit ::
  "('u, 'h) unit_ops \<Rightarrow> bool \<Rightarrow> ('u, 'h) worker \<Rightarrow> 'u option \<times> ('u, 'h) worker" where
  "next_unit W boot_bails w =
     (let w1 = w\<lparr>w_first_call := False\<rparr> in
      if w_first_call w \<and> boot_bails then (None, w1\<lparr>w_recycle := True\<rparr>)
      else next_unit_loop W w1)"

text \<open>The engine's part of \<open>handle_request_impl\<close>: the context it leaves and whether it must recycle.\<close>

definition run_handler ::
  "'m header_ops \<Rightarrow> ('tx, 'm frame) tx_ops \<Rightarrow> cgi_job \<Rightarrow> ('m, 'tx) php_context
   \<Rightarrow> ('m, 'tx) php_context \<times> bool \<times> bool" where
  "run_handler H T job c0 =
     (let c1 = sapi_run H T (fst (jb_activate job)) c0;
          (c2, outcome) = (if snd (jb_activate job) = EngBailout then (c1, EngBailout)
                           else (sapi_run H T (fst (jb_handler job)) c1, snd (jb_handler job)));
          c3 = c2\<lparr>c_tearing_down := True\<rparr>;
          (c4, flushed) = (if outcome = EngOk then (c3, EngOk)
                           else (sapi_run H T (fst (jb_flush job)) c3, snd (jb_flush job)));
          c5 = c4\<lparr>c_errored := outcome \<noteq> EngOk \<or> flushed = EngBailout\<rparr>;
          c6 = sapi_run H T (fst (jb_teardown job)) c5;
          recycle = (EngBailout \<in> {outcome, flushed, snd (jb_teardown job)})
      in (c6, recycle, recycle \<or> outcome = EngThrow))"

definition serve_unit ::
  "'m header_ops \<Rightarrow> ('tx, 'm frame) tx_ops \<Rightarrow> cgi_job \<Rightarrow> ('m, 'tx) php_context \<Rightarrow> ('u, 'h) worker
   \<Rightarrow> ('m, 'tx) php_context \<times> ('u, 'h) worker" where
  "serve_unit H T job c0 w =
     (case run_handler H T job c0 of (c, recycle, errored) \<Rightarrow>
        case finalize_response H errored c of (c', truncated) \<Rightarrow>
          let w1 = emit (Handled errored) w;
              w2 = (if recycle then w1\<lparr>w_recycle := True\<rparr> else w1)
          in (ctx_finish H T truncated c', w2))"

datatype handle_action = HContinue | HStop | HRecycle

definition handle_request ::
  "'m header_ops \<Rightarrow> ('tx, 'm frame) tx_ops \<Rightarrow> ('u, 'h) unit_ops \<Rightarrow> ('u \<Rightarrow> ('m, 'tx) php_context)
   \<Rightarrow> bool \<Rightarrow> cgi_job \<Rightarrow> ('u, 'h) worker
   \<Rightarrow> handle_action \<times> ('m, 'tx) php_context option \<times> ('u, 'h) worker" where
  "handle_request H T W into_cgi boot_bails job w =
     (case next_unit W boot_bails w of
        (None, w1) \<Rightarrow> (if w_recycle w1 then HRecycle else HStop, None, w1)
      | (Some u, w1) \<Rightarrow>
          (case serve_unit H T job (into_cgi u) w1 of (c, w2) \<Rightarrow>
             (if fst (snd (run_handler H T job (into_cgi u))) then HRecycle else HContinue, Some c, w2)))"

section \<open>The classic mode\<close>

record classic_job =
  cj_startup :: "sapi_call list \<times> bool"
  cj_script :: "sapi_call list \<times> bool"
  cj_fatal :: bool
  cj_shutdown :: "sapi_call list"

definition classic_executor ::
  "'m header_ops \<Rightarrow> ('tx, 'm frame) tx_ops \<Rightarrow> classic_job \<Rightarrow> ('m, 'tx) php_context
   \<Rightarrow> ('m, 'tx) php_context \<times> bool \<times> bool" where
  "classic_executor H T job c0 =
     (let c1 = sapi_run H T (fst (cj_startup job)) c0 in
      if \<not> snd (cj_startup job)
      then (sapi_run H T (cj_shutdown job) (send_error_head H 500 c1), True, False)
      else let c2 = sapi_run H T (fst (cj_script job)) c1;
               failed = (\<not> snd (cj_script job));
               c3 = c2\<lparr>c_tearing_down := True, c_errored := failed \<and> cj_fatal job\<rparr>;
               c4 = sapi_run H T (cj_shutdown job) c3;
               errored = c_errored c4;
               (c5, truncated) = finalize_response H errored c4
           in (c5, errored, truncated))"

text \<open>
  \<open>classic_worker\<close>, until a pull gives no unit. The jobs are what the engine does for the units served;
  the result also has their contexts, and whether the loop ended before the jobs did.
\<close>

function classic_worker ::
  "'m header_ops \<Rightarrow> ('tx, 'm frame) tx_ops \<Rightarrow> ('u, 'h) unit_ops \<Rightarrow> ('u \<Rightarrow> ('m, 'tx) php_context)
   \<Rightarrow> (nat \<Rightarrow> classic_job) \<Rightarrow> nat \<Rightarrow> ('u, 'h) worker \<Rightarrow> ('m, 'tx) php_context list \<times> ('u, 'h) worker" where
  "classic_worker H T W into_cgi jobs n w = (case pull_unit w of
       (None, w1) \<Rightarrow> ([], w1)
     | (Some u, w1) \<Rightarrow>
         (case un_cancelled W u of
            (True, _) \<Rightarrow> classic_worker H T W into_cgi jobs n (emit Shed w1)
          | (False, u') \<Rightarrow>
              (case classic_executor H T (jobs n) (into_cgi u') of (c, errored, truncated) \<Rightarrow>
                 (case classic_worker H T W into_cgi jobs (n + 1) (emit (Handled errored) w1) of
                    (cs, w') \<Rightarrow> (ctx_finish H T truncated c # cs, w')))))"
  by pat_completeness auto
termination
  by (relation "measure (\<lambda>(H, T, W, into_cgi, jobs, n, w). length (queue_of w))")
    (auto dest!: pull_unit_takes [OF sym] takes_length)

declare classic_worker.simps [simp del]

subsection \<open>Every request that is served is answered and counted once\<close>

definition ended :: "('tx \<Rightarrow> 'm frame list) \<Rightarrow> ('tx \<Rightarrow> bool) \<Rightarrow> ('m, 'tx) php_context \<Rightarrow> bool" where
  "ended d cl c \<longleftrightarrow> c_sender c \<or> cl (c_chan c) \<or> (\<exists>b fs. d (c_chan c) = fs @ [End b])"

lemma ended_frame [simp]:
  "ended d cl (c\<lparr>c_tearing_down := b\<rparr>) = ended d cl c" "ended d cl (c\<lparr>c_errored := b\<rparr>) = ended d cl c"
  by (simp_all add: ended_def)

lemma finalize_frame:
  "ended d cl (fst (finalize_response H e c)) = ended d cl c"
  by (simp add: ended_def finalize_response_def Let_def send_error_head_def commit_head_def)

context response_channel
begin

lemma ctx_finish_ended:
  assumes "ended delivered closed c"
  shows "\<not> c_sender (ctx_finish H T truncated c) \<and> ended delivered closed (ctx_finish H T truncated c)"
proof (cases "c_sender c")
  case False
  with assms show ?thesis by (simp add: ctx_finish_def)
next
  case True
  obtain k fs0 where k: "k \<le> length (fs0 @ [End truncated])"
    "delivered (c_chan (ctx_finish H T truncated c)) = delivered (c_chan c) @ take k (fs0 @ [End truncated])"
    "k < length (fs0 @ [End truncated]) \<longrightarrow> closed (c_chan (ctx_finish H T truncated c))"
    using ctx_finish_frames [OF True, of H truncated] by blast
  have "\<not> c_sender (ctx_finish H T truncated c)" using True by (simp add: ctx_finish_def Let_def)
  moreover have "ended delivered closed (ctx_finish H T truncated c)"
  proof (cases "k < length (fs0 @ [End truncated])")
    case True
    with k show ?thesis by (simp add: ended_def)
  next
    case False
    with k have "delivered (c_chan (ctx_finish H T truncated c)) = (delivered (c_chan c) @ fs0) @ [End truncated]"
      by simp
    then show ?thesis unfolding ended_def by blast
  qed
  ultimately show ?thesis by blast
qed

lemma ub_write_ended:
  assumes "ended delivered closed c"
  shows "ended delivered closed (the (fst (ub_write H T h buf (Some c))))"
proof -
  define c1 where
    "c1 = (if c_stream c = NotSent then commit_head H (head_status h) (h_empty H) c else c)"
  have e1: "ended delivered closed c1" using assms by (simp add: c1_def ended_def commit_head_def)
  obtain b tx where ic: "tx_is_closed T (c_chan c1) = (b, tx)" by fastforce
  show ?thesis
  proof (cases "c_sender c1")
    case False
    then show ?thesis using e1 by (simp add: ub_write_def Let_def c1_def [symmetric])
  next
    case True
    then have e2: "ended delivered closed (c1\<lparr>c_chan := tx\<rparr>)" by (simp add: ended_def)
    have "the (fst (ub_write H T h buf (Some c))) \<in>
        {ctx_finish H T False (c1\<lparr>c_chan := tx\<rparr>), ctx_finish H T True (c1\<lparr>c_chan := tx\<rparr>),
         (c1\<lparr>c_chan := tx\<rparr>)\<lparr>c_body := c_body c1 @ buf,
            c_stream := if c_tearing_down c1 then c_stream c1 else BodyStreamed\<rparr>}"
      using True by (simp add: ub_write_def Let_def c1_def [symmetric] ic)
    moreover have "ended delivered closed ((c1\<lparr>c_chan := tx\<rparr>)\<lparr>c_body := c_body c1 @ buf,
            c_stream := if c_tearing_down c1 then c_stream c1 else BodyStreamed\<rparr>)"
      using True by (simp add: ended_def)
    ultimately show ?thesis
      using ctx_finish_ended [OF e2, of H False] ctx_finish_ended [OF e2, of H True] by auto
  qed
qed

lemma sapi_run_ended: "ended delivered closed c \<Longrightarrow> ended delivered closed (sapi_run H T calls c)"
  unfolding sapi_run_def
proof (induction calls arbitrary: c)
  case (Cons call calls)
  have "ended delivered closed (sapi_step H T call c)"
  proof (cases call)
    case (UbWrite h buf)
    with Cons.prems show ?thesis by (simp add: ub_write_ended)
  next
    case (FinishResponse fatal)
    let ?e = "c_errored c \<or> fatal"
    have "ended delivered closed (fst (finalize_response H ?e (c\<lparr>c_errored := ?e\<rparr>)))"
      using Cons.prems by (simp add: finalize_frame)
    then show ?thesis
      by (simp add: FinishResponse finish_response_def Let_def case_prod_beta' ctx_finish_ended)
  qed (use Cons.prems in \<open>auto simp: ended_def send_headers_def Let_def commit_head_def read_post_def
         send_error_head_def split: body.splits\<close>)
  from Cons.IH [OF this] show ?case by simp
qed simp

lemma run_handler_inv:
  assumes "ctx_inv delivered c0" "ended delivered closed c0" "run_handler H T job c0 = (c, recycle, errored)"
  shows "ctx_inv delivered c \<and> ended delivered closed c"
proof -
  let ?P = "\<lambda>c. ctx_inv delivered c \<and> ended delivered closed c"
  have run: "?P c \<Longrightarrow> ?P (sapi_run H T calls c)" for calls c
    by (simp add: sapi_run_inv sapi_run_ended)
  define c1 where "c1 = sapi_run H T (fst (jb_activate job)) c0"
  define c2 where "c2 = (if snd (jb_activate job) = EngBailout then c1
     else sapi_run H T (fst (jb_handler job)) c1)"
  define outcome where "outcome = (if snd (jb_activate job) = EngBailout then EngBailout else snd (jb_handler job))"
  define c4 where "c4 = (if outcome = EngOk then c2\<lparr>c_tearing_down := True\<rparr>
     else sapi_run H T (fst (jb_flush job)) (c2\<lparr>c_tearing_down := True\<rparr>))"
  have "?P c1" unfolding c1_def by (rule run) (use assms in simp)
  then have "?P c2" unfolding c2_def using run by simp
  then have "?P c4" unfolding c4_def using run [of "c2\<lparr>c_tearing_down := True\<rparr>"] by simp
  moreover have "\<exists>e. c = sapi_run H T (fst (jb_teardown job)) (c4\<lparr>c_errored := e\<rparr>)"
    using assms(3) unfolding run_handler_def Let_def c4_def c2_def c1_def outcome_def
    by (auto split: if_splits)
  ultimately show ?thesis using run by auto
qed

lemma serve_unit_answers:
  assumes "delivered tx = []"
    and "run_handler H T job (context_new req tx cgi) = (c1, recycle, errored)"
    and "serve_unit H T job (context_new req tx cgi) w = (c, w')"
  shows "\<not> c_sender c \<and> buffered_ok (delivered (c_chan c)) \<and> ended delivered closed c
    \<and> w_log w' = w_log w @ [Handled errored] \<and> (w_recycle w' \<longleftrightarrow> w_recycle w \<or> recycle)"
proof -
  obtain c2 truncated where f: "finalize_response H errored c1 = (c2, truncated)" by fastforce
  from assms(3) have c: "c = ctx_finish H T truncated c2"
    and w': "w' = (if recycle then (emit (Handled errored) w)\<lparr>w_recycle := True\<rparr> else emit (Handled errored) w)"
    by (simp_all add: serve_unit_def assms(2) f Let_def)
  have "ctx_inv delivered c1 \<and> ended delivered closed c1"
    by (rule run_handler_inv [OF context_new_inv [where delivered = delivered and tx = tx] _ assms(2)])
      (simp_all add: assms(1) ended_def context_new_def)
  then have "ctx_inv delivered c2 \<and> ended delivered closed c2"
    using finalize_frame [of delivered closed H errored c1] f
    by (auto simp: finalize_response_def Let_def send_error_head_def commit_head_inv split: if_splits)
  then have "ctx_inv delivered c" "\<not> c_sender c" "ended delivered closed c"
    using ctx_finish_inv ctx_finish_ended c by blast+
  then show ?thesis using w' by (auto simp: ctx_inv_def emit_def split: if_splits)
qed

end

text \<open>
  C24: a request that the worker mode takes from the queue is answered and counted exactly once, whatever
  the engine and the script do (exception, bailout at any of the four steps): afterwards the sender is
  gone, the frames form a legal buffered response, and unless the receiver left they end with an end
  frame; the scoreboard gets exactly one Handled event, an error exactly after an uncaught exception or a
  bailout, and the cycle is marked for recycling exactly after a bailout.
\<close>

theorem request_answered_once:
  assumes "response_channel T delivered closed" and "delivered tx = []"
    and "run_handler H T job (context_new req tx cgi) = (c1, recycle, errored)"
    and "serve_unit H T job (context_new req tx cgi) w = (c, w')"
  shows "\<not> c_sender c \<and> buffered_ok (delivered (c_chan c))
    \<and> (closed (c_chan c) \<or> (\<exists>b fs. delivered (c_chan c) = fs @ [End b]))
    \<and> w_log w' = w_log w @ [Handled errored] \<and> (w_recycle w' \<longleftrightarrow> w_recycle w \<or> recycle)"
  using response_channel.serve_unit_answers [OF assms] unfolding ended_def by blast

definition sample_job :: cgi_job where
  "sample_job = \<lparr>jb_activate = ([], EngOk), jb_handler = ([UbWrite sample_headers ''hi''], EngBailout),
     jb_flush = ([], EngOk), jb_teardown = ([], EngOk)\<rparr>"

definition sample_served ::
  "((bytes \<times> bytes) list, (bytes \<times> bytes) list frame script_chan) php_context
   \<times> (((bytes \<times> bytes) list, (bytes \<times> bytes) list frame script_chan) http_exchange,
       ((bytes \<times> bytes) list, (bytes \<times> bytes) list frame script_chan) exchange_state) worker" where
  "sample_served = serve_unit list_headers script_tx sample_job
     (context_new sample_request (script_open 4 None) (reqc_build list_headers sample_request [])) sample_worker"

lemma request_answered_once_witness:
  "buffered_ok (sc_sent (c_chan (fst sample_served)))
   \<and> sc_sent (c_chan (fst sample_served))
     = [Head \<lparr>rh_status = 200, rh_headers = []\<rparr> None False, Chunk ''hi'', End True]
   \<and> w_log (snd sample_served) = [Handled True] \<and> w_recycle (snd sample_served)"
proof -
  let ?c0 = "context_new sample_request (script_open 4 None) (reqc_build list_headers sample_request [])"
  let ?r = "run_handler list_headers script_tx sample_job ?c0"
  have e: "sc_sent (script_open 4 None) = []" by (simp add: script_open_def)
  have r: "?r = (fst ?r, fst (snd ?r), snd (snd ?r))" by simp
  have s: "serve_unit list_headers script_tx sample_job ?c0 sample_worker = (fst sample_served, snd sample_served)"
    by (simp add: sample_served_def)
  have "buffered_ok (sc_sent (c_chan (fst sample_served)))"
    using request_answered_once [OF rsc.response_channel_axioms e r s] by blast
  moreover have "sc_sent (c_chan (fst sample_served))
     = [Head \<lparr>rh_status = 200, rh_headers = []\<rparr> None False, Chunk ''hi'', End True]" by code_simp
  moreover have "w_log (snd sample_served) = [Handled True]" "w_recycle (snd sample_served)" by code_simp+
  ultimately show ?thesis by blast
qed

section \<open>Cycles, restarts and health\<close>

definition UNHEALTHY_AFTER :: nat where "UNHEALTHY_AFTER = 5"
definition BOOT_RETRY :: nat where "BOOT_RETRY = 5 * 10 ^ 6"

text \<open>\<open>release\<close> and \<open>reclaim_current\<close>: the unit in hand is dropped, counted when it is still open.\<close>

definition reclaim_current :: "('u, 'h) unit_ops \<Rightarrow> ('u, 'h) worker \<Rightarrow> ('u, 'h) worker" where
  "reclaim_current W w = (case w_unit w of
       Some h \<Rightarrow> (let w1 = w\<lparr>w_unit := None\<rparr> in if hd_settled W h then w1 else emit (Handled True) w1)
     | None \<Rightarrow> w)"

definition cycle_reset :: "('u, 'h) unit_ops \<Rightarrow> ('u, 'h) worker \<Rightarrow> ('u, 'h) worker" where
  "cycle_reset W w = (reclaim_current W w)\<lparr>w_unit := None, w_closed_seen := False, w_received := False\<rparr>"

text \<open>
  What one run of the script did: the boot of its request, the verbs it called (and what it did to
  the unit in hand, with the events this reported), and whether the shutdown bailed.
\<close>

datatype ('u, 'h) worker_verb =
    Receive int
  | TryReceive
  | HandleRequest bool cgi_job
  | OnUnit "'h \<Rightarrow> event list \<times> 'h"
  | FreeUnit

record ('u, 'h) script_cycle =
  cy_started :: bool
  cy_verbs :: "('u, 'h) worker_verb list"
  cy_shutdown_bails :: bool

datatype cycle_end = CyStop | CyRecycle | CyFailed | CyRestart

fun run_verb ::
  "'m header_ops \<Rightarrow> ('tx, 'm frame) tx_ops \<Rightarrow> ('u, 'h) unit_ops \<Rightarrow> ('u \<Rightarrow> ('m, 'tx) php_context)
   \<Rightarrow> ('u, 'h) worker_verb \<Rightarrow> ('u, 'h) worker \<Rightarrow> ('u, 'h) worker" where
  "run_verb H T W into_cgi (Receive t) w = snd (rapira_receive W t w)"
| "run_verb H T W into_cgi TryReceive w = snd (rapira_try_receive W w)"
| "run_verb H T W into_cgi (HandleRequest boot_bails job) w =
     snd (snd (handle_request H T W into_cgi boot_bails job w))"
| "run_verb H T W into_cgi (OnUnit f) w = (case w_unit w of
       None \<Rightarrow> w
     | Some h \<Rightarrow> (case f h of (evs, h') \<Rightarrow> fold emit evs (w\<lparr>w_unit := Some h'\<rparr>)))"
| "run_verb H T W into_cgi FreeUnit w = reclaim_current W w"

definition run_cycle ::
  "'m header_ops \<Rightarrow> ('tx, 'm frame) tx_ops \<Rightarrow> ('u, 'h) unit_ops \<Rightarrow> ('u \<Rightarrow> ('m, 'tx) php_context)
   \<Rightarrow> ('u, 'h) script_cycle \<Rightarrow> ('u, 'h) worker \<Rightarrow> cycle_end \<times> ('u, 'h) worker" where
  "run_cycle H T W into_cgi cy w0 =
     (let w1 = emit BootFailed (cycle_reset W w0);
          w2 = (if cy_started cy then fold (run_verb H T W into_cgi) (cy_verbs cy) w1 else w1);
          recycle = w_recycle w2;
          w3 = w2\<lparr>w_first_call := True, w_recycle := False\<rparr>
      in (if cy_shutdown_bails cy then CyRestart
          else if w_closed_seen w3 then CyStop
          else if recycle \<or> w_received w3 then CyRecycle
          else CyFailed, w3))"

datatype worker_exit = ExitClosed | ExitRestart

definition on_thread :: "(php_thread \<Rightarrow> php_thread) \<Rightarrow> ('u, 'h) worker \<Rightarrow> ('u, 'h) worker" where
  "on_thread f w = w\<lparr>w_thread := f (w_thread w)\<rparr>"

text \<open>
  The loop of \<open>rapira_worker\<close> over the runs of the script: the exit, if the loop ended within them,
  the failure counter, the units shed on the way (\<open>shed\<close> answers them) and the worker.
\<close>

fun worker_loop ::
  "'m header_ops \<Rightarrow> ('tx, 'm frame) tx_ops \<Rightarrow> ('u, 'h) unit_ops \<Rightarrow> ('u \<Rightarrow> ('m, 'tx) php_context)
   \<Rightarrow> ('u, 'h) script_cycle list \<Rightarrow> nat \<Rightarrow> ('u, 'h) worker
   \<Rightarrow> worker_exit option \<times> nat \<times> 'u list \<times> ('u, 'h) worker" where
  "worker_loop H T W into_cgi [] failures w = (None, failures, [], w)"
| "worker_loop H T W into_cgi (cy # cys) failures w = (case run_cycle H T W into_cgi cy w of
       (CyStop, w1) \<Rightarrow> (Some ExitClosed, failures, [], reclaim_current W w1)
     | (CyRestart, w1) \<Rightarrow> (Some ExitRestart, failures, [], reclaim_current W w1)
     | (CyRecycle, w1) \<Rightarrow> worker_loop H T W into_cgi cys 0 (emit Recycled w1)
     | (CyFailed, w1) \<Rightarrow>
         let f = failures + 1;
             w2 = emit BootFailed (if f = UNHEALTHY_AFTER then on_thread fire_unhealthy w1 else w1)
         in (case pull_unit_to_shed BOOT_RETRY w2 of
               (PClosed, w3) \<Rightarrow> (Some ExitClosed, f, [], reclaim_current W w3)
             | (PUnit u, w3) \<Rightarrow>
                 (case worker_loop H T W into_cgi cys f (emit Shed w3) of
                    (ex, n, us, w') \<Rightarrow> (ex, n, u # us, w'))
             | (_, w3) \<Rightarrow> worker_loop H T W into_cgi cys f w3))"

definition rapira_worker ::
  "'m header_ops \<Rightarrow> ('tx, 'm frame) tx_ops \<Rightarrow> ('u, 'h) unit_ops \<Rightarrow> ('u \<Rightarrow> ('m, 'tx) php_context)
   \<Rightarrow> ('u, 'h) script_cycle list \<Rightarrow> ('u, 'h) worker
   \<Rightarrow> worker_exit option \<times> nat \<times> 'u list \<times> ('u, 'h) worker" where
  "rapira_worker H T W into_cgi cys w =
     worker_loop H T W into_cgi cys 0 (w\<lparr>w_first_call := True, w_recycle := False\<rparr>)"

subsection \<open>A worker that keeps failing to boot is flagged after five runs\<close>

abbreviation quota_of :: "('u, 'h) worker \<Rightarrow> quota_state" where
  "quota_of w \<equiv> t_quota (w_thread w)"

lemma sb_drain_quota [simp]: "t_quota (sb_drain th) = t_quota th"
  by (simp add: sb_drain_def split: option.split)

lemma emit_quota: "(\<And>e. ev \<noteq> Handled e) \<Longrightarrow> quota_of (emit ev w) = quota_of w"
  by (cases ev) (auto simp: emit_def sb_update.simps split: option.split)

lemma emit_quota_simps [simp]:
  "quota_of (emit Shed w) = quota_of w" "quota_of (emit BootFailed w) = quota_of w"
  "quota_of (emit Recycled w) = quota_of w" "quota_of (emit Idle w) = quota_of w"
  "quota_of (emit Active w) = quota_of w" "quota_of (emit Draining w) = quota_of w"
  by (rule emit_quota; simp)+

lemma emit_flags [simp]:
  "w_recycle (emit ev w) = w_recycle w" "w_first_call (emit ev w) = w_first_call w"
  "w_timed (emit ev w) = w_timed w"
  by (simp_all add: emit_def)

text \<open>A run that dies before it receives anything.\<close>

definition boots_and_dies :: "('u, 'h) script_cycle \<Rightarrow> bool" where
  "boots_and_dies cy \<longleftrightarrow> (\<not> cy_started cy \<or> cy_verbs cy = []) \<and> \<not> cy_shutdown_bails cy"

text \<open>A queue that stays connected for the next \<open>n\<close> waits.\<close>

definition queue_lives :: "nat \<Rightarrow> ('u, 'h) worker \<Rightarrow> bool" where
  "queue_lives n w \<longleftrightarrow> (case w_rx w of
       Some rx \<Rightarrow> \<not> rx_stopping rx \<and> list_all (\<lambda>a. a \<noteq> Gone) (rx_next rx) \<and> 2 * n \<le> length (rx_next rx)
     | None \<Rightarrow> False)"

lemma queue_lives_emit [simp]: "queue_lives n (emit ev w) = queue_lives n w"
  by (simp add: queue_lives_def)

lemma rx_wait_lives:
  assumes "list_all (\<lambda>a. a \<noteq> Gone) as" "as \<noteq> []"
  shows "rx_wait (Some t) as = (hd as, tl as) \<and> hd as \<noteq> Gone \<and> list_all (\<lambda>a. a \<noteq> Gone) (tl as)"
  using assms by (cases "as") (auto split: arrival.split)

lemma pull_to_shed_lives:
  assumes "queue_lives (Suc n) w" "\<not> is_draining (w_thread w)" "pull_unit_to_shed t w = (p, w')"
  shows "queue_lives n w' \<and> p \<noteq> PClosed \<and> w_thread w' = w_thread w \<and> w_unit w' = w_unit w
    \<and> w_recycle w' = w_recycle w"
proof -
  obtain rx where rx: "w_rx w = Some rx" "\<not> rx_stopping rx" "list_all (\<lambda>a. a \<noteq> Gone) (rx_next rx)"
    "2 * n + 2 \<le> length (rx_next rx)"
    using assms(1) by (auto simp: queue_lives_def split: option.splits)
  obtain a b as' where l: "rx_next rx = a # b # as'" "2 * n \<le> length as'"
    using rx(4) by (cases "rx_next rx"; cases "tl (rx_next rx)") auto
  have g: "a \<noteq> Gone" "b \<noteq> Gone" "list_all (\<lambda>a. a \<noteq> Gone) as'" using rx(3) l by simp_all
  obtain rx' where r: "rx_recv (Some t) rx = (p, rx')" "w' = w\<lparr>w_rx := Some rx'\<rparr>"
    using assms(2,3) rx(1) by (auto simp: pull_unit_to_shed_def split: prod.splits)
  have "\<not> rx_stopping rx' \<and> p \<noteq> PClosed \<and> (rx_next rx' = b # as' \<or> rx_next rx' = as')"
    using r(1) rx(2) g l(1)
    by (cases a; cases b) (auto simp: rx_recv_def Let_def split: if_splits)
  then show ?thesis using r(2) g l(2) by (auto simp: queue_lives_def)
qed

lemma run_cycle_fails:
  assumes "boots_and_dies cy" "w_unit w = None" "\<not> w_recycle w"
  shows "run_cycle H T W into_cgi cy w
    = (CyFailed, emit BootFailed (w\<lparr>w_unit := None, w_closed_seen := False, w_received := False\<rparr>)
         \<lparr>w_first_call := True, w_recycle := False\<rparr>)"
  using assms
  by (auto simp: run_cycle_def boots_and_dies_def Let_def cycle_reset_def reclaim_current_def)

lemma worker_loop_fails:
  assumes "list_all boots_and_dies cys" "w_unit w = None" "\<not> w_recycle w" "\<not> is_draining (w_thread w)"
    and "f < UNHEALTHY_AFTER" "queue_lives (4 - f) w"
    and "worker_loop H T W into_cgi cys f w = (ex, n, us, w')"
  shows "if f + length cys < UNHEALTHY_AFTER
    then ex = None \<and> n = f + length cys \<and> quota_of w' = quota_of w
    else ex = Some ExitClosed \<and> n = UNHEALTHY_AFTER \<and> is_unhealthy (w_thread w') \<and> is_draining (w_thread w')"
  using assms
proof (induction cys arbitrary: f w ex n us w')
  case (Cons cy cys)
  define w1 where "w1 = emit BootFailed (w\<lparr>w_unit := None, w_closed_seen := False, w_received := False\<rparr>)
         \<lparr>w_first_call := True, w_recycle := False\<rparr>"
  have rc: "run_cycle H T W into_cgi cy w = (CyFailed, w1)"
    unfolding w1_def by (rule run_cycle_fails) (use Cons.prems in simp_all)
  have q1: "quota_of w1 = quota_of w" "w_unit w1 = None" "\<not> w_recycle w1"
    by (simp_all add: w1_def)
  have l1: "queue_lives k w1 = queue_lives k w" for k
    by (simp add: w1_def queue_lives_def)
  show ?case
  proof (cases "f + 1 = UNHEALTHY_AFTER")
    case True
    define w2 where "w2 = emit BootFailed (on_thread fire_unhealthy w1)"
    have d: "is_draining (w_thread w2)" "is_unhealthy (w_thread w2)" "w_unit w2 = None"
      using q1 by (simp_all add: w2_def on_thread_def fire_unhealthy_def)
    have "pull_unit_to_shed BOOT_RETRY w2 = (PClosed, w2)" using d by (simp add: pull_unit_to_shed_def)
    with Cons.prems(7) True rc have "ex = Some ExitClosed" "n = UNHEALTHY_AFTER" "w' = w2"
      using d by (simp_all add: w2_def [symmetric] reclaim_current_def)
    with True d show ?thesis by simp
  next
    case False
    define w2 where "w2 = emit BootFailed w1"
    obtain p w3 where pl: "pull_unit_to_shed BOOT_RETRY w2 = (p, w3)" by fastforce
    have lives: "queue_lives (Suc (4 - (f + 1))) w2"
    proof -
      have "Suc (4 - (f + 1)) = 4 - f" using Cons.prems(5) False by (simp add: UNHEALTHY_AFTER_def)
      then show ?thesis using Cons.prems(6) l1 by (simp add: w2_def)
    qed
    have nd: "\<not> is_draining (w_thread w2)" using q1 Cons.prems(4) by (simp add: w2_def)
    note p3 = pull_to_shed_lives [OF lives nd pl]
    have f: "f + 1 < UNHEALTHY_AFTER" using False Cons.prems(5) by simp
    show ?thesis
    proof (cases "\<exists>u. p = PUnit u")
      case True
      then obtain u where u: "p = PUnit u" by blast
      obtain ex2 n2 us2 w4 where rest:
        "worker_loop H T W into_cgi cys (f + 1) (emit Shed w3) = (ex2, n2, us2, w4)" by (metis prod_cases4)
      have "(ex, n, w') = (ex2, n2, w4)"
        using Cons.prems(7) rc False pl u rest by (simp add: w2_def [symmetric])
      with Cons.IH [OF _ _ _ _ f _ rest] Cons.prems(1) p3 q1 nd show ?thesis by (simp add: w2_def)
    next
      case no: False
      have "worker_loop H T W into_cgi cys (f + 1) w3 = (ex, n, us, w')"
        using Cons.prems(7) rc False pl no p3 by (simp add: w2_def [symmetric] split: pulled.splits)
      from Cons.IH [OF _ _ _ _ f _ this] Cons.prems(1) p3 q1 nd show ?thesis by (simp add: w2_def)
    qed
  qed
qed simp

text \<open>
  A script that keeps dying before it receives anything (its request does not start, or it throws at
  boot) is given up after exactly five runs: while the queue stays connected, the worker loop still runs
  after up to four such runs and the thread's health is unchanged; with the fifth it ends and the thread is flagged unhealthy and
  draining, which makes the thread's main loop back off and restart it.
\<close>

theorem unhealthy_after_five_failures:
  assumes "list_all boots_and_dies cys" "w_unit w = None" "\<not> is_draining (w_thread w)" "queue_lives 4 w"
    and "rapira_worker H T W into_cgi cys w = (ex, n, us, w')"
  shows "if length cys < 5
    then ex = None \<and> n = length cys \<and> t_quota (w_thread w') = t_quota (w_thread w)
    else ex = Some ExitClosed \<and> n = 5 \<and> q_unhealthy (t_quota (w_thread w')) \<and> q_draining (t_quota (w_thread w'))"
  using worker_loop_fails [of cys "w\<lparr>w_first_call := True, w_recycle := False\<rparr>" 0 H T W into_cgi ex n us w'] assms
  by (simp add: rapira_worker_def UNHEALTHY_AFTER_def queue_lives_def)

definition quiet_worker :: "('u, 'h) worker" where
  "quiet_worker =
     \<lparr>w_thread = \<lparr>t_slot = Some slot_default, t_draining = False,
        t_quota = \<lparr>q_served = 0, q_max = 0, q_draining = False, q_unhealthy = False\<rparr>, t_handled = Some False\<rparr>,
      w_rx = Some \<lparr>rx_stopping = False, rx_next = replicate 8 Quiet, rx_pending = 0, rx_handled = False\<rparr>,
      w_first_call = True, w_recycle = False, w_closed_seen = False, w_received = False, w_unit = None,
      w_timed = False, w_log = []\<rparr>"

lemma unhealthy_after_five_failures_witness:
  "let W = http_unit script_tx; cy = \<lparr>cy_started = False, cy_verbs = [], cy_shutdown_bails = False\<rparr>;
       run = (\<lambda>n. rapira_worker list_headers script_tx W
          (http_into_cgi list_headers) (replicate n cy) quiet_worker)
   in fst (run 4) = None \<and> fst (run 7) = Some ExitClosed
      \<and> q_unhealthy (t_quota (w_thread (snd (snd (snd (run 7))))))"
proof -
  let ?cgi = "http_into_cgi list_headers"
  define W where "W = http_unit (script_tx :: ((bytes \<times> bytes) list frame script_chan, _) tx_ops)"
  define cy where "cy = (\<lparr>cy_started = False, cy_verbs = [], cy_shutdown_bails = False\<rparr> ::
     (((bytes \<times> bytes) list, (bytes \<times> bytes) list frame script_chan) http_exchange,
      ((bytes \<times> bytes) list, (bytes \<times> bytes) list frame script_chan) exchange_state) script_cycle)"
  have d: "list_all boots_and_dies (replicate n cy)" for n
    by (simp add: cy_def boots_and_dies_def list_all_length)
  have w: "w_unit quiet_worker = None" "\<not> is_draining (w_thread quiet_worker)" "queue_lives 4 quiet_worker"
    by (simp_all add: quiet_worker_def queue_lives_def list_all_length)
  have "fst (rapira_worker list_headers script_tx W ?cgi (replicate 4 cy) quiet_worker) = None"
    using unhealthy_after_five_failures [where H = list_headers and T = script_tx and W = W and into_cgi = ?cgi,
        OF d [of 4] w]
    by (cases "rapira_worker list_headers script_tx W ?cgi (replicate 4 cy) quiet_worker") simp
  moreover have "fst (rapira_worker list_headers script_tx W ?cgi (replicate 7 cy) quiet_worker) = Some ExitClosed
     \<and> q_unhealthy (t_quota (w_thread (snd (snd (snd
         (rapira_worker list_headers script_tx W ?cgi (replicate 7 cy) quiet_worker))))))"
    using unhealthy_after_five_failures [where H = list_headers and T = script_tx and W = W and into_cgi = ?cgi,
        OF d [of 7] w]
    by (cases "rapira_worker list_headers script_tx W ?cgi (replicate 7 cy) quiet_worker") simp
  ultimately show ?thesis by (simp add: Let_def W_def cy_def)
qed

section \<open>The thread's main loop\<close>

text \<open>\<open>effective_quota\<close>; the hash of the thread's index is random.\<close>

definition saturating_add :: "64 word \<Rightarrow> 64 word \<Rightarrow> 64 word" where
  "saturating_add a b = (if unat a + unat b < 2 ^ 64 then a + b else - 1)"

definition effective_quota :: "64 word \<Rightarrow> 64 word \<Rightarrow> 64 word" where
  "effective_quota mx hash =
     (if mx = 0 then 0 else saturating_add mx (1 + hash mod (max (mx div 2) 1)))"

text \<open>
  One life of the thread: whether PHP could be entered, what it served (the classic loop or the runs of
  the worker script), and what the loop reads afterwards: a panic, the stop flag, the time since the
  start in seconds, whether some slot of the pool serves, and whether the stop arrived in the delay.
\<close>

datatype ('u, 'h) life_work = ClassicLife "nat \<Rightarrow> classic_job" | WorkerLife "('u, 'h) script_cycle list"

record ('u, 'h) thread_life =
  tl_enters :: bool
  tl_hash :: "64 word"
  tl_work :: "('u, 'h) life_work"
  tl_panics :: bool
  tl_stopping :: bool
  tl_elapsed :: nat
  tl_pool_serves :: bool
  tl_stopped_in_delay :: bool

definition run_life ::
  "'m header_ops \<Rightarrow> ('tx, 'm frame) tx_ops \<Rightarrow> ('u, 'h) unit_ops \<Rightarrow> ('u \<Rightarrow> ('m, 'tx) php_context)
   \<Rightarrow> ('u, 'h) life_work \<Rightarrow> ('u, 'h) worker \<Rightarrow> worker_exit option \<times> ('u, 'h) worker" where
  "run_life H T W into_cgi work w = (case work of
       ClassicLife jobs \<Rightarrow> (Some ExitClosed, snd (classic_worker H T W into_cgi jobs 0 w))
     | WorkerLife cys \<Rightarrow> (case rapira_worker H T W into_cgi cys w of (ex, _, _, w') \<Rightarrow> (ex, w')))"

text \<open>The state of the loop: the streak of unhealthy lives, the boot failure flag, the delays taken.\<close>

record main_state =
  ms_streak :: nat
  ms_boot_failed :: bool
  ms_delays :: "nat list"

definition retry_delay :: "nat \<Rightarrow> nat" where
  "retry_delay streak = 100 * 2 ^ min streak 8"

text \<open>The part of the loop before PHP runs, and the part after it; \<open>None\<close> goes on with the next life.\<close>

definition life_begin ::
  "('u, 'h) unit_ops \<Rightarrow> shared_slot \<Rightarrow> 64 word \<Rightarrow> ('u, 'h) thread_life \<Rightarrow> ('u, 'h) worker \<Rightarrow> ('u, 'h) worker" where
  "life_begin W slot max_requests life w =
     (let w1 = emit BootFailed (on_thread (\<lambda>th. sb_set (case t_slot th of Some s \<Rightarrow> s | None \<Rightarrow> slot) th) w)
      in if tl_enters life
         then on_thread (quota_install (effective_quota max_requests (tl_hash life))) (cycle_reset W w1)
         else w1)"

definition life_end ::
  "('u, 'h) unit_ops \<Rightarrow> ('u, 'h) thread_life \<Rightarrow> worker_exit option \<Rightarrow> main_state \<Rightarrow> ('u, 'h) worker
   \<Rightarrow> bool \<times> main_state \<times> ('u, 'h) worker" where
  "life_end W life ex ms w0 =
     (let w1 = (if tl_panics life then on_thread fire_unhealthy (reclaim_current W w0) else w0);
          unhealthy = is_unhealthy (w_thread w1);
          w2 = emit Draining w1;
          stopping = (tl_stopping life \<or> (case w_rx w2 of Some rx \<Rightarrow> rx_stopping rx | None \<Rightarrow> False))
      in if stopping \<or> (\<not> tl_panics life \<and> ex = Some ExitClosed \<and> \<not> is_draining (w_thread w2))
         then (True, ms, w2)
         else if unhealthy
         then (let bf = (ms_boot_failed ms
                         \<or> (t_handled (w_thread w2) \<noteq> Some True \<and> \<not> tl_pool_serves life));
                   streak = (if 10 \<le> tl_elapsed life then 0 else ms_streak ms);
                   ms1 = \<lparr>ms_streak = min (streak + 1) (2 ^ 32 - 1), ms_boot_failed = bf,
                          ms_delays = ms_delays ms @ [retry_delay streak]\<rparr>
               in if tl_stopped_in_delay life then (True, ms1, w2) else (False, ms1, emit Recycled w2))
         else (False, ms\<lparr>ms_streak := 0\<rparr>, emit Recycled w2))"

definition leave_slot :: "('u, 'h) worker \<Rightarrow> ('u, 'h) worker" where
  "leave_slot w = (on_thread (\<lambda>th. th\<lparr>t_slot := map_option
     (\<lambda>s. s\<lparr>sl_pid := 0, sl_state := SLOT_FREE\<rparr>) (t_slot th), t_handled := None\<rparr>) w)\<lparr>w_rx := None\<rparr>"

fun main_loop ::
  "'m header_ops \<Rightarrow> ('tx, 'm frame) tx_ops \<Rightarrow> ('u, 'h) unit_ops \<Rightarrow> ('u \<Rightarrow> ('m, 'tx) php_context)
   \<Rightarrow> shared_slot \<Rightarrow> 64 word \<Rightarrow> ('u, 'h) thread_life list \<Rightarrow> main_state \<Rightarrow> ('u, 'h) worker
   \<Rightarrow> bool \<times> main_state \<times> ('u, 'h) worker" where
  "main_loop H T W into_cgi slot mx [] ms w = (False, ms, w)"
| "main_loop H T W into_cgi slot mx (life # lives) ms w =
     (let w1 = life_begin W slot mx life w in
      if \<not> tl_enters life then (True, ms\<lparr>ms_boot_failed := True\<rparr>, leave_slot w1)
      else (case run_life H T W into_cgi (tl_work life) w1 of (ex, w2) \<Rightarrow>
        (case life_end W life ex ms w2 of
           (True, ms1, w3) \<Rightarrow> (True, ms1, leave_slot w3)
         | (False, ms1, w3) \<Rightarrow> main_loop H T W into_cgi slot mx lives ms1 w3)))"

definition worker_main ::
  "'m header_ops \<Rightarrow> ('tx, 'm frame) tx_ops \<Rightarrow> ('u, 'h) unit_ops \<Rightarrow> ('u \<Rightarrow> ('m, 'tx) php_context)
   \<Rightarrow> shared_slot \<Rightarrow> nat \<Rightarrow> 64 word \<Rightarrow> 'u unit_rx \<Rightarrow> ('u, 'h) thread_life list \<Rightarrow> ('u, 'h) worker
   \<Rightarrow> bool \<times> main_state \<times> ('u, 'h) worker" where
  "worker_main H T W into_cgi slot pid mx rx lives w =
     main_loop H T W into_cgi (slot_bind slot pid) mx lives
       \<lparr>ms_streak = 0, ms_boot_failed = False, ms_delays = []\<rparr>
       (on_thread (\<lambda>th. th\<lparr>t_handled := Some (rx_handled rx)\<rparr>) (w\<lparr>w_rx := Some rx\<rparr>))"

subsection \<open>Quota, delays and the end of a thread\<close>

lemma effective_quota_bounds:
  "unat (effective_quota mx hash) \<le> unat mx + max (unat mx div 2) 1
   \<and> (mx \<noteq> 0 \<longrightarrow> effective_quota mx hash = - 1 \<or> unat mx < unat (effective_quota mx hash))
   \<and> (effective_quota mx hash = 0 \<longleftrightarrow> mx = 0)"
proof (cases "mx = 0")
  case True
  then show ?thesis by (simp add: effective_quota_def)
next
  case False
  define m where "m = max (mx div 2) 1"
  define r where "r = hash mod m"
  have m: "unat m = max (unat mx div 2) 1"
    by (auto simp: m_def max_def word_le_nat_alt unat_div)
  have r: "unat r < unat m"
    unfolding r_def unat_mod using m by (intro mod_less_divisor) simp
  have mx: "0 < unat mx" "unat mx < 2 ^ 64"
    using False unsigned_less [of mx, where ?'a = nat] by (simp_all add: unat_gt_0)
  have m64: "unat m < 2 ^ 64" using unsigned_less [of m, where ?'a = nat] by simp
  have s: "unat (1 + r) = 1 + unat r"
    using r m64 by (subst unat_word_ariths) simp
  have e: "effective_quota mx hash = (if unat mx + (1 + unat r) < 2 ^ 64 then mx + (1 + r) else - 1)"
    using False s by (simp add: effective_quota_def saturating_add_def m_def r_def)
  show ?thesis
  proof (cases "unat mx + (1 + unat r) < 2 ^ 64")
    case True
    then have "unat (effective_quota mx hash) = unat mx + (1 + unat r)"
      using e s by (simp add: unat_word_ariths)
    with r m mx show ?thesis by (auto simp: unat_eq_0 [symmetric] simp del: unat_eq_0)
  next
    case nofit: False
    then have "effective_quota mx hash = - 1" using e by simp
    moreover have "unat (- 1 :: 64 word) = 2 ^ 64 - 1" by code_simp
    ultimately show ?thesis using nofit r m False by auto
  qed
qed

definition delay_ok :: "main_state \<Rightarrow> bool" where
  "delay_ok ms \<longleftrightarrow> list_all (\<lambda>d. 100 \<le> d \<and> d \<le> 25600) (ms_delays ms)"

lemma retry_delay_bounds: "100 \<le> retry_delay n \<and> retry_delay n \<le> 25600"
proof -
  have "(2::nat) ^ min n 8 \<le> 2 ^ 8" by (rule power_increasing) simp_all
  then show ?thesis by (simp add: retry_delay_def)
qed

lemma life_end_delay_ok:
  "life_end W life ex ms w = (b, ms', w') \<Longrightarrow> delay_ok ms \<Longrightarrow> delay_ok ms'"
  by (auto simp: life_end_def delay_ok_def Let_def retry_delay_bounds split: if_splits)

lemma main_loop_ends:
  "main_loop H T W into_cgi slot mx lives ms w = (b, ms', w') \<Longrightarrow> delay_ok ms
   \<Longrightarrow> delay_ok ms' \<and> (b \<longrightarrow> (\<exists>w0. w' = leave_slot w0))"
proof (induction lives arbitrary: ms w)
  case (Cons life lives)
  define w1 where "w1 = life_begin W slot mx life w"
  obtain ex w2 where r: "run_life H T W into_cgi (tl_work life) w1 = (ex, w2)" by fastforce
  obtain b2 ms1 w3 where e: "life_end W life ex ms w2 = (b2, ms1, w3)" by (metis prod_cases3)
  have d1: "delay_ok ms1" by (rule life_end_delay_ok [OF e Cons.prems(2)])
  have d2: "delay_ok (ms\<lparr>ms_boot_failed := True\<rparr>)" using Cons.prems(2) by (simp add: delay_ok_def)
  have eq: "(b, ms', w') = (if \<not> tl_enters life then (True, ms\<lparr>ms_boot_failed := True\<rparr>, leave_slot w1)
     else if b2 then (True, ms1, leave_slot w3) else main_loop H T W into_cgi slot mx lives ms1 w3)"
    using Cons.prems(1)
    by (cases "tl_enters life"; cases b2) (simp_all add: w1_def [symmetric] Let_def r e)
  show ?case
  proof (cases "\<not> tl_enters life \<or> b2")
    case True
    with eq d1 d2 show ?thesis by (auto split: if_splits)
  next
    case False
    with eq have "main_loop H T W into_cgi slot mx lives ms1 w3 = (b, ms', w')" by simp
    from Cons.IH [OF this d1] show ?thesis .
  qed
qed simp

text \<open>
  A thread whose loop ended has left the scoreboard (pid 0, slot free) and dropped its receiver; every
  delay it took is between 100 ms and 25.6 s.
\<close>

lemma worker_main_ends:
  assumes "worker_main H T W into_cgi slot pid mx rx lives w = (True, ms, w')"
  shows "w_rx w' = None \<and> delay_ok ms
    \<and> (case t_slot (w_thread w') of Some s \<Rightarrow> sl_pid s = 0 \<and> sl_state s = SLOT_FREE | None \<Rightarrow> True)"
proof -
  have "delay_ok \<lparr>ms_streak = 0, ms_boot_failed = False, ms_delays = []\<rparr>" by (simp add: delay_ok_def)
  from main_loop_ends [OF assms [unfolded worker_main_def] this] obtain w0
    where "w' = leave_slot w0" "delay_ok ms" by blast
  then show ?thesis by (simp add: leave_slot_def on_thread_def split: option.split)
qed

section \<open>Severities\<close>

text \<open>The error type bits come from the headers of PHP.\<close>

record php_errors =
  pe_fatal :: "32 word"
  pe_core :: "32 word"
  pe_warnings :: "32 word"
  pe_notices :: "32 word"
  pe_deprecations :: "32 word"

datatype level = LvError | LvWarn | LvInfo | LvDebug | LvTrace

definition has_bit :: "32 word \<Rightarrow> 32 word \<Rightarrow> bool" where
  "has_bit t bits \<longleftrightarrow> and t bits \<noteq> 0"

definition error_type_to_level :: "php_errors \<Rightarrow> 32 word \<Rightarrow> 32 word \<Rightarrow> level \<times> string" where
  "error_type_to_level P err_type emask =
     (let (level, label) =
        (if has_bit err_type (pe_fatal P) then (LvError, ''Fatal error'')
         else if has_bit err_type (pe_warnings P) then (LvWarn, ''Warning'')
         else if has_bit err_type (pe_notices P) then (LvInfo, ''Notice'')
         else if has_bit err_type (pe_deprecations P) then (LvDebug, ''Deprecated'')
         else (LvWarn, ''Unknown error''))
      in if err_type \<noteq> 0 \<and> \<not> has_bit err_type (pe_fatal P) \<and> \<not> has_bit err_type (or emask (pe_core P))
         then (LvTrace, label) else (level, label))"

definition syslog_to_level :: "int \<Rightarrow> level" where
  "syslog_to_level lev =
     (if 0 \<le> lev \<and> lev \<le> 3 then LvError else if lev = 4 then LvWarn else if lev = 5 then LvInfo
      else if lev = 6 \<or> lev = 7 then LvDebug else LvInfo)"

text \<open>
  \<open>log_and_clear_last_error\<close>: PHP's last error is logged unless the message slot is empty or PHP logged
  it on its own.
\<close>

record last_error =
  le_message :: "bytes option"
  le_type :: "32 word"
  le_log_errors :: bool
  le_error_log :: bool

definition log_last_error :: "php_errors \<Rightarrow> 32 word \<Rightarrow> last_error \<Rightarrow> (level \<times> string \<times> bytes) option" where
  "log_last_error P emask e =
     (let php_logged = (has_bit (le_type e) (or emask (pe_core P)) \<and> le_log_errors e \<and> \<not> le_error_log e)
      in case le_message e of
           Some msg \<Rightarrow> if php_logged then None
             else (case error_type_to_level P (le_type e) emask of (l, label) \<Rightarrow> Some (l, label, msg))
         | None \<Rightarrow> None)"

lemma fatal_is_never_masked:
  "has_bit t (pe_fatal P) \<Longrightarrow> error_type_to_level P t emask = (LvError, ''Fatal error'')"
  by (simp add: error_type_to_level_def)

lemma masked_is_trace:
  "t \<noteq> 0 \<Longrightarrow> \<not> has_bit t (pe_fatal P) \<Longrightarrow>
     (fst (error_type_to_level P t emask) = LvTrace) = (\<not> has_bit t (or emask (pe_core P)))"
  by (simp add: error_type_to_level_def Let_def)

end
