(* ===== verification/Handler.thy ===== *)
theory Handler
  imports Worker Intake Bridge Multipart
begin

text \<open>
  One request of the HTTP plugin (\<open>http/src/handler.rs\<close>, \<open>request.rs\<close>): the admission check, the bounded
  read of the body under the pool's budget, the multipart parse, the submit to the intake, and the
  mapping of PHP's reply to the response of hyper. The static files come before PHP and are an argument
  (\<open>StaticCache.static_serve\<close> models them).

  The awaits of a request are listed in its environment: what the body stream yields, how the waits for a
  queue slot end, and what the reply channel holds. The client may leave at each of them, which drops the
  future of the request with all it owns. The interleaving of many requests is in \<open>Intake\<close>.
\<close>

section \<open>Refusals\<close>

definition refusal_of :: "refused \<Rightarrow> rejection" where
  "refusal_of e =
     \<lparr>rej_status = (case e of Saturated \<Rightarrow> 503 | OverBudget \<Rightarrow> 503 | Stopped \<Rightarrow> 500),
      rej_reason = refused_text e\<rparr>"

datatype 'm body_kind = ReplyKind "'m reply_body" | EmptyKind | BoxedKind bytes

record 'm http_response =
  hr_status :: nat
  hr_headers :: 'm
  hr_body :: "'m body_kind"

definition refused_response :: "'m header_ops \<Rightarrow> nat \<Rightarrow> 'm http_response" where
  "refused_response H status = \<lparr>hr_status = status, hr_headers = error_headers H, hr_body = BoxedKind []\<rparr>"

definition is_end_stream :: "'m body_kind \<Rightarrow> bool" where
  "is_end_stream k = (case k of ReplyKind _ \<Rightarrow> False | EmptyKind \<Rightarrow> True | BoxedKind b \<Rightarrow> b = [])"

text \<open>The exact size hint: a PHP reply has none.\<close>

definition exact_size :: "'m body_kind \<Rightarrow> nat option" where
  "exact_size k = (case k of ReplyKind _ \<Rightarrow> None | EmptyKind \<Rightarrow> Some 0 | BoxedKind b \<Rightarrow> Some (length b))"

section \<open>The request PHP sees\<close>

record http_cfg =
  hc_superglobals :: bool
  hc_max_body_size :: nat
  hc_uploads :: "limits option"
  hc_entrypoint :: bytes
  hc_server_name :: string
  hc_server_port :: nat

record peer =
  peer_remote :: sock_addr
  peer_server :: sock_addr
  peer_https :: bool
  peer_received_at :: nat

text \<open>The listener serves HTTP/1 only, so \<open>version\<close> is 1.0 or 1.1.\<close>

definition build_request ::
  "'m header_ops \<Rightarrow> 'm parts \<Rightarrow> bytes option \<Rightarrow> bytes \<Rightarrow> peer \<Rightarrow> http_cfg \<Rightarrow> 'm request" where
  "build_request H parts auth collected pr cfg =
     \<lparr>rq_method = p_method parts,
      rq_uri = (case p_path_and_query parts of Some pq \<Rightarrow> pq | None \<Rightarrow> ''/''),
      rq_target = map_option (\<lambda>_. p_uri_text parts) (p_uri_authority parts),
      rq_authority = auth, rq_https = peer_https pr,
      rq_protocol = (if p_version parts = HTTP_10 then ''HTTP/1.0'' else ''HTTP/1.1''),
      rq_remote = peer_remote pr, rq_server = peer_server pr,
      rq_server_name = hc_server_name cfg, rq_server_port = hc_server_port cfg,
      rq_headers = p_headers parts,
      rq_content_type = h_get H (p_headers parts) ''content-type'',
      rq_content_length = int (length collected),
      rq_body = RawBody collected 0, rq_received_at = peer_received_at pr\<rparr>"

section \<open>Reading the body\<close>

text \<open>What one wait for a body frame meets; the end of the list is the end of the body.\<close>

datatype body_event = BodyStalled | BodyBytes bytes | BodyTrailers | BodyFailed | ClientGone

datatype 'a step_end = Done 'a | RefusedWith nat | Gone

text \<open>The result, the body permits held and the intake.\<close>

fun read_body ::
  "'s sem_ops \<Rightarrow> nat \<Rightarrow> body_event list \<Rightarrow> bytes \<Rightarrow> nat \<Rightarrow> 's intake \<Rightarrow> bytes step_end \<times> nat \<times> 's intake" where
  "read_body S mx [] collected held i = (Done collected, held, i)"
| "read_body S mx (BodyStalled # es) collected held i = (RefusedWith 408, held, i)"
| "read_body S mx (BodyFailed # es) collected held i = (RefusedWith 400, held, i)"
| "read_body S mx (ClientGone # es) collected held i = (Gone, held, i)"
| "read_body S mx (BodyTrailers # es) collected held i = read_body S mx es collected held i"
| "read_body S mx (BodyBytes d # es) collected held i =
     (if length collected + length d > mx then (RefusedWith 413, held, i)
      else case grow_body S held (length collected + length d) i of
        ((held', Err e), i') \<Rightarrow> (RefusedWith (rej_status (refusal_of e)), held', i')
      | ((held', Ok _), i') \<Rightarrow> read_body S mx es (collected @ d) held' i')"

section \<open>Multipart\<close>

definition INLINE_PARSE_MAX :: nat where "INLINE_PARSE_MAX = 256 * 2 ^ 10"

text \<open>
  A large body is parsed by a task on the blocking pool, which owns the body permits meanwhile. The wait for it
  ends with its result, with its failure, or with the future of the request when the client leaves.
\<close>

datatype parse_task = TaskJoined | TaskFailed | ClientLeft

text \<open>
  None: the client left while the task ran. The task still runs to its end, and its result goes with the permits:
  the spooled files of the parse are removed.
\<close>

definition parse_multipart ::
  "'m header_ops \<Rightarrow> search_ops \<Rightarrow> parse_headers \<Rightarrow> 'fs temp_ops \<Rightarrow> parse_task \<Rightarrow> limits option \<Rightarrow> 'm request \<Rightarrow> 'fs
   \<Rightarrow> 'fs \<times> ('m request, rejection) result option" where
  "parse_multipart H Q P T task limits req fs = (case limits of
       None \<Rightarrow> (fs, Some (Ok req))
     | Some lim \<Rightarrow>
         let lines = h_get_all H (rq_headers req) ''content-type'' in
         if 2 \<le> length lines \<and> (\<exists>v\<in>set lines. is_multipart v)
         then (fs, Some (Err (bad ''repeated content-type field lines with a multipart body'')))
         else (case rq_body req of
             MultipartBody _ _ \<Rightarrow> (fs, Some (Ok req))
           | RawBody raw _ \<Rightarrow>
               if raw = [] then (fs, Some (Ok req))
               else (case rq_content_type req of
                   None \<Rightarrow> (fs, Some (Ok req))
                 | Some content_type \<Rightarrow>
                     if \<not> is_multipart content_type then (fs, Some (Ok req))
                     else (case boundary Q content_type of
                         Err e \<Rightarrow> (fs, Some (Err e))
                       | Ok bnd \<Rightarrow>
                           if length raw \<le> INLINE_PARSE_MAX \<or> task = TaskJoined
                           then (case parse Q P T raw bnd lim fs of
                               (fs', Err e) \<Rightarrow> (fs', Some (Err e))
                             | (fs', Ok (flds, files)) \<Rightarrow>
                                 (fs', Some (Ok (req\<lparr>rq_body := MultipartBody flds files\<rparr>))))
                           else if task = TaskFailed
                           then (fs, Some (Err \<lparr>rej_status = 500, rej_reason = ''multipart parse task failed''\<rparr>))
                           else (case parse Q P T raw bnd lim fs of
                               (fs', Err e) \<Rightarrow> (fs', None)
                             | (fs', Ok (flds, files)) \<Rightarrow> (drop_files T files fs', None))))))"

text \<open>A request that is dropped removes its spooled files.\<close>

definition drop_request :: "'fs temp_ops \<Rightarrow> 'm request \<Rightarrow> 'fs \<Rightarrow> 'fs" where
  "drop_request T req fs = (case rq_body req of RawBody _ _ \<Rightarrow> fs | MultipartBody _ files \<Rightarrow> drop_files T files fs)"

section \<open>Submitting\<close>

text \<open>The wait for a slot ends by one of \<open>wakes\<close>, or with the future.\<close>

fun await_slot :: "'s sem_ops \<Rightarrow> wake list \<Rightarrow> nat \<Rightarrow> 's intake \<Rightarrow> submit_outcome \<times> 's intake" where
  "await_slot S [] held i = submit_resume S FutureDropped held i"
| "await_slot S (w # ws) held i = (case submit_resume S w held i of
       (WaitForSlot, i') \<Rightarrow> await_slot S ws held i'
     | r \<Rightarrow> r)"

definition submit_unit :: "'s sem_ops \<Rightarrow> wake list \<Rightarrow> nat \<Rightarrow> 's intake \<Rightarrow> submit_outcome \<times> 's intake" where
  "submit_unit S wakes held i = (case submit_start S held i of
       (WaitForSlot, i') \<Rightarrow> await_slot S wakes held i'
     | r \<Rightarrow> r)"

text \<open>The parts of the process a request touches: the intake, the spool directory, the two flags.\<close>

record ('s, 'fs) host =
  ho_intake :: "'s intake"
  ho_fs :: 'fs
  ho_inflight :: nat
  ho_closing :: bool

definition submit ::
  "'m header_ops \<Rightarrow> search_ops \<Rightarrow> parse_headers \<Rightarrow> 'fs temp_ops \<Rightarrow> 's sem_ops \<Rightarrow> http_cfg \<Rightarrow> parse_task \<Rightarrow> wake list
   \<Rightarrow> 'tx \<Rightarrow> 'm request \<Rightarrow> nat \<Rightarrow> ('s, 'fs) host \<Rightarrow> ('m, 'tx) http_exchange step_end \<times> ('s, 'fs) host" where
  "submit H Q P T S cfg task wakes tx request held h =
     (case parse_multipart H Q P T task (hc_uploads cfg) request (ho_fs h) of
        (fs, None) \<Rightarrow> (Gone, h\<lparr>ho_fs := fs, ho_intake := release_body S held (ho_intake h)\<rparr>)
      | (fs, Some (Err e)) \<Rightarrow>
          (RefusedWith (rej_status e), h\<lparr>ho_fs := fs, ho_intake := release_body S held (ho_intake h)\<rparr>)
      | (fs, Some (Ok request)) \<Rightarrow>
          (case submit_unit S wakes held (ho_intake h) of
             (Queued, i) \<Rightarrow>
               (Done (exchange_queue H request tx (if hc_superglobals cfg then Some (hc_entrypoint cfg) else None)),
                h\<lparr>ho_fs := fs, ho_intake := i\<rparr>)
           | (RefusedAs e, i) \<Rightarrow>
               (RefusedWith (rej_status (refusal_of e)), h\<lparr>ho_fs := drop_request T request fs, ho_intake := i\<rparr>)
           | (_, i) \<Rightarrow> (Gone, h\<lparr>ho_fs := drop_request T request fs, ho_intake := i\<rparr>)))"

text \<open>\<open>serve_php\<close> up to the submit.\<close>

record http_env =
  he_body :: "body_event list"
  he_task :: parse_task
  he_wakes :: "wake list"

definition admit_request ::
  "'m header_ops \<Rightarrow> search_ops \<Rightarrow> parse_headers \<Rightarrow> 'fs temp_ops \<Rightarrow> 's sem_ops \<Rightarrow> http_cfg \<Rightarrow> http_env
   \<Rightarrow> 'tx \<Rightarrow> 'm parts \<Rightarrow> bytes option \<Rightarrow> peer \<Rightarrow> ('s, 'fs) host
   \<Rightarrow> ('m, 'tx) http_exchange step_end \<times> ('s, 'fs) host" where
  "admit_request H Q P T S cfg env tx parts auth pr h =
     (case reserve_body S 0 (ho_intake h) of
        (Err e, i) \<Rightarrow> (RefusedWith (rej_status (refusal_of e)), h\<lparr>ho_intake := i\<rparr>)
      | (Ok held0, i) \<Rightarrow>
          (case read_body S (hc_max_body_size cfg) (he_body env) [] held0 i of
             (Done collected, held, i') \<Rightarrow>
               submit H Q P T S cfg (he_task env) (he_wakes env) tx
                 (build_request H parts auth collected pr cfg) held (h\<lparr>ho_intake := i'\<rparr>)
           | (RefusedWith st, held, i') \<Rightarrow> (RefusedWith st, h\<lparr>ho_intake := release_body S held i'\<rparr>)
           | (Gone, held, i') \<Rightarrow> (Gone, h\<lparr>ho_intake := release_body S held i'\<rparr>)))"

section \<open>The response\<close>

text \<open>
  \<open>first\<close> is what the reply channel gives first, \<open>staged\<close> what it gives within the next 10 ms. A
  bodiless reply leaves the receiver to the drain task, with an empty body.
\<close>

definition final_status :: "nat \<Rightarrow> nat" where
  "final_status status = (if 200 \<le> status \<and> status \<le> 999 then status else 502)"

definition reply_response ::
  "'m header_ops \<Rightarrow> 'm frame option \<Rightarrow> 'm frame option \<Rightarrow> 'm http_response" where
  "reply_response H first staged = (case first of
       Some (Head head content_length bodiless) \<Rightarrow>
         (let status = final_status (rh_status head);
              kind = (if bodiless then EmptyKind
                else ReplyKind (reply_body_new content_length (if content_length \<noteq> None then staged else None)));
              header_cl = (if status = 204 \<or> status = 304 then None else content_length)
          in \<lparr>hr_status = status, hr_headers = response_headers H (rh_headers head) header_cl, hr_body = kind\<rparr>)
     | _ \<Rightarrow> refused_response H 502)"

text \<open>
  The end of \<open>serve_php\<close>: the head is the first frame of the channel; a reply with a declared length waits for its first
  frame, at most 10 ms. A wait that is still pending after so many polls is over for the timer (or, where there is
  none, for the client that left): None.
\<close>

fun recv_await :: "('w, 'm frame) bridge_ops \<Rightarrow> nat \<Rightarrow> 'w \<Rightarrow> 'm frame option option \<times> 'w" where
  "recv_await B 0 w = (None, w)"
| "recv_await B (Suc n) w = (case b_poll_recv B w of
       (RecvPending, w') \<Rightarrow> recv_await B n w'
     | (RecvClosed, w') \<Rightarrow> (Some None, w')
     | (RecvFrame f, w') \<Rightarrow> (Some (Some f), w'))"

definition serve_reply ::
  "'m header_ops \<Rightarrow> ('w, 'm frame) bridge_ops \<Rightarrow> nat \<Rightarrow> nat \<Rightarrow> 'w \<Rightarrow> ('m http_response \<times> 'w) option" where
  "serve_reply H B polls polls10 w = (case recv_await B polls w of
       (None, w1) \<Rightarrow> None
     | (Some first, w1) \<Rightarrow>
         (case first of
            Some (Head head (Some content_length) False) \<Rightarrow>
              (case recv_await B polls10 w1 of
                 (got, w2) \<Rightarrow> Some (reply_response H first (case got of Some staged \<Rightarrow> staged | None \<Rightarrow> None), w2))
          | _ \<Rightarrow> Some (reply_response H first None, w1)))"

text \<open>
  \<open>handle\<close>: a response without PHP, or the unit queued for PHP; \<open>static\<close> answers for the file server.
\<close>

datatype ('m, 'tx) handled = Answered "'m http_response" | ToPhp "('m, 'tx) http_exchange" | Left

definition handle ::
  "'m header_ops \<Rightarrow> search_ops \<Rightarrow> parse_headers \<Rightarrow> 'fs temp_ops \<Rightarrow> 's sem_ops \<Rightarrow> http_cfg
   \<Rightarrow> ('m parts \<Rightarrow> 'm http_response option) \<Rightarrow> http_env \<Rightarrow> 'tx \<Rightarrow> 'm parts \<Rightarrow> peer \<Rightarrow> ('s, 'fs) host
   \<Rightarrow> ('m, 'tx) handled \<times> ('s, 'fs) host" where
  "handle H Q P T S cfg static env tx parts0 pr h0 =
     (let h = h0\<lparr>ho_inflight := ho_inflight h0 + 1\<rparr> in
      case check_request H parts0 (hc_superglobals cfg) (hc_max_body_size cfg) of
        (_, Err rej) \<Rightarrow> (Answered (refused_response H (rej_status rej)), h)
      | (parts, Ok auth) \<Rightarrow>
          (case static parts of
             Some res \<Rightarrow> (Answered res, h)
           | None \<Rightarrow> (case admit_request H Q P T S cfg env tx parts auth pr h of
                 (Done u, h') \<Rightarrow> (ToPhp u, h')
               | (RefusedWith st, h') \<Rightarrow> (Answered (refused_response H st), h')
               | (Gone, h') \<Rightarrow> (Left, h'\<lparr>ho_inflight := ho_inflight h' - 1\<rparr>))))"

text \<open>The guard of a response is dropped with its body.\<close>

definition response_dropped :: "('s, 'fs) host \<Rightarrow> ('s, 'fs) host" where
  "response_dropped h = h\<lparr>ho_inflight := ho_inflight h - 1\<rparr>"

definition respond ::
  "'m header_ops \<Rightarrow> bool \<Rightarrow> bytes \<Rightarrow> nat \<Rightarrow> 'm http_response \<Rightarrow> 'm http_response \<times> resp_transport option \<times> nat option" where
  "respond H closing meth flushes r0 =
     (let r = (if closing then r0\<lparr>hr_headers := h_insert H (hr_headers r0) ''connection'' ''close''\<rparr> else r0)
      in (r, arm_response (framed_length H meth (hr_status r) (hr_headers r)
              (is_end_stream (hr_body r)) (exact_size (hr_body r))) flushes None))"

section \<open>What a refused request leaves behind\<close>

lemma refusal_status: "rej_status (refusal_of e) \<in> {500, 503}"
  by (cases e) (simp_all add: refusal_of_def)

lemma boundary_refusal: "boundary Q ct = Err e \<Longrightarrow> rej_status e = 400"
proof -
  have "boundary_segs Q segs = Err e \<Longrightarrow> rej_status e = 400" for segs
    by (induction Q segs rule: boundary_segs.induct)
      (auto simp: boundary_value_def bad_def split: option.splits if_splits result.splits)
  then show "boundary Q ct = Err e \<Longrightarrow> rej_status e = 400" by (simp add: boundary_def)
qed

text \<open>The bytes of the body, and whether the stream ended in order.\<close>

fun event_bytes :: "body_event \<Rightarrow> bytes" where
  "event_bytes (BodyBytes d) = d"
| "event_bytes _ = []"

definition body_bytes :: "body_event list \<Rightarrow> bytes" where
  "body_bytes es = concat (map event_bytes es)"

definition body_complete :: "body_event list \<Rightarrow> bool" where
  "body_complete es \<longleftrightarrow> list_all (\<lambda>e. case e of BodyBytes _ \<Rightarrow> True | BodyTrailers \<Rightarrow> True | _ \<Rightarrow> False) es"

lemma body_simps [simp]:
  "body_bytes [] = []" "body_bytes (e # es) = event_bytes e @ body_bytes es"
  "body_complete []" "body_complete (BodyBytes d # es) = body_complete es"
  "body_complete (BodyTrailers # es) = body_complete es"
  by (simp_all add: body_bytes_def body_complete_def)

lemma grow_body_held:
  "grow_body S held n i = ((held', Ok u), i') \<Longrightarrow> min n BODY_BUDGET \<le> held'"
  by (auto simp: grow_body_def reserve_body_def Let_def split: if_splits prod.splits result.splits acquire_outcome.splits)

lemma grow_body_queue: "grow_body S held n i = (r, i') \<Longrightarrow> i_queue i' = i_queue i"
  by (auto simp: grow_body_def reserve_body_def Let_def count_shed_def
      split: if_splits prod.splits result.splits acquire_outcome.splits)

lemma read_body_result:
  assumes "read_body S mx es c held i = (r, held', i')" "min (length c) BODY_BUDGET \<le> held" "length c \<le> mx"
  shows "(case r of
       Done b \<Rightarrow> b = c @ body_bytes es \<and> length b \<le> mx \<and> body_complete es \<and> min (length b) BODY_BUDGET \<le> held'
     | RefusedWith st \<Rightarrow> st \<in> {400, 408, 413, 500, 503}
     | Gone \<Rightarrow> True)
   \<and> i_queue i' = i_queue i"
  using assms
proof (induction S mx es c held i rule: read_body.induct)
  case (6 S mx d es c held i)
  show ?case
  proof (cases "length c + length d > mx")
    case True
    with 6(2) show ?thesis by auto
  next
    case False
    obtain h2 r2 i2 where g: "grow_body S held (length c + length d) i = ((h2, r2), i2)" by (metis prod.collapse)
    show ?thesis
    proof (cases r2)
      case (Err e)
      with 6(2) False g have "r = RefusedWith (rej_status (refusal_of e))" "i' = i2" by simp_all
      with refusal_status [of e] grow_body_queue [OF g] show ?thesis by auto
    next
      case (Ok u)
      with 6(2) False g have "read_body S mx es (c @ d) h2 i2 = (r, held', i')" by simp
      moreover have "min (length (c @ d)) BODY_BUDGET \<le> h2" using grow_body_held g Ok by fastforce
      ultimately have "(case r of
         Done b \<Rightarrow> b = (c @ d) @ body_bytes es \<and> length b \<le> mx \<and> body_complete es
                    \<and> min (length b) BODY_BUDGET \<le> held'
       | RefusedWith st \<Rightarrow> st \<in> {400, 408, 413, 500, 503} | Gone \<Rightarrow> True) \<and> i_queue i' = i_queue i2"
        using 6(1) [OF False g [symmetric] refl Ok] False by simp
      with grow_body_queue [OF g] show ?thesis by (simp split: step_end.splits)
    qed
  qed
qed (auto split: step_end.splits)

context semaphore
begin

lemma read_body_balanced:
  "read_body S mx es c held i = (r, held', i') \<Longrightarrow> balanced avail (others + held) i \<Longrightarrow> counted p w f d i
   \<Longrightarrow> balanced avail (others + held') i' \<and> (\<exists>d'. counted p w f d' i')"
proof (induction es arbitrary: c held i d)
  case (Cons e es)
  show ?case
  proof (cases e)
    case (BodyBytes b)
    obtain h2 r2 i2 where g: "grow_body S held (length c + length b) i = ((h2, r2), i2)" by (metis prod.collapse)
    from grow_body_inv [OF g Cons.prems(2,3)] obtain d2
      where g2: "balanced avail (others + h2) i2" "counted p w f d2 i2" by blast
    show ?thesis
    proof (cases "length c + length b > mx")
      case True
      with Cons.prems BodyBytes show ?thesis by auto
    next
      case False
      show ?thesis
      proof (cases r2)
        case (Err e)
        with Cons.prems(1) BodyBytes False g g2 show ?thesis by auto
      next
        case (Ok u)
        with Cons.prems(1) BodyBytes False g have "read_body S mx es (c @ b) h2 i2 = (r, held', i')" by simp
        from Cons.IH [OF this g2] show ?thesis .
      qed
    qed
  qed (use Cons in auto)
qed auto

lemma await_slot_balanced:
  "await_slot S ws held i = (r, i') \<Longrightarrow> balanced avail (others + held) i \<Longrightarrow> counted p (w + 1) f d i
   \<Longrightarrow> r \<noteq> WaitForSlot \<and> balanced avail others i' \<and> (\<exists>f' d'. counted p w f' d' i')
     \<and> i_queue i' = i_queue i @ (if r = Queued then [held] else [])"
proof (induction ws arbitrary: i)
  case Nil
  then have s: "submit_resume S FutureDropped held i = (r, i')" by simp
  from submit_resume_inv [OF s Nil.prems(2,3)] s show ?case
    by (auto simp: submit_resume_def intake_ops)
next
  case (Cons wk ws)
  obtain r1 i1 where s: "submit_resume S wk held i = (r1, i1)" by fastforce
  note inv = submit_resume_inv [OF s Cons.prems(2,3)]
  have q: "i_queue i1 = i_queue i @ (if r1 = Queued then [held] else [])"
    using s Cons.prems(2)
    by (cases wk) (auto simp: submit_resume_def Let_def intake_ops balanced_def
        split: prod.splits acquire_outcome.splits if_splits)
  show ?case
  proof (cases "r1 = WaitForSlot")
    case True
    with Cons.prems(1) s have "await_slot S ws held i1 = (r, i')" by simp
    moreover have "balanced avail (others + held) i1" "counted p (w + 1) f d i1" using inv True by simp_all
    ultimately show ?thesis using Cons.IH q True by simp
  next
    case False
    with Cons.prems(1) s have "r = r1" "i' = i1" by (cases r1; simp)+
    with inv q False show ?thesis by (cases r1) auto
  qed
qed

lemma submit_unit_balanced:
  assumes "submit_unit S ws held i = (r, i')" "balanced avail (others + held) i" "counted p w f d i"
  shows "r \<noteq> WaitForSlot \<and> balanced avail others i' \<and> (\<exists>f' d'. counted p w f' d' i')
     \<and> i_queue i' = i_queue i @ (if r = Queued then [held] else [])"
proof -
  obtain r1 i1 where s: "submit_start S held i = (r1, i1)" by fastforce
  note inv = submit_start_inv [OF s assms(2,3)]
  have q: "i_queue i1 = i_queue i @ (if r1 = Queued then [held] else [])"
    using s assms(2)
    by (auto simp: submit_start_def Let_def intake_ops balanced_def
        split: prod.splits acquire_outcome.splits if_splits)
  show ?thesis
  proof (cases "r1 = WaitForSlot")
    case True
    with assms(1) s have "await_slot S ws held i1 = (r, i')" by (simp add: submit_unit_def)
    moreover have "balanced avail (others + held) i1" "counted p (w + 1) f d i1" using inv True by simp_all
    ultimately show ?thesis using await_slot_balanced q True by simp
  next
    case False
    with assms(1) s have "r = r1" "i' = i1" by (cases r1; simp add: submit_unit_def)+
    with inv q False show ?thesis by (cases r1) auto
  qed
qed

end

text \<open>
  The body PHP finds: the collected bytes from their start, with no file spooled, where no multipart parse applies;
  otherwise the parts that the parse makes of exactly these bytes, with one new file per file part.
\<close>

definition body_for_php ::
  "search_ops \<Rightarrow> parse_headers \<Rightarrow> 'fs temp_ops \<Rightarrow> ('fs \<Rightarrow> bytes \<Rightarrow> bytes option) \<Rightarrow> limits option \<Rightarrow> bytes
   \<Rightarrow> 'm request \<Rightarrow> 'fs \<Rightarrow> 'fs \<Rightarrow> bool" where
  "body_for_php Q P T view limits collected req fs fs' = (case rq_body req of
       RawBody b pos \<Rightarrow> b = collected \<and> pos = 0 \<and> view fs' = view fs
         \<and> (limits = None \<or> collected = [] \<or> (case rq_content_type req of None \<Rightarrow> True | Some ct \<Rightarrow> \<not> is_multipart ct))
     | MultipartBody flds files \<Rightarrow>
         (\<exists>lim ct bnd. limits = Some lim \<and> rq_content_type req = Some ct \<and> boundary Q ct = Ok bnd
            \<and> parse Q P T collected bnd lim fs = (fs', Ok (flds, files)))
         \<and> owns (view fs) (view fs') files)"

lemma parsed_body_outcome:
  assumes "part_parser P" "temp_files T view stuck" "parse Q P T b bnd lim fs = (fs1, pr)"
  shows "case pr of Err e \<Rightarrow> kept_but (stuck fs1) (view fs) (view fs1) \<and> rej_status e \<in> {400, 413, 500}
    | Ok acc \<Rightarrow> owns (view fs) (view fs1) (snd acc)
        \<and> kept_but (stuck (drop_files T (snd acc) fs1)) (view fs) (view (drop_files T (snd acc) fs1))"
  using parse_outcome [OF assms(1,2), where Q = Q and body = b and bnd = bnd and lim = lim and fs = fs] assms(3)
  by (cases pr) (auto intro: temp_files.drop_owned [OF assms(2)] owns_owns_but)

lemma parse_multipart_outcome:
  assumes "part_parser P" "temp_files T view stuck" "rq_body req = RawBody b 0"
    and "parse_multipart H Q P T task limits req fs = (fs', r)"
  shows "case r of
      None \<Rightarrow> kept_but (stuck fs') (view fs) (view fs')
    | Some (Err e) \<Rightarrow> kept_but (stuck fs') (view fs) (view fs') \<and> rej_status e \<in> {400, 413, 500}
    | Some (Ok req') \<Rightarrow> req' = req\<lparr>rq_body := rq_body req'\<rparr> \<and> body_for_php Q P T view limits b req' fs fs'
        \<and> kept_but (stuck (drop_request T req' fs')) (view fs) (view (drop_request T req' fs'))"
proof (cases "\<exists>lim ct bnd. limits = Some lim \<and> rq_content_type req = Some ct \<and> boundary Q ct = Ok bnd
    \<and> is_multipart ct \<and> b \<noteq> [] \<and> (length b \<le> INLINE_PARSE_MAX \<or> task \<noteq> TaskFailed)
    \<and> \<not> (2 \<le> length (h_get_all H (rq_headers req) ''content-type'')
        \<and> (\<exists>v\<in>set (h_get_all H (rq_headers req) ''content-type''). is_multipart v))")
  case True
  then obtain lim ct bnd where lim: "limits = Some lim" and ct: "rq_content_type req = Some ct" "boundary Q ct = Ok bnd"
      "is_multipart ct" "b \<noteq> []" "length b \<le> INLINE_PARSE_MAX \<or> task \<noteq> TaskFailed"
      "\<not> (2 \<le> length (h_get_all H (rq_headers req) ''content-type'')
        \<and> (\<exists>v\<in>set (h_get_all H (rq_headers req) ''content-type''). is_multipart v))" by blast
  obtain fs1 pr where p: "parse Q P T b bnd lim fs = (fs1, pr)" by fastforce
  have e: "(fs', r) = (if length b \<le> INLINE_PARSE_MAX \<or> task = TaskJoined
      then (fs1, Some (case pr of Err e \<Rightarrow> Err e | Ok (flds, files) \<Rightarrow> Ok (req\<lparr>rq_body := MultipartBody flds files\<rparr>)))
      else (case pr of Err e \<Rightarrow> (fs1, None) | Ok (flds, files) \<Rightarrow> (drop_files T files fs1, None)))"
    using assms(4) lim ct p assms(3)
    by (cases task; cases pr) (auto simp: parse_multipart_def Let_def split: if_splits)
  note out = parsed_body_outcome [OF assms(1,2) p]
  show ?thesis
  proof (cases pr)
    case (Err e')
    with e out show ?thesis by (auto split: if_splits)
  next
    case (Ok acc)
    with e out p lim ct show ?thesis
      by (cases acc) (auto simp: body_for_php_def drop_request_def split: if_splits)
  qed
next
  case False
  then show ?thesis
    using assms(3,4)
    by (auto simp: parse_multipart_def Let_def drop_request_def bad_def body_for_php_def kept_refl
        split: option.splits if_splits result.splits dest: boundary_refusal)
qed

text \<open>
  What a request left behind: everything it held went back, whoever else holds \<open>others\<close>, and no new file, except
  one whose removal the system refused.
\<close>

definition released ::
  "('s \<Rightarrow> nat) \<Rightarrow> ('fs \<Rightarrow> bytes \<Rightarrow> bytes option) \<Rightarrow> ('fs \<Rightarrow> bytes set) \<Rightarrow> nat \<Rightarrow> ('s, 'fs) host \<Rightarrow> ('s, 'fs) host
   \<Rightarrow> bool" where
  "released avail view stuck others h h' \<longleftrightarrow>
     balanced avail others (ho_intake h') \<and> i_queue (ho_intake h') = i_queue (ho_intake h)
     \<and> pool_pending (i_pool (ho_intake h')) = pool_pending (i_pool (ho_intake h))
     \<and> kept_but (stuck (ho_fs h')) (view (ho_fs h)) (view (ho_fs h'))"

text \<open>The unit in the queue: one more there, its body whole, within the limit and charged to the budget.\<close>

definition queued_unit ::
  "search_ops \<Rightarrow> parse_headers \<Rightarrow> 'fs temp_ops \<Rightarrow> ('fs \<Rightarrow> bytes \<Rightarrow> bytes option) \<Rightarrow> ('s \<Rightarrow> nat) \<Rightarrow> nat \<Rightarrow> http_cfg
   \<Rightarrow> bytes \<Rightarrow> ('m, 'tx) http_exchange \<Rightarrow> ('s, 'fs) host \<Rightarrow> ('s, 'fs) host \<Rightarrow> bool" where
  "queued_unit Q P T view avail others cfg collected u h h' \<longleftrightarrow>
     balanced avail others (ho_intake h') \<and> length collected \<le> hc_max_body_size cfg
     \<and> rq_content_length (fst u) = int (length collected)
     \<and> body_for_php Q P T view (hc_uploads cfg) collected (fst u) (ho_fs h) (ho_fs h')
     \<and> pool_pending (i_pool (ho_intake h')) = pool_pending (i_pool (ho_intake h)) + 1
     \<and> (\<exists>held. i_queue (ho_intake h') = i_queue (ho_intake h) @ [held] \<and> min (length collected) BODY_BUDGET \<le> held)"

text \<open>What else PHP learns of the request: the line and the fields as they were checked, and the peer.\<close>

definition request_of :: "'m header_ops \<Rightarrow> 'm parts \<Rightarrow> peer \<Rightarrow> 'm request \<Rightarrow> bool" where
  "request_of H ps pr req \<longleftrightarrow>
     rq_method req = p_method ps \<and> rq_headers req = p_headers ps
     \<and> rq_content_type req = h_get H (p_headers ps) ''content-type''
     \<and> rq_uri req = (case p_path_and_query ps of Some pq \<Rightarrow> pq | None \<Rightarrow> ''/'')
     \<and> rq_remote req = peer_remote pr \<and> rq_server req = peer_server pr \<and> rq_https req = peer_https pr
     \<and> rq_received_at req = peer_received_at pr"

lemma counted_pending:
  "counted p w f d i \<Longrightarrow> counted p w f' d' i' \<Longrightarrow> i_queue i' = i_queue i @ xs
   \<Longrightarrow> pool_pending (i_pool i') = pool_pending (i_pool i) + of_nat (length xs)"
  by (simp add: counted_def)

text \<open>Both only look at a few parts of the host before.\<close>

lemma before_cong:
  "i_queue (ho_intake g) = i_queue (ho_intake h) \<Longrightarrow>
     pool_pending (i_pool (ho_intake g)) = pool_pending (i_pool (ho_intake h)) \<Longrightarrow>
     ho_fs g = ho_fs h \<Longrightarrow>
     queued_unit Q P T view avail others cfg collected u g h' = queued_unit Q P T view avail others cfg collected u h h'"
  "i_queue (ho_intake g) = i_queue (ho_intake h) \<Longrightarrow>
     pool_pending (i_pool (ho_intake g)) = pool_pending (i_pool (ho_intake h)) \<Longrightarrow>
     ho_fs g = ho_fs h \<Longrightarrow>
     released avail view stuck others g h' = released avail view stuck others h h'"
  by (simp_all add: queued_unit_def released_def)

lemma submit_outcome:
  assumes "semaphore S avail sem_closed" "part_parser P" "temp_files T view stuck"
    and "balanced avail (others + held) (ho_intake h)" "counted p w f d (ho_intake h)"
    and "rq_body request = RawBody b 0" "rq_content_length request = int (length b)"
    and "length b \<le> hc_max_body_size cfg" "min (length b) BODY_BUDGET \<le> held"
    and "submit H Q P T S cfg task wakes tx request held h = (r, h')"
  shows "ho_inflight h' = ho_inflight h \<and> (\<exists>f' d'. counted p w f' d' (ho_intake h')) \<and> (case r of
      Done u \<Rightarrow> queued_unit Q P T view avail others cfg b u h h' \<and> fst (snd u) = tx
        \<and> fst u = request\<lparr>rq_body := rq_body (fst u)\<rparr>
    | RefusedWith st \<Rightarrow> st \<in> {400, 413, 500, 503} \<and> released avail view stuck others h h'
    | Gone \<Rightarrow> released avail view stuck others h h')"
proof -
  obtain fs pm where pm: "parse_multipart H Q P T task (hc_uploads cfg) request (ho_fs h) = (fs, pm)" by fastforce
  note out = parse_multipart_outcome [OF assms(2,3,6) pm]
  have returned: "released avail view stuck others h (h\<lparr>ho_fs := fs, ho_intake := release_body S held (ho_intake h)\<rparr>)
      \<and> counted p w f d (release_body S held (ho_intake h))" if "kept_but (stuck fs) (view (ho_fs h)) (view fs)"
    using semaphore.release_body_inv [OF assms(1)] assms(4,5) that
    by (auto simp: released_def release_body_def)
  consider (gone) "pm = None" | (refused) e where "pm = Some (Err e)" | (parsed) req where "pm = Some (Ok req)"
    by (metis option.exhaust result.exhaust)
  then show ?thesis
  proof cases
    case gone
    with assms(10) pm have "r = Gone" "h' = h\<lparr>ho_fs := fs, ho_intake := release_body S held (ho_intake h)\<rparr>"
      by (simp_all add: submit_def)
    with returned out gone show ?thesis by auto
  next
    case (refused e)
    with assms(10) pm have "r = RefusedWith (rej_status e)"
      "h' = h\<lparr>ho_fs := fs, ho_intake := release_body S held (ho_intake h)\<rparr>"
      by (simp_all add: submit_def)
    with returned out refused show ?thesis by auto
  next
    case (parsed req)
    obtain sr i where s: "submit_unit S wakes held (ho_intake h) = (sr, i)" by fastforce
    from semaphore.submit_unit_balanced [OF assms(1) s assms(4,5)] obtain f' d' where
      sb: "sr \<noteq> WaitForSlot" "balanced avail others i" "counted p w f' d' i"
        "i_queue i = i_queue (ho_intake h) @ (if sr = Queued then [held] else [])" by blast
    note pend = counted_pending [OF assms(5) sb(3,4)]
    let ?gone = "drop_request T req fs"
    have v: "kept_but (stuck ?gone) (view (ho_fs h)) (view ?gone)"
      "body_for_php Q P T view (hc_uploads cfg) b req (ho_fs h) fs" "req = request\<lparr>rq_body := rq_body req\<rparr>"
      using out parsed by simp_all
    have len: "rq_content_length req = int (length b)" using assms(7) by (subst v(3)) simp
    show ?thesis
    proof (cases sr)
      case Queued
      with assms(10) pm parsed s have
        "r = Done (exchange_queue H req tx (if hc_superglobals cfg then Some (hc_entrypoint cfg) else None))"
        "h' = h\<lparr>ho_fs := fs, ho_intake := i\<rparr>" by (simp_all add: submit_def)
      with Queued sb pend v(2) len assms(8,9) v(3) show ?thesis
        by (auto simp: queued_unit_def exchange_queue_def)
    next
      case (RefusedAs e)
      with assms(10) pm parsed s have r: "r = RefusedWith (rej_status (refusal_of e))"
        "h' = h\<lparr>ho_fs := drop_request T req fs, ho_intake := i\<rparr>" by (simp_all add: submit_def)
      with RefusedAs sb pend v(1) refusal_status [of e] show ?thesis by (auto simp: released_def)
    next
      case DroppedWhileWaiting
      with assms(10) pm parsed s have "r = Gone" "h' = h\<lparr>ho_fs := drop_request T req fs, ho_intake := i\<rparr>"
        by (simp_all add: submit_def)
      with DroppedWhileWaiting sb pend v(1) show ?thesis by (auto simp: released_def)
    qed (use sb in simp)
  qed
qed

lemma admit_outcome:
  assumes "semaphore S avail sem_closed" "part_parser P" "temp_files T view stuck"
    and "balanced avail others (ho_intake h)" "counted p w f d (ho_intake h)"
    and "admit_request H Q P T S cfg env tx parts auth pr h = (r, h')"
  shows "ho_inflight h' = ho_inflight h \<and> (case r of
      Done u \<Rightarrow> body_complete (he_body env) \<and> fst (snd u) = tx
        \<and> queued_unit Q P T view avail others cfg (body_bytes (he_body env)) u h h' \<and> request_of H parts pr (fst u)
    | RefusedWith st \<Rightarrow> st \<in> {400, 408, 413, 500, 503} \<and> released avail view stuck others h h'
    | Gone \<Rightarrow> released avail view stuck others h h')"
proof -
  obtain r0 i where r0: "reserve_body S 0 (ho_intake h) = (r0, i)" by fastforce
  have q0: "i_queue i = i_queue (ho_intake h)"
    using r0 by (auto simp: reserve_body_def count_shed_def split: prod.splits acquire_outcome.splits)
  show ?thesis
  proof (cases r0)
    case (Err e)
    with assms(6) r0 have r: "r = RefusedWith (rej_status (refusal_of e))" and h': "h' = h\<lparr>ho_intake := i\<rparr>"
      by (simp_all add: admit_request_def)
    from semaphore.reserve_body_Err [OF assms(1) r0 [unfolded Err] assms(4,5)] obtain d'
      where b: "balanced avail others i" "counted p w f d' i" by blast
    from counted_pending [OF assms(5) b(2), of "[]"] q0
    have "pool_pending (i_pool i) = pool_pending (i_pool (ho_intake h))" by simp
    with b q0 refusal_status [of e] show ?thesis by (auto simp: released_def r h' kept_refl)
  next
    case (Ok held0)
    from semaphore.reserve_body_Ok [OF assms(1) r0 [unfolded Ok] assms(4,5)]
    have b0: "balanced avail (others + held0) i" "counted p w f d i" by simp_all
    obtain br held i' where rb: "read_body S (hc_max_body_size cfg) (he_body env) [] held0 i = (br, held, i')"
      by (metis prod_cases3)
    from semaphore.read_body_balanced [OF assms(1) rb b0] obtain d' where
      b1: "balanced avail (others + held) i'" "counted p w f d' i'" by blast
    note res = read_body_result [OF rb, simplified]
    have q1: "i_queue i' = i_queue (ho_intake h)" using res q0 by simp
    note pend = counted_pending [OF assms(5) b1(2), of "[]", simplified, OF q1]
    have rel: "released avail view stuck others h (h\<lparr>ho_intake := release_body S held i'\<rparr>)"
      using semaphore.release_body_inv(1) [OF assms(1) b1(1)] q1 pend
      by (simp add: released_def release_body_def kept_refl)
    show ?thesis
    proof (cases br)
      case (Done collected)
      let ?req = "build_request H parts auth collected pr cfg"
      have sub: "submit H Q P T S cfg (he_task env) (he_wakes env) tx ?req held (h\<lparr>ho_intake := i'\<rparr>) = (r, h')"
        using assms(6) r0 Ok rb Done by (simp add: admit_request_def)
      have c: "collected = body_bytes (he_body env)" "length collected \<le> hc_max_body_size cfg"
        "body_complete (he_body env)" "min (length collected) BODY_BUDGET \<le> held"
        using res unfolding Done by auto
      have rq: "rq_body ?req = RawBody collected 0" "rq_content_length ?req = int (length collected)"
        by (simp_all add: build_request_def)
      have bi: "balanced avail (others + held) (ho_intake (h\<lparr>ho_intake := i'\<rparr>))"
        "counted p w f d' (ho_intake (h\<lparr>ho_intake := i'\<rparr>))" using b1 by simp_all
      note out = submit_outcome [OF assms(1,2,3) bi rq c(2,4) sub]
      note same = before_cong [where g = "h\<lparr>ho_intake := i'\<rparr>" and h = h]
      have ro: "request_of H parts pr rq" if "rq = ?req\<lparr>rq_body := rq_body rq\<rparr>" for rq
        by (subst that) (simp add: request_of_def build_request_def)
      show ?thesis using out c by (cases r) (auto simp: same q1 pend intro: ro)
    next
      case (RefusedWith st)
      then show ?thesis using assms(6) r0 Ok rb rel res by (auto simp: admit_request_def)
    next
      case Gone
      then show ?thesis using assms(6) r0 Ok rb rel by (auto simp: admit_request_def)
    qed
  qed
qed


definition sample_cfg :: http_cfg where
  "sample_cfg = \<lparr>hc_superglobals = False, hc_max_body_size = 10, hc_uploads = None, hc_entrypoint = [],
     hc_server_name = ''a.test'', hc_server_port = 80\<rparr>"

definition sample_peer :: peer where
  "sample_peer = \<lparr>peer_remote = \<lparr>sa_ip = ''127.0.0.1'', sa_v6 = False, sa_port = 9\<rparr>,
     peer_server = \<lparr>sa_ip = ''127.0.0.1'', sa_v6 = False, sa_port = 80\<rparr>, peer_https = False, peer_received_at = 0\<rparr>"

definition sample_host :: "(nat \<times> bool, disk) host" where
  "sample_host = \<lparr>ho_intake = intake_new count_sem (pool_new ''http'' []), ho_fs = empty_disk [],
     ho_inflight = 0, ho_closing = False\<rparr>"

definition sample_handled ::
  "body_event list \<Rightarrow> ((bytes \<times> bytes) list, unit) handled \<times> (nat \<times> bool, disk) host" where
  "sample_handled es = handle list_headers plain_search simple_headers disk_ops count_sem sample_cfg (\<lambda>_. None)
     \<lparr>he_body = es, he_task = TaskJoined, he_wakes = []\<rparr> () sample_parts sample_peer sample_host"


section \<open>From the frames of PHP to the response\<close>

lemma reply_response_status: "200 \<le> hr_status (reply_response H first staged) \<and> hr_status (reply_response H first staged) \<le> 999"
  by (simp add: reply_response_def refused_response_def final_status_def Let_def split: option.split frame.split)

context reply_source begin

lemma recv_await_frames:
  "recv_await B n w = (r, w') \<Longrightarrow> (case r of
      None \<Rightarrow> coming w' = coming w
    | Some None \<Rightarrow> coming w = [] \<and> coming w' = []
    | Some (Some f) \<Rightarrow> coming w = f # coming w')"
proof (induction n arbitrary: w)
  case (Suc n)
  obtain p w1 where p: "b_poll_recv B w = (p, w1)" by fastforce
  show ?case
  proof (cases p)
    case RecvPending
    with p Suc.prems have "recv_await B n w1 = (r, w')" by simp
    from Suc.IH [OF this] recv_pending [OF p [unfolded RecvPending]] show ?thesis by (auto split: option.splits)
  next
    case RecvClosed
    with p Suc.prems recv_closed [OF p [unfolded RecvClosed]] show ?thesis by auto
  next
    case (RecvFrame f)
    with p Suc.prems recv_frame [OF p [unfolded RecvFrame]] show ?thesis by auto
  qed
qed simp

text \<open>Whatever was staged in time, the body starts after the head and misses no frame.\<close>

lemma serve_reply_frames:
  assumes "serve_reply H B polls polls10 w = Some (res, w')" and "hr_body res = ReplyKind rb"
  shows "\<exists>head cl staged. coming w = Head head cl False # (case staged of None \<Rightarrow> [] | Some f \<Rightarrow> [f]) @ coming w'
    \<and> rb = reply_body_new cl staged"
proof -
  from assms(1) obtain first w1 where a: "recv_await B polls w = (Some first, w1)"
    by (auto simp: serve_reply_def split: prod.splits option.splits)
  show ?thesis
  proof (cases "\<exists>head cl bodiless. first = Some (Head head cl bodiless)")
    case False
    then have "hr_body (reply_response H first None) = BoxedKind []"
      by (auto simp: reply_response_def refused_response_def split: option.splits frame.splits)
    moreover have "res = reply_response H first None"
      using assms(1) a False by (auto simp: serve_reply_def split: option.splits frame.splits bool.splits)
    ultimately show ?thesis using assms(2) by simp
  next
    case True
    then obtain head cl bodiless where first: "first = Some (Head head cl bodiless)" by blast
    from recv_await_frames [OF a] have c: "coming w = Head head cl bodiless # coming w1" by (simp add: first)
    show ?thesis
    proof (cases "bodiless \<or> cl = None")
      case True
      then have "res = reply_response H first None" "w' = w1"
        using assms(1) a by (auto simp: serve_reply_def first split: option.splits bool.splits)
      with assms(2) True c show ?thesis
        by (intro exI [of _ head] exI [of _ cl] exI [of _ None])
          (auto simp: reply_response_def first Let_def split: if_splits)
    next
      case False
      then obtain n where n: "cl = Some n" "\<not> bodiless" by auto
      obtain got w2 where g: "recv_await B polls10 w1 = (got, w2)" by fastforce
      define staged where "staged = (case got of Some staged \<Rightarrow> staged | None \<Rightarrow> None)"
      from g a n assms(1) have "res = reply_response H first staged" "w' = w2"
        by (simp_all add: serve_reply_def first staged_def)
      with assms(2) n have "rb = reply_body_new cl staged"
        by (simp add: reply_response_def first Let_def)
      moreover have "coming w1 = (case staged of None \<Rightarrow> [] | Some f \<Rightarrow> [f]) @ coming w2"
        using recv_await_frames [OF g] by (auto simp: staged_def split: option.splits)
      ultimately show ?thesis using c n \<open>w' = w2\<close> by auto
    qed
  qed
qed

end

lemma serve_reply_status:
  "serve_reply H B polls polls10 w = Some (res, w') \<Longrightarrow> 200 \<le> hr_status res \<and> hr_status res \<le> 999"
  using reply_response_status
  by (auto simp: serve_reply_def split: prod.splits option.splits frame.splits bool.splits)

lemma wire_bytes_length: "length (wire_bytes cs fs) \<le> body_len fs"
  by (induction cs fs rule: wire_bytes.induct) auto

lemma clean_end_has_end: "clean_end fs \<Longrightarrow> End False \<in> set fs"
  by (induction fs rule: clean_end.induct) auto

end
