(* ===== verification/Config.thy ===== *)
theory Config
  imports Handler StaticCache
begin

text \<open>
  The configuration of the server (\<open>config\<close>, the \<open>config.rs\<close> of each plugin, \<open>settings.rs\<close> and the checks
  of \<open>main.rs\<close>): from the tables of \<open>rapira.toml\<close>, as serde hands them over, to the settings the components
  run with, or the message of the first error. Strings are UTF-8 bytes, numbers unsigned 64-bit values,
  durations milliseconds. The file system, the environment and the address parser of the standard library
  are the argument \<open>conf_env\<close>.
\<close>

section \<open>Results and text\<close>

definition and_then :: "('a, 'e) result \<Rightarrow> ('a \<Rightarrow> ('b, 'e) result) \<Rightarrow> ('b, 'e) result" where
  "and_then r f = (case r of Ok x \<Rightarrow> f x | Err e \<Rightarrow> Err e)"

definition ensure :: "bool \<Rightarrow> string \<Rightarrow> (unit, string) result" where
  "ensure b msg = (if b then Ok () else Err msg)"

definition transpose :: "('a \<Rightarrow> ('b, 'e) result) \<Rightarrow> 'a option \<Rightarrow> ('b option, 'e) result" where
  "transpose f x = (case x of None \<Rightarrow> Ok None | Some v \<Rightarrow> and_then (f v) (\<lambda>y. Ok (Some y)))"

named_theorems result_simps

lemma and_then_Ok [result_simps]: "and_then r f = Ok y \<longleftrightarrow> (\<exists>x. r = Ok x \<and> f x = Ok y)"
  by (cases r) (auto simp: and_then_def)

lemma ensure_Ok [result_simps]: "ensure b msg = Ok u \<longleftrightarrow> b"
  by (simp add: ensure_def)

lemma transpose_Ok [result_simps]:
  "transpose f x = Ok y \<longleftrightarrow> (case x of None \<Rightarrow> y = None | Some v \<Rightarrow> \<exists>z. f v = Ok z \<and> y = Some z)"
  by (auto simp: transpose_def result_simps split: option.split)

text \<open>The UTF-8 forms of the characters that \<open>char::is_whitespace\<close> accepts.\<close>

definition WHITESPACE :: "bytes list" where
  "WHITESPACE = map (\<lambda>n. [char_of n]) [9, 10, 11, 12, 13, 32 :: nat]
     @ map (\<lambda>ns. map char_of (ns :: nat list))
         ([[0xC2, 0x85], [0xC2, 0xA0], [0xE1, 0x9A, 0x80]]
          @ map (\<lambda>n. [0xE2, 0x80, n]) ([0x80 ..< 0x8B] @ [0xA8, 0xA9, 0xAF])
          @ [[0xE2, 0x81, 0x9F], [0xE3, 0x80, 0x80]])"

text \<open>In valid UTF-8 no such form starts inside a character.\<close>

definition has_whitespace :: "bytes \<Rightarrow> bool" where
  "has_whitespace s \<longleftrightarrow> list_ex (\<lambda>i. list_ex (starts_with (drop i s)) WHITESPACE) [0..<length s]"

function trim_left :: "bytes \<Rightarrow> bytes" where
  "trim_left s = (case find (\<lambda>w. starts_with s w \<and> w \<noteq> []) WHITESPACE of
     None \<Rightarrow> s | Some w \<Rightarrow> if s = [] then s else trim_left (drop (length w) s))"
  by pat_completeness auto
termination
  by (relation "measure length") (auto simp: find_Some_iff)

function trim_right :: "bytes \<Rightarrow> bytes" where
  "trim_right s = (case find (\<lambda>w. ends_with s w \<and> w \<noteq> []) WHITESPACE of
     None \<Rightarrow> s | Some w \<Rightarrow> if s = [] then s else trim_right (take (length s - length w) s))"
  by pat_completeness auto
termination
  by (relation "measure length") (auto simp: find_Some_iff)

declare trim_left.simps [simp del] trim_right.simps [simp del]

definition quoted_name :: "string \<Rightarrow> string" where "quoted_name s = ''\"'' @ s @ ''\"''"

section \<open>The shared helpers\<close>

record conf_env =
  ce_absolute :: "bytes \<Rightarrow> bytes \<Rightarrow> (bytes, string) result" \<comment> \<open>directory, relative path\<close>
  ce_parent :: "bytes \<Rightarrow> bytes option"
  ce_sock :: "bytes \<Rightarrow> sock_addr option"
  ce_threads :: nat \<comment> \<open>the available parallelism, at least 1\<close>
  ce_temp_dir :: bytes
  ce_is_file :: "bytes \<Rightarrow> (bool, string) result"
  ce_is_dir :: "bytes \<Rightarrow> (bool, string) result"
  ce_search :: "bytes \<Rightarrow> (unit, string) result"
  ce_create_dir :: "bytes \<Rightarrow> (unit, string) result"
  ce_new_file :: "bytes \<Rightarrow> (unit, string) result"

definition opt_path :: "conf_env \<Rightarrow> bytes \<Rightarrow> bytes option \<Rightarrow> (bytes option, string) result" where
  "opt_path E dir val = transpose (ce_absolute E dir) (opt_filter (\<lambda>v. v \<noteq> []) val)"

definition ANY_V4 :: string where "ANY_V4 = ''0.0.0.0''"
definition LOCALHOST_V4 :: string where "LOCALHOST_V4 = ''127.0.0.1''"

definition sock_v4 :: "string \<Rightarrow> nat \<Rightarrow> sock_addr" where
  "sock_v4 ip port = \<lparr>sa_ip = ip, sa_v6 = False, sa_port = port\<rparr>"

definition listen_parse :: "conf_env \<Rightarrow> bytes \<Rightarrow> (sock_addr, string) result" where
  "listen_parse E s0 =
     (let s = trim_right (trim_left s0) in
      if starts_with s ''unix:'' then Err ''Unix listeners are not supported on Windows: use host:port or :port''
      else if CHR '':'' \<notin> set s then Err (''`'' @ s @ ''` is not a listen address: use host:port or :port'')
      else if starts_with s '':''
      then (case parse_uint 16 (drop 1 s) of
              Some port \<Rightarrow> Ok (sock_v4 ANY_V4 port)
            | None \<Rightarrow> Err (''`'' @ s @ ''` has an invalid port''))
      else (case ce_sock E s of
              Some a \<Rightarrow> Ok a
            | None \<Rightarrow> Err (''`'' @ s @ ''` is not host:port (expected an IP literal, e.g. 127.0.0.1:8000)'')))"

definition parse_listen :: "conf_env \<Rightarrow> string \<Rightarrow> bytes option \<Rightarrow> sock_addr \<Rightarrow> (sock_addr, string) result" where
  "parse_listen E table raw default_addr = (case raw of
       Some s \<Rightarrow> map_err (\<lambda>e. ''invalid '' @ table @ ''.listen `'' @ s @ ''`: '' @ e) (listen_parse E s)
     | None \<Rightarrow> Ok default_addr)"

definition MAX_TIMEOUT_SECS :: nat where "MAX_TIMEOUT_SECS = 86400"

definition capped_timeout :: "string \<Rightarrow> string \<Rightarrow> nat \<Rightarrow> (nat, string) result" where
  "capped_timeout table key secs =
     and_then (ensure (secs \<le> MAX_TIMEOUT_SECS)
         (table @ ''.'' @ key @ '' '' @ decimal secs @ '' is too large (max '' @ decimal MAX_TIMEOUT_SECS @ '')''))
       (\<lambda>_. Ok (1000 * secs))"

definition nonzero_timeout :: "string \<Rightarrow> string \<Rightarrow> nat \<Rightarrow> (nat, string) result" where
  "nonzero_timeout table key secs =
     and_then (ensure (secs \<noteq> 0) (table @ ''.'' @ key @ '' must be at least 1''))
       (\<lambda>_. capped_timeout table key secs)"

text \<open>\<open>checked_mul\<close> of a \<open>u64\<close> (or a 64-bit \<open>usize\<close>).\<close>

definition checked_mul :: "nat \<Rightarrow> nat \<Rightarrow> nat option" where
  "checked_mul a b = (if a * b < 2 ^ 64 then Some (a * b) else None)"

definition scaled_size :: "string \<Rightarrow> nat \<Rightarrow> nat \<Rightarrow> (nat, string) result" where
  "scaled_size key n unit =
     and_then (ensure (n \<noteq> 0) (key @ '' must be at least 1''))
       (\<lambda>_. case checked_mul n unit of Some m \<Rightarrow> Ok m | None \<Rightarrow> Err (key @ '' '' @ decimal n @ '' is too large''))"

definition or_default :: "'a option \<Rightarrow> 'a \<Rightarrow> 'a" where
  "or_default x d = (case x of Some v \<Rightarrow> v | None \<Rightarrow> d)"

section \<open>Pools, logs and the supervisor\<close>

datatype mode = ModeClassic | ModeWorker | ModeDispatcher

definition mode_text :: "mode \<Rightarrow> string" where
  "mode_text m = (case m of ModeClassic \<Rightarrow> ''classic'' | ModeWorker \<Rightarrow> ''worker'' | ModeDispatcher \<Rightarrow> ''dispatcher'')"

record pool_section =
  psec_entrypoint :: "bytes option"
  psec_processes :: "nat option"
  psec_mode :: "mode option"
  psec_max_requests :: "nat option"

record pool_settings =
  pset_entrypoint :: bytes
  pset_processes :: nat
  pset_mode :: mode
  pset_max_requests :: nat

definition resolve_pool :: "conf_env \<Rightarrow> pool_section \<Rightarrow> string \<Rightarrow> bytes \<Rightarrow> (pool_settings, string) result" where
  "resolve_pool E sec table dir =
     (let processes = or_default (psec_processes sec) (ce_threads E) in
      and_then (ensure (1 \<le> processes \<and> processes \<le> 4096) (table @ ''.processes must be between 1 and 4096'')) (\<lambda>_.
      and_then (opt_path E dir (psec_entrypoint sec)) (\<lambda>entrypoint. case entrypoint of
        None \<Rightarrow> Err (table @ ''.entrypoint is required'')
      | Some path \<Rightarrow> Ok
         \<lparr>pset_entrypoint = path, pset_processes = processes,
          pset_mode = or_default (psec_mode sec) ModeDispatcher,
          pset_max_requests = or_default (psec_max_requests sec) 0\<rparr>)))"

definition check_entrypoint :: "conf_env \<Rightarrow> string \<Rightarrow> bytes \<Rightarrow> (unit, string) result" where
  "check_entrypoint E table path = (case ce_is_file E path of
       Err e \<Rightarrow> Err (table @ ''.entrypoint '' @ path @ '' is not readable: '' @ e)
     | Ok is_file \<Rightarrow> ensure is_file (table @ ''.entrypoint '' @ path @ '' is not a regular file''))"

record supervisor_section =
  ssec_pidfile :: "bytes option"
  ssec_timeout_secs :: "nat option"

record supervisor_settings =
  sset_timeout :: nat
  sset_pidfile :: "bytes option"

definition resolve_supervisor :: "conf_env \<Rightarrow> supervisor_section \<Rightarrow> bytes \<Rightarrow> (supervisor_settings, string) result" where
  "resolve_supervisor E sec dir =
     and_then (opt_path E dir (ssec_pidfile sec)) (\<lambda>pidfile.
     and_then (nonzero_timeout ''supervisor'' ''process_control_timeout_secs'' (or_default (ssec_timeout_secs sec) 30))
       (\<lambda>t. Ok \<lparr>sset_timeout = t, sset_pidfile = pidfile\<rparr>))"

definition drain_grace :: "supervisor_settings \<Rightarrow> nat" where
  "drain_grace s = sset_timeout s - min 5000 (sset_timeout s div 2)"

definition target_ok :: "bytes \<Rightarrow> bool" where
  "target_ok name = (case name of
       [] \<Rightarrow> False
     | c # cs \<Rightarrow> (is_ascii_alphanumeric c \<or> c = CHR ''_'')
         \<and> list_all (\<lambda>c. is_ascii_alphanumeric c \<or> c \<in> {CHR ''_'', CHR '':'', CHR ''.'', CHR ''-''}) cs)"

text \<open>The log table: the level of each target, in key order; \<open>escape\<close> is \<open>escape_default\<close>.\<close>

definition resolve_log ::
  "(bytes \<Rightarrow> string) \<Rightarrow> (bytes \<times> level) list \<Rightarrow> ((bytes \<times> level) list, string) result" where
  "resolve_log escape targets = (case find (\<lambda>(name, _). \<not> target_ok name) targets of
       Some (name, _) \<Rightarrow> Err (''log.targets key `'' @ escape name @ ''` is not a log target: use letters, digits and `_` `:` `.` `-`, starting with a letter, digit or `_`'')
     | None \<Rightarrow> Ok targets)"

section \<open>The middleware and interceptor tables\<close>

record static_section =
  stsec_root :: "bytes option"
  stsec_forbid :: "bytes list option"

record static_settings =
  stset_root :: bytes
  stset_forbid :: "bytes list"

definition bad_forbid :: "bytes \<Rightarrow> bool" where
  "bad_forbid entry \<longleftrightarrow> length entry < 2 \<or> \<not> starts_with entry ''.'' \<or> CHR ''/'' \<in> set entry \<or> has_whitespace entry"

definition resolve_static :: "conf_env \<Rightarrow> static_section \<Rightarrow> bytes \<Rightarrow> (static_settings, string) result" where
  "resolve_static E sec dir =
     and_then (opt_path E dir (stsec_root sec)) (\<lambda>root. case root of
       None \<Rightarrow> Err ''http.static.root is required''
     | Some root \<Rightarrow>
         let forbid = or_default (stsec_forbid sec) [''.php''] in
         (case find bad_forbid forbid of
            Some entry \<Rightarrow> Err (''http.static.forbid entries must be extensions with a leading dot (`'' @ entry @ ''`)'')
          | None \<Rightarrow> Ok \<lparr>stset_root = root, stset_forbid = forbid\<rparr>))"

definition resolve_auth :: "conf_env \<Rightarrow> bytes option \<Rightarrow> bytes \<Rightarrow> (bytes, string) result" where
  "resolve_auth E tokens_file dir =
     and_then (opt_path E dir tokens_file) (\<lambda>p. case p of
       None \<Rightarrow> Err ''grpc.auth.tokens_file is required'' | Some p \<Rightarrow> Ok p)"

text \<open>The first name that a list has twice.\<close>

fun repeated :: "'a list \<Rightarrow> 'a list \<Rightarrow> 'a option" where
  "repeated seen [] = None"
| "repeated seen (x # xs) = (if x \<in> set seen then Some x else repeated (seen @ [x]) xs)"

fun check_middleware :: "bool \<Rightarrow> bytes list \<Rightarrow> (unit, string) result" where
  "check_middleware has_static [] = Ok ()"
| "check_middleware has_static (name # names) =
     (if name = ''static''
      then (if has_static then check_middleware has_static names
            else Err (''http.middleware lists '' @ quoted_name ''static'' @ '' but [http.static] is missing''))
      else Err (''http.middleware entry '' @ quoted_name name @ '' is unknown; known middleware: ''
                @ quoted_name ''static''))"

definition resolve_static_files ::
  "bytes list \<Rightarrow> static_settings option \<Rightarrow> (static_settings option, string) result" where
  "resolve_static_files names static_files = (case repeated [] names of
       Some name \<Rightarrow> Err (''http.middleware lists '' @ quoted_name name @ '' twice'')
     | None \<Rightarrow>
         and_then (check_middleware (static_files \<noteq> None) names) (\<lambda>_.
         and_then (ensure (\<not> (static_files \<noteq> None \<and> names = []))
             (''[http.static] is configured but http.middleware does not list '' @ quoted_name ''static''))
           (\<lambda>_. Ok static_files)))"

datatype interceptor = AuthInterceptor bytes

text \<open>Taking the auth settings leaves none for a second entry.\<close>

fun take_interceptors ::
  "bytes list \<Rightarrow> bytes option \<Rightarrow> interceptor list \<Rightarrow> (interceptor list \<times> bytes option, string) result" where
  "take_interceptors [] auth acc = Ok (acc, auth)"
| "take_interceptors (name # names) auth acc =
     (if name = ''auth''
      then (case auth of
              Some settings \<Rightarrow> take_interceptors names None (acc @ [AuthInterceptor settings])
            | None \<Rightarrow> Err (''grpc.interceptors lists '' @ quoted_name ''auth'' @ '' but [grpc.auth] is missing''))
      else Err (''grpc.interceptors entry '' @ quoted_name name @ '' is unknown; known interceptors: ''
                @ quoted_name ''auth''))"

definition resolve_interceptors :: "bytes list \<Rightarrow> bytes option \<Rightarrow> (interceptor list, string) result" where
  "resolve_interceptors names auth = (case repeated [] names of
       Some name \<Rightarrow> Err (''grpc.interceptors lists '' @ quoted_name name @ '' twice'')
     | None \<Rightarrow>
         and_then (take_interceptors names auth []) (\<lambda>(acc, rest).
         and_then (ensure (rest = None)
             (''[grpc.auth] is configured but grpc.interceptors does not list '' @ quoted_name ''auth''))
           (\<lambda>_. Ok acc)))"

text \<open>Both tables have one name each, so exactly one list fits a configured table, and only the empty one none.\<close>

lemma repeated_prefix: "repeated seen xs = None \<Longrightarrow> set seen \<inter> set xs = {} \<and> distinct xs"
  by (induction seen xs rule: repeated.induct) (auto split: if_splits)

lemma distinct_single: "distinct xs \<and> set xs \<subseteq> {a} \<longleftrightarrow> xs = [] \<or> xs = [a]"
  by (cases xs; cases "tl xs") auto

lemma check_middleware_Ok:
  "check_middleware has_static names = Ok () \<longleftrightarrow> set names \<subseteq> {''static''} \<and> (names \<noteq> [] \<longrightarrow> has_static)"
  by (induction has_static names rule: check_middleware.induct) auto

lemma resolve_static_files_Ok:
  "resolve_static_files names st = Ok r \<longleftrightarrow> r = st \<and> names = (if st = None then [] else [''static''])"
proof
  assume a: "resolve_static_files names st = Ok r"
  then have "repeated [] names = None" "r = st" "check_middleware (st \<noteq> None) names = Ok ()" "st \<noteq> None \<longrightarrow> names \<noteq> []"
    by (auto simp: resolve_static_files_def result_simps split: option.splits)
  then show "r = st \<and> names = (if st = None then [] else [''static''])"
    using repeated_prefix [of "[]" names] distinct_single [of names "''static''"]
    by (auto simp: check_middleware_Ok)
next
  assume "r = st \<and> names = (if st = None then [] else [''static''])"
  then show "resolve_static_files names st = Ok r"
    by (cases st) (auto simp: resolve_static_files_def and_then_def ensure_def)
qed

lemma take_interceptors_Ok:
  "take_interceptors names auth acc = Ok (acc', rest) \<longleftrightarrow>
     (names = [] \<and> acc' = acc \<and> rest = auth)
     \<or> (\<exists>a. names = [''auth''] \<and> auth = Some a \<and> acc' = acc @ [AuthInterceptor a] \<and> rest = None)"
proof (cases names)
  case (Cons n ns)
  then show ?thesis by (cases ns) (auto split: option.splits)
qed auto

lemma resolve_interceptors_Ok:
  "resolve_interceptors names auth = Ok r \<longleftrightarrow>
     (case auth of None \<Rightarrow> names = [] \<and> r = [] | Some a \<Rightarrow> names = [''auth''] \<and> r = [AuthInterceptor a])"
  by (auto simp: resolve_interceptors_def result_simps take_interceptors_Ok split: option.splits)

section \<open>The HTTP plugin\<close>

record uploads_section =
  usec_dir :: "bytes option"
  usec_max_file_size_mb :: "nat option"
  usec_max_field_size_kb :: "nat option"
  usec_max_files :: "nat option"
  usec_max_parts :: "nat option"
  usec_max_part_headers :: "nat option"

definition uploads_default :: uploads_section where
  "uploads_default = \<lparr>usec_dir = None, usec_max_file_size_mb = None, usec_max_field_size_kb = None,
     usec_max_files = None, usec_max_parts = None, usec_max_part_headers = None\<rparr>"

record http_section =
  hsec_listen :: "bytes option"
  hsec_server_name :: "string option"
  hsec_server_port :: "nat option"
  hsec_max_body_size_mb :: "nat option"
  hsec_write_timeout_secs :: "nat option"
  hsec_keepalive_timeout_secs :: "nat option"
  hsec_uploads :: "uploads_section option"
  hsec_sendfile_root :: "bytes option"
  hsec_middleware :: "bytes list"
  hsec_static :: "static_section option"
  hsec_pool :: pool_section

record http_settings =
  hset_listen :: sock_addr
  hset_server_name :: string
  hset_server_port :: nat
  hset_max_body_size :: nat
  hset_write_timeout :: nat
  hset_keepalive_timeout :: nat
  hset_uploads :: "limits option"
  hset_sendfile_root :: bytes
  hset_static_files :: "static_settings option"
  hset_pool :: pool_settings

definition resolve_uploads :: "conf_env \<Rightarrow> uploads_section \<Rightarrow> bytes \<Rightarrow> (limits, string) result" where
  "resolve_uploads E sec dir0 =
     and_then (opt_path E dir0 (usec_dir sec)) (\<lambda>dir.
     and_then (scaled_size ''http.uploads.max_file_size_mb'' (or_default (usec_max_file_size_mb sec) 2) (1024 * 1024)) (\<lambda>fs.
     and_then (scaled_size ''http.uploads.max_field_size_kb'' (or_default (usec_max_field_size_kb sec) 256) 1024) (\<lambda>fd.
     let parts = or_default (usec_max_parts sec) 1024;
         headers = or_default (usec_max_part_headers sec) 32;
         files = or_default (usec_max_files sec) 20 in
     and_then (ensure (parts \<noteq> 0) ''http.uploads.max_parts must be at least 1'') (\<lambda>_.
     and_then (ensure (headers \<noteq> 0) ''http.uploads.max_part_headers must be at least 1'') (\<lambda>_.
     and_then (ensure (files \<noteq> 0) ''http.uploads.max_files must be at least 1'') (\<lambda>_.
       Ok \<lparr>l_dir = or_default dir (ce_temp_dir E), l_max_file_size = fs, l_max_field_size = fd,
           l_max_files = files, l_max_parts = parts, l_max_part_headers = headers\<rparr>))))))"

definition http_settings_of :: "conf_env \<Rightarrow> http_section \<Rightarrow> bytes \<Rightarrow> (http_settings, string) result" where
  "http_settings_of E sec dir =
     and_then (parse_listen E ''http'' (hsec_listen sec) (sock_v4 LOCALHOST_V4 8000)) (\<lambda>listen.
     and_then (scaled_size ''http.max_body_size_mb'' (or_default (hsec_max_body_size_mb sec) 8) (1024 * 1024)) (\<lambda>body.
     and_then (nonzero_timeout ''http'' ''write_timeout_secs'' (or_default (hsec_write_timeout_secs sec) 30)) (\<lambda>wt.
     and_then (nonzero_timeout ''http'' ''keepalive_timeout_secs'' (or_default (hsec_keepalive_timeout_secs sec) 60)) (\<lambda>kt.
     and_then (resolve_pool E (hsec_pool sec) ''http.pool'' dir) (\<lambda>pool.
     and_then (if pset_mode pool = ModeDispatcher
               then and_then (resolve_uploads E (or_default (hsec_uploads sec) uploads_default) dir) (\<lambda>u. Ok (Some u))
               else and_then (ensure (hsec_uploads sec = None)
                      (''http.uploads applies to dispatcher mode only (http.pool.mode = ''
                       @ quoted_name (mode_text (pset_mode pool)) @ '')'')) (\<lambda>_. Ok None)) (\<lambda>uploads.
     and_then (opt_path E dir (hsec_sendfile_root sec)) (\<lambda>root.
     and_then (transpose (\<lambda>s. resolve_static E s dir) (hsec_static sec)) (\<lambda>st.
     and_then (resolve_static_files (hsec_middleware sec) st) (\<lambda>static_files.
       Ok \<lparr>hset_listen = listen, hset_server_name = or_default (hsec_server_name sec) ''localhost'',
           hset_server_port = or_default (hsec_server_port sec) (sa_port listen),
           hset_max_body_size = body, hset_write_timeout = wt, hset_keepalive_timeout = kt,
           hset_uploads = uploads,
           hset_sendfile_root = or_default root (or_default (ce_parent E (pset_entrypoint pool)) ''/''),
           hset_static_files = static_files, hset_pool = pool\<rparr>)))))))))"

definition check_static_root :: "conf_env \<Rightarrow> bytes \<Rightarrow> (unit, string) result" where
  "check_static_root E root = (case ce_is_dir E root of
       Err e \<Rightarrow> Err (''http.static.root '' @ root @ '' is not accessible: '' @ e)
     | Ok is_dir \<Rightarrow>
         and_then (ensure is_dir (''http.static.root '' @ root @ '' is not a directory'')) (\<lambda>_.
           map_err (\<lambda>e. ''http.static.root '' @ root @ '' is not accessible: '' @ e) (ce_search E root)))"

definition check_uploads_dir :: "conf_env \<Rightarrow> bytes \<Rightarrow> (unit, string) result" where
  "check_uploads_dir E dir =
     and_then (map_err (\<lambda>e. ''creating http.uploads.dir '' @ dir @ '': '' @ e) (ce_create_dir E dir)) (\<lambda>_.
       map_err (\<lambda>e. ''http.uploads.dir '' @ dir @ '' is not writable: '' @ e) (ce_new_file E dir))"

definition http_resolve :: "conf_env \<Rightarrow> http_section \<Rightarrow> bytes \<Rightarrow> (http_settings, string) result" where
  "http_resolve E sec dir =
     and_then (http_settings_of E sec dir) (\<lambda>s.
     and_then (check_entrypoint E ''http.pool'' (pset_entrypoint (hset_pool s))) (\<lambda>_.
     and_then (case hset_static_files s of Some st \<Rightarrow> check_static_root E (stset_root st) | None \<Rightarrow> Ok ()) (\<lambda>_.
     and_then (case hset_uploads s of Some u \<Rightarrow> check_uploads_dir E (l_dir u) | None \<Rightarrow> Ok ()) (\<lambda>_. Ok s))))"

text \<open>\<open>Server::from_settings\<close>: what the handler reads, and the suffixes of the static files.\<close>

definition http_config :: "http_settings \<Rightarrow> http_cfg \<times> bytes list option" where
  "http_config s =
     (\<lparr>hc_superglobals = (pset_mode (hset_pool s) \<noteq> ModeDispatcher), hc_max_body_size = hset_max_body_size s,
       hc_uploads = hset_uploads s, hc_entrypoint = pset_entrypoint (hset_pool s),
       hc_server_name = hset_server_name s, hc_server_port = hset_server_port s\<rparr>,
      map_option (\<lambda>st. static_new (stset_forbid st)) (hset_static_files s))"

section \<open>The gRPC plugin, the observability server and the whole file\<close>

record grpc_section =
  gsec_listen :: "bytes option"
  gsec_descriptor_set :: "bytes option"
  gsec_services :: "bytes list option"
  gsec_reflection :: "bool option"
  gsec_default_timeout_secs :: "nat option"
  gsec_max_timeout_secs :: "nat option"
  gsec_keepalive_interval_secs :: "nat option"
  gsec_keepalive_timeout_secs :: "nat option"
  gsec_interceptors :: "bytes list"
  gsec_auth :: "bytes option option" \<comment> \<open>the auth table and its \<open>tokens_file\<close>\<close>
  gsec_pool :: pool_section

record grpc_settings =
  gset_listen :: sock_addr
  gset_descriptor_set :: bytes
  gset_services :: "bytes list option"
  gset_reflection :: bool
  gset_default_timeout :: "nat option"
  gset_max_timeout :: "nat option"
  gset_keepalive_interval :: nat
  gset_keepalive_timeout :: nat
  gset_interceptors :: "interceptor list"
  gset_pool :: pool_settings

definition optional_timeout :: "string \<Rightarrow> nat option \<Rightarrow> (nat option, string) result" where
  "optional_timeout key secs = transpose (nonzero_timeout ''grpc'' key) secs"

definition grpc_settings_of :: "conf_env \<Rightarrow> grpc_section \<Rightarrow> bytes \<Rightarrow> (grpc_settings, string) result" where
  "grpc_settings_of E sec dir =
     and_then (parse_listen E ''grpc'' (gsec_listen sec) (sock_v4 LOCALHOST_V4 50051)) (\<lambda>listen.
     and_then (opt_path E dir (gsec_descriptor_set sec)) (\<lambda>ds. case ds of
       None \<Rightarrow> Err ''grpc.descriptor_set is required''
     | Some descriptor_set \<Rightarrow>
     and_then (ensure (gsec_services sec \<noteq> Some [])
       ''grpc.services must name at least one service; leave the key out to serve the services of the files that no other file imports'') (\<lambda>_.
     and_then (optional_timeout ''default_timeout_secs'' (gsec_default_timeout_secs sec)) (\<lambda>dt.
     and_then (optional_timeout ''max_timeout_secs'' (gsec_max_timeout_secs sec)) (\<lambda>mt.
     and_then (case (gsec_default_timeout_secs sec, gsec_max_timeout_secs sec) of
         (Some d, Some m) \<Rightarrow> ensure (d \<le> m) (''grpc.default_timeout_secs ('' @ decimal d
             @ '') exceeds grpc.max_timeout_secs ('' @ decimal m @ '')'')
       | _ \<Rightarrow> Ok ()) (\<lambda>_.
     and_then (nonzero_timeout ''grpc'' ''keepalive_interval_secs'' (or_default (gsec_keepalive_interval_secs sec) 10)) (\<lambda>ki.
     and_then (nonzero_timeout ''grpc'' ''keepalive_timeout_secs'' (or_default (gsec_keepalive_timeout_secs sec) 10)) (\<lambda>kt.
     and_then (transpose (\<lambda>t. resolve_auth E t dir) (gsec_auth sec)) (\<lambda>auth.
     and_then (resolve_interceptors (gsec_interceptors sec) auth) (\<lambda>interceptors.
     and_then (resolve_pool E (gsec_pool sec) ''grpc.pool'' dir) (\<lambda>pool.
       Ok \<lparr>gset_listen = listen, gset_descriptor_set = descriptor_set, gset_services = gsec_services sec,
           gset_reflection = or_default (gsec_reflection sec) False, gset_default_timeout = dt,
           gset_max_timeout = mt, gset_keepalive_interval = ki, gset_keepalive_timeout = kt,
           gset_interceptors = interceptors, gset_pool = pool\<rparr>)))))))))))"

definition grpc_resolve :: "conf_env \<Rightarrow> grpc_section \<Rightarrow> bytes \<Rightarrow> (grpc_settings, string) result" where
  "grpc_resolve E sec dir =
     and_then (grpc_settings_of E sec dir) (\<lambda>s.
     and_then (check_entrypoint E ''grpc.pool'' (pset_entrypoint (gset_pool s))) (\<lambda>_. Ok s))"

record obs_section =
  osec_listen :: bytes
  osec_keepalive_timeout_secs :: "nat option"
  osec_metrics :: bool
  osec_probes :: bool

record obs_settings =
  oset_listen :: sock_addr
  oset_keepalive_timeout :: nat
  oset_metrics :: bool
  oset_probes :: bool

definition obs_resolve :: "conf_env \<Rightarrow> obs_section \<Rightarrow> (obs_settings, string) result" where
  "obs_resolve E sec =
     and_then (parse_listen E ''observability'' (Some (osec_listen sec)) (sock_v4 ANY_V4 0)) (\<lambda>listen.
     and_then (nonzero_timeout ''observability'' ''keepalive_timeout_secs''
         (or_default (osec_keepalive_timeout_secs sec) 60)) (\<lambda>kt.
     and_then (ensure (osec_metrics sec \<or> osec_probes sec)
         ''[observability] needs [observability.metrics] or [observability.probes]'') (\<lambda>_.
       Ok \<lparr>oset_listen = listen, oset_keepalive_timeout = kt, oset_metrics = osec_metrics sec,
           oset_probes = osec_probes sec\<rparr>)))"

record file_config =
  fc_http :: "http_section option"
  fc_grpc :: "grpc_section option"
  fc_observability :: "obs_section option"
  fc_supervisor :: supervisor_section
  fc_log_targets :: "(bytes \<times> level) list"

record settings =
  set_http :: "http_settings option"
  set_grpc :: "grpc_settings option"
  set_observability :: "obs_settings option"
  set_supervisor :: supervisor_settings
  set_log_targets :: "(bytes \<times> level) list"

definition settings_of :: "conf_env \<Rightarrow> (bytes \<Rightarrow> string) \<Rightarrow> file_config \<Rightarrow> bytes \<Rightarrow> (settings, string) result" where
  "settings_of E escape fc dir =
     and_then (ensure (fc_http fc \<noteq> None \<or> fc_grpc fc \<noteq> None)
         ''no plugin configured: add an [http] or a [grpc] table'') (\<lambda>_.
     and_then (transpose (\<lambda>s. http_resolve E s dir) (fc_http fc)) (\<lambda>http.
     and_then (transpose (\<lambda>s. grpc_resolve E s dir) (fc_grpc fc)) (\<lambda>grpc.
     and_then (resolve_supervisor E (fc_supervisor fc) dir) (\<lambda>sup.
     and_then (transpose (obs_resolve E) (fc_observability fc)) (\<lambda>obs.
     and_then (resolve_log escape (fc_log_targets fc)) (\<lambda>targets.
       Ok \<lparr>set_http = http, set_grpc = grpc, set_observability = obs, set_supervisor = sup,
           set_log_targets = targets\<rparr>))))))"

text \<open>The checks of \<open>serve\<close> on the plugins: the thread count and the mode of each pool.\<close>

definition check_mode :: "string \<Rightarrow> mode list \<Rightarrow> mode \<Rightarrow> (unit, string) result" where
  "check_mode name served m =
     ensure (m \<in> set served) (name @ ''.pool.mode = '' @ mode_text m @ '': this plugin serves ''
       @ join_with '', '' (map mode_text served))"

definition plugins_of :: "settings \<Rightarrow> (string \<times> mode list \<times> pool_settings) list" where
  "plugins_of s =
     (case set_http s of Some h \<Rightarrow> [(''http'', [ModeClassic, ModeWorker, ModeDispatcher], hset_pool h)] | None \<Rightarrow> [])
     @ (case set_grpc s of Some g \<Rightarrow> [(''grpc'', [ModeDispatcher], gset_pool g)] | None \<Rightarrow> [])"

fun check_modes :: "(string \<times> mode list \<times> pool_settings) list \<Rightarrow> (unit, string) result" where
  "check_modes [] = Ok ()"
| "check_modes ((name, served, pool) # ps) = and_then (check_mode name served (pset_mode pool)) (\<lambda>_. check_modes ps)"

definition startup_checks :: "settings \<Rightarrow> (nat, string) result" where
  "startup_checks s =
     (let threads = sum_list (map (\<lambda>(_, _, pool). pset_processes pool) (plugins_of s)) in
      and_then (ensure (threads \<le> SB_MAX_SLOTS) (''the total interpreter count exceeds '' @ decimal SB_MAX_SLOTS))
        (\<lambda>_. and_then (check_modes (plugins_of s)) (\<lambda>_. Ok threads)))"

section \<open>What accepted settings satisfy\<close>

definition timeout_ok :: "nat \<Rightarrow> bool" where
  "timeout_ok t \<longleftrightarrow> 1000 \<le> t \<and> t \<le> 1000 * MAX_TIMEOUT_SECS \<and> 1000 dvd t"

definition pool_ok :: "pool_settings \<Rightarrow> bool" where
  "pool_ok p \<longleftrightarrow> 1 \<le> pset_processes p \<and> pset_processes p \<le> 4096"

definition limits_ok :: "limits \<Rightarrow> bool" where
  "limits_ok l \<longleftrightarrow> 1024 * 1024 \<le> l_max_file_size l \<and> l_max_file_size l < 2 ^ 64
     \<and> 1024 \<le> l_max_field_size l \<and> l_max_field_size l < 2 ^ 64
     \<and> 0 < l_max_files l \<and> 0 < l_max_parts l \<and> 0 < l_max_part_headers l"

definition http_ok :: "http_settings \<Rightarrow> bool" where
  "http_ok s \<longleftrightarrow> 1024 * 1024 \<le> hset_max_body_size s \<and> hset_max_body_size s < 2 ^ 64
     \<and> timeout_ok (hset_write_timeout s) \<and> timeout_ok (hset_keepalive_timeout s) \<and> pool_ok (hset_pool s)
     \<and> (hset_uploads s \<noteq> None \<longleftrightarrow> pset_mode (hset_pool s) = ModeDispatcher)
     \<and> (case hset_uploads s of Some l \<Rightarrow> limits_ok l | None \<Rightarrow> True)
     \<and> (case hset_static_files s of Some st \<Rightarrow> list_all (\<lambda>e. \<not> bad_forbid e) (stset_forbid st) | None \<Rightarrow> True)"

definition grpc_ok :: "grpc_settings \<Rightarrow> bool" where
  "grpc_ok s \<longleftrightarrow> pool_ok (gset_pool s) \<and> timeout_ok (gset_keepalive_interval s) \<and> timeout_ok (gset_keepalive_timeout s)
     \<and> gset_services s \<noteq> Some [] \<and> length (gset_interceptors s) \<le> 1
     \<and> (case gset_default_timeout s of Some d \<Rightarrow> timeout_ok d | None \<Rightarrow> True)
     \<and> (case gset_max_timeout s of Some m \<Rightarrow> timeout_ok m | None \<Rightarrow> True)
     \<and> (case (gset_default_timeout s, gset_max_timeout s) of (Some d, Some m) \<Rightarrow> d \<le> m | _ \<Rightarrow> True)"

definition settings_ok :: "settings \<Rightarrow> bool" where
  "settings_ok s \<longleftrightarrow> (set_http s \<noteq> None \<or> set_grpc s \<noteq> None)
     \<and> (case set_http s of Some h \<Rightarrow> http_ok h | None \<Rightarrow> True)
     \<and> (case set_grpc s of Some g \<Rightarrow> grpc_ok g | None \<Rightarrow> True)
     \<and> (case set_observability s of
          Some ob \<Rightarrow> timeout_ok (oset_keepalive_timeout ob) \<and> (oset_metrics ob \<or> oset_probes ob) | None \<Rightarrow> True)
     \<and> timeout_ok (sset_timeout (set_supervisor s)) \<and> list_all (\<lambda>(name, _). target_ok name) (set_log_targets s)"

lemma nonzero_timeout_Ok: "nonzero_timeout table key secs = Ok t \<Longrightarrow> timeout_ok t \<and> t = 1000 * secs"
  by (auto simp: nonzero_timeout_def capped_timeout_def result_simps timeout_ok_def)

lemma scaled_size_Ok: "scaled_size key n u = Ok m \<Longrightarrow> u \<le> m \<and> m < 2 ^ 64 \<and> m = n * u"
  by (auto simp: scaled_size_def checked_mul_def result_simps split: option.splits if_splits)

lemma resolve_pool_Ok: "resolve_pool E sec table dir = Ok p \<Longrightarrow> pool_ok p"
  by (auto simp: resolve_pool_def Let_def result_simps pool_ok_def split: option.splits)

lemma resolve_static_Ok:
  "resolve_static E sec dir = Ok st \<Longrightarrow> list_all (\<lambda>e. \<not> bad_forbid e) (stset_forbid st)"
  by (auto simp: resolve_static_def Let_def result_simps find_None_iff list_all_iff split: option.splits)

lemma resolve_uploads_Ok: "resolve_uploads E sec dir = Ok l \<Longrightarrow> limits_ok l"
  by (auto simp: resolve_uploads_def Let_def result_simps limits_ok_def dest!: scaled_size_Ok)

lemma http_settings_ok: "http_settings_of E sec dir = Ok s \<Longrightarrow> http_ok s"
  by (auto simp: http_settings_of_def result_simps http_ok_def resolve_static_files_Ok
      dest!: nonzero_timeout_Ok scaled_size_Ok resolve_pool_Ok resolve_static_Ok resolve_uploads_Ok
      split: option.splits if_splits)

lemma optional_timeout_Ok:
  "optional_timeout key secs = Ok t \<Longrightarrow> (case t of Some d \<Rightarrow> timeout_ok d | None \<Rightarrow> True) \<and> t = map_option ((*) 1000) secs"
  by (auto simp: optional_timeout_def result_simps dest!: nonzero_timeout_Ok split: option.splits)

lemma resolve_interceptors_length: "resolve_interceptors names auth = Ok r \<Longrightarrow> length r \<le> 1"
  by (auto simp: resolve_interceptors_Ok split: option.splits)

lemma grpc_settings_ok: "grpc_settings_of E sec dir = Ok s \<Longrightarrow> grpc_ok s"
  by (auto simp: grpc_settings_of_def result_simps grpc_ok_def
      dest!: nonzero_timeout_Ok optional_timeout_Ok resolve_pool_Ok resolve_interceptors_length
      split: option.splits)

lemma http_resolve_Ok: "http_resolve E sec dir = Ok s \<Longrightarrow> http_settings_of E sec dir = Ok s"
  by (auto simp: http_resolve_def result_simps)

lemma grpc_resolve_Ok: "grpc_resolve E sec dir = Ok s \<Longrightarrow> grpc_settings_of E sec dir = Ok s"
  by (auto simp: grpc_resolve_def result_simps)

lemma obs_resolve_Ok:
  "obs_resolve E sec = Ok s \<Longrightarrow> timeout_ok (oset_keepalive_timeout s) \<and> (oset_metrics s \<or> oset_probes s)"
  by (auto simp: obs_resolve_def result_simps dest!: nonzero_timeout_Ok)

lemma resolve_supervisor_Ok: "resolve_supervisor E sec dir = Ok s \<Longrightarrow> timeout_ok (sset_timeout s)"
  by (auto simp: resolve_supervisor_def result_simps dest!: nonzero_timeout_Ok)

lemma resolve_log_Ok: "resolve_log escape ts = Ok ts' \<Longrightarrow> list_all (\<lambda>(name, _). target_ok name) ts'"
  by (auto simp: resolve_log_def find_None_iff list_all_iff split: option.splits)

text \<open>The grace for the drain is at least half of the shutdown budget and leaves up to five seconds of it.\<close>

lemma drain_grace_bounds:
  assumes "timeout_ok (sset_timeout s)"
  shows "0 < drain_grace s \<and> sset_timeout s \<le> 2 * drain_grace s
    \<and> drain_grace s + min 5000 (sset_timeout s div 2) = sset_timeout s"
  using assms by (auto simp: drain_grace_def timeout_ok_def)

lemma settings_are_ok:
  assumes "settings_of E escape fc dir = Ok s"
  shows "settings_ok s"
proof -
  from assms obtain http grpc sup obs targets where
    parts: "transpose (\<lambda>s. http_resolve E s dir) (fc_http fc) = Ok http"
      "transpose (\<lambda>s. grpc_resolve E s dir) (fc_grpc fc) = Ok grpc"
      "resolve_supervisor E (fc_supervisor fc) dir = Ok sup"
      "transpose (obs_resolve E) (fc_observability fc) = Ok obs"
      "resolve_log escape (fc_log_targets fc) = Ok targets"
    and some: "fc_http fc \<noteq> None \<or> fc_grpc fc \<noteq> None"
    and s: "s = \<lparr>set_http = http, set_grpc = grpc, set_observability = obs, set_supervisor = sup,
           set_log_targets = targets\<rparr>"
    unfolding settings_of_def and_then_Ok ensure_Ok by blast
  have "case http of Some h \<Rightarrow> http_ok h | None \<Rightarrow> True" "http = None \<longleftrightarrow> fc_http fc = None"
    using parts(1) by (auto simp: result_simps split: option.splits dest!: http_resolve_Ok http_settings_ok)
  moreover have "case grpc of Some g \<Rightarrow> grpc_ok g | None \<Rightarrow> True" "grpc = None \<longleftrightarrow> fc_grpc fc = None"
    using parts(2) by (auto simp: result_simps split: option.splits dest!: grpc_resolve_Ok grpc_settings_ok)
  moreover have "case obs of Some ob \<Rightarrow> timeout_ok (oset_keepalive_timeout ob) \<and> (oset_metrics ob \<or> oset_probes ob)
      | None \<Rightarrow> True"
    using parts(4) by (auto simp: result_simps split: option.splits dest!: obs_resolve_Ok)
  ultimately show ?thesis
    using resolve_supervisor_Ok [OF parts(3)] resolve_log_Ok [OF parts(5)] some
    by (simp add: settings_ok_def s)
qed

lemma plugins_nonempty:
  "settings_ok s \<Longrightarrow> 1 \<le> sum_list (map (\<lambda>(_, _, pool). pset_processes pool) (plugins_of s))"
  by (auto simp: settings_ok_def plugins_of_def http_ok_def grpc_ok_def pool_ok_def split: option.splits)

lemma check_modes_Ok: "check_modes ps = Ok () \<longleftrightarrow> list_all (\<lambda>(_, served, pool). pset_mode pool \<in> set served) ps"
  by (induction ps rule: check_modes.induct) (auto simp: result_simps check_mode_def)

text \<open>
  C31: settings that the configuration accepts are sound. Every size, timeout, count and thread number is in
  its range, the upload limits exist exactly in dispatcher mode, a default gRPC deadline does not exceed
  the maximum, and some plugin is configured. If the start-up checks pass as well, the scoreboard can be
  created for the thread total, every pool has a mode its plugin serves, the drain grace is positive and
  at least half of the shutdown budget, and the HTTP handler parses multipart bodies exactly when PHP does
  not fill the superglobals.
\<close>

theorem accepted_settings_are_sound:
  assumes "settings_of E escape fc dir = Ok s" and "startup_checks s = Ok threads"
  shows "settings_ok s \<and> is_ok (create_board threads)
    \<and> list_all (\<lambda>(_, served, pool). pset_mode pool \<in> set served) (plugins_of s)
    \<and> 0 < drain_grace (set_supervisor s) \<and> sset_timeout (set_supervisor s) \<le> 2 * drain_grace (set_supervisor s)
    \<and> (case set_http s of
         Some h \<Rightarrow> hc_uploads (fst (http_config h)) = None \<longleftrightarrow> hc_superglobals (fst (http_config h))
       | None \<Rightarrow> True)"
proof -
  note ok = settings_are_ok [OF assms(1)]
  have t: "threads = sum_list (map (\<lambda>(_, _, pool). pset_processes pool) (plugins_of s))" "threads \<le> SB_MAX_SLOTS"
    "check_modes (plugins_of s) = Ok ()"
    using assms(2) by (auto simp: startup_checks_def Let_def result_simps)
  have "1 \<le> threads" using plugins_nonempty [OF ok] unfolding t(1) .
  with t(2) have "is_ok (create_board threads)" by (simp add: create_board_def)
  moreover have "case set_http s of
       Some h \<Rightarrow> hc_uploads (fst (http_config h)) = None \<longleftrightarrow> hc_superglobals (fst (http_config h)) | None \<Rightarrow> True"
    using ok by (auto simp: settings_ok_def http_ok_def http_config_def split: option.splits)
  moreover have "timeout_ok (sset_timeout (set_supervisor s))" using ok by (simp add: settings_ok_def)
  ultimately show ?thesis
    using ok t(3) drain_grace_bounds by (simp add: check_modes_Ok)
qed

definition sample_conf :: conf_env where
  "sample_conf =
     \<lparr>ce_absolute = (\<lambda>d p. Ok (d @ CHR 0x5C # p)), ce_parent = (\<lambda>_. None), ce_sock = (\<lambda>_. None), ce_threads = 4,
      ce_temp_dir = ''tmp'', ce_is_file = (\<lambda>_. Ok True), ce_is_dir = (\<lambda>_. Ok True), ce_search = (\<lambda>_. Ok ()),
      ce_create_dir = (\<lambda>_. Ok ()), ce_new_file = (\<lambda>_. Ok ())\<rparr>"

definition sample_file :: file_config where
  "sample_file =
     \<lparr>fc_http = Some
        \<lparr>hsec_listen = Some '' :8080 '', hsec_server_name = None, hsec_server_port = None,
         hsec_max_body_size_mb = None, hsec_write_timeout_secs = None, hsec_keepalive_timeout_secs = Some 5,
         hsec_uploads = None, hsec_sendfile_root = None, hsec_middleware = [''static''],
         hsec_static = Some \<lparr>stsec_root = Some ''public'', stsec_forbid = None\<rparr>,
         hsec_pool = \<lparr>psec_entrypoint = Some ''index.php'', psec_processes = None, psec_mode = None,
                      psec_max_requests = None\<rparr>\<rparr>,
      fc_grpc = None, fc_observability = None,
      fc_supervisor = \<lparr>ssec_pidfile = None, ssec_timeout_secs = None\<rparr>, fc_log_targets = []\<rparr>"

lemma accepted_settings_are_sound_witness:
  "\<exists>s threads. settings_of sample_conf (\<lambda>n. n) sample_file ''c'' = Ok s \<and> startup_checks s = Ok threads
     \<and> settings_ok s \<and> is_ok (create_board threads)"
proof -
  have "is_ok (and_then (settings_of sample_conf (\<lambda>n. n) sample_file ''c'') startup_checks)" by code_simp
  then obtain s threads where "settings_of sample_conf (\<lambda>n. n) sample_file ''c'' = Ok s" "startup_checks s = Ok threads"
    by (auto simp: is_ok_iff result_simps)
  with accepted_settings_are_sound [OF this] show ?thesis by blast
qed

text \<open>
  The validation of the forbidden extensions keeps out entries that no file name can end with. An entry with
  a trailing dot passes it, although served names have lost their trailing dots: it forbids nothing.
\<close>

lemma trailing_dot_entry_forbids_nothing:
  "\<not> bad_forbid ''.php.'' \<and> eligible decode (static_new [''.php.'']) path = eligible decode (static_new []) path"
proof -
  have "\<not> ends_with (lower (trim_end_dots n)) ''.php.''" for n
  proof
    assume a: "ends_with (lower (trim_end_dots n)) ''.php.''"
    define t where "t = trim_end_dots n"
    have "t \<noteq> []" using a by (auto simp: ends_with_def t_def)
    have "last (lower t) = CHR ''.''"
      using a by (metis append_take_drop_id ends_with_def last_appendR last_ConsR list.distinct(1) list.simps(3) last.simps t_def)
    then have "to_ascii_lowercase (last t) = CHR ''.''" using \<open>t \<noteq> []\<close> by (simp add: last_map)
    then have "last t = CHR ''.''"
      using lowercase_not_letter [of "last t" "CHR ''.''"]
      by (simp add: to_ascii_lowercase_def is_ascii_uppercase_def is_ascii_lowercase_def)
    moreover have "last t \<noteq> CHR ''.''"
      using \<open>t \<noteq> []\<close> hd_dropWhile [of "\<lambda>b. b = CHR ''.'' \<or> b = CHR '' ''" "rev n"]
      by (auto simp: t_def trim_end_dots_def last_rev)
    ultimately show False by blast
  qed
  moreover have "lower ''.php.'' = ''.php.''" "\<not> bad_forbid ''.php.''" by code_simp+
  ultimately show ?thesis
    by (simp add: eligible_def static_new_def served_name_def split: option.split)
qed

end
