(* ===== verification/Listener.thy ===== *)
theory Listener
  imports GrpcServe Multipart
begin

text \<open>
  The listeners: the accept loop (\<open>net/src/lib.rs\<close>), what the HTTP plugin does from the accept loop to the
  end of its drain (\<open>http/src/serve.rs\<close>, \<open>lib.rs\<close>), the observability listener, and the spool directories
  of the HTTP plugin (\<open>http/src/multipart.rs\<close>). Times are milliseconds on the monotonic clock. What the
  sockets, the connections and the process table do is given by the arguments.
\<close>

section \<open>The accept loop\<close>

datatype accept_kind = ConnectionAborted | ConnectionReset | Interrupted | OtherKind

record accept_error =
  ae_os :: "nat option"
  ae_kind :: accept_kind
  ae_text :: string

datatype 'c accepted = Incoming 'c | AcceptFails accept_error

definition WSAEINVAL :: nat where "WSAEINVAL = 10022"
definition WSAENOTSOCK :: nat where "WSAENOTSOCK = 10038"
definition WSAESHUTDOWN :: nat where "WSAESHUTDOWN = 10058"

definition is_fatal_accept :: "accept_error \<Rightarrow> bool" where
  "is_fatal_accept e \<longleftrightarrow> (case ae_os e of
     Some c \<Rightarrow> c = WSAEINVAL \<or> c = WSAENOTSOCK \<or> c = WSAESHUTDOWN | None \<Rightarrow> False)"

text \<open>
  One round of the biased select: the stop flag (also true when its sender is gone) is looked at first, the
  socket only when it is not set. The loop spawns each connection, and after an error it cannot explain it
  pauses for 100 ms. The result is \<open>None\<close> while the loop still waits, else what \<open>run\<close> returns.
\<close>

record 'c accept_state =
  ac_spawned :: "'c list"
  ac_pauses :: nat

fun accept_loop ::
  "(bool \<times> 'c accepted) list \<Rightarrow> 'c accept_state \<Rightarrow> string option option \<times> 'c accept_state" where
  "accept_loop [] st = (None, st)"
| "accept_loop ((stopped, res) # rounds) st =
     (if stopped then (Some None, st)
      else (case res of
          Incoming c \<Rightarrow> accept_loop rounds (st\<lparr>ac_spawned := ac_spawned st @ [c]\<rparr>)
        | AcceptFails e \<Rightarrow>
            if is_fatal_accept e then (Some (Some (''listener failed: '' @ ae_text e)), st)
            else if ae_kind e \<in> {ConnectionAborted, ConnectionReset, Interrupted} then accept_loop rounds st
            else accept_loop rounds (st\<lparr>ac_pauses := ac_pauses st + 1\<rparr>)))"

definition accepts_on :: "bool \<times> 'c accepted \<Rightarrow> bool" where
  "accepts_on r \<longleftrightarrow> \<not> fst r \<and> (case snd r of Incoming _ \<Rightarrow> True | AcceptFails e \<Rightarrow> \<not> is_fatal_accept e)"

fun conns_of :: "(bool \<times> 'c accepted) list \<Rightarrow> 'c list" where
  "conns_of [] = []"
| "conns_of ((_, Incoming c) # rs) = c # conns_of rs"
| "conns_of ((_, AcceptFails _) # rs) = conns_of rs"

lemma accept_loop_goes_on:
  assumes "list_all accepts_on pre"
  shows "fst (accept_loop (pre @ rounds) st) = fst (accept_loop rounds (snd (accept_loop pre st)))
    \<and> snd (accept_loop (pre @ rounds) st) = snd (accept_loop rounds (snd (accept_loop pre st)))
    \<and> ac_spawned (snd (accept_loop pre st)) = ac_spawned st @ conns_of pre"
  using assms
proof (induction pre arbitrary: st)
  case (Cons r pre)
  obtain s a where r: "r = (s, a)" by fastforce
  show ?case using Cons by (cases a) (auto simp: r accepts_on_def)
qed simp

text \<open>
  The loop ends at the first round that sees the stop flag or a failure of the listener, and every
  connection accepted before that round is spawned, in order.
\<close>

lemma accept_loop_ends:
  assumes "list_all accepts_on pre" and "accept_loop (pre @ (s, a) # rounds) st = (r, st')" and "\<not> accepts_on (s, a)"
  shows "ac_spawned st' = ac_spawned st @ conns_of pre
    \<and> r = Some (if s then None else case a of AcceptFails e \<Rightarrow> Some (''listener failed: '' @ ae_text e) | Incoming _ \<Rightarrow> None)"
proof -
  from accept_loop_goes_on [OF assms(1), of "(s, a) # rounds" st] assms(2)
  have "accept_loop ((s, a) # rounds) (snd (accept_loop pre st)) = (r, st')"
    and sp: "ac_spawned (snd (accept_loop pre st)) = ac_spawned st @ conns_of pre"
    by (metis fst_conv snd_conv prod.collapse)+
  then show ?thesis using assms(3) by (cases a) (auto simp: accepts_on_def split: if_splits)
qed

section \<open>Waiting for a count to reach zero\<close>

text \<open>
  \<open>while count > 0 && now < deadline { sleep(50 ms) }\<close>. A sleep ends \<open>late now\<close> milliseconds after its time.
\<close>

function wait_zero :: "(nat \<Rightarrow> nat) \<Rightarrow> (nat \<Rightarrow> nat) \<Rightarrow> nat \<Rightarrow> nat \<Rightarrow> nat" where
  "wait_zero late count deadline now =
     (if 0 < count now \<and> now < deadline then wait_zero late count deadline (now + 50 + late now) else now)"
  by pat_completeness auto
termination by (relation "measure (\<lambda>(late, count, deadline, now). deadline - now)") auto

declare wait_zero.simps [simp del]

lemma wait_zero_ends:
  "now \<le> wait_zero late count deadline now
   \<and> (count (wait_zero late count deadline now) = 0 \<or> deadline \<le> wait_zero late count deadline now)"
  by (induction late count deadline now rule: wait_zero.induct) (subst (1 2 3) wait_zero.simps, auto)

lemma wait_zero_bound:
  assumes "\<And>t. late t \<le> L"
  shows "wait_zero late count deadline now \<le> max now (deadline + 50 + L)"
  using assms
proof (induction late count deadline now rule: wait_zero.induct)
  case (1 late count deadline now)
  show ?case
  proof (cases "0 < count now \<and> now < deadline")
    case True
    with 1 have "wait_zero late count deadline (now + 50 + late now) \<le> max (now + 50 + late now) (deadline + 50 + L)"
      by blast
    moreover have "now + 50 + late now \<le> deadline + 50 + L" using True 1(2) [of now] by simp
    ultimately show ?thesis using True by (subst wait_zero.simps) simp
  qed (subst wait_zero.simps, auto)
qed

section \<open>The drain of the HTTP plugin\<close>

text \<open>
  What the drain sees: the connections that hyper still watches and the requests in flight at each moment,
  how late a sleep ends, and, when the shutdown signal is sent at some moment, when the last watched
  connection ends (\<open>None\<close>: never).
\<close>

record drain_env =
  de_open :: "nat \<Rightarrow> nat"
  de_inflight :: "nat \<Rightarrow> nat"
  de_late :: "nat \<Rightarrow> nat"
  de_ended :: "nat \<Rightarrow> nat option"

text \<open>\<open>timeout_at(deadline, f)\<close>: the future is polled first, then the clock is looked at.\<close>

definition timeout_at :: "nat \<Rightarrow> nat option \<Rightarrow> nat \<Rightarrow> bool \<times> nat" where
  "timeout_at deadline done now = (case done of
     Some e \<Rightarrow> if e \<le> max now deadline then (True, max now e) else (False, max now deadline)
   | None \<Rightarrow> (False, max now deadline))"

datatype http_drained = HttpFatal string | HttpTimedOut nat | HttpClean

definition drain_waits :: "drain_env \<Rightarrow> nat \<Rightarrow> nat \<Rightarrow> nat" where
  "drain_waits D deadline now =
     (let t1 = wait_zero (de_late D) (de_open D) deadline now;
          t2 = snd (timeout_at deadline (de_ended D t1) t1)
      in wait_zero (de_late D) (de_inflight D) deadline t2)"

definition http_drain :: "drain_env \<Rightarrow> string option \<Rightarrow> nat \<Rightarrow> nat \<Rightarrow> http_drained \<times> nat" where
  "http_drain D fatal grace now =
     (let t = drain_waits D (now + grace) now; stranded = de_inflight D t
      in (case fatal of
            Some e \<Rightarrow> HttpFatal e
          | None \<Rightarrow> if stranded > 0 then HttpTimedOut stranded else HttpClean, t))"

lemma timeout_at_bounds:
  "now \<le> snd (timeout_at deadline d now) \<and> snd (timeout_at deadline d now) \<le> max now deadline"
  by (auto simp: timeout_at_def split: option.split)

lemma drain_waits_ends:
  "now \<le> drain_waits D deadline now
   \<and> (de_inflight D (drain_waits D deadline now) = 0 \<or> deadline \<le> drain_waits D deadline now)"
  unfolding drain_waits_def Let_def using wait_zero_ends timeout_at_bounds by (meson le_trans)

lemma drain_waits_bound:
  assumes "\<And>t. de_late D t \<le> L"
  shows "drain_waits D deadline now \<le> max now (deadline + 50 + L)"
proof -
  define t1 where "t1 = wait_zero (de_late D) (de_open D) deadline now"
  define t2 where "t2 = snd (timeout_at deadline (de_ended D t1) t1)"
  note w = wait_zero_bound [where late = "de_late D" and deadline = deadline, OF assms]
  have "t1 \<le> max now (deadline + 50 + L)" unfolding t1_def by (rule w)
  then have "t2 \<le> max now (deadline + 50 + L)"
    using timeout_at_bounds [of t1 deadline "de_ended D t1"] unfolding t2_def by linarith
  moreover have "drain_waits D deadline now \<le> max t2 (deadline + 50 + L)"
    unfolding drain_waits_def Let_def t1_def [symmetric] t2_def [symmetric] by (rule w)
  ultimately show ?thesis by linarith
qed

text \<open>
  The drain ends in bounded time. It reports a clean end exactly when no request is in flight at that
  moment, and it gives up on a request only after the whole grace.
\<close>

lemma http_drain_exact:
  assumes "http_drain D fatal grace now = (r, t)"
  shows "now \<le> t \<and> (r = HttpClean \<longleftrightarrow> fatal = None \<and> de_inflight D t = 0)
    \<and> (de_inflight D t \<noteq> 0 \<longrightarrow> now + grace \<le> t)
    \<and> (\<forall>n. r = HttpTimedOut n \<longleftrightarrow> fatal = None \<and> n = de_inflight D t \<and> 0 < n)"
  using assms drain_waits_ends [of now D "now + grace"]
  by (auto simp: http_drain_def Let_def split: option.splits if_splits)

lemma http_drain_bound:
  assumes "\<And>t. de_late D t \<le> L"
  shows "snd (http_drain D fatal grace now) \<le> now + grace + 50 + L"
  using drain_waits_bound [OF assms, of "now + grace" now] by (simp add: http_drain_def Let_def)

section \<open>Spool directories\<close>

text \<open>
  The process table answers \<open>OpenProcess\<close>: a handle with the exit code that \<open>GetExitCodeProcess\<close> reads from
  it (\<open>None\<close> when that call fails), or an error number. A directory is the list of its entry names.
\<close>

definition ERROR_INVALID_PARAMETER :: nat where "ERROR_INVALID_PARAMETER = 87"
definition STILL_ACTIVE :: nat where "STILL_ACTIVE = 259"

record spool_env =
  sp_pid :: nat
  sp_open :: "nat \<Rightarrow> (nat option, nat) result"
  sp_removes :: "bytes \<Rightarrow> bool"
  sp_creates :: "bytes \<Rightarrow> (unit, string) result" \<comment> \<open>for a name that is free\<close>
  sp_exists_text :: string
  sp_base :: bytes

definition SPOOL_PREFIX :: bytes where "SPOOL_PREFIX = ''rapira-spool-''"

definition spool_owner :: "bytes \<Rightarrow> nat option" where
  "spool_owner name =
     (if starts_with name SPOOL_PREFIX
      then opt_filter (\<lambda>p. p > 0) (parse_uint 32 (drop (length SPOOL_PREFIX) name)) else None)"

definition spool_dir_reclaimable :: "spool_env \<Rightarrow> bytes \<Rightarrow> bool" where
  "spool_dir_reclaimable E name = (case spool_owner name of
     None \<Rightarrow> False
   | Some pid \<Rightarrow>
       if pid = sp_pid E then True
       else (case sp_open E pid of
           Err e \<Rightarrow> e = ERROR_INVALID_PARAMETER
         | Ok None \<Rightarrow> False
         | Ok (Some code) \<Rightarrow> code \<noteq> STILL_ACTIVE))"

definition sweep_spool_dirs :: "spool_env \<Rightarrow> bytes list option \<Rightarrow> bytes list option" where
  "sweep_spool_dirs E entries =
     map_option (filter (\<lambda>name. \<not> (spool_dir_reclaimable E name \<and> sp_removes E name))) entries"

definition worker_spool_name :: "spool_env \<Rightarrow> bytes" where
  "worker_spool_name E = SPOOL_PREFIX @ decimal (sp_pid E)"

definition create_worker_spool_dir :: "spool_env \<Rightarrow> bytes list \<Rightarrow> (bytes, string) result \<times> bytes list" where
  "create_worker_spool_dir E entries =
     (let name = worker_spool_name E in
      case (if name \<in> set entries then Err (sp_exists_text E) else sp_creates E name) of
        Err e \<Rightarrow> (Err (''creating spool dir '' @ sp_base E @ [CHR 0x5C] @ name @ '': '' @ e), entries)
      | Ok _ \<Rightarrow> (Ok name, entries @ [name]))"

lemma spool_owner_of_worker:
  "0 < sp_pid E \<Longrightarrow> sp_pid E < 2 ^ 32 \<Longrightarrow> spool_owner (worker_spool_name E) = Some (sp_pid E)"
  by (simp add: spool_owner_def worker_spool_name_def parse_decimal)

text \<open>
  The sweep removes only spool directories, and never one whose process may still run: a foreign owner is
  gone (its number is unknown to the system) or has an exit code.
\<close>

lemma sweep_keeps_live_owners:
  assumes "sweep_spool_dirs E (Some entries) = Some left" and "name \<in> set entries" and "name \<notin> set left"
  shows "\<exists>pid. spool_owner name = Some pid \<and>
    (pid = sp_pid E \<or> sp_open E pid = Err ERROR_INVALID_PARAMETER
     \<or> (\<exists>code. sp_open E pid = Ok (Some code) \<and> code \<noteq> STILL_ACTIVE))"
  using assms by (auto simp: sweep_spool_dirs_def spool_dir_reclaimable_def
      split: option.splits result.splits if_splits)

text \<open>A directory that an earlier process with the same number left does not stop the new one.\<close>

lemma create_after_sweep:
  assumes "sweep_spool_dirs E (Some entries) = Some left" and "0 < sp_pid E" and "sp_pid E < 2 ^ 32"
    and "sp_removes E (worker_spool_name E)" and "sp_creates E (worker_spool_name E) = Ok ()"
  shows "create_worker_spool_dir E left = (Ok (worker_spool_name E), left @ [worker_spool_name E])"
  using assms spool_owner_of_worker [OF assms(2,3)]
  by (auto simp: sweep_spool_dirs_def spool_dir_reclaimable_def create_worker_spool_dir_def Let_def)

section \<open>The plugin threads\<close>

text \<open>
  \<open>serve\<close> of the HTTP plugin, from the listener that \<open>prepare\<close> left to the end of the drain: the result, the
  time of its end, the connections spawned and the entries of the upload directory. \<open>None\<close> while the accept
  loop waits. \<open>stopped\<close> is the moment the loop ends.
\<close>

record 'c plugin_end =
  pe_result :: "(unit, string) result"
  pe_time :: nat
  pe_conns :: "'c list"
  pe_entries :: "bytes list"

text \<open>\<open>{:?}\<close> of a duration of whole milliseconds.\<close>

definition strip_zeros :: "bytes \<Rightarrow> bytes" where
  "strip_zeros ds = rev (dropWhile (\<lambda>c. c = CHR ''0'') (rev ds))"

definition duration_debug :: "nat \<Rightarrow> string" where
  "duration_debug ms =
     (if ms = 0 then ''0ns'' else if ms < 1000 then decimal ms @ ''ms''
      else decimal (ms div 1000)
        @ (if ms mod 1000 = 0 then [] else ''.'' @ strip_zeros (drop 1 (decimal (1000 + ms mod 1000)))) @ ''s'')"

definition drained_result :: "nat \<Rightarrow> http_drained \<Rightarrow> (unit, string) result" where
  "drained_result grace d = (case d of
     HttpFatal e \<Rightarrow> Err e
   | HttpTimedOut n \<Rightarrow> Err (''http drain timed out after '' @ duration_debug grace @ '' with '' @ decimal n @ '' request(s) in flight; their responses were cut short'')
   | HttpClean \<Rightarrow> Ok ())"

definition http_serve ::
  "spool_env \<Rightarrow> drain_env \<Rightarrow> bool \<Rightarrow> (unit, string) result \<Rightarrow> bool \<Rightarrow> nat
   \<Rightarrow> (bool \<times> 'c accepted) list \<Rightarrow> nat \<Rightarrow> nat \<Rightarrow> bytes list \<Rightarrow> 'c plugin_end option" where
  "http_serve E D prepared adopt uploads grace rounds now stopped entries =
     (let fails = \<lambda>e. Some \<lparr>pe_result = Err e, pe_time = now, pe_conns = [], pe_entries = entries\<rparr> in
      if \<not> prepared then fails ''http listener was not prepared''
      else (case adopt of
          Err e \<Rightarrow> fails e
        | Ok _ \<Rightarrow>
            (case (if uploads then map_prod (\<lambda>r. case r of Ok d \<Rightarrow> Ok (Some d) | Err e \<Rightarrow> Err e) id
                                (create_worker_spool_dir E entries) else (Ok None, entries)) of
               (Err e, _) \<Rightarrow> fails e
             | (Ok dir, entries1) \<Rightarrow>
                 (case accept_loop rounds \<lparr>ac_spawned = [], ac_pauses = 0\<rparr> of
                    (None, _) \<Rightarrow> None
                  | (Some fatal, st) \<Rightarrow>
                      (case http_drain D fatal grace stopped of
                         (drained, t) \<Rightarrow>
                           Some \<lparr>pe_result = drained_result grace drained, pe_time = t, pe_conns = ac_spawned st,
                             pe_entries = (case dir of
                                 Some d \<Rightarrow> filter (\<lambda>e. \<not> (e = d \<and> sp_removes E d)) entries1
                               | None \<Rightarrow> entries1)\<rparr>)))))"

text \<open>
  The gRPC plugin waits for the connections under one timeout, and so does the observability listener, which
  reports only a failure of its listener.
\<close>

definition grpc_serve ::
  "bool \<Rightarrow> (unit, string) result \<Rightarrow> nat \<Rightarrow> (bool \<times> 'c accepted) list \<Rightarrow> nat \<Rightarrow> nat \<Rightarrow> nat option
   \<Rightarrow> nat \<Rightarrow> nat \<Rightarrow> (drain_result \<times> nat, string) result option" where
  "grpc_serve prepared adopt grace rounds now stopped closed inflight http2 =
     (if \<not> prepared then Some (Err ''grpc listener was not prepared'')
      else (case adopt of
          Err e \<Rightarrow> Some (Err e)
        | Ok _ \<Rightarrow> (case accept_loop rounds \<lparr>ac_spawned = [], ac_pauses = 0\<rparr> of
             (None, _) \<Rightarrow> None
           | (Some fatal, _) \<Rightarrow> (case timeout_at (stopped + grace) closed stopped of
               (drained, t) \<Rightarrow> Some (Ok (grpc_drain fatal drained inflight http2, t))))))"

definition obs_serve ::
  "(unit, string) result \<Rightarrow> (unit, string) result \<Rightarrow> nat \<Rightarrow> (bool \<times> 'c accepted) list \<Rightarrow> nat \<Rightarrow> nat \<Rightarrow> nat option
   \<Rightarrow> ((unit, string) result \<times> nat) option" where
  "obs_serve runtime adopt grace rounds now stopped closed =
     (case (case runtime of Err e \<Rightarrow> Err (''building the observability runtime: '' @ e) | Ok _ \<Rightarrow> adopt) of
        Err e \<Rightarrow> Some (Err e, now)
      | Ok _ \<Rightarrow> (case accept_loop rounds \<lparr>ac_spawned = [], ac_pauses = 0\<rparr> of
           (None, _) \<Rightarrow> None
         | (Some fatal, _) \<Rightarrow>
             Some (case fatal of None \<Rightarrow> Ok () | Some e \<Rightarrow> Err e, snd (timeout_at (stopped + grace) closed stopped))))"

text \<open>
  The plugin ends within the grace and one late poll of the end of its accept loop, ends well exactly when
  the stop flag ended that loop and no request was in flight at the end, has spawned every accepted
  connection, and leaves no spool directory that it can remove.
\<close>

lemma http_serve_end:
  assumes "http_serve E D True (Ok ()) uploads grace (pre @ (s, a) # rounds) now stopped entries = Some e"
    and "list_all accepts_on pre" and "\<not> accepts_on (s, a)"
    and "\<not> uploads \<or> (worker_spool_name E \<notin> set entries \<and> sp_creates E (worker_spool_name E) = Ok ())"
    and "\<And>t. de_late D t \<le> L"
  shows "pe_conns e = conns_of pre \<and> pe_time e \<le> stopped + grace + 50 + L
    \<and> (pe_result e = Ok () \<longleftrightarrow> s \<and> de_inflight D (pe_time e) = 0)
    \<and> (sp_removes E (worker_spool_name E) \<longrightarrow> pe_entries e = entries)"
proof -
  obtain r st where l: "accept_loop (pre @ (s, a) # rounds) \<lparr>ac_spawned = [], ac_pauses = 0\<rparr> = (r, st)" by fastforce
  obtain d t where d: "http_drain D (the r) grace stopped = (d, t)" by fastforce
  define dir where "dir = (if uploads then Some (worker_spool_name E) else None)"
  have loop: "ac_spawned st = conns_of pre" "r \<noteq> None" "the r = None \<longleftrightarrow> s"
    using accept_loop_ends [OF assms(2) l assms(3)] assms(3)
    by (auto simp: accepts_on_def split: accepted.splits if_splits)
  then obtain fatal where r: "r = Some fatal" by blast
  have e: "pe_result e = drained_result grace d \<and> pe_time e = t \<and> pe_conns e = ac_spawned st
     \<and> (sp_removes E (worker_spool_name E) \<longrightarrow> pe_entries e = entries)"
    using assms(1,4) d r
    by (cases uploads) (auto simp: http_serve_def l create_worker_spool_dir_def Let_def filter_id_conv)
  have "d = HttpClean \<longleftrightarrow> s \<and> de_inflight D t = 0" using http_drain_exact [OF d] loop(3) by auto
  then have "drained_result grace d = Ok () \<longleftrightarrow> s \<and> de_inflight D t = 0"
    by (cases d) (auto simp: drained_result_def)
  moreover have "t \<le> stopped + grace + 50 + L" using http_drain_bound [OF assms(5), of "the r" grace stopped] d by simp
  ultimately show ?thesis using e loop(1) by simp
qed

lemma duration_debug_examples:
  "duration_debug 25000 = ''25s'' \<and> duration_debug 500 = ''500ms'' \<and> duration_debug 1500 = ''1.5s''"
  by code_simp

end
