(* ===== verification/Process.thy ===== *)
theory Process
  imports Listener Config
begin

text \<open>
  The process: the pools of PHP threads (\<open>sapi/src/start.rs\<close>), the plugin threads (\<open>sapi/src/plugin.rs\<close>),
  and the start, the supervision and the bounded shutdown of all of them (\<open>src/worker.rs\<close>, \<open>src/main.rs\<close>).
  Times are milliseconds on the monotonic clock. When a thread ends is a fact about the thread that the
  arguments give: \<open>None\<close> is a thread that never ends.
\<close>

section \<open>A pool of PHP threads\<close>

text \<open>
  A PHP thread: when it ends, and what its join handle then returns. A panic of PHP or of the handler is caught inside
  the thread; one in its start, its recycling or its end is not, and is the \<open>Err\<close> here.
\<close>

record php_worker =
  pw_ends :: "nat option"
  pw_result :: "(unit, string) result"

record php_pool =
  pp_intake :: bool            \<comment> \<open>the pool still holds its intake\<close>
  pp_workers :: "php_worker list"
  pp_stopping :: bool
  pp_stop_open :: bool         \<comment> \<open>the sender of the stop channel is alive\<close>

text \<open>
  The threads wait at a gate, so a failed spawn lets none of them run. The result counts the threads that
  are alive and marks the slots that were given to a thread.
\<close>

fun spawn_workers ::
  "(php_worker, string) result list \<Rightarrow> shared_slot list \<Rightarrow> php_pool
   \<Rightarrow> (unit, string) result \<times> shared_slot list \<times> php_pool" where
  "spawn_workers (o1 # os) (s # ss) p =
     (let s1 = s\<lparr>sl_state := SLOT_STARTING\<rparr> in
      case o1 of
        Ok w \<Rightarrow> (case spawn_workers os ss (p\<lparr>pp_workers := pp_workers p @ [w]\<rparr>) of
            (r, ss1, p1) \<Rightarrow> (r, s1 # ss1, p1))
      | Err e \<Rightarrow> (Err e, s1 # ss, p))"
| "spawn_workers _ ss p = (Ok (), ss, p)"

definition pool_open :: php_pool where
  "pool_open = \<lparr>pp_intake = True, pp_workers = [], pp_stopping = False, pp_stop_open = True\<rparr>"

definition pool_stop :: "php_pool \<Rightarrow> php_pool" where
  "pool_stop p = p\<lparr>pp_stopping := True, pp_intake := False, pp_stop_open := False\<rparr>"

definition alive :: "nat \<Rightarrow> nat option \<Rightarrow> bool" where
  "alive now e = (case e of None \<Rightarrow> True | Some t \<Rightarrow> now < t)"

function join_wait :: "(nat \<Rightarrow> nat) \<Rightarrow> nat option list \<Rightarrow> nat \<Rightarrow> nat \<Rightarrow> nat" where
  "join_wait late ws deadline now =
     (if now < deadline \<and> list_ex (alive now) ws then join_wait late ws deadline (now + 20 + late now) else now)"
  by pat_completeness auto
termination by (relation "measure (\<lambda>(late, ws, deadline, now). deadline - now)") auto

declare join_wait.simps [simp del]

definition pool_ends :: "php_pool \<Rightarrow> nat option list" where
  "pool_ends p = map pw_ends (pp_workers p)"

text \<open>When all threads are through, each is joined, and what its join returns is thrown away.\<close>

definition pool_join :: "(nat \<Rightarrow> nat) \<Rightarrow> nat \<Rightarrow> php_pool \<Rightarrow> nat \<Rightarrow> bool \<times> php_pool \<times> nat" where
  "pool_join late deadline p now =
     (let p1 = pool_stop p; t = join_wait late (pool_ends p1) deadline now
      in if list_ex (alive t) (pool_ends p1) then (False, p1, t)
         else (case map pw_result (pp_workers p1) of _ \<Rightarrow> (True, p1\<lparr>pp_workers := []\<rparr>, t)))"

text \<open>
  \<open>start_pool\<close>, given what each spawn answers, for an entrypoint whose directory name holds no NUL. On a failed spawn the pool is dropped: that joins it for at
  most five seconds, and threads that still run then are left behind.
\<close>

definition start_pool ::
  "(nat \<Rightarrow> nat) \<Rightarrow> (php_worker, string) result list \<Rightarrow> shared_slot list \<Rightarrow> nat
   \<Rightarrow> (php_pool, string \<times> nat option list) result \<times> shared_slot list \<times> nat" where
  "start_pool late spawns slots now =
     (case spawn_workers spawns slots pool_open of
        (Ok _, slots1, p) \<Rightarrow> (Ok p, slots1, now)
      | (Err e, slots1, p) \<Rightarrow>
          (case pool_join late (now + 5000) p now of (_, p1, t) \<Rightarrow> (Err (e, pool_ends p1), slots1, t)))"

lemma alive_iff: "alive t e \<longleftrightarrow> \<not> (\<exists>u\<le>t. e = Some u)"
  by (cases e) (auto simp: alive_def)

lemma join_wait_ends:
  "now \<le> join_wait late ws deadline now
   \<and> (\<not> list_ex (alive (join_wait late ws deadline now)) ws \<or> deadline \<le> join_wait late ws deadline now)"
proof (induction late ws deadline now rule: join_wait.induct)
  case (1 late ws deadline now)
  show ?case
  proof (cases "now < deadline \<and> list_ex (alive now) ws")
    case True
    with 1 show ?thesis by (subst (1 2 3) join_wait.simps) auto
  next
    case False
    then have "join_wait late ws deadline now = now" by (subst join_wait.simps) auto
    with False show ?thesis by auto
  qed
qed

text \<open>A successful join means that every thread of the pool has ended; an unsuccessful one takes until the deadline.\<close>

lemma pool_join_exact:
  assumes "pool_join late deadline p now = (ok, p1, t)"
  shows "now \<le> t \<and> pp_stopping p1 \<and> \<not> pp_intake p1
    \<and> (ok \<longrightarrow> list_all (\<lambda>e. \<exists>u\<le>t. e = Some u) (pool_ends p) \<and> pp_workers p1 = [])
    \<and> (\<not> ok \<longrightarrow> deadline \<le> t \<and> list_ex (alive t) (pool_ends p) \<and> pp_workers p1 = pp_workers p)"
  using assms join_wait_ends [of now late "pool_ends p" deadline]
  by (auto simp: pool_join_def pool_stop_def pool_ends_def Let_def list_ex_iff list_all_iff alive_iff split: if_splits)

section \<open>Plugin threads\<close>

datatype thread_result = Finishes "(unit, string) result" | Panics "string option"

record running =
  rn_name :: string
  rn_ends :: "nat option"
  rn_result :: thread_result

definition is_finished :: "nat \<Rightarrow> running \<Rightarrow> bool" where
  "is_finished now r \<longleftrightarrow> \<not> alive now (rn_ends r)"

definition running_join :: "running \<Rightarrow> (unit, string) result" where
  "running_join r = (case rn_result r of
     Finishes res \<Rightarrow> res
   | Panics msg \<Rightarrow> Err (rn_name r @ '' panicked: '' @ (case msg of Some m \<Rightarrow> m | None \<Rightarrow> ''unknown panic'')))"

definition run_plugin ::
  "string \<Rightarrow> (unit, string) result \<Rightarrow> (nat option \<times> thread_result, string) result \<Rightarrow> (running, string) result" where
  "run_plugin name runtime thread = (case runtime of
     Err e \<Rightarrow> Err (''building the '' @ name @ '' runtime: '' @ e)
   | Ok _ \<Rightarrow> (case thread of
       Err e \<Rightarrow> Err (''spawning the '' @ name @ '' thread: '' @ e)
     | Ok (ends, res) \<Rightarrow> Ok \<lparr>rn_name = name, rn_ends = ends, rn_result = res\<rparr>))"

section \<open>Start\<close>

definition php_series :: "nat \<Rightarrow> nat \<times> nat" where
  "php_series version = (version div 10000, (version div 100) mod 100)"

definition boot_master :: "nat \<Rightarrow> nat \<Rightarrow> bool \<Rightarrow> bool \<Rightarrow> (unit, string) result" where
  "boot_master headers linked tsrm started =
     (if php_series headers \<noteq> php_series linked
      then Err (''PHP runtime version '' @ decimal linked @ '' does not match the build headers '' @ decimal headers)
      else if \<not> tsrm then Err ''TSRM startup failed''
      else if \<not> started then Err ''php_module_startup failed'' else Ok ())"

text \<open>The board is cut into one slice per plugin, in order; \<open>None\<close> is the panic of a slice out of range.\<close>

fun board_slices :: "nat list \<Rightarrow> nat \<Rightarrow> 'a list \<Rightarrow> 'a list list option" where
  "board_slices [] offset board = Some []"
| "board_slices (n # ns) offset board =
     (if offset + n \<le> length board
      then map_option (\<lambda>r. take n (drop offset board) # r) (board_slices ns (offset + n) board) else None)"

lemma board_slices_exact:
  assumes "offset + sum_list ns = length board"
  shows "\<exists>ss. board_slices ns offset board = Some ss \<and> concat ss = drop offset board \<and> map length ss = ns"
  using assms
proof (induction ns arbitrary: offset)
  case (Cons n ns)
  then have "offset + n + sum_list ns = length board" by simp
  from Cons.IH [OF this] obtain ss where ss: "board_slices ns (offset + n) board = Some ss"
    "concat ss = drop (offset + n) board" "map length ss = ns" by blast
  have "take n (drop offset board) @ drop (offset + n) board = drop offset board"
    by (metis add.commute append_take_drop_id drop_drop)
  with ss Cons.prems show ?case by simp
qed simp

record plugin_spec =
  pl_name :: string
  pl_processes :: nat
  pl_spawns :: "(php_worker, string) result list"
  pl_runtime :: "(unit, string) result"
  pl_thread :: "(nat option \<times> thread_result, string) result"

record started =
  st_pools :: "php_pool list"
  st_running :: "running list"
  st_orphans :: "nat option list" \<comment> \<open>threads of a pool that could not start\<close>

fun start_plugins ::
  "(nat \<Rightarrow> nat) \<Rightarrow> (plugin_spec \<times> shared_slot list) list \<Rightarrow> nat \<Rightarrow> started
   \<Rightarrow> (unit, string) result \<times> started \<times> nat" where
  "start_plugins late [] now st = (Ok (), st, now)"
| "start_plugins late ((pl, slots) # rest) now st =
     (case start_pool late (pl_spawns pl) slots now of
        (Err (e, left), _, t) \<Rightarrow> (Err e, st\<lparr>st_orphans := st_orphans st @ left\<rparr>, t)
      | (Ok p, _, t) \<Rightarrow>
          (let st1 = st\<lparr>st_pools := st_pools st @ [p]\<rparr> in
           case run_plugin (pl_name pl) (pl_runtime pl) (pl_thread pl) of
             Err e \<Rightarrow> (Err e, st1, t)
           | Ok r \<Rightarrow> start_plugins late rest t (st1\<lparr>st_running := st_running st1 @ [r]\<rparr>)))"

section \<open>Supervision and shutdown\<close>

text \<open>
  What happens to the process: the answers of the start, the console events and the moment of the boot
  failure flag, how late a sleep of the main thread ends, and whether the shutdown timer can be started.
  \<open>pr_timeout\<close> is \<open>process_control_timeout\<close>.
\<close>

record proc_env =
  pr_console :: "(unit, string) result"
  pr_boot :: "(unit, string) result"
  pr_observer :: "(nat option \<times> thread_result, string) result option"
  pr_plugins :: "plugin_spec list"
  pr_start :: nat
  pr_events :: "nat list" \<comment> \<open>Ctrl+C and Ctrl+Break, in the order of time\<close>
  pr_boot_failed :: "nat option"
  pr_late :: "nat \<Rightarrow> nat"
  pr_timeout :: nat
  pr_timer :: "(unit, string) result"

definition asked :: "proc_env \<Rightarrow> nat \<Rightarrow> bool" where
  "asked P now \<longleftrightarrow> list_ex (\<lambda>e. e \<le> now) (pr_events P)"

definition boot_failed :: "proc_env \<Rightarrow> nat \<Rightarrow> bool" where
  "boot_failed P now \<longleftrightarrow> \<not> alive now (pr_boot_failed P)"

definition exit_status :: "proc_env \<Rightarrow> nat \<Rightarrow> nat" where
  "exit_status P now = (if boot_failed P now then 70 else 1)"

text \<open>The observability thread is started first, then the pools and plugins in order.\<close>

definition startup ::
  "proc_env \<Rightarrow> shared_slot list list \<Rightarrow> (unit, string) result \<times> running option \<times> started \<times> nat" where
  "startup P boards =
     (let st = \<lparr>st_pools = [], st_running = [], st_orphans = []\<rparr> in
      case pr_observer P of
        Some (Err e) \<Rightarrow> (Err e, None, st, pr_start P)
      | obs \<Rightarrow>
          (let observer = (case obs of
               Some (Ok (ends, res)) \<Rightarrow> Some \<lparr>rn_name = ''observability'', rn_ends = ends, rn_result = res\<rparr>
             | _ \<Rightarrow> None)
           in case start_plugins (pr_late P) (zip (pr_plugins P) boards) (pr_start P) st of
                (r, st1, t) \<Rightarrow> (r, observer, st1, t)))"

definition wakes :: "proc_env \<Rightarrow> running list \<Rightarrow> running option \<Rightarrow> nat \<Rightarrow> bool" where
  "wakes P rs observer now \<longleftrightarrow> asked P now \<or> boot_failed P now \<or> list_ex (is_finished now) rs
     \<or> (case observer of Some o1 \<Rightarrow> is_finished now o1 | None \<Rightarrow> False)"

fun wait_loop :: "nat \<Rightarrow> (nat \<Rightarrow> nat) \<Rightarrow> (nat \<Rightarrow> bool) \<Rightarrow> nat \<Rightarrow> nat option" where
  "wait_loop 0 late woken now = None"
| "wait_loop (Suc k) late woken now =
     (if woken now then Some now else wait_loop k late woken (now + 20 + late now))"

text \<open>Joins wait for the end of the thread; \<open>None\<close> is a join that never returns.\<close>

fun join_all :: "running list \<Rightarrow> nat \<Rightarrow> bool \<Rightarrow> (bool \<times> nat) option" where
  "join_all [] now failed = Some (failed, now)"
| "join_all (r # rs) now failed = (case rn_ends r of
     None \<Rightarrow> None
   | Some e \<Rightarrow> join_all rs (max now e) (failed \<or> \<not> is_ok (running_join r)))"

fun join_pools :: "(nat \<Rightarrow> nat) \<Rightarrow> nat \<Rightarrow> php_pool list \<Rightarrow> nat \<Rightarrow> bool \<times> nat" where
  "join_pools late deadline [] now = (True, now)"
| "join_pools late deadline (p # ps) now = (case pool_join late deadline p now of
     (ok, _, t) \<Rightarrow> if ok then join_pools late deadline ps t else (False, t))"

datatype process_end = Forced nat | Exits "(nat, string) result"

text \<open>
  The main thread from the end of the waiting loop at \<open>now\<close>: join the plugins, the observer and the pools,
  drop the module (which forces the end of the process while PHP threads are alive), and give the exit code.
\<close>

definition wind_down ::
  "proc_env \<Rightarrow> (unit, string) result \<Rightarrow> running option \<Rightarrow> started \<Rightarrow> nat \<Rightarrow> (process_end \<times> nat) option" where
  "wind_down P start observer st now =
     (let failed = (case observer of Some o1 \<Rightarrow> is_finished now o1 | None \<Rightarrow> False);
          deadline = now + pr_timeout P
      in case join_all (st_running st @ (case observer of Some o1 \<Rightarrow> [o1] | None \<Rightarrow> [])) now failed of
           None \<Rightarrow> None
         | Some (failed1, t1) \<Rightarrow>
             (case join_pools (pr_late P) deadline (map pool_stop (st_pools st)) t1 of
                (False, t2) \<Rightarrow> Some (Forced (exit_status P t2), t2)
              | (True, t2) \<Rightarrow>
                  Some (if list_ex (alive t2) (st_orphans st) then Forced 1
                        else (case start of
                            Err e \<Rightarrow> Exits (Err e)
                          | Ok _ \<Rightarrow> Exits (Ok (if boot_failed P t2 then 70 else if failed1 then 1 else 0))), t2)))"

text \<open>
  The timer ends the process at the deadline, unless the main thread is through before it. At the same
  millisecond the timer wins.
\<close>

definition timed :: "proc_env \<Rightarrow> nat \<Rightarrow> (process_end \<times> nat) option \<Rightarrow> process_end \<times> nat" where
  "timed P deadline outcome = (case outcome of
     Some (r, t) \<Rightarrow> if t < deadline then (r, t) else (Forced (exit_status P deadline), deadline)
   | None \<Rightarrow> (Forced (exit_status P deadline), deadline))"

definition shutdown ::
  "proc_env \<Rightarrow> (unit, string) result \<Rightarrow> running option \<Rightarrow> started \<Rightarrow> nat \<Rightarrow> process_end \<times> nat" where
  "shutdown P start observer st now = (case pr_timer P of
     Err _ \<Rightarrow> (Forced 1, now)
   | Ok _ \<Rightarrow> timed P (now + pr_timeout P) (wind_down P start observer st now))"

text \<open>The second console event ends the process on the spot, as long as the handler is installed.\<close>

definition interrupted :: "proc_env \<Rightarrow> process_end \<times> nat \<Rightarrow> process_end \<times> nat" where
  "interrupted P e = (case pr_events P of
     _ # second # _ \<Rightarrow> if second < snd e then (Forced 130, second) else e
   | _ \<Rightarrow> e)"

text \<open>
  \<open>serve\<close> of \<open>worker.rs\<close> for \<open>threads\<close> interpreters. The outer \<open>None\<close> is the panic of a board slice; the inner
  one a process that still serves after the given number of polls.
\<close>

definition serve_from ::
  "proc_env \<Rightarrow> nat \<Rightarrow> (unit, string) result \<Rightarrow> running option \<Rightarrow> started \<Rightarrow> nat \<Rightarrow> (process_end \<times> nat) option" where
  "serve_from P fuel start observer st now =
     (case (if is_ok start then wait_loop fuel (pr_late P) (wakes P (st_running st) observer) now else Some now) of
        Some t0 \<Rightarrow> Some (interrupted P (shutdown P start observer st t0))
      | None \<Rightarrow> None)"

definition proc_serve :: "proc_env \<Rightarrow> nat \<Rightarrow> nat \<Rightarrow> (process_end \<times> nat) option option" where
  "proc_serve P threads fuel =
     (let stops = \<lambda>e. Some (Some (Exits (Err e), pr_start P)) in
      case pr_console P of Err e \<Rightarrow> stops e
      | Ok _ \<Rightarrow> (case pr_boot P of Err e \<Rightarrow> stops e
      | Ok _ \<Rightarrow> (case create_board threads of Err e \<Rightarrow> stops e
      | Ok board \<Rightarrow> (case board_slices (map pl_processes (pr_plugins P)) 0 board of
          None \<Rightarrow> None
        | Some boards \<Rightarrow> (case startup P boards of
            (start, observer, st, t) \<Rightarrow> Some (serve_from P fuel start observer st t))))))"

text \<open>The exit code that \<open>main\<close> and the system report.\<close>

definition exit_code :: "process_end \<Rightarrow> nat" where
  "exit_code e = (case e of Forced c \<Rightarrow> c | Exits (Ok c) \<Rightarrow> c | Exits (Err _) \<Rightarrow> 1)"

section \<open>The end of the process\<close>

lemma join_wait_bound:
  assumes "\<And>t. late t \<le> L"
  shows "join_wait late ws deadline now \<le> max now (deadline + 20 + L)"
  using assms
proof (induction late ws deadline now rule: join_wait.induct)
  case (1 late ws deadline now)
  show ?case
  proof (cases "now < deadline \<and> list_ex (alive now) ws")
    case True
    with 1 have "join_wait late ws deadline (now + 20 + late now) \<le> max (now + 20 + late now) (deadline + 20 + L)"
      by blast
    moreover have "now + 20 + late now \<le> deadline + 20 + L" using True 1(2) [of now] by simp
    ultimately show ?thesis using True by (subst join_wait.simps) simp
  qed (subst join_wait.simps, auto)
qed

lemma pool_join_time:
  assumes "\<And>t. late t \<le> L" and "pool_join late deadline p now = (ok, p1, t)"
  shows "now \<le> t \<and> t \<le> max now (deadline + 20 + L)"
proof -
  have "t = join_wait late (pool_ends p) deadline now"
    using assms(2) by (auto simp: pool_join_def pool_ends_def Let_def pool_stop_def split: if_splits)
  then show ?thesis using join_wait_bound [where late = late, OF assms(1)] pool_join_exact [OF assms(2)] by blast
qed

lemma start_pool_time:
  assumes "\<And>t. late t \<le> L" and "start_pool late spawns slots now = (r, slots1, t)"
  shows "now \<le> t \<and> t \<le> now + 5020 + L \<and> (is_ok r \<longrightarrow> t = now)"
proof -
  obtain a slots2 p where s: "spawn_workers spawns slots pool_open = (a, slots2, p)" by (metis prod_cases3)
  obtain ok p1 t1 where j: "pool_join late (now + 5000) p now = (ok, p1, t1)" by (metis prod_cases3)
  show ?thesis
    using assms(2) pool_join_time [where late = late, OF assms(1) j] s j
    by (cases a) (auto simp: start_pool_def)
qed

lemma start_plugins_time:
  assumes "\<And>t. late t \<le> L" and "start_plugins late pls now st = (r, st1, t)"
  shows "now \<le> t \<and> t \<le> now + 5020 + L"
  using assms(2)
proof (induction pls arbitrary: st)
  case (Cons a rest)
  obtain pl slots where a: "a = (pl, slots)" by fastforce
  obtain q slots1 u where q: "start_pool late (pl_spawns pl) slots now = (q, slots1, u)" by (metis prod_cases3)
  note u = start_pool_time [where late = late, OF assms(1) q]
  show ?case
  proof (cases q)
    case (Ok p)
    with u have [simp]: "u = now" by simp
    show ?thesis
    proof (cases "run_plugin (pl_name pl) (pl_runtime pl) (pl_thread pl)")
      case (Ok rn)
      have "start_plugins late rest now (st\<lparr>st_pools := st_pools st @ [p], st_running := st_running st @ [rn]\<rparr>) = (r, st1, t)"
        using Cons.prems q Ok \<open>q = Ok p\<close> by (simp add: a)
      then show ?thesis by (rule Cons.IH)
    next
      case (Err e)
      then show ?thesis using Cons.prems q \<open>q = Ok p\<close> by (simp add: a)
    qed
  next
    case (Err e)
    then show ?thesis using Cons.prems q u by (cases e) (simp add: a)
  qed
qed simp

lemma startup_time:
  assumes "\<And>t. pr_late P t \<le> L" and "startup P boards = (r, observer, st, t)"
  shows "pr_start P \<le> t \<and> t \<le> pr_start P + 5020 + L"
  using assms(2) start_plugins_time [where late = "pr_late P", OF assms(1)]
  by (auto simp: startup_def Let_def split: option.splits result.splits prod.splits)

text \<open>The waiting loop sees a lasting reason to wake within one sleep.\<close>

lemma wait_loop_wakes:
  assumes "\<And>t. late t \<le> L" and "\<And>t. T \<le> t \<Longrightarrow> woken t" and "T < now + 20 * k"
  shows "\<exists>t0. wait_loop (Suc k) late woken now = Some t0 \<and> now \<le> t0 \<and> t0 \<le> max now (T + 20 + L) \<and> woken t0"
  using assms(3)
proof (induction k arbitrary: now)
  case 0
  then show ?case using assms(2) by simp
next
  case (Suc k)
  show ?case
  proof (cases "woken now")
    case False
    then have T: "now < T" using assms(2) not_le by blast
    from Suc.prems have "T < now + 20 + late now + 20 * k" by simp
    from Suc.IH [OF this] obtain t0 where "wait_loop (Suc k) late woken (now + 20 + late now) = Some t0"
      "now + 20 + late now \<le> t0" "t0 \<le> max (now + 20 + late now) (T + 20 + L)" "woken t0" by blast
    moreover have "now + 20 + late now \<le> T + 20 + L" using T assms(1) [of now] by simp
    ultimately show ?thesis using False by (subst wait_loop.simps) simp
  qed simp
qed

lemma shutdown_in_time:
  "snd (shutdown P start observer st t0) \<le> t0 + pr_timeout P"
  by (auto simp: shutdown_def timed_def split: result.split option.split)

lemma interrupted_in_time: "snd (interrupted P e) \<le> snd e"
  by (auto simp: interrupted_def split: list.split)

lemma serve_from_in_time:
  assumes "\<And>t. pr_late P t \<le> L" and "E \<in> set (pr_events P)" and "E < now + 20 * fuel"
  shows "\<exists>e t. serve_from P (Suc fuel) start observer st now = Some (e, t)
    \<and> t \<le> max now (E + 20 + L) + pr_timeout P"
proof -
  have "\<exists>t0. (if is_ok start then wait_loop (Suc fuel) (pr_late P) (wakes P (st_running st) observer) now else Some now)
      = Some t0 \<and> t0 \<le> max now (E + 20 + L)"
    using wait_loop_wakes [OF assms(1) _ assms(3), of "wakes P (st_running st) observer"] assms(2)
    by (fastforce simp: wakes_def asked_def list_ex_iff)
  then obtain t0 where t0: "(if is_ok start then wait_loop (Suc fuel) (pr_late P) (wakes P (st_running st) observer) now else Some now)
      = Some t0" "t0 \<le> max now (E + 20 + L)" by blast
  obtain e t where e: "interrupted P (shutdown P start observer st t0) = (e, t)" by fastforce
  have "t \<le> t0 + pr_timeout P"
    using interrupted_in_time [of P "shutdown P start observer st t0"] shutdown_in_time [of P start observer st t0] e by simp
  with t0 e show ?thesis by (simp add: serve_from_def)
qed

subsection \<open>What exit code 0 says\<close>

definition ended_by :: "nat \<Rightarrow> nat option \<Rightarrow> bool" where
  "ended_by t e \<longleftrightarrow> (\<exists>u\<le>t. e = Some u)"

lemma ended_by_mono: "ended_by t e \<Longrightarrow> t \<le> t' \<Longrightarrow> ended_by t' e"
  by (auto simp: ended_by_def)

lemma spawn_workers_Ok:
  "spawn_workers spawns slots p = (Ok u, slots1, p1) \<Longrightarrow> length spawns = length slots \<Longrightarrow>
   \<exists>ends. spawns = map Ok ends \<and> pp_workers p1 = pp_workers p @ ends"
proof (induction spawns slots p arbitrary: slots1 rule: spawn_workers.induct)
  case (1 o1 os s ss p)
  show ?case
  proof (cases o1)
    case (Ok e)
    obtain r ss1 p2 where rec: "spawn_workers os ss (p\<lparr>pp_workers := pp_workers p @ [e]\<rparr>) = (r, ss1, p2)"
      by (metis prod_cases3)
    with 1(2) Ok have "r = Ok u" "p2 = p1" by (auto simp: Let_def)
    with rec have "spawn_workers os ss (p\<lparr>pp_workers := pp_workers p @ [e]\<rparr>) = (Ok u, ss1, p1)" by simp
    from 1(1) [OF refl Ok this] 1(3) obtain ends where "os = map Ok ends" "pp_workers p1 = pp_workers p @ [e] @ ends"
      by auto
    then show ?thesis using Ok by (intro exI [of _ "e # ends"]) simp
  qed (use 1(2) in \<open>auto simp: Let_def\<close>)
qed auto

lemma start_plugins_Ok:
  "start_plugins late (zip pls boards) now st = (Ok u, st1, t) \<Longrightarrow> length boards = length pls \<Longrightarrow>
   list_all2 (\<lambda>pl ss. length (pl_spawns pl) = length ss) pls boards \<Longrightarrow>
   \<exists>rs ps. st_running st1 = st_running st @ rs \<and> st_pools st1 = st_pools st @ ps
     \<and> st_orphans st1 = st_orphans st
     \<and> list_all2 (\<lambda>pl r. pl_thread pl = Ok (rn_ends r, rn_result r)) pls rs
     \<and> list_all2 (\<lambda>pl p. pl_spawns pl = map Ok (pp_workers p)) pls ps"
proof (induction pls arbitrary: boards now st)
  case (Cons pl pls)
  from Cons.prems(2) obtain ss rest where b: "boards = ss # rest" by (cases boards) auto
  obtain a slots1 p where sp: "spawn_workers (pl_spawns pl) ss pool_open = (a, slots1, p)" by (metis prod_cases3)
  have "is_ok a"
    using Cons.prems(1) sp by (cases a) (auto simp: b start_pool_def split: prod.splits)
  then obtain v where a: "a = Ok v" by (auto simp: is_ok_iff)
  have q: "start_pool late (pl_spawns pl) ss now = (Ok p, slots1, now)" using sp a by (simp add: start_pool_def)
  have w: "pl_spawns pl = map Ok (pp_workers p)"
    using spawn_workers_Ok [OF sp [unfolded a]] Cons.prems(3) b by (auto simp: pool_open_def)
  obtain r where r: "run_plugin (pl_name pl) (pl_runtime pl) (pl_thread pl) = Ok r"
    using Cons.prems(1) q by (cases "run_plugin (pl_name pl) (pl_runtime pl) (pl_thread pl)") (auto simp: b)
  have th: "pl_thread pl = Ok (rn_ends r, rn_result r)"
    using r by (auto simp: run_plugin_def split: result.splits prod.splits)
  have "start_plugins late (zip pls rest) now
      (st\<lparr>st_pools := st_pools st @ [p], st_running := st_running st @ [r]\<rparr>) = (Ok u, st1, t)"
    using Cons.prems(1) q r by (simp add: b)
  from Cons.IH [OF this] Cons.prems(2,3) obtain rs ps where
    "st_running st1 = st_running st @ r # rs" "st_pools st1 = st_pools st @ p # ps"
    "st_orphans st1 = st_orphans st"
    "list_all2 (\<lambda>pl r. pl_thread pl = Ok (rn_ends r, rn_result r)) pls rs"
    "list_all2 (\<lambda>pl p. pl_spawns pl = map Ok (pp_workers p)) pls ps"
    by (auto simp: b)
  with w th show ?case by (intro exI [of _ "r # rs"] exI [of _ "p # ps"]) simp
qed simp

lemma join_all_Some:
  "join_all rs now failed = Some (f, t) \<Longrightarrow> now \<le> t \<and>
   (\<not> f \<longrightarrow> \<not> failed \<and> list_all (\<lambda>r. ended_by t (rn_ends r) \<and> is_ok (running_join r)) rs)"
proof (induction rs now failed rule: join_all.induct)
  case (2 r rs now failed)
  then obtain e where "rn_ends r = Some e" by (cases "rn_ends r") auto
  with 2 show ?case by (auto simp: ended_by_def)
qed simp

lemma join_pools_True:
  "join_pools late deadline ps now = (True, t) \<Longrightarrow>
   now \<le> t \<and> list_all (\<lambda>p. list_all (ended_by t) (pool_ends p)) ps"
proof (induction late deadline ps now rule: join_pools.induct)
  case (2 late deadline p ps now)
  obtain ok p1 u where j: "pool_join late deadline p now = (ok, p1, u)" by (metis prod_cases3)
  with 2(2) have ok: "ok" by (simp split: if_splits)
  from 2(2) j ok have "join_pools late deadline ps u = (True, t)" by simp
  from 2(1) [OF j [symmetric] refl ok this]
  have "u \<le> t" "list_all (\<lambda>p. list_all (ended_by t) (pool_ends p)) ps" by auto
  with pool_join_exact [OF j] ok show ?case
    by (auto simp: list_all_iff ended_by_def intro: le_trans)
qed simp

lemma join_pools_time:
  "join_pools late deadline ps now = (ok, t) \<Longrightarrow> now \<le> t"
proof (induction ps arbitrary: now)
  case (Cons p ps)
  obtain ok1 p1 u where j: "pool_join late deadline p now = (ok1, p1, u)" by (metis prod_cases3)
  with pool_join_exact [OF j] Cons show ?case by (fastforce split: if_splits)
qed simp

lemma wind_down_codes:
  assumes "wind_down P start observer st now = Some (e, t)"
  shows "exit_code e \<in> {0, 1, 70} \<and> (exit_code e = 70 \<longrightarrow> boot_failed P t) \<and> now \<le> t"
proof -
  obtain f t1 where j: "join_all (st_running st @ (case observer of Some o1 \<Rightarrow> [o1] | None \<Rightarrow> [])) now
      (case observer of Some o1 \<Rightarrow> is_finished now o1 | None \<Rightarrow> False) = Some (f, t1)"
    using assms by (auto simp: wind_down_def Let_def split: option.splits prod.splits)
  obtain ok t2 where k: "join_pools (pr_late P) (now + pr_timeout P) (map pool_stop (st_pools st)) t1 = (ok, t2)" by fastforce
  have "t2 = t" using assms j k by (cases ok) (auto simp: wind_down_def Let_def)
  moreover have "now \<le> t2" using join_all_Some [OF j] join_pools_time [OF k] by simp
  ultimately show ?thesis using assms j k
    by (cases ok; cases start) (auto simp: wind_down_def Let_def exit_code_def exit_status_def split: if_splits)
qed

lemma wind_down_zero:
  assumes "wind_down P start observer st now = Some (e, t)" and "exit_code e = 0"
  shows "is_ok start \<and> \<not> boot_failed P t
    \<and> list_all (\<lambda>r. ended_by t (rn_ends r) \<and> is_ok (running_join r)) (st_running st)
    \<and> (\<forall>r. observer = Some r \<longrightarrow> \<not> is_finished now r \<and> ended_by t (rn_ends r) \<and> is_ok (running_join r))
    \<and> list_all (\<lambda>p. list_all (ended_by t) (pool_ends p)) (st_pools st)"
proof -
  obtain f t1 where j: "join_all (st_running st @ (case observer of Some o1 \<Rightarrow> [o1] | None \<Rightarrow> [])) now
      (case observer of Some o1 \<Rightarrow> is_finished now o1 | None \<Rightarrow> False) = Some (f, t1)"
    using assms by (auto simp: wind_down_def Let_def split: option.splits prod.splits)
  obtain ok t2 where k: "join_pools (pr_late P) (now + pr_timeout P) (map pool_stop (st_pools st)) t1 = (ok, t2)" by fastforce
  have ok: ok and f: "\<not> f" and t: "t2 = t" and s: "is_ok start" "\<not> boot_failed P t"
    using assms j k
    by (cases ok; cases start; auto simp: wind_down_def Let_def exit_code_def exit_status_def split: if_splits)+
  from k ok t have k: "join_pools (pr_late P) (now + pr_timeout P) (map pool_stop (st_pools st)) t1 = (True, t)" by simp
  have le: "t1 \<le> t" and pools: "list_all (\<lambda>p. list_all (ended_by t) (pool_ends p)) (st_pools st)"
    using join_pools_True [OF k] by (auto simp: list_all_iff pool_stop_def pool_ends_def)
  have all: "list_all (\<lambda>r. ended_by t (rn_ends r) \<and> is_ok (running_join r)) (st_running st @ (case observer of Some o1 \<Rightarrow> [o1] | None \<Rightarrow> []))"
    and "\<not> (case observer of Some o1 \<Rightarrow> is_finished now o1 | None \<Rightarrow> False)"
    using join_all_Some [OF j] f le by (auto simp: list_all_iff intro: ended_by_mono)
  then show ?thesis using s pools by (auto split: option.splits)
qed

text \<open>The same through the timer and the console handler.\<close>

lemma serve_from_codes:
  assumes "serve_from P fuel start observer st now = Some (e, t)"
  shows "exit_code e \<in> {0, 1, 70, 130} \<and> (exit_code e = 70 \<longrightarrow> boot_failed P t)
    \<and> (exit_code e = 130 \<longrightarrow> (\<exists>e1 rest. pr_events P = e1 # t # rest))"
proof -
  obtain t0 where t0: "interrupted P (shutdown P start observer st t0) = (e, t)"
    using assms by (auto simp: serve_from_def split: option.splits)
  obtain e1 t1 where s: "shutdown P start observer st t0 = (e1, t1)" by fastforce
  have "exit_code e1 \<in> {0, 1, 70} \<and> (exit_code e1 = 70 \<longrightarrow> boot_failed P t1)"
    using s wind_down_codes [of P start observer st t0]
    by (auto simp: shutdown_def timed_def exit_status_def exit_code_def split: result.splits option.splits if_splits)
  then show ?thesis using t0 s
    by (auto simp: interrupted_def exit_code_def split: list.splits if_splits)
qed

lemma serve_from_zero:
  assumes "serve_from P fuel start observer st now = Some (e, t)" and "exit_code e = 0"
  shows "\<exists>t0. t < t0 + pr_timeout P \<and> wind_down P start observer st t0 = Some (e, t)"
proof -
  obtain t0 where t0: "interrupted P (shutdown P start observer st t0) = (e, t)"
    using assms by (auto simp: serve_from_def split: option.splits)
  then have "shutdown P start observer st t0 = (e, t)"
    using assms(2) by (auto simp: interrupted_def exit_code_def split: list.splits if_splits)
  then show ?thesis using assms(2)
    by (auto simp: shutdown_def timed_def exit_status_def exit_code_def split: result.splits option.splits if_splits)
qed

lemma proc_serve_runs:
  assumes "pr_console P = Ok ()" and "pr_boot P = Ok ()"
    and "n = sum_list (map pl_processes (pr_plugins P))" and "1 \<le> n" and "n \<le> SB_MAX_SLOTS"
  shows "\<exists>boards start observer st now. map length boards = map pl_processes (pr_plugins P)
    \<and> startup P boards = (start, observer, st, now)
    \<and> proc_serve P n fuel = Some (serve_from P fuel start observer st now)"
proof -
  have "create_board n = Ok (replicate n slot_default)" using assms by (simp add: create_board_def)
  moreover obtain boards where "board_slices (map pl_processes (pr_plugins P)) 0 (replicate n slot_default) = Some boards"
    "map length boards = map pl_processes (pr_plugins P)"
    using board_slices_exact [of 0 "map pl_processes (pr_plugins P)" "replicate n slot_default"] assms(3) by auto
  moreover obtain start observer st now where "startup P boards = (start, observer, st, now)" by (metis prod_cases4)
  ultimately have "proc_serve P n fuel = Some (serve_from P fuel start observer st now)"
    using assms(1,2) by (simp add: proc_serve_def)
  with \<open>map length boards = _\<close> \<open>startup P boards = _\<close> show ?thesis by blast
qed

text \<open>
  C33: a console event ends the process. Whatever the plugin, observability and PHP threads do, even when none of
  them ever ends, the process is over \<open>process_control_timeout\<close> after the event, plus one poll of the
  waiting loop, where the start of the pools may first take its own time: it is never blocked for more than
  the five seconds in which a pool that could not start is dropped. The board has a slice for every pool.
\<close>

theorem stop_request_ends_process:
  assumes "pr_console P = Ok ()" and "pr_boot P = Ok ()"
    and "n = sum_list (map pl_processes (pr_plugins P))" and "1 \<le> n" and "n \<le> SB_MAX_SLOTS"
    and "\<And>t. pr_late P t \<le> L" and "E \<in> set (pr_events P)" and "E < pr_start P + 20 * fuel"
  shows "\<exists>e t. proc_serve P n (Suc fuel) = Some (Some (e, t))
    \<and> t \<le> max (pr_start P + 5000) E + 20 + L + pr_timeout P"
proof -
  from proc_serve_runs [OF assms(1-5), of "Suc fuel"] obtain boards start observer st now where
    s: "startup P boards = (start, observer, st, now)"
    and p: "proc_serve P n (Suc fuel) = Some (serve_from P (Suc fuel) start observer st now)" by blast
  from startup_time [OF assms(6) s] have now: "pr_start P \<le> now" "now \<le> pr_start P + 5020 + L" by auto
  then have "E < now + 20 * fuel" using assms(8) by simp
  from serve_from_in_time [OF assms(6,7) this, of start observer st] obtain e t where
    "serve_from P (Suc fuel) start observer st now = Some (e, t)" "t \<le> max now (E + 20 + L) + pr_timeout P" by blast
  moreover have "max now (E + 20 + L) \<le> max (pr_start P + 5000) E + 20 + L" using now by simp
  ultimately show ?thesis using p by fastforce
qed

text \<open>
  C32: what the exit code says. It is 0, 1, 70 or 130; 70 means that a pool gave up starting, 130 that a
  second console event came. With exit code 0, every plugin thread and the observability thread has ended without an
  error or a panic, every PHP thread of every pool has ended, and no pool failed to start. About a PHP thread it says
  no more than that: the join of the pool drops the panic of a thread.
\<close>

theorem exit_code_is_honest:
  assumes "pr_console P = Ok ()" and "pr_boot P = Ok ()"
    and "n = sum_list (map pl_processes (pr_plugins P))" and "1 \<le> n" and "n \<le> SB_MAX_SLOTS"
    and "list_all (\<lambda>pl. length (pl_spawns pl) = pl_processes pl) (pr_plugins P)"
    and "proc_serve P n fuel = Some (Some (e, t))"
  shows "exit_code e \<in> {0, 1, 70, 130} \<and> (exit_code e = 70 \<longrightarrow> boot_failed P t)
    \<and> (exit_code e = 130 \<longrightarrow> 2 \<le> length (pr_events P))
    \<and> (exit_code e = 0 \<longrightarrow> \<not> boot_failed P t
      \<and> (\<forall>pl\<in>set (pr_plugins P). \<exists>u\<le>t. pl_thread pl = Ok (Some u, Finishes (Ok ())))
      \<and> (\<forall>pl\<in>set (pr_plugins P). \<forall>o1\<in>set (pl_spawns pl). \<exists>w. \<exists>u\<le>t. o1 = Ok w \<and> pw_ends w = Some u)
      \<and> (\<forall>o1. pr_observer P = Some o1 \<longrightarrow> (\<exists>u\<le>t. o1 = Ok (Some u, Finishes (Ok ())))))"
proof -
  from proc_serve_runs [OF assms(1-5), of fuel] obtain boards start observer st now where
    b: "map length boards = map pl_processes (pr_plugins P)"
    and s: "startup P boards = (start, observer, st, now)"
    and p: "serve_from P fuel start observer st now = Some (e, t)" using assms(7) by auto
  show ?thesis
  proof (intro conjI impI)
    assume "exit_code e = 130"
    then show "2 \<le> length (pr_events P)" using serve_from_codes [OF p] by auto
  next
    assume z: "exit_code e = 0"
    from serve_from_zero [OF p z] obtain t0 where "wind_down P start observer st t0 = Some (e, t)" by blast
    note w = wind_down_zero [OF this z]
    then obtain v where ok: "start = Ok v" by (auto simp: is_ok_iff)
    show "\<not> boot_failed P t" using w by simp
    have fin: "\<exists>u\<le>t. rn_ends r = Some u \<and> rn_result r = Finishes (Ok ())"
      if "ended_by t (rn_ends r)" "is_ok (running_join r)" for r
      using that by (auto simp: ended_by_def running_join_def is_ok_iff split: thread_result.splits)
    have sub: "start_plugins (pr_late P) (zip (pr_plugins P) boards) (pr_start P)
        \<lparr>st_pools = [], st_running = [], st_orphans = []\<rparr> = (Ok v, st, now)"
      using s ok by (auto simp: startup_def Let_def split: option.splits result.splits prod.splits)
    have len: "length boards = length (pr_plugins P)" using b by (metis length_map)
    have "list_all2 (\<lambda>pl ss. length (pl_spawns pl) = length ss) (pr_plugins P) boards"
      using b assms(6) len by (auto simp: list_all2_conv_all_nth list_all_length) (metis nth_map)
    from start_plugins_Ok [OF sub len this]
    have rs: "list_all2 (\<lambda>pl r. pl_thread pl = Ok (rn_ends r, rn_result r)) (pr_plugins P) (st_running st)"
      and ps: "list_all2 (\<lambda>pl p. pl_spawns pl = map Ok (pp_workers p)) (pr_plugins P) (st_pools st)" by auto
    show "\<forall>pl\<in>set (pr_plugins P). \<exists>u\<le>t. pl_thread pl = Ok (Some u, Finishes (Ok ()))"
      using rs w fin by (fastforce simp: list_all2_conv_all_nth in_set_conv_nth list_all_length)
    show "\<forall>pl\<in>set (pr_plugins P). \<forall>o1\<in>set (pl_spawns pl). \<exists>w. \<exists>u\<le>t. o1 = Ok w \<and> pw_ends w = Some u"
    proof (intro ballI)
      fix pl o1 assume pl: "pl \<in> set (pr_plugins P)" and o1: "o1 \<in> set (pl_spawns pl)"
      from pl obtain i where i: "i < length (pr_plugins P)" "pl = pr_plugins P ! i" by (auto simp: in_set_conv_nth)
      define q where "q = st_pools st ! i"
      have q: "q \<in> set (st_pools st)" "pl_spawns pl = map Ok (pp_workers q)"
        using i ps by (auto simp: list_all2_conv_all_nth q_def)
      with o1 obtain x where x: "x \<in> set (pp_workers q)" "o1 = Ok x" by auto
      with q w have "ended_by t (pw_ends x)" by (auto simp: list_all_iff pool_ends_def)
      with x show "\<exists>w. \<exists>u\<le>t. o1 = Ok w \<and> pw_ends w = Some u" by (auto simp: ended_by_def)
    qed
    show "\<forall>o1. pr_observer P = Some o1 \<longrightarrow> (\<exists>u\<le>t. o1 = Ok (Some u, Finishes (Ok ())))"
    proof (intro allI impI)
      fix o1 assume o1: "pr_observer P = Some o1"
      with s ok obtain ends res where x: "o1 = Ok (ends, res)"
        "observer = Some \<lparr>rn_name = ''observability'', rn_ends = ends, rn_result = res\<rparr>"
        by (cases o1) (auto simp: startup_def Let_def split: prod.splits)
      from w x(2) fin [of "the observer"] have "\<exists>u\<le>t. ends = Some u \<and> res = Finishes (Ok ())" by auto
      with x(1) show "\<exists>u\<le>t. o1 = Ok (Some u, Finishes (Ok ()))" by auto
    qed
  qed (use serve_from_codes [OF p] in auto)
qed

subsection \<open>One run of the process\<close>

text \<open>
  One HTTP pool of two threads and the observability listener; Ctrl+C comes after 100 ms. One of the PHP threads ends by
  a panic, which the exit code does not show. In the second run the plugin and a PHP thread never end.
\<close>

definition sample_proc :: proc_env where
  "sample_proc = \<lparr>pr_console = Ok (), pr_boot = Ok (),
     pr_observer = Some (Ok (Some 130, Finishes (Ok ()))),
     pr_plugins = [\<lparr>pl_name = ''http'', pl_processes = 2, 
         pl_spawns = [Ok \<lparr>pw_ends = Some 200, pw_result = Err ''panic''\<rparr>, Ok \<lparr>pw_ends = Some 210, pw_result = Ok ()\<rparr>],
       pl_runtime = Ok (), pl_thread = Ok (Some 150, Finishes (Ok ()))\<rparr>],
     pr_start = 0, pr_events = [100], pr_boot_failed = None, pr_late = (\<lambda>t. 0),
     pr_timeout = 1000, pr_timer = Ok ()\<rparr>"

definition stuck_proc :: proc_env where
  "stuck_proc = sample_proc\<lparr>pr_plugins := [\<lparr>pl_name = ''http'', pl_processes = 2,
     pl_spawns = [Ok \<lparr>pw_ends = None, pw_result = Ok ()\<rparr>, Ok \<lparr>pw_ends = Some 210, pw_result = Ok ()\<rparr>], pl_runtime = Ok (), pl_thread = Ok (None, Panics None)\<rparr>]\<rparr>"

lemma sample_proc_run: "proc_serve sample_proc 2 7 = Some (Some (Exits (Ok 0), 210))"
  by code_simp

lemma stuck_proc_run: "proc_serve stuck_proc 2 7 = Some (Some (Forced 1, 1100))"
  by code_simp

lemma stop_request_ends_process_witness:
  "\<exists>e t. proc_serve stuck_proc 2 (Suc 6) = Some (Some (e, t)) \<and> t \<le> 6020"
proof -
  have "\<exists>e t. proc_serve stuck_proc 2 (Suc 6) = Some (Some (e, t))
      \<and> t \<le> max (pr_start stuck_proc + 5000) 100 + 20 + 0 + pr_timeout stuck_proc"
    by (rule stop_request_ends_process) (simp_all add: stuck_proc_def sample_proc_def SB_MAX_SLOTS_def)
  then show ?thesis by (simp add: stuck_proc_def sample_proc_def)
qed

lemma exit_code_is_honest_witness:
  "proc_serve sample_proc 2 7 = Some (Some (Exits (Ok 0), 210)) \<and> exit_code (Exits (Ok 0)) = 0
   \<and> (\<exists>u\<le>210. pl_thread (hd (pr_plugins sample_proc)) = Ok (Some u, Finishes (Ok ())))
   \<and> (\<exists>w. \<exists>u\<le>210. hd (pl_spawns (hd (pr_plugins sample_proc))) = Ok w \<and> pw_ends w = Some u
        \<and> pw_result w = Err ''panic'')"
proof -
  have z: "exit_code (Exits (Ok 0)) = 0" by (simp add: exit_code_def)
  have n: "2 = sum_list (map pl_processes (pr_plugins sample_proc))" by (simp add: sample_proc_def)
  from exit_code_is_honest [OF _ _ n _ _ _ sample_proc_run]
  have h: "(\<forall>pl\<in>set (pr_plugins sample_proc). \<exists>u\<le>210. pl_thread pl = Ok (Some u, Finishes (Ok ())))
      \<and> (\<forall>pl\<in>set (pr_plugins sample_proc). \<forall>o1\<in>set (pl_spawns pl). \<exists>w. \<exists>u\<le>210. o1 = Ok w \<and> pw_ends w = Some u)"
    using z by (simp add: sample_proc_def SB_MAX_SLOTS_def)
  have "hd (pr_plugins sample_proc) \<in> set (pr_plugins sample_proc)"
    "hd (pl_spawns (hd (pr_plugins sample_proc))) \<in> set (pl_spawns (hd (pr_plugins sample_proc)))"
    by (simp_all add: sample_proc_def)
  moreover have "hd (pl_spawns (hd (pr_plugins sample_proc))) = Ok w \<Longrightarrow> pw_result w = Err ''panic''" for w
    by (auto simp: sample_proc_def)
  ultimately show ?thesis using h z sample_proc_run by blast
qed

text \<open>
  The drain of the HTTP plugin fits into the shutdown: when a sleep is not too late for the margin that
  \<open>drain_grace\<close> leaves, the plugin is through before the shutdown timer, so its clients get what the
  grace allows.
\<close>

lemma http_drain_fits:
  assumes "\<And>t. de_late D t \<le> L" and "50 + L < min 5000 (sset_timeout s div 2)"
  shows "snd (http_drain D fatal (drain_grace s) stopped) < stopped + sset_timeout s"
proof -
  define m where "m = min 5000 (sset_timeout s div 2)"
  have "m \<le> sset_timeout s" "50 + L < m" using assms(2) unfolding m_def by linarith+
  then have "drain_grace s + 50 + L < sset_timeout s" unfolding drain_grace_def m_def [symmetric] by linarith
  with http_drain_bound [OF assms(1), of fatal "drain_grace s" stopped] show ?thesis by linarith
qed

end
