(* ===== verification/PhpObjects.thy ===== *)
theory PhpObjects
  imports Exchange GrpcServe "HOL-Library.AList" "HOL-Library.Monad_Syntax"
begin

text \<open>
  The PHP objects that the server builds: the request of a dispatcher (\<open>http/src/php/request.rs\<close>), the
  addresses (\<open>sapi/src/exchange/mod.rs\<close>), the context and the service list of a gRPC call
  (\<open>grpc/src/php/call.rs\<close>), the constructors of the value classes (\<open>sapi/src/values.rs\<close>,
  \<open>http/src/php/values.rs\<close>, \<open>grpc/src/php/values.rs\<close>) and the flattened log context (\<open>sapi/src/log.rs\<close>).

  A Zend value is counted: a local variable of the builder owns a reference that it must hand to a
  container or release, exactly once. A builder runs on a frame that holds the values its local variables
  own; \<open>None\<close> is a misuse: a variable that is overwritten while it owns a value, one that is used after its
  reference went away, or a builder that returns and still owns something else than its result. So a
  builder that gives a value neither leaks nor uses a reference twice.
\<close>

section \<open>Values and frames\<close>

datatype pval =
    PNull
  | PLong int
  | PDouble nat
  | PStr bytes
  | PArr "(zkey \<times> pval) list"
  | PEnum string string      \<comment> \<open>class and case\<close>
  | PObj string "(string \<times> pval) list" \<comment> \<open>class and initialised properties\<close>
  | PRef pval                \<comment> \<open>a PHP reference\<close>

type_synonym frame_vars = "(string \<times> pval) list"

definition z_init :: "string \<Rightarrow> pval \<Rightarrow> frame_vars \<Rightarrow> frame_vars option" where
  "z_init x v e = (if map_of e x = None then Some ((x, v) # e) else None)"

definition z_update :: "string \<Rightarrow> (pval \<Rightarrow> pval option) \<Rightarrow> frame_vars \<Rightarrow> frame_vars option" where
  "z_update x f e = do { v \<leftarrow> map_of e x; w \<leftarrow> f v; Some (AList.update x w e) }"

text \<open>The container takes the reference that \<open>x\<close> owns.\<close>

definition z_move :: "string \<Rightarrow> (pval \<Rightarrow> pval \<Rightarrow> pval option) \<Rightarrow> string \<Rightarrow> frame_vars \<Rightarrow> frame_vars option" where
  "z_move c put x e =
     (if c = x then None else do { v \<leftarrow> map_of e x; z_update c (put v) (AList.delete x e) })"

text \<open>The container takes a reference of its own; \<open>x\<close> keeps one.\<close>

definition z_share :: "string \<Rightarrow> (pval \<Rightarrow> pval \<Rightarrow> pval option) \<Rightarrow> string \<Rightarrow> frame_vars \<Rightarrow> frame_vars option" where
  "z_share c put x e = (if c = x then None else do { v \<leftarrow> map_of e x; z_update c (put v) e })"

definition z_dtor :: "string \<Rightarrow> frame_vars \<Rightarrow> frame_vars option" where
  "z_dtor x e = (if map_of e x = None then None else Some (AList.delete x e))"

definition z_return :: "string \<Rightarrow> frame_vars \<Rightarrow> pval option" where
  "z_return x e = (case e of [(y, v)] \<Rightarrow> if x = y then Some v else None | _ \<Rightarrow> None)"

lemmas z_ops = z_init_def z_update_def z_move_def z_share_def z_dtor_def z_return_def

subsection \<open>Arrays and properties\<close>

text \<open>An array keeps its insertion order; a key that is there keeps its place. A push takes the next index.\<close>

definition arr_assoc :: "zkey \<Rightarrow> pval \<Rightarrow> pval \<Rightarrow> pval option" where
  "arr_assoc k v a = (case a of PArr kvs \<Rightarrow> Some (PArr (AList.update k v kvs)) | _ \<Rightarrow> None)"

fun next_index :: "(zkey \<times> pval) list \<Rightarrow> nat" where
  "next_index [] = 0"
| "next_index ((KeyIndex n, _) # kvs) = max (Suc n) (next_index kvs)"
| "next_index ((KeyStr _, _) # kvs) = next_index kvs"

definition arr_push :: "pval \<Rightarrow> pval \<Rightarrow> pval option" where
  "arr_push v a = (case a of PArr kvs \<Rightarrow> Some (PArr (kvs @ [(KeyIndex (next_index kvs), v)])) | _ \<Rightarrow> None)"

definition php_list :: "pval list \<Rightarrow> pval" where
  "php_list vs = PArr (zip (map KeyIndex [0..<length vs]) vs)"

definition prop_set :: "string \<Rightarrow> pval \<Rightarrow> pval \<Rightarrow> pval option" where
  "prop_set name v z = (case z of PObj cls ps \<Rightarrow> Some (PObj cls (AList.update name v ps)) | _ \<Rightarrow> None)"

text \<open>A write to the slot of a property that has no value yet.\<close>

definition slot_init :: "string \<Rightarrow> pval \<Rightarrow> pval \<Rightarrow> pval option" where
  "slot_init name v z = (case z of
     PObj cls ps \<Rightarrow> if map_of ps name = None then Some (PObj cls (ps @ [(name, v)])) else None | _ \<Rightarrow> None)"

fun z_each :: "('a \<Rightarrow> frame_vars \<Rightarrow> frame_vars option) \<Rightarrow> 'a list \<Rightarrow> frame_vars \<Rightarrow> frame_vars option" where
  "z_each f [] e = Some e"
| "z_each f (x # xs) e = do { e1 \<leftarrow> f x e; z_each f xs e1 }"

fun opt_bytes :: "bytes option \<Rightarrow> pval" where
  "opt_bytes None = PNull"
| "opt_bytes (Some b) = PStr b"

lemma update_fresh: "map_of al k = None \<Longrightarrow> AList.update k v al = al @ [(k, v)]"
  by (induction al) auto

lemma next_index_zip: "length vs = n - m \<Longrightarrow> m \<le> n \<Longrightarrow> next_index (zip (map KeyIndex [m..<n]) vs) = (if m = n then 0 else n)"
proof (induction vs arbitrary: m)
  case (Cons v vs)
  then have mn: "m < n" by auto
  with Cons.prems have "length vs = n - Suc m" by simp
  with mn Cons.IH [of "Suc m"] show ?case by (auto simp: upt_conv_Cons max_def)
qed auto

lemma arr_push_list [simp]: "arr_push v (php_list vs) = Some (php_list (vs @ [v]))"
  using next_index_zip [of vs "length vs" 0] by (cases "vs = []") (auto simp: arr_push_def php_list_def)

lemma prop_set_fresh [simp]:
  "map_of ps name = None \<Longrightarrow> prop_set name v (PObj cls ps) = Some (PObj cls (ps @ [(name, v)]))"
  by (simp add: prop_set_def update_fresh)

lemma slot_init_fresh [simp]:
  "map_of ps name = None \<Longrightarrow> slot_init name v (PObj cls ps) = Some (PObj cls (ps @ [(name, v)]))"
  by (simp add: slot_init_def)

lemma arr_assoc_fresh [simp]:
  "map_of kvs k = None \<Longrightarrow> arr_assoc k v (PArr kvs) = Some (PArr (kvs @ [(k, v)]))"
  by (simp add: arr_assoc_def update_fresh)

section \<open>Lists, headers and addresses\<close>

text \<open>\<open>add_list\<close>: one entry of \<open>dst\<close> holding the list of the values.\<close>

definition add_list :: "zkey \<Rightarrow> bytes list \<Rightarrow> pval \<Rightarrow> pval option" where
  "add_list k vs dst = do {
     e \<leftarrow> z_init ''list'' (PArr []) [(''dst'', dst)];
     e \<leftarrow> z_each (\<lambda>v. z_update ''list'' (arr_push (PStr v))) vs e;
     e \<leftarrow> z_move ''dst'' (arr_assoc k) ''list'' e;
     z_return ''dst'' e }"

definition emit_headers :: "(bytes \<Rightarrow> zkey) \<Rightarrow> header_values list \<Rightarrow> pval option" where
  "emit_headers K hs = do {
     e \<leftarrow> z_init ''dst'' (PArr []) [];
     e \<leftarrow> z_each (\<lambda>h. z_update ''dst'' (add_list (K (hv_name h)) (hv_values h))) hs e;
     z_return ''dst'' e }"

text \<open>
  The map yields the values of one name next to each other, in field line order; \<open>lines\<close> are its entries. A
  run of equal names becomes one list.
\<close>

function emit_lines :: "(bytes \<Rightarrow> zkey) \<Rightarrow> (bytes \<times> bytes) list \<Rightarrow> frame_vars \<Rightarrow> frame_vars option" where
  "emit_lines K [] e = Some e"
| "emit_lines K ((name, first) # rest) e = do {
     e \<leftarrow> z_update ''dst'' (add_list (K name) (first # map snd (takeWhile (\<lambda>f. fst f = name) rest))) e;
     emit_lines K (dropWhile (\<lambda>f. fst f = name) rest) e }"
  by pat_completeness auto
termination
  by (relation "measure (\<lambda>(K, fs, e). length fs)") (simp_all add: length_dropWhile_le less_Suc_eq_le)

definition map_lines :: "'m header_ops \<Rightarrow> 'm \<Rightarrow> (bytes \<times> bytes) list" where
  "map_lines H m = concat (map (\<lambda>k. map (\<lambda>v. (k, v)) (h_get_all H m k)) (h_keys H m))"

definition emit_header_map :: "'m header_ops \<Rightarrow> (bytes \<Rightarrow> zkey) \<Rightarrow> 'm \<Rightarrow> pval option" where
  "emit_header_map H K m = do {
     e \<leftarrow> z_init ''dst'' (PArr []) [];
     e \<leftarrow> emit_lines K (map_lines H m) e;
     z_return ''dst'' e }"

record addr_owned =
  ao_ip :: bytes
  ao_port :: nat

definition addr_new :: "sock_addr \<Rightarrow> addr_owned" where
  "addr_new a = \<lparr>ao_ip = sa_ip a, ao_port = sa_port a\<rparr>"

definition build_address :: "addr_owned \<Rightarrow> pval option" where
  "build_address a = do {
     e \<leftarrow> z_init ''dst'' (PObj ''inet_address'' []) [];
     e \<leftarrow> z_update ''dst'' (slot_init ''ip'' (PStr (ao_ip a))) e;
     e \<leftarrow> z_update ''dst'' (slot_init ''port'' (PLong (int (ao_port a)))) e;
     z_return ''dst'' e }"

definition address_object :: "sock_addr \<Rightarrow> pval" where
  "address_object a = PObj ''inet_address'' [(''ip'', PStr (sa_ip a)), (''port'', PLong (int (sa_port a)))]"

lemma build_address_value: "build_address (addr_new a) = Some (address_object a)"
  by (simp add: build_address_def addr_new_def address_object_def z_ops)

lemma z_each_push:
  "z_each (\<lambda>v. z_update x (arr_push (f v))) vs ((x, php_list ws) # e) = Some ((x, php_list (ws @ map f vs)) # e)"
  by (induction vs arbitrary: ws) (simp_all add: z_update_def)

lemma php_list_Nil: "PArr [] = php_list []" by (simp add: php_list_def)

lemma add_list_value: "add_list k vs (PArr kvs) = Some (PArr (AList.update k (php_list (map PStr vs)) kvs))"
  by (simp add: add_list_def z_init_def php_list_Nil z_each_push)
    (simp add: z_ops arr_assoc_def)

definition header_entry :: "(bytes \<Rightarrow> zkey) \<Rightarrow> bytes \<times> bytes list \<Rightarrow> zkey \<times> pval" where
  "header_entry K h = (K (fst h), php_list (map PStr (snd h)))"

definition headers_array :: "(bytes \<Rightarrow> zkey) \<Rightarrow> (bytes \<times> bytes list) list \<Rightarrow> pval" where
  "headers_array K hs = PArr (map (header_entry K) hs)"

lemma z_each_add_list:
  assumes "inj K" and "distinct (map nm hs)" and "\<forall>h\<in>set hs. K (nm h) \<notin> fst ` set kvs"
  shows "z_each (\<lambda>h. z_update x (add_list (K (nm h)) (vs h))) hs ((x, PArr kvs) # e)
    = Some ((x, PArr (kvs @ map (\<lambda>h. header_entry K (nm h, vs h)) hs)) # e)"
  using assms(2,3)
proof (induction hs arbitrary: kvs)
  case (Cons h hs)
  then have f: "map_of kvs (K (nm h)) = None" by (simp add: map_of_eq_None_iff)
  have "\<forall>y\<in>set hs. nm y \<noteq> nm h" using Cons.prems(1) by (auto simp: image_iff)
  then have "\<forall>y\<in>set hs. K (nm y) \<notin> fst ` set (kvs @ [(K (nm h), php_list (map PStr (vs h)))])"
    using Cons.prems assms(1) by (auto simp: inj_eq)
  from Cons.IH [OF _ this] Cons.prems show ?case
    by (simp add: z_update_def add_list_value update_fresh [OF f] header_entry_def)
qed simp

lemma emit_headers_value:
  assumes "inj K" and "distinct (map hv_name hs)"
  shows "emit_headers K hs = Some (headers_array K (map (\<lambda>h. (hv_name h, hv_values h)) hs))"
  using z_each_add_list [OF assms, of "[]"]
  by (simp add: emit_headers_def headers_array_def z_init_def z_return_def comp_def)

lemma run_split:
  assumes "\<forall>f\<in>set w. P f" and "\<forall>f\<in>set r. \<not> P f"
  shows "takeWhile P (w @ r) = w" and "dropWhile P (w @ r) = r"
  using assms by (cases r; simp add: takeWhile_append2 dropWhile_append2)+

lemma emit_lines_groups:
  assumes "inj K" and "distinct ks" and "\<forall>k\<in>set ks. vs k \<noteq> []"
    and "\<forall>k\<in>set ks. K k \<notin> fst ` set kvs"
  shows "emit_lines K (concat (map (\<lambda>k. map (\<lambda>v. (k, v)) (vs k)) ks)) [(''dst'', PArr kvs)]
    = Some [(''dst'', PArr (kvs @ map (\<lambda>k. header_entry K (k, vs k)) ks))]"
  using assms(2-4)
proof (induction ks arbitrary: kvs)
  case (Cons k ks)
  then obtain v ws where v: "vs k = v # ws" by (cases "vs k") auto
  let ?rest = "concat (map (\<lambda>k. map (\<lambda>v. (k, v)) (vs k)) ks)"
  have other: "\<forall>f\<in>set ?rest. fst f \<noteq> k" using Cons.prems(1) by auto
  have t: "takeWhile (\<lambda>f. fst f = k) (map (\<lambda>v. (k, v)) ws @ ?rest) = map (\<lambda>v. (k, v)) ws"
    and d: "dropWhile (\<lambda>f. fst f = k) (map (\<lambda>v. (k, v)) ws @ ?rest) = ?rest"
    using other by (auto intro!: run_split simp del: set_concat)
  have f: "map_of kvs (K k) = None" using Cons.prems by (simp add: map_of_eq_None_iff)
  have "\<forall>x\<in>set ks. K x \<notin> fst ` set (kvs @ [(K k, php_list (map PStr (vs k)))])"
    using Cons.prems assms(1) by (auto simp: inj_eq)
  from Cons.IH [OF _ _ this] Cons.prems show ?case
    by (simp add: v t d z_update_def add_list_value update_fresh [OF f] header_entry_def comp_def)
qed simp

lemma emit_header_map_value:
  assumes "header_map H" and "inj K"
  shows "emit_header_map H K m = Some (headers_array K (map (\<lambda>k. (k, h_get_all H m k)) (h_keys H m)))"
proof -
  have "\<forall>k\<in>set (h_keys H m). h_get_all H m k \<noteq> []"
    using header_map.set_keys [OF assms(1)] by auto
  from emit_lines_groups [OF assms(2) header_map.distinct_keys [OF assms(1)] this, of "[]"]
  show ?thesis
    by (simp add: emit_header_map_def map_lines_def headers_array_def z_init_def z_return_def comp_def)
qed

section \<open>Text\<close>

text \<open>
  \<open>String::from_utf8_lossy\<close>: each maximal part that cannot start a character becomes U+FFFD. \<open>utf8_step\<close>
  gives the length of the character at the start of the text, or of the part that is replaced.
\<close>

definition byte_at :: "bytes \<Rightarrow> nat \<Rightarrow> nat" where
  "byte_at s i = (if i < length s then code_of (s ! i) else 0)"

definition tail_at :: "bytes \<Rightarrow> nat \<Rightarrow> bool" where
  "tail_at s i \<longleftrightarrow> 128 \<le> byte_at s i \<and> byte_at s i \<le> 191"

definition utf8_step :: "bytes \<Rightarrow> bool \<times> nat" where
  "utf8_step s =
     (let a = byte_at s 0; b = byte_at s 1 in
      if a < 128 then (True, 1)
      else if 194 \<le> a \<and> a \<le> 223 then (if tail_at s 1 then (True, 2) else (False, 1))
      else if 224 \<le> a \<and> a \<le> 239 then
        (if \<not> tail_at s 1 \<or> a = 224 \<and> b < 160 \<or> a = 237 \<and> 159 < b then (False, 1)
         else if \<not> tail_at s 2 then (False, 2) else (True, 3))
      else if 240 \<le> a \<and> a \<le> 244 then
        (if \<not> tail_at s 1 \<or> a = 240 \<and> b < 144 \<or> a = 244 \<and> 143 < b then (False, 1)
         else if \<not> tail_at s 2 then (False, 2) else if \<not> tail_at s 3 then (False, 3) else (True, 4))
      else (False, 1))"

definition REPLACEMENT :: bytes where "REPLACEMENT = [CHR 0xEF, CHR 0xBF, CHR 0xBD]"

lemma utf8_step_pos: "0 < snd (utf8_step s)"
  by (simp add: utf8_step_def Let_def)

function from_utf8_lossy :: "bytes \<Rightarrow> bytes" where
  "from_utf8_lossy s =
     (if s = [] then []
      else (case utf8_step s of (ok, n) \<Rightarrow>
        (if ok then take n s else REPLACEMENT) @ from_utf8_lossy (drop n s)))"
  by pat_completeness auto
termination
  by (relation "measure length") (auto, metis diff_less length_greater_0_conv snd_conv utf8_step_pos)

declare from_utf8_lossy.simps [simp del]

lemma at_simps:
  "byte_at (x # s) 0 = code_of x" "byte_at (x # s) (Suc i) = byte_at s i"
  "tail_at (x # s) 0 = utf8_tail x" "tail_at (x # s) (Suc i) = tail_at s i" "\<not> tail_at [] i"
  by (simp_all add: byte_at_def tail_at_def utf8_tail_def)

lemma tail_at_Cons: "tail_at s i \<Longrightarrow> \<exists>x t. drop i s = x # t \<and> utf8_tail x"
  by (auto simp: tail_at_def byte_at_def utf8_tail_def Cons_nth_drop_Suc [symmetric] split: if_splits)

lemma utf8_step_cases:
  assumes "utf8_step s = (True, n)"
  obtains (one) "n = 1" "byte_at s 0 < 128"
    | (two) "n = 2" "194 \<le> byte_at s 0" "byte_at s 0 \<le> 223" "tail_at s 1"
    | (three) "n = 3" "224 \<le> byte_at s 0" "byte_at s 0 \<le> 239" "tail_at s 1" "tail_at s 2"
        "byte_at s 0 = 224 \<longrightarrow> 160 \<le> byte_at s 1" "byte_at s 0 = 237 \<longrightarrow> byte_at s 1 \<le> 159"
    | (four) "n = 4" "240 \<le> byte_at s 0" "byte_at s 0 \<le> 244" "tail_at s 1" "tail_at s 2" "tail_at s 3"
        "byte_at s 0 = 240 \<longrightarrow> 144 \<le> byte_at s 1" "byte_at s 0 = 244 \<longrightarrow> byte_at s 1 \<le> 143"
  using assms unfolding utf8_step_def Let_def by (simp add: not_less split: if_splits)

lemma utf8_step_ok:
  assumes "utf8_step s = (True, n)" and "s \<noteq> []"
  shows "n \<le> length s \<and> utf8_valid (take n s @ t) = utf8_valid t"
  using assms(1)
proof (cases rule: utf8_step_cases)
  case one
  with assms(2) show ?thesis by (cases s) (simp_all add: at_simps Let_def)
next
  case two
  from assms(2) obtain a s1 where s: "s = a # s1" by (cases s) auto
  with tail_at_Cons [OF two(4)] obtain b s2 where "s1 = b # s2" "utf8_tail b" by auto
  note s = s this(1) and tail = this(2)
  have "byte_at s 0 = code_of a" by (simp add: s at_simps)
  with two tail have "utf8_valid (a # b # t) = utf8_valid t" by (simp add: Let_def)
  then show ?thesis by (simp add: two(1) s numeral_2_eq_2)
next
  case three
  from assms(2) obtain a s1 where s: "s = a # s1" by (cases s) auto
  with tail_at_Cons [OF three(4)] obtain b s2 where b: "s1 = b # s2" "utf8_tail b" by auto
  with s tail_at_Cons [OF three(5)] obtain c s3 where "s2 = c # s3" "utf8_tail c" by auto
  note s = s b(1) this(1) and tails = b(2) this(2)
  have "byte_at s 0 = code_of a" "byte_at s 1 = code_of b" by (simp_all add: s at_simps)
  with three tails have "utf8_valid (a # b # c # t) = utf8_valid t" by (simp add: Let_def)
  then show ?thesis by (simp add: three(1) s numeral_3_eq_3)
next
  case four
  from assms(2) obtain a s1 where s: "s = a # s1" by (cases s) auto
  with tail_at_Cons [OF four(4)] obtain b s2 where b: "s1 = b # s2" "utf8_tail b" by auto
  with s tail_at_Cons [OF four(5)] obtain c s3 where c: "s2 = c # s3" "utf8_tail c" by auto
  with s b tail_at_Cons [OF four(6)] obtain d s4 where "s3 = d # s4" "utf8_tail d" by auto
  note s = s b(1) c(1) this(1) and tails = b(2) c(2) this(2)
  have "byte_at s 0 = code_of a" "byte_at s 1 = code_of b" by (simp_all add: s at_simps)
  with four tails have "utf8_valid (a # b # c # d # t) = utf8_valid t" by (simp add: Let_def)
  then show ?thesis by (simp add: four(1) s eval_nat_numeral)
qed

lemma utf8_valid_step:
  assumes "utf8_valid (a # s)"
  shows "fst (utf8_step (a # s)) \<and> utf8_valid (drop (snd (utf8_step (a # s))) (a # s))"
proof -
  define n where "n = code_of a"
  have at: "byte_at (a # s) 0 = n" "\<And>x t. s = x # t \<Longrightarrow> byte_at (a # s) 1 = code_of x \<and> tail_at (a # s) 1 = utf8_tail x"
    "\<And>x y t. s = x # y # t \<Longrightarrow> tail_at (a # s) 2 = utf8_tail y"
    "\<And>x y z t. s = x # y # z # t \<Longrightarrow> tail_at (a # s) 3 = utf8_tail z"
    by (simp_all add: at_simps n_def numeral_2_eq_2 numeral_3_eq_3)
  consider "n < 128" | "194 \<le> n" "n \<le> 223" | "224 \<le> n" "n \<le> 239" | "240 \<le> n" "n \<le> 244"
    using assms by (simp add: n_def [symmetric] Let_def split: if_splits)
  then show ?thesis
  proof cases
    case 1
    with assms at(1) show ?thesis by (simp add: utf8_step_def Let_def n_def)
  next
    case 2
    with assms obtain x t where s: "s = x # t" and "utf8_tail x" "utf8_valid t"
      by (cases s) (simp_all add: n_def [symmetric] Let_def)
    with 2 at(1) at(2) [OF s] show ?thesis by (simp add: utf8_step_def Let_def)
  next
    case 3
    with assms obtain x y t where s: "s = x # y # t" and "utf8_tail x" "utf8_tail y" "utf8_valid t"
      "n = 224 \<longrightarrow> 160 \<le> code_of x" "n = 237 \<longrightarrow> code_of x \<le> 159"
      by (cases s; cases "tl s") (simp_all add: n_def [symmetric] Let_def)
    with 3 at(1) at(2) [OF s] at(3) [OF s] show ?thesis
      by (auto simp: utf8_step_def Let_def not_less numeral_3_eq_3)
  next
    case 4
    with assms obtain x y z t where s: "s = x # y # z # t" and "utf8_tail x" "utf8_tail y" "utf8_tail z" "utf8_valid t"
      "n = 240 \<longrightarrow> 144 \<le> code_of x" "n = 244 \<longrightarrow> code_of x \<le> 143"
      by (cases s; cases "tl s"; cases "tl (tl s)") (simp_all add: n_def [symmetric] Let_def)
    with 4 at(1) at(2) [OF s] at(3) [OF s] at(4) [OF s] show ?thesis
      by (auto simp: utf8_step_def Let_def not_less eval_nat_numeral)
  qed
qed

text \<open>Valid text stays as it is, and the result is always valid.\<close>

lemma from_utf8_lossy_valid: "utf8_valid s \<Longrightarrow> from_utf8_lossy s = s"
proof (induction s rule: from_utf8_lossy.induct)
  case (1 s)
  show ?case
  proof (cases "s = []")
    case False
    then obtain a t where s: "s = a # t" by (cases s) auto
    obtain ok n where "utf8_step s = (ok, n)" by fastforce
    with utf8_valid_step [of a t] 1(2) s have n: "utf8_step s = (True, n)" "utf8_valid (drop n s)" by auto
    with 1(1) [OF False n(1) [symmetric]] False show ?thesis by (subst from_utf8_lossy.simps) simp
  qed (subst from_utf8_lossy.simps, simp)
qed

lemma utf8_valid_lossy: "utf8_valid (from_utf8_lossy s)"
proof (induction s rule: from_utf8_lossy.induct)
  case (1 s)
  show ?case
  proof (cases "s = []")
    case False
    obtain ok n where n: "utf8_step s = (ok, n)" by fastforce
    have "utf8_valid (REPLACEMENT @ t) = utf8_valid t" for t
      by (simp add: REPLACEMENT_def utf8_tail_def Let_def)
    with 1 [OF False n [symmetric]] utf8_step_ok [of s n] False n show ?thesis
      by (subst from_utf8_lossy.simps) (cases ok, simp_all)
  qed (subst from_utf8_lossy.simps, simp)
qed

section \<open>The request object\<close>

text \<open>\<open>as i64\<close> of a 64-bit number.\<close>

definition as_i64 :: "nat \<Rightarrow> int" where
  "as_i64 n = sint (word_of_nat n :: 64 word)"

lemma as_i64_small: "n < 2 ^ 63 \<Longrightarrow> as_i64 n = int n"
  by (simp add: as_i64_def signed_of_nat signed_take_bit_int_eq_self_iff)

definition build_file :: "(bytes \<Rightarrow> zkey) \<Rightarrow> file_part \<Rightarrow> pval option" where
  "build_file K p = do {
     e \<leftarrow> z_init ''dst'' (PObj ''http_uploaded_file'' []) [];
     e \<leftarrow> z_update ''dst'' (prop_set ''name'' (PStr (uf_name (xp_upload p)))) e;
     e \<leftarrow> z_update ''dst'' (prop_set ''clientFilename'' (PStr (uf_client_filename (xp_upload p)))) e;
     e \<leftarrow> z_update ''dst'' (prop_set ''clientMediaType'' (opt_bytes (uf_client_media_type (xp_upload p)))) e;
     headers \<leftarrow> emit_headers K (xp_headers p);
     e \<leftarrow> z_init ''headers'' headers e;
     e \<leftarrow> z_share ''dst'' (prop_set ''headers'') ''headers'' e;
     e \<leftarrow> z_dtor ''headers'' e;
     e \<leftarrow> z_update ''dst'' (prop_set ''tmpPath'' (PStr (xp_path p))) e;
     e \<leftarrow> z_update ''dst'' (prop_set ''size'' (PLong (as_i64 (uf_size (xp_upload p))))) e;
     z_return ''dst'' e }"

definition add_field :: "(bytes \<Rightarrow> zkey) \<Rightarrow> field_part \<Rightarrow> frame_vars \<Rightarrow> frame_vars option" where
  "add_field K p e = do {
     e \<leftarrow> z_init ''part'' (PObj ''http_form_field'' []) e;
     e \<leftarrow> z_update ''part'' (prop_set ''name'' (PStr (ff_name (fp_field p)))) e;
     e \<leftarrow> z_update ''part'' (prop_set ''value'' (PStr (ff_value (fp_field p)))) e;
     headers \<leftarrow> emit_headers K (fp_headers p);
     e \<leftarrow> z_init ''headers'' headers e;
     e \<leftarrow> z_share ''part'' (prop_set ''headers'') ''headers'' e;
     e \<leftarrow> z_dtor ''headers'' e;
     z_move ''fields'' arr_push ''part'' e }"

definition add_file :: "(bytes \<Rightarrow> zkey) \<Rightarrow> file_part \<Rightarrow> frame_vars \<Rightarrow> frame_vars option" where
  "add_file K p e = do {
     part \<leftarrow> build_file K p;
     e \<leftarrow> z_init ''part'' part e;
     z_move ''files'' arr_push ''part'' e }"

definition build_multipart :: "(bytes \<Rightarrow> zkey) \<Rightarrow> field_part list \<Rightarrow> file_part list \<Rightarrow> pval option" where
  "build_multipart K field_parts file_parts = do {
     e \<leftarrow> z_init ''fields'' (PArr []) [];
     e \<leftarrow> z_init ''files'' (PArr []) e;
     e \<leftarrow> z_each (add_field K) field_parts e;
     e \<leftarrow> z_each (add_file K) file_parts e;
     e \<leftarrow> z_init ''dst'' (PObj ''http_multipart'' []) e;
     e \<leftarrow> z_share ''dst'' (prop_set ''fields'') ''fields'' e;
     e \<leftarrow> z_share ''dst'' (prop_set ''files'') ''files'' e;
     e \<leftarrow> z_dtor ''fields'' e;
     e \<leftarrow> z_dtor ''files'' e;
     z_return ''dst'' e }"

text \<open>The owned values of the request object, and the text of a socket address.\<close>

definition sock_display :: "sock_addr \<Rightarrow> bytes" where
  "sock_display a = (if sa_v6 a then ''['' @ sa_ip a @ '']'' else sa_ip a) @ '':'' @ decimal (sa_port a)"

record request_view =
  rv_uri_abs :: bytes
  rv_remote :: addr_owned
  rv_server :: addr_owned

definition request_view_new :: "'m request \<Rightarrow> request_view" where
  "request_view_new req =
     (let scheme = if rq_https req then ''https://'' else ''http://'';
          path = if starts_with (rq_uri req) ''/'' then rq_uri req else ''/'';
          host = (case rq_authority req of Some a \<Rightarrow> from_utf8_lossy a | None \<Rightarrow> sock_display (rq_server req))
      in \<lparr>rv_uri_abs = scheme @ host @ path, rv_remote = addr_new (rq_remote req),
          rv_server = addr_new (rq_server req)\<rparr>)"

text \<open>
  An object that a cache shares with the script: its value and the engine's reference count. At zero it is freed, and
  neither reference operation may meet it again.
\<close>

type_synonym counted = "pval \<times> nat"

definition zval_add_ref :: "counted \<Rightarrow> counted option" where
  "zval_add_ref z = (if snd z = 0 then None else Some (fst z, snd z + 1))"

definition zval_ptr_dtor :: "counted \<Rightarrow> counted option" where
  "zval_ptr_dtor z = (if snd z = 0 then None else Some (fst z, snd z - 1))"

text \<open>The exchange object keeps the request object and the view it was built from.\<close>

record exchange_obj =
  eo_request :: "counted option"
  eo_view :: "request_view option"

definition request_build ::
  "'m header_ops \<Rightarrow> (bytes \<Rightarrow> zkey) \<Rightarrow> 'm request \<Rightarrow> body_state \<Rightarrow> request_view \<Rightarrow> pval option" where
  "request_build H K req body view = do {
     headers \<leftarrow> emit_header_map H K (rq_headers req);
     e \<leftarrow> z_init ''headers'' headers [];
     remote \<leftarrow> build_address (rv_remote view);
     e \<leftarrow> z_init ''remote'' remote e;
     server \<leftarrow> build_address (rv_server view);
     e \<leftarrow> z_init ''server'' server e;
     e \<leftarrow> (case body of
         BsMultipart flds fls \<Rightarrow> do { mp \<leftarrow> build_multipart K flds fls; z_init ''mp'' mp e }
       | BsRaw _ \<Rightarrow> Some e);
     e \<leftarrow> z_init ''reqz'' (PObj ''http_request'' []) e;
     e \<leftarrow> z_update ''reqz'' (slot_init ''method'' (PStr (rq_method req))) e;
     e \<leftarrow> z_update ''reqz'' (slot_init ''uri'' (PStr (rv_uri_abs view))) e;
     e \<leftarrow> z_update ''reqz'' (slot_init ''target''
         (PStr (case rq_target req of Some t \<Rightarrow> t | None \<Rightarrow> rq_uri req))) e;
     e \<leftarrow> z_update ''reqz'' (slot_init ''authority'' (opt_bytes (rq_authority req))) e;
     e \<leftarrow> z_update ''reqz'' (slot_init ''protocol'' (PStr (protocol_php (rq_protocol req)))) e;
     e \<leftarrow> z_move ''reqz'' (slot_init ''headers'') ''headers'' e;
     e \<leftarrow> (case body of
         BsRaw v \<Rightarrow> z_update ''reqz'' (slot_init ''body'' (PStr v)) e
       | BsMultipart _ _ \<Rightarrow> z_move ''reqz'' (slot_init ''body'') ''mp'' e);
     e \<leftarrow> z_move ''reqz'' (slot_init ''remote'') ''remote'' e;
     e \<leftarrow> z_move ''reqz'' (slot_init ''server'') ''server'' e;
     e \<leftarrow> z_update ''reqz'' (slot_init ''tls'' PNull) e;
     e \<leftarrow> z_update ''reqz'' (slot_init ''receivedAt'' (PDouble (rq_received_at req))) e;
     z_return ''reqz'' e }"

text \<open>A new object has one reference, the cache's; the one that \<open>return_value\<close> gets is added in either case.\<close>

definition exchange_build_request ::
  "'m header_ops \<Rightarrow> (bytes \<Rightarrow> zkey) \<Rightarrow> ('m, 'tx) exchange_state \<Rightarrow> exchange_obj \<Rightarrow> (pval \<times> exchange_obj) option" where
  "exchange_build_request H K st ex = (case eo_request ex of
     Some reqz \<Rightarrow> do {
       reqz \<leftarrow> zval_add_ref reqz;
       Some (fst reqz, ex\<lparr>eo_request := Some reqz\<rparr>) }
   | None \<Rightarrow>
       (let view = (case eo_view ex of Some v \<Rightarrow> v | None \<Rightarrow> request_view_new (x_req st)) in
        do {
          obj \<leftarrow> request_build H K (x_req st) (x_body st) view;
          reqz \<leftarrow> zval_add_ref (obj, 1);
          Some (fst reqz, \<lparr>eo_request = Some reqz, eo_view = Some view\<rparr>) }))"

text \<open>
  What a script does with the request: it asks for it, whatever became of the exchange by then, and drops one of the
  references it holds. The number of these is counted along.
\<close>

datatype ('m, 'tx) request_step = GetRequest "('m, 'tx) exchange_state" | DropRequest

fun request_steps ::
  "'m header_ops \<Rightarrow> (bytes \<Rightarrow> zkey) \<Rightarrow> ('m, 'tx) request_step list \<Rightarrow> nat \<Rightarrow> exchange_obj
   \<Rightarrow> (pval list \<times> nat \<times> exchange_obj) option" where
  "request_steps H K [] held ex = Some ([], held, ex)"
| "request_steps H K (GetRequest st # steps) held ex = do {
     (obj, ex) \<leftarrow> exchange_build_request H K st ex;
     (objs, held, ex) \<leftarrow> request_steps H K steps (held + 1) ex;
     Some (obj # objs, held, ex) }"
| "request_steps H K (DropRequest # steps) held ex =
     (if held = 0 then request_steps H K steps held ex
      else do {
        reqz \<leftarrow> eo_request ex;
        reqz \<leftarrow> zval_ptr_dtor reqz;
        request_steps H K steps (held - 1) (ex\<lparr>eo_request := Some reqz\<rparr>) })"

text \<open>The cache keeps one reference, so the object lives as long as the exchange and is counted exactly.\<close>

lemma request_steps_counted:
  "eo_request ex = Some (obj, held + 1) \<Longrightarrow> \<exists>objs held' ex'. request_steps H K steps held ex = Some (objs, held', ex')
     \<and> set objs \<subseteq> {obj} \<and> length objs = length (filter (\<lambda>s. s \<noteq> DropRequest) steps)
     \<and> eo_request ex' = Some (obj, held' + 1)"
proof (induction H K steps held ex rule: request_steps.induct)
  case (2 H K st steps held ex)
  then have "exchange_build_request H K st ex = Some (obj, ex\<lparr>eo_request := Some (obj, held + 2)\<rparr>)"
    by (simp add: exchange_build_request_def zval_add_ref_def)
  with 2(1) [OF this] show ?case by force
next
  case (3 H K steps held ex)
  show ?case
  proof (cases held)
    case 0
    then show ?thesis using 3(1,3) by simp
  next
    case (Suc n)
    then show ?thesis using 3(2) 3(3) by (simp add: zval_ptr_dtor_def)
  qed
qed simp

subsection \<open>What the request object holds\<close>

definition part_headers_array :: "(bytes \<Rightarrow> zkey) \<Rightarrow> header_values list \<Rightarrow> pval" where
  "part_headers_array K hs = headers_array K (map (\<lambda>h. (hv_name h, hv_values h)) hs)"

definition field_object :: "(bytes \<Rightarrow> zkey) \<Rightarrow> field_part \<Rightarrow> pval" where
  "field_object K p = PObj ''http_form_field''
     [(''name'', PStr (ff_name (fp_field p))), (''value'', PStr (ff_value (fp_field p))),
      (''headers'', part_headers_array K (fp_headers p))]"

definition file_object :: "(bytes \<Rightarrow> zkey) \<Rightarrow> file_part \<Rightarrow> pval" where
  "file_object K p = PObj ''http_uploaded_file''
     [(''name'', PStr (uf_name (xp_upload p))), (''clientFilename'', PStr (uf_client_filename (xp_upload p))),
      (''clientMediaType'', opt_bytes (uf_client_media_type (xp_upload p))),
      (''headers'', part_headers_array K (xp_headers p)), (''tmpPath'', PStr (xp_path p)),
      (''size'', PLong (as_i64 (uf_size (xp_upload p))))]"

definition multipart_object :: "(bytes \<Rightarrow> zkey) \<Rightarrow> field_part list \<Rightarrow> file_part list \<Rightarrow> pval" where
  "multipart_object K fps xps = PObj ''http_multipart''
     [(''fields'', php_list (map (field_object K) fps)), (''files'', php_list (map (file_object K) xps))]"

definition parts_grouped :: "body_state \<Rightarrow> bool" where
  "parts_grouped b \<longleftrightarrow> (case b of BsRaw _ \<Rightarrow> True
     | BsMultipart fps xps \<Rightarrow> list_all (\<lambda>p. distinct (map hv_name (fp_headers p))) fps
         \<and> list_all (\<lambda>p. distinct (map hv_name (xp_headers p))) xps)"

lemma build_file_value:
  assumes "inj K" and "distinct (map hv_name (xp_headers p))"
  shows "build_file K p = Some (file_object K p)"
  using emit_headers_value [OF assms]
  by (simp add: build_file_def file_object_def part_headers_array_def z_ops)

lemma add_field_value:
  assumes "inj K" and "distinct (map hv_name (fp_headers p))"
  shows "add_field K p [(''files'', fs), (''fields'', php_list xs)]
    = Some [(''files'', fs), (''fields'', php_list (xs @ [field_object K p]))]"
  using emit_headers_value [OF assms]
  by (simp add: add_field_def field_object_def part_headers_array_def z_ops)

lemma add_file_value:
  assumes "inj K" and "distinct (map hv_name (xp_headers p))"
  shows "add_file K p [(''files'', php_list xs), (''fields'', fs)]
    = Some [(''files'', php_list (xs @ [file_object K p])), (''fields'', fs)]"
  using build_file_value [OF assms] by (simp add: add_file_def z_ops)

lemma build_multipart_value:
  assumes "inj K" and "parts_grouped (BsMultipart fps xps)"
  shows "build_multipart K fps xps = Some (multipart_object K fps xps)"
proof -
  have "z_each (add_field K) fps [(''files'', fs), (''fields'', php_list xs)]
      = Some [(''files'', fs), (''fields'', php_list (xs @ map (field_object K) fps))]" for xs fs
    using assms by (induction fps arbitrary: xs) (simp_all add: parts_grouped_def add_field_value)
  moreover have "z_each (add_file K) xps [(''files'', php_list xs), (''fields'', fs)]
      = Some [(''files'', php_list (xs @ map (file_object K) xps)), (''fields'', fs)]" for xs fs
    using assms by (induction xps arbitrary: xs) (simp_all add: parts_grouped_def add_file_value)
  ultimately show ?thesis
    by (simp add: build_multipart_def multipart_object_def php_list_Nil z_init_def) (simp add: z_ops)
qed

definition body_value :: "(bytes \<Rightarrow> zkey) \<Rightarrow> body_state \<Rightarrow> pval" where
  "body_value K b = (case b of BsRaw v \<Rightarrow> PStr v | BsMultipart fps xps \<Rightarrow> multipart_object K fps xps)"

definition request_object ::
  "'m header_ops \<Rightarrow> (bytes \<Rightarrow> zkey) \<Rightarrow> 'm request \<Rightarrow> body_state \<Rightarrow> bytes \<Rightarrow> sock_addr \<Rightarrow> sock_addr \<Rightarrow> pval" where
  "request_object H K req body uri remote server = PObj ''http_request''
     [(''method'', PStr (rq_method req)), (''uri'', PStr uri),
      (''target'', PStr (case rq_target req of Some t \<Rightarrow> t | None \<Rightarrow> rq_uri req)),
      (''authority'', opt_bytes (rq_authority req)), (''protocol'', PStr (protocol_php (rq_protocol req))),
      (''headers'', headers_array K (map (\<lambda>k. (k, h_get_all H (rq_headers req) k)) (h_keys H (rq_headers req)))),
      (''body'', body_value K body), (''remote'', address_object remote), (''server'', address_object server),
      (''tls'', PNull), (''receivedAt'', PDouble (rq_received_at req))]"

lemma request_build_value:
  assumes "header_map H" and "inj K" and "parts_grouped body"
  shows "request_build H K req body \<lparr>rv_uri_abs = uri, rv_remote = addr_new remote, rv_server = addr_new server\<rparr>
    = Some (request_object H K req body uri remote server)"
proof (cases body)
  case (BsRaw v)
  then show ?thesis
    by (simp add: request_build_def request_object_def body_value_def build_address_value
        emit_header_map_value [OF assms(1,2)] z_ops)
next
  case (BsMultipart fps xps)
  with build_multipart_value [OF assms(2)] assms(3) show ?thesis
    by (simp add: request_build_def request_object_def body_value_def build_address_value
        emit_header_map_value [OF assms(1,2)] z_ops)
qed

text \<open>\<open>group_headers\<close> gives one entry per name, with its values in their order.\<close>

lemma add_header_names: "set (map hv_name (add_header name v hs)) = insert name (set (map hv_name hs))"
  by (induction hs) auto

lemma add_header_distinct: "distinct (map hv_name hs) \<Longrightarrow> distinct (map hv_name (add_header name v hs))"
  using add_header_names by (induction hs) (auto simp: image_iff)

definition named_values :: "string \<Rightarrow> header_values list \<Rightarrow> bytes list" where
  "named_values n hs = concat (map hv_values (filter (\<lambda>h. hv_name h = n) hs))"

lemma add_header_values:
  "distinct (map hv_name hs) \<Longrightarrow> named_values n (add_header name v hs) = named_values n hs @ (if n = name then [v] else [])"
proof (induction hs)
  case (Cons h hs)
  then have "hv_name h \<notin> hv_name ` set hs" by simp
  then have "filter (\<lambda>x. hv_name x = hv_name h) hs = []" by (auto simp: filter_empty_conv image_iff)
  with Cons show ?case by (auto simp: named_values_def)
qed (simp add: named_values_def)

lemma group_headers_exact:
  "distinct (map hv_name (group_headers hs)) \<and> named_values n (group_headers hs) = map snd (filter (\<lambda>h. fst h = n) hs)"
proof (induction hs rule: rev_induct)
  case (snoc h hs)
  obtain name v where h: "h = (name, v)" by fastforce
  have g: "group_headers (hs @ [h]) = add_header name v (group_headers hs)" by (simp add: group_headers_def h)
  show ?case unfolding g using snoc add_header_distinct add_header_values by (auto simp: h)
qed (simp add: group_headers_def named_values_def)

lemma parts_grouped_new: "parts_grouped (body_state_of b)"
  by (cases b) (auto simp: parts_grouped_def body_state_of_def list_all_iff group_headers_exact)

lemma parts_grouped_unlink: "parts_grouped (fst (unlink_spools b)) = parts_grouped b"
proof (cases b)
  case (BsMultipart fps xps)
  have "list_all (\<lambda>p. distinct (map hv_name (xp_headers p))) (fst (unlink_files xps))
      = list_all (\<lambda>p. distinct (map hv_name (xp_headers p))) xps"
    by (induction xps) (auto simp: Let_def split: prod.split)
  then show ?thesis by (auto simp: BsMultipart parts_grouped_def split: prod.splits)
qed (simp add: parts_grouped_def)

definition php_prop :: "string \<Rightarrow> pval \<Rightarrow> pval option" where
  "php_prop name z = (case z of PObj _ ps \<Rightarrow> map_of ps name | _ \<Rightarrow> None)"

definition php_key :: "zkey \<Rightarrow> pval option \<Rightarrow> pval option" where
  "php_key k z = (case z of Some (PArr kvs) \<Rightarrow> map_of kvs k | _ \<Rightarrow> None)"

lemma array_keys_inj: "array_keys K \<Longrightarrow> inj K"
  by (metis array_keys.key_text injI)

lemma headers_array_key:
  assumes "header_map H" and "inj K"
  shows "php_key (K k) (Some (headers_array K (map (\<lambda>k. (k, h_get_all H m k)) (h_keys H m))))
    = (if h_get_all H m k = [] then None else Some (php_list (map PStr (h_get_all H m k))))"
proof -
  have "map_of (map (\<lambda>k. (K k, php_list (map PStr (h_get_all H m k)))) ks) (K k)
      = (if k \<in> set ks then Some (php_list (map PStr (h_get_all H m k))) else None)" for ks
    using assms(2) by (induction ks) (auto simp: inj_eq)
  then show ?thesis
    using header_map.in_keys_iff [OF assms(1)]
    by (simp add: php_key_def headers_array_def header_entry_def comp_def)
qed

definition request_props :: "string list" where
  "request_props = [''method'', ''uri'', ''target'', ''authority'', ''protocol'', ''headers'', ''body'', ''remote'',
     ''server'', ''tls'', ''receivedAt'']"

text \<open>
  C34: getRequest() shows the script the request, and the same object on every call, however the exchange
  changes in between and however many references the script keeps or drops: the object is never freed under the
  cache, and its count is exact. The builder releases or hands over every reference it takes. The object has exactly
  the eleven properties of the class: the method, the absolute URI (scheme, authority or listening address, path), the
  target as the client sent it, the authority or null, the protocol with the short name of HTTP/2 and HTTP/3, under
  each header name the list of all its values in the order of the field lines and no other entry, the body or the
  parsed form, both addresses, null for TLS, and the time of receipt.
\<close>

theorem request_object_is_exact:
  assumes "header_map H" and "array_keys K" and "parts_grouped (x_body st)"
  shows "\<exists>obj ex. exchange_build_request H K st \<lparr>eo_request = None, eo_view = None\<rparr> = Some (obj, ex)
    \<and> (\<forall>steps. \<exists>objs held ex'. request_steps H K steps 1 ex = Some (objs, held, ex') \<and> set objs \<subseteq> {obj}
        \<and> length objs = length (filter (\<lambda>s. s \<noteq> DropRequest) steps) \<and> eo_request ex' = Some (obj, held + 1))
    \<and> (\<exists>ps. obj = PObj ''http_request'' ps \<and> map fst ps = request_props)
    \<and> php_prop ''method'' obj = Some (PStr (rq_method (x_req st)))
    \<and> php_prop ''uri'' obj = Some (PStr ((if rq_https (x_req st) then ''https://'' else ''http://'')
        @ (case rq_authority (x_req st) of Some a \<Rightarrow> from_utf8_lossy a | None \<Rightarrow> sock_display (rq_server (x_req st)))
        @ (if starts_with (rq_uri (x_req st)) ''/'' then rq_uri (x_req st) else ''/'')))
    \<and> php_prop ''target'' obj = Some (PStr (case rq_target (x_req st) of Some t \<Rightarrow> t | None \<Rightarrow> rq_uri (x_req st)))
    \<and> php_prop ''authority'' obj = Some (case rq_authority (x_req st) of Some a \<Rightarrow> PStr a | None \<Rightarrow> PNull)
    \<and> php_prop ''protocol'' obj = Some (PStr (if rq_protocol (x_req st) = ''HTTP/2.0'' then ''HTTP/2''
        else if rq_protocol (x_req st) = ''HTTP/3.0'' then ''HTTP/3'' else rq_protocol (x_req st)))
    \<and> (\<forall>k. php_key (K k) (php_prop ''headers'' obj) = (if h_get_all H (rq_headers (x_req st)) k = [] then None
        else Some (php_list (map PStr (h_get_all H (rq_headers (x_req st)) k)))))
    \<and> php_prop ''body'' obj = Some (case x_body st of BsRaw v \<Rightarrow> PStr v
        | BsMultipart fps xps \<Rightarrow> multipart_object K fps xps)
    \<and> php_prop ''remote'' obj = Some (address_object (rq_remote (x_req st)))
    \<and> php_prop ''server'' obj = Some (address_object (rq_server (x_req st)))
    \<and> php_prop ''tls'' obj = Some PNull
    \<and> php_prop ''receivedAt'' obj = Some (PDouble (rq_received_at (x_req st)))"
proof -
  note inj = array_keys_inj [OF assms(2)]
  define uri where "uri = rv_uri_abs (request_view_new (x_req st))"
  define obj where "obj = request_object H K (x_req st) (x_body st) uri (rq_remote (x_req st)) (rq_server (x_req st))"
  define ex where "ex = \<lparr>eo_request = Some (obj, 2), eo_view = Some (request_view_new (x_req st))\<rparr>"
  have view: "request_view_new (x_req st) = \<lparr>rv_uri_abs = uri, rv_remote = addr_new (rq_remote (x_req st)),
      rv_server = addr_new (rq_server (x_req st))\<rparr>"
    by (simp add: uri_def request_view_new_def Let_def)
  have "request_build H K (x_req st) (x_body st) (request_view_new (x_req st)) = Some obj"
    unfolding view obj_def by (rule request_build_value [OF assms(1) inj assms(3)])
  then have b: "exchange_build_request H K st \<lparr>eo_request = None, eo_view = None\<rparr> = Some (obj, ex)"
    by (simp add: exchange_build_request_def zval_add_ref_def ex_def)
  have steps: "\<exists>objs held ex'. request_steps H K steps 1 ex = Some (objs, held, ex') \<and> set objs \<subseteq> {obj}
      \<and> length objs = length (filter (\<lambda>s. s \<noteq> DropRequest) steps) \<and> eo_request ex' = Some (obj, held + 1)" for steps
    by (rule request_steps_counted) (simp add: ex_def)
  have h: "php_prop ''headers'' obj = Some (headers_array K
      (map (\<lambda>k. (k, h_get_all H (rq_headers (x_req st)) k)) (h_keys H (rq_headers (x_req st)))))"
    by (simp add: obj_def request_object_def php_prop_def)
  have a: "opt_bytes (rq_authority (x_req st)) = (case rq_authority (x_req st) of Some a \<Rightarrow> PStr a | None \<Rightarrow> PNull)"
    by (cases "rq_authority (x_req st)") simp_all
  have shape: "\<exists>ps. obj = PObj ''http_request'' ps \<and> map fst ps = request_props"
    by (simp add: obj_def request_object_def request_props_def)
  show ?thesis
    by (rule exI [of _ obj], rule exI [of _ ex], intro conjI, rule b, use steps in blast, rule shape)
      (simp_all add: h headers_array_key [OF assms(1) inj], simp_all add: obj_def a
        request_object_def php_prop_def body_value_def protocol_php_def uri_def request_view_new_def Let_def)
qed

lemma request_object_is_exact_witness:
  "\<exists>obj ex. exchange_build_request list_headers symtable_key (exchange_new (sample_request\<lparr>rq_headers := [(''a'', ''1''), (''7'', ''x''), (''a'', ''2'')]\<rparr>) ())
        \<lparr>eo_request = None, eo_view = None\<rparr> = Some (obj, ex)
    \<and> (\<exists>held ex'. request_steps list_headers symtable_key [DropRequest, GetRequest (exchange_new sample_request ())] 1 ex
        = Some ([obj], held, ex'))
    \<and> php_key (KeyStr ''a'') (php_prop ''headers'' obj) = Some (php_list [PStr ''1'', PStr ''2''])
    \<and> php_key (KeyIndex 7) (php_prop ''headers'' obj) = Some (php_list [PStr ''x''])"
proof -
  let ?st = "exchange_new (sample_request\<lparr>rq_headers := [(''a'', ''1''), (''7'', ''x''), (''a'', ''2'')]\<rparr>) ()"
  let ?steps = "[DropRequest, GetRequest (exchange_new sample_request ())]"
  have g: "parts_grouped (x_body ?st)" unfolding exchange_new_def by (simp add: parts_grouped_new)
  have k: "symtable_key ''a'' = KeyStr ''a''" "symtable_key ''7'' = KeyIndex 7" by code_simp+
  have v: "h_get_all list_headers (rq_headers (x_req ?st)) ''a'' = [''1'', ''2'']"
    "h_get_all list_headers (rq_headers (x_req ?st)) ''7'' = [''x'']" by code_simp+
  from request_object_is_exact [OF lh.header_map_axioms sk.array_keys_axioms g] obtain obj ex where
    b: "exchange_build_request list_headers symtable_key ?st \<lparr>eo_request = None, eo_view = None\<rparr> = Some (obj, ex)"
    and s: "\<exists>objs held ex'. request_steps list_headers symtable_key ?steps 1 ex = Some (objs, held, ex')
      \<and> set objs \<subseteq> {obj} \<and> length objs = length (filter (\<lambda>s. s \<noteq> DropRequest) ?steps)"
    and a: "\<And>k. php_key (symtable_key k) (php_prop ''headers'' obj)
      = (if h_get_all list_headers (rq_headers (x_req ?st)) k = [] then None
         else Some (php_list (map PStr (h_get_all list_headers (rq_headers (x_req ?st)) k))))" by blast
  from s obtain objs held ex' where r: "request_steps list_headers symtable_key ?steps 1 ex = Some (objs, held, ex')"
    "set objs \<subseteq> {obj}" "length objs = 1" by auto
  then have "objs = [obj]" by (cases objs) auto
  moreover from a [of "''a''"] a [of "''7''"] have
    "php_key (KeyStr ''a'') (php_prop ''headers'' obj) = Some (php_list [PStr ''1'', PStr ''2''])"
    "php_key (KeyIndex 7) (php_prop ''headers'' obj) = Some (php_list [PStr ''x''])"
    unfolding k v by simp_all
  ultimately show ?thesis using b r(1) by blast
qed

end
