(* ===== verification/PhpValues.thy ===== *)
theory PhpValues
  imports PhpObjects Worker
begin

text \<open>
  The value classes of the PHP surface, on the frames of \<open>PhpObjects\<close>: their constructors
  (\<open>sapi/src/values.rs\<close>, \<open>http/src/php/values.rs\<close>, \<open>grpc/src/php/values.rs\<close>), the objects of a gRPC call
  (\<open>grpc/src/php/call.rs\<close>) and the log call with its flattened exceptions (\<open>sapi/src/log.rs\<close>).
  The engine's type check of a property write, its class hierarchy and its JSON encoder are arguments.
\<close>

section \<open>Constructors\<close>

record engine_types =
  et_accepts :: "string \<Rightarrow> pval \<Rightarrow> string \<Rightarrow> pval \<Rightarrow> bool" \<comment> \<open>scope, object, property, value\<close>
  et_is_a :: "string \<Rightarrow> string \<Rightarrow> bool"
  et_array_keys :: "bytes \<Rightarrow> zkey"
  et_enum_value :: "string \<Rightarrow> string \<Rightarrow> int"

definition class_of :: "pval \<Rightarrow> string" where
  "class_of z = (case z of PObj cls _ \<Rightarrow> cls | PEnum cls _ \<Rightarrow> cls | _ \<Rightarrow> [])"

text \<open>The declared property types of the value classes (\<open>rapira_arginfo.h\<close> and those of the two plugins).\<close>

datatype type_atom = TString | TLong | TDouble | TArray | TNull | TClass string

type_synonym class_properties = "(string \<times> (string \<times> type_atom list) list) list"

definition sapi_properties :: class_properties where
  "sapi_properties =
    [(''inet_address'', [(''ip'', [TString]), (''port'', [TLong])]),
     (''unix_address'', [(''path'', [TString, TNull])]),
     (''tls'', [(''version'', [TString]), (''cipher'', [TString]), (''negotiatedProtocol'', [TString, TNull]),
        (''requestedServerName'', [TString, TNull]), (''certSerial'', [TString, TNull]),
        (''certOrganization'', [TString, TNull]), (''certFingerprint'', [TString, TNull])])]"

definition http_properties :: class_properties where
  "http_properties =
    [(''http_form_field'', [(''name'', [TString]), (''value'', [TString]), (''headers'', [TArray])]),
     (''http_uploaded_file'', [(''name'', [TString]), (''clientFilename'', [TString]),
        (''clientMediaType'', [TString, TNull]), (''headers'', [TArray]), (''tmpPath'', [TString]), (''size'', [TLong])]),
     (''http_multipart'', [(''fields'', [TArray]), (''files'', [TArray])]),
     (''http_request'', [(''method'', [TString]), (''uri'', [TString]), (''target'', [TString]),
        (''authority'', [TString, TNull]), (''protocol'', [TString]), (''headers'', [TArray]),
        (''body'', [TClass ''http_multipart'', TString]), (''remote'', [TClass ''inet_address'', TClass ''unix_address'']),
        (''server'', [TClass ''inet_address'', TClass ''unix_address'']), (''tls'', [TClass ''tls'', TNull]),
        (''receivedAt'', [TDouble])])]"

definition grpc_properties :: class_properties where
  "grpc_properties =
    [(''grpc_error_detail'', [(''typeUrl'', [TString]), (''value'', [TString])]),
     (''grpc_status'', [(''code'', [TClass ''grpc_status_code'']), (''message'', [TString]), (''details'', [TArray])]),
     (''grpc_metadata'', [(''entries'', [TArray])]),
     (''grpc_method_info'', [(''name'', [TString]), (''inputType'', [TString]), (''outputType'', [TString]),
        (''kind'', [TClass ''grpc_method_kind''])]),
     (''grpc_service_info'', [(''name'', [TString]), (''methods'', [TArray])]),
     (''grpc_context'', [(''method'', [TString]), (''metadata'', [TClass ''grpc_metadata'']),
        (''deadline'', [TDouble, TNull]), (''remote'', [TClass ''inet_address'', TClass ''unix_address'']),
        (''tls'', [TClass ''tls'', TNull]), (''protocol'', [TClass ''grpc_protocol'']), (''receivedAt'', [TDouble])]),
     (''grpc_exception'', [(''status'', [TClass ''grpc_status''])])]"

definition declared_properties :: class_properties where
  "declared_properties = sapi_properties @ http_properties @ grpc_properties"

lemmas declared_defs = declared_properties_def sapi_properties_def http_properties_def grpc_properties_def

definition has_atom :: "(string \<Rightarrow> string \<Rightarrow> bool) \<Rightarrow> pval \<Rightarrow> type_atom \<Rightarrow> bool" where
  "has_atom is_a v t = (case v of
     PStr _ \<Rightarrow> t = TString | PLong _ \<Rightarrow> t = TLong | PDouble _ \<Rightarrow> t = TDouble | PArr _ \<Rightarrow> t = TArray | PNull \<Rightarrow> t = TNull
   | PObj cls _ \<Rightarrow> (case t of TClass c \<Rightarrow> is_a cls c | _ \<Rightarrow> False)
   | PEnum cls _ \<Rightarrow> (case t of TClass c \<Rightarrow> is_a cls c | _ \<Rightarrow> False)
   | PRef _ \<Rightarrow> False)"

definition well_typed :: "(string \<Rightarrow> string \<Rightarrow> bool) \<Rightarrow> string \<Rightarrow> string \<Rightarrow> pval \<Rightarrow> bool" where
  "well_typed is_a cls name v = (case map_of declared_properties cls of
     Some ps \<Rightarrow> (case map_of ps name of Some ts \<Rightarrow> list_ex (has_atom is_a v) ts | None \<Rightarrow> False) | None \<Rightarrow> False)"

text \<open>
  The engine writes a value of the declared type to a readonly property from the scope of its class, as long as the
  property has no value. What it does with other writes (a conversion or an error) is left open.
\<close>

locale engine_writes =
  fixes T :: engine_types
  assumes typed_write: "well_typed (et_is_a T) cls name v \<Longrightarrow> map_of ps name = None \<Longrightarrow> et_accepts T cls (PObj cls ps) name v"
    and same_class: "et_is_a T cls cls"

text \<open>A constructor writes one property after another; the flag says that an exception is pending.\<close>

definition prop_write :: "engine_types \<Rightarrow> string \<Rightarrow> string \<Rightarrow> pval \<Rightarrow> pval \<times> bool \<Rightarrow> pval \<times> bool" where
  "prop_write T scope name v s =
     (if et_accepts T scope (fst s) name v
      then (case prop_set name v (fst s) of Some z \<Rightarrow> (z, snd s) | None \<Rightarrow> (fst s, True))
      else (fst s, True))"

definition props_write :: "engine_types \<Rightarrow> string \<Rightarrow> (string \<times> pval) list \<Rightarrow> pval \<times> bool \<Rightarrow> pval \<times> bool" where
  "props_write T scope ws s = foldl (\<lambda>s (name, v). prop_write T scope name v s) s ws"

datatype ctor_error = ArgumentType nat pval | MetadataError meta_fault | PropertyError

definition ctor_end :: "pval \<times> bool \<Rightarrow> pval \<times> ctor_error option" where
  "ctor_end s = (fst s, if snd s then Some PropertyError else None)"

text \<open>\<open>address_arg\<close>: the union of the two address classes, which the argument information cannot enforce.\<close>

definition address_arg :: "engine_types \<Rightarrow> pval \<Rightarrow> bool" where
  "address_arg T z = (case z of
     PObj cls _ \<Rightarrow> et_is_a T cls ''inet_address'' \<or> et_is_a T cls ''unix_address'' | _ \<Rightarrow> False)"

definition ctor_inet_address :: "engine_types \<Rightarrow> pval \<Rightarrow> bytes \<Rightarrow> int \<Rightarrow> pval \<times> ctor_error option" where
  "ctor_inet_address T obj ip port =
     ctor_end (props_write T ''inet_address'' [(''ip'', PStr ip), (''port'', PLong port)] (obj, False))"

definition ctor_unix_address :: "engine_types \<Rightarrow> pval \<Rightarrow> bytes option \<Rightarrow> pval \<times> ctor_error option" where
  "ctor_unix_address T obj path = ctor_end (props_write T ''unix_address'' [(''path'', opt_bytes path)] (obj, False))"

definition ctor_tls ::
  "engine_types \<Rightarrow> pval \<Rightarrow> bytes \<Rightarrow> bytes \<Rightarrow> bytes option \<Rightarrow> bytes option \<Rightarrow> bytes option \<Rightarrow> bytes option \<Rightarrow> bytes option
   \<Rightarrow> pval \<times> ctor_error option" where
  "ctor_tls T obj version cipher negotiated server_name serial org fingerprint =
     ctor_end (props_write T ''tls''
       [(''version'', PStr version), (''cipher'', PStr cipher), (''negotiatedProtocol'', opt_bytes negotiated),
        (''requestedServerName'', opt_bytes server_name), (''certSerial'', opt_bytes serial),
        (''certOrganization'', opt_bytes org), (''certFingerprint'', opt_bytes fingerprint)] (obj, False))"

definition ctor_form_field :: "engine_types \<Rightarrow> pval \<Rightarrow> bytes \<Rightarrow> bytes \<Rightarrow> pval \<Rightarrow> pval \<times> ctor_error option" where
  "ctor_form_field T obj name val headers =
     ctor_end (props_write T (class_of obj)
       [(''name'', PStr name), (''value'', PStr val), (''headers'', headers)] (obj, False))"

definition ctor_uploaded_file ::
  "engine_types \<Rightarrow> pval \<Rightarrow> bytes \<Rightarrow> bytes \<Rightarrow> bytes option \<Rightarrow> pval \<Rightarrow> bytes \<Rightarrow> int \<Rightarrow> pval \<times> ctor_error option" where
  "ctor_uploaded_file T obj name client_filename client_media_type headers tmp_path bytes_size =
     ctor_end (props_write T (class_of obj)
       [(''name'', PStr name), (''clientFilename'', PStr client_filename),
        (''clientMediaType'', opt_bytes client_media_type), (''headers'', headers), (''tmpPath'', PStr tmp_path),
        (''size'', PLong bytes_size)] (obj, False))"

definition ctor_multipart :: "engine_types \<Rightarrow> pval \<Rightarrow> pval \<Rightarrow> pval \<Rightarrow> pval \<times> ctor_error option" where
  "ctor_multipart T obj flds fls =
     ctor_end (props_write T (class_of obj) [(''fields'', flds), (''files'', fls)] (obj, False))"

definition nullable :: "pval option \<Rightarrow> pval" where
  "nullable z = (case z of Some v \<Rightarrow> v | None \<Rightarrow> PNull)"

definition ctor_request ::
  "engine_types \<Rightarrow> pval \<Rightarrow> bytes \<Rightarrow> bytes \<Rightarrow> bytes \<Rightarrow> bytes option \<Rightarrow> bytes \<Rightarrow> pval \<Rightarrow> pval \<Rightarrow> pval \<Rightarrow> pval
   \<Rightarrow> pval option \<Rightarrow> nat \<Rightarrow> pval \<times> ctor_error option" where
  "ctor_request T obj meth uri target auth protocol headers body remote server tls received_at =
     (if \<not> address_arg T remote then (obj, Some (ArgumentType 8 remote))
      else if \<not> address_arg T server then (obj, Some (ArgumentType 9 server))
      else ctor_end (props_write T (class_of obj)
        [(''method'', PStr meth), (''uri'', PStr uri), (''target'', PStr target),
         (''authority'', opt_bytes auth), (''protocol'', PStr protocol), (''headers'', headers),
         (''body'', body), (''remote'', remote), (''server'', server), (''tls'', nullable tls),
         (''receivedAt'', PDouble received_at)] (obj, False)))"

definition ctor_grpc_error_detail :: "engine_types \<Rightarrow> pval \<Rightarrow> bytes \<Rightarrow> bytes \<Rightarrow> pval \<times> ctor_error option" where
  "ctor_grpc_error_detail T obj type_url val =
     ctor_end (props_write T (class_of obj) [(''typeUrl'', PStr type_url), (''value'', PStr val)] (obj, False))"

definition status_props :: "engine_types \<Rightarrow> pval \<Rightarrow> bytes \<Rightarrow> pval \<Rightarrow> pval \<times> bool \<Rightarrow> pval \<times> bool" where
  "status_props T code message details s =
     props_write T (class_of (fst s)) [(''code'', code), (''message'', PStr message), (''details'', details)] s"

definition ctor_grpc_status :: "engine_types \<Rightarrow> pval \<Rightarrow> pval \<Rightarrow> bytes \<Rightarrow> pval \<Rightarrow> pval \<times> ctor_error option" where
  "ctor_grpc_status T obj code message details = ctor_end (status_props T code message details (obj, False))"

definition ctor_grpc_method_info ::
  "engine_types \<Rightarrow> pval \<Rightarrow> bytes \<Rightarrow> bytes \<Rightarrow> bytes \<Rightarrow> pval \<Rightarrow> pval \<times> ctor_error option" where
  "ctor_grpc_method_info T obj name input_type output_type kind =
     ctor_end (props_write T (class_of obj)
       [(''name'', PStr name), (''inputType'', PStr input_type), (''outputType'', PStr output_type), (''kind'', kind)]
       (obj, False))"

definition ctor_grpc_service_info :: "engine_types \<Rightarrow> pval \<Rightarrow> bytes \<Rightarrow> pval \<Rightarrow> pval \<times> ctor_error option" where
  "ctor_grpc_service_info T obj name methods =
     ctor_end (props_write T (class_of obj) [(''name'', PStr name), (''methods'', methods)] (obj, False))"

definition ctor_grpc_context ::
  "engine_types \<Rightarrow> pval \<Rightarrow> bytes \<Rightarrow> pval \<Rightarrow> nat option \<Rightarrow> pval \<Rightarrow> pval option \<Rightarrow> pval \<Rightarrow> nat \<Rightarrow> pval \<times> ctor_error option" where
  "ctor_grpc_context T obj meth metadata deadline remote tls protocol received_at =
     (if \<not> address_arg T remote then (obj, Some (ArgumentType 4 remote))
      else ctor_end (props_write T (class_of obj)
        [(''method'', PStr meth), (''metadata'', metadata), (''deadline'', nullable (map_option PDouble deadline)),
         (''remote'', remote), (''tls'', nullable tls), (''protocol'', protocol), (''receivedAt'', PDouble received_at)]
        (obj, False)))"

text \<open>The exception base class of the object takes the message, the plugin's class the status.\<close>

definition ctor_grpc_exception ::
  "engine_types \<Rightarrow> string \<Rightarrow> pval \<Rightarrow> pval \<Rightarrow> bytes \<Rightarrow> pval \<Rightarrow> pval \<times> ctor_error option" where
  "ctor_grpc_exception T base obj code message details =
     (let s1 = prop_write T base ''message'' (PStr message) (obj, False);
          (status, pending) = status_props T code message details (PObj ''grpc_status'' [], snd s1)
      in ctor_end (prop_write T ''grpc_exception'' ''status'' status (fst s1, pending)))"

context engine_writes begin

lemma props_write_fresh:
  assumes "list_all (\<lambda>(name, v). well_typed (et_is_a T) cls name v) ws" and "distinct (map fst ps @ map fst ws)"
  shows "props_write T cls ws (PObj cls ps, b) = (PObj cls (ps @ ws), b)"
  using assms
proof (induction ws arbitrary: ps)
  case (Cons w ws)
  obtain n v where w: "w = (n, v)" by fastforce
  with Cons.prems have f: "map_of ps n = None" by (auto simp: map_of_eq_None_iff)
  with Cons.prems w have "et_accepts T cls (PObj cls ps) n v" by (auto intro: typed_write)
  with f have "prop_write T cls n v (PObj cls ps, b) = (PObj cls (ps @ [(n, v)]), b)"
    by (simp add: prop_write_def)
  moreover have "props_write T cls ws (PObj cls (ps @ [(n, v)]), b) = (PObj cls ((ps @ [(n, v)]) @ ws), b)"
    using Cons.prems by (intro Cons.IH) (auto simp: w)
  ultimately show ?case by (simp add: props_write_def w)
qed (simp add: props_write_def)

text \<open>
  \<open>new Request(...)\<close> with the values of a request gives the object that getRequest() builds: a test double of
  the application and the server agree on the class.
\<close>

lemma ctor_request_agrees:
  "ctor_request T (PObj ''http_request'' []) (rq_method req) uri
      (case rq_target req of Some t \<Rightarrow> t | None \<Rightarrow> rq_uri req) (rq_authority req) (protocol_php (rq_protocol req))
      (headers_array K (map (\<lambda>k. (k, h_get_all H (rq_headers req) k)) (h_keys H (rq_headers req))))
      (body_value K body) (address_object remote) (address_object server) None (rq_received_at req)
    = (request_object H K req body uri remote server, None)"
proof -
  let ?ws = "[(''method'', PStr (rq_method req)), (''uri'', PStr uri),
    (''target'', PStr (case rq_target req of Some t \<Rightarrow> t | None \<Rightarrow> rq_uri req)),
    (''authority'', opt_bytes (rq_authority req)), (''protocol'', PStr (protocol_php (rq_protocol req))),
    (''headers'', headers_array K (map (\<lambda>k. (k, h_get_all H (rq_headers req) k)) (h_keys H (rq_headers req)))),
    (''body'', body_value K body), (''remote'', address_object remote), (''server'', address_object server),
    (''tls'', PNull), (''receivedAt'', PDouble (rq_received_at req))]"
  have "list_all (\<lambda>(name, v). well_typed (et_is_a T) ''http_request'' name v) ?ws"
    by (cases "rq_authority req"; cases body)
      (simp_all add: well_typed_def declared_defs has_atom_def same_class headers_array_def body_value_def
        multipart_object_def address_object_def)
  then have "props_write T ''http_request'' ?ws (PObj ''http_request'' [] , False) = (PObj ''http_request'' ?ws, False)"
    using props_write_fresh [of "''http_request''" ?ws "[]" False] by simp
  then show ?thesis
    by (simp add: ctor_request_def address_arg_def class_of_def ctor_end_def request_object_def nullable_def)
      (simp add: address_object_def same_class)
qed

end

text \<open>An engine that takes exactly these writes, with the class hierarchy it needs.\<close>

definition sample_types :: engine_types where
  "sample_types = \<lparr>et_accepts = (\<lambda>scope obj name v. case obj of
       PObj cls ps \<Rightarrow> cls = scope \<and> map_of ps name = None
         \<and> well_typed (\<lambda>c b. c = b \<or> (c = ''RuntimeException'' \<and> b = ''throwable'')) cls name v
     | _ \<Rightarrow> False),
     et_is_a = (\<lambda>c b. c = b \<or> (c = ''RuntimeException'' \<and> b = ''throwable'')),
     et_array_keys = symtable_key, et_enum_value = (\<lambda>_ _. 0)\<rparr>"

interpretation st: engine_writes sample_types
  by unfold_locales (simp_all add: sample_types_def)

section \<open>The objects of a gRPC call\<close>

record 'm unary_call =
  uc_method :: bytes
  uc_protocol :: protocol
  uc_metadata :: 'm
  uc_deadline :: "nat option"
  uc_remote :: sock_addr
  uc_message :: bytes

text \<open>\<open>build_metadata\<close> of the source: a Metadata object around the array of the fields.\<close>

definition metadata_object :: "(bytes \<Rightarrow> zkey) \<Rightarrow> metadata_field list \<Rightarrow> pval option" where
  "metadata_object K fs = do {
     e \<leftarrow> z_init ''entries'' (PArr []) [];
     e \<leftarrow> z_each (\<lambda>f. z_update ''entries'' (add_list (K (mf_name f)) (mf_values f))) fs e;
     e \<leftarrow> z_init ''dst'' (PObj ''grpc_metadata'' []) e;
     e \<leftarrow> z_share ''dst'' (prop_set ''entries'') ''entries'' e;
     e \<leftarrow> z_dtor ''entries'' e;
     z_return ''dst'' e }"

record context_view =
  cv_remote :: addr_owned
  cv_metadata :: "metadata_field list"

definition context_view_new :: "'m header_ops \<Rightarrow> base64_ops \<Rightarrow> 'm unary_call \<Rightarrow> context_view" where
  "context_view_new H B req =
     \<lparr>cv_remote = addr_new (uc_remote req), cv_metadata = context_metadata H B (uc_metadata req)\<rparr>"

definition build_context ::
  "(bytes \<Rightarrow> zkey) \<Rightarrow> 'm unary_call \<Rightarrow> nat \<Rightarrow> context_view \<Rightarrow> pval option" where
  "build_context K req received_at view = do {
     metadata \<leftarrow> metadata_object K (cv_metadata view);
     e \<leftarrow> z_init ''metadata'' metadata [];
     remote \<leftarrow> build_address (cv_remote view);
     e \<leftarrow> z_init ''remote'' remote e;
     e \<leftarrow> z_init ''protocol'' (PEnum ''grpc_protocol'' (protocol_case (uc_protocol req))) e;
     e \<leftarrow> z_init ''dst'' (PObj ''grpc_context'' []) e;
     e \<leftarrow> z_update ''dst'' (prop_set ''method'' (PStr (uc_method req))) e;
     e \<leftarrow> z_share ''dst'' (prop_set ''metadata'') ''metadata'' e;
     e \<leftarrow> z_dtor ''metadata'' e;
     e \<leftarrow> z_update ''dst'' (prop_set ''deadline'' (nullable (map_option PDouble (uc_deadline req)))) e;
     e \<leftarrow> z_share ''dst'' (prop_set ''remote'') ''remote'' e;
     e \<leftarrow> z_dtor ''remote'' e;
     e \<leftarrow> z_update ''dst'' (prop_set ''tls'' PNull) e;
     e \<leftarrow> z_share ''dst'' (prop_set ''protocol'') ''protocol'' e;
     e \<leftarrow> z_dtor ''protocol'' e;
     e \<leftarrow> z_update ''dst'' (prop_set ''receivedAt'' (PDouble received_at)) e;
     z_return ''dst'' e }"

text \<open>The call object keeps the context and the metadata accumulator; the accumulator borrows the call's state.\<close>

record call_obj =
  co_context :: "counted option"
  co_view :: "context_view option"
  co_metadata :: "counted option"

definition rapira_rs_grpc_context ::
  "'m header_ops \<Rightarrow> base64_ops \<Rightarrow> (bytes \<Rightarrow> zkey) \<Rightarrow> 'm unary_call \<Rightarrow> nat \<Rightarrow> call_obj \<Rightarrow> (pval \<times> call_obj) option" where
  "rapira_rs_grpc_context H B K req received_at co = do {
     co \<leftarrow> (case co_context co of
       Some _ \<Rightarrow> Some co
     | None \<Rightarrow>
         (let view = (case co_view co of Some v \<Rightarrow> v | None \<Rightarrow> context_view_new H B req) in
          do {
            obj \<leftarrow> build_context K req received_at view;
            Some (co\<lparr>co_context := Some (obj, 1), co_view := Some view\<rparr>) }));
     z \<leftarrow> co_context co;
     z \<leftarrow> zval_add_ref z;
     Some (fst z, co\<lparr>co_context := Some z\<rparr>) }"

definition rapira_rs_grpc_response_metadata :: "call_obj \<Rightarrow> (pval \<times> call_obj) option" where
  "rapira_rs_grpc_response_metadata co = do {
     z \<leftarrow> zval_add_ref (case co_metadata co of
       Some z \<Rightarrow> z | None \<Rightarrow> (PObj ''internal_grpc_response_metadata'' [], 1));
     Some (fst z, co\<lparr>co_metadata := Some z\<rparr>) }"

definition rapira_rs_grpc_snapshot ::
  "(bytes \<Rightarrow> zkey) \<Rightarrow> ('m, 'tx) grpc_state option \<Rightarrow> bool \<Rightarrow> pval option" where
  "rapira_rs_grpc_snapshot K st trailer = metadata_object K (grpc_snapshot st trailer)"

definition kind_case :: "bool \<Rightarrow> bool \<Rightarrow> string" where
  "kind_case client server = (if client then (if server then ''BidiStreaming'' else ''ClientStreaming'')
     else (if server then ''ServerStreaming'' else ''Unary''))"

definition method_info_object :: "method_info \<Rightarrow> pval option" where
  "method_info_object m = do {
     e \<leftarrow> z_init ''dst'' (PObj ''grpc_method_info'' []) [];
     e \<leftarrow> z_update ''dst'' (prop_set ''name'' (PStr (mi_name m))) e;
     e \<leftarrow> z_update ''dst'' (prop_set ''inputType'' (PStr (mi_input_type m))) e;
     e \<leftarrow> z_update ''dst'' (prop_set ''outputType'' (PStr (mi_output_type m))) e;
     e \<leftarrow> z_init ''kind'' (PEnum ''grpc_method_kind'' (kind_case (mi_client_streaming m) (mi_server_streaming m))) e;
     e \<leftarrow> z_share ''dst'' (prop_set ''kind'') ''kind'' e;
     e \<leftarrow> z_dtor ''kind'' e;
     z_return ''dst'' e }"

definition add_method :: "method_info \<Rightarrow> frame_vars \<Rightarrow> frame_vars option" where
  "add_method m e = do {
     info \<leftarrow> method_info_object m;
     e \<leftarrow> z_init ''info'' info e;
     z_move ''methods'' arr_push ''info'' e }"

definition add_service :: "service_info \<Rightarrow> frame_vars \<Rightarrow> frame_vars option" where
  "add_service s e = do {
     e \<leftarrow> z_init ''methods'' (PArr []) e;
     e \<leftarrow> z_each add_method (si_methods s) e;
     e \<leftarrow> z_init ''service'' (PObj ''grpc_service_info'' []) e;
     e \<leftarrow> z_update ''service'' (prop_set ''name'' (PStr (si_name s))) e;
     e \<leftarrow> z_share ''service'' (prop_set ''methods'') ''methods'' e;
     e \<leftarrow> z_dtor ''methods'' e;
     z_move ''rv'' arr_push ''service'' e }"

definition rapira_rs_grpc_services :: "service_info list \<Rightarrow> pval option" where
  "rapira_rs_grpc_services services = do {
     e \<leftarrow> z_init ''rv'' (PArr []) [];
     e \<leftarrow> z_each add_service services e;
     z_return ''rv'' e }"

subsection \<open>A status of the script\<close>

fun deref :: "pval \<Rightarrow> pval" where
  "deref (PRef v) = v"
| "deref v = v"

text \<open>A property without a value reads as null.\<close>

definition read_prop :: "string \<Rightarrow> pval \<Rightarrow> pval" where
  "read_prop name z = deref (case php_prop name z of Some v \<Rightarrow> v | None \<Rightarrow> PNull)"

definition detail_prop :: "string \<Rightarrow> pval \<Rightarrow> bytes option" where
  "detail_prop name z = (case read_prop name z of PStr s \<Rightarrow> Some s | _ \<Rightarrow> None)"

fun read_details :: "engine_types \<Rightarrow> (zkey \<times> pval) list \<Rightarrow> (status_detail list, pval) result" where
  "read_details T [] = Ok []"
| "read_details T ((_, entry) # rest) =
     (let item = deref entry;
          pair = (case item of
            PObj cls _ \<Rightarrow> if et_is_a T cls ''grpc_error_detail''
              then (case (detail_prop ''typeUrl'' item, detail_prop ''value'' item) of
                  (Some url, Some val) \<Rightarrow> Some (url, val) | _ \<Rightarrow> None) else None
          | _ \<Rightarrow> None)
      in case pair of
           None \<Rightarrow> Err item
         | Some (url, val) \<Rightarrow> (case read_details T rest of
             Err bad \<Rightarrow> Err bad
           | Ok ds \<Rightarrow> Ok (\<lparr>sd_type_url = from_utf8_lossy url, sd_value = val\<rparr> # ds)))"

text \<open>
  \<open>fail()\<close>. The constructor of the status typed its properties, so another shape is \<open>None\<close>; a detail of another class
  throws before any state change. The answer of \<open>finish\<close> is an exception or none; where \<open>finish\<close> panics (the inner
  \<open>None\<close>), \<open>guard\<close> returns false with no exception.
\<close>

definition rapira_rs_grpc_fail ::
  "'m header_ops \<Rightarrow> base64_ops \<Rightarrow> ('tx, 'm unary_reply) oneshot_ops \<Rightarrow> engine_types \<Rightarrow> pval
   \<Rightarrow> ('m, 'tx) grpc_state \<Rightarrow> (((string \<times> string) option option, pval) result \<times> ('m, 'tx) grpc_state) option" where
  "rapira_rs_grpc_fail H B C T status st =
     (case (read_prop ''code'' status, read_prop ''message'' status, read_prop ''details'' status) of
        (PEnum cls case_name, PStr message, PArr entries) \<Rightarrow>
          (case read_details T entries of
             Err item \<Rightarrow> Some (Err item, st)
           | Ok details \<Rightarrow>
               Some (map_prod (Ok \<circ> map_option grpc_thrown) id
                 (grpc_finish H B C st (Err \<lparr>rs_code = nat (et_enum_value T cls case_name mod 2 ^ 32),
                    rs_message = from_utf8_lossy message, rs_details = details\<rparr>))))
      | _ \<Rightarrow> None)"

definition rapira_rs_grpc_respond ::
  "'m header_ops \<Rightarrow> base64_ops \<Rightarrow> ('tx, 'm unary_reply) oneshot_ops \<Rightarrow> bytes
   \<Rightarrow> ('m, 'tx) grpc_state \<Rightarrow> (string \<times> string) option option \<times> ('m, 'tx) grpc_state" where
  "rapira_rs_grpc_respond H B C message st =
     map_prod (map_option grpc_thrown) id (grpc_finish H B C st (Ok message))"

definition rapira_rs_grpc_add ::
  "'m header_ops \<Rightarrow> ('m, 'tx) grpc_state option \<Rightarrow> bool \<Rightarrow> bool \<Rightarrow> bytes \<Rightarrow> bytes
   \<Rightarrow> (string \<times> string) option \<times> ('m, 'tx) grpc_state option" where
  "rapira_rs_grpc_add H st trailer binary name val =
     (case add_core H st trailer binary name val of (verb, st1) \<Rightarrow> (grpc_thrown verb, st1))"

text \<open>The view of an array that the check of the Metadata constructor walks.\<close>

fun zval_of :: "pval \<Rightarrow> zval" where
  "zval_of (PStr s) = ZString s"
| "zval_of (PArr kvs) = ZArray (map (\<lambda>kv. (fst kv, zval_of (snd kv))) kvs)"
| "zval_of (PRef v) = zval_of v"
| "zval_of _ = ZOther"

definition ctor_grpc_metadata ::
  "engine_types \<Rightarrow> pval \<Rightarrow> pval \<Rightarrow> pval \<times> ctor_error option" where
  "ctor_grpc_metadata T obj entries =
     (case zval_of entries of
        ZArray kvs \<Rightarrow> (case metadata_valid kvs of
          Err f \<Rightarrow> (obj, Some (MetadataError f))
        | Ok _ \<Rightarrow> ctor_end (prop_write T (class_of obj) ''entries'' entries (obj, False)))
      | _ \<Rightarrow> (obj, Some PropertyError))"

subsection \<open>What the script sees of a call\<close>

definition metadata_entries :: "(bytes \<Rightarrow> zkey) \<Rightarrow> metadata_field list \<Rightarrow> pval" where
  "metadata_entries K fs = headers_array K (map (\<lambda>f. (mf_name f, mf_values f)) fs)"

lemma metadata_object_value:
  assumes "inj K" and "distinct (map mf_name fs)"
  shows "metadata_object K fs = Some (PObj ''grpc_metadata'' [(''entries'', metadata_entries K fs)])"
  using z_each_add_list [where nm = mf_name and vs = mf_values and kvs = "[]" and e = "[]", OF assms]
  by (simp add: metadata_object_def z_init_def)
    (simp add: z_ops metadata_entries_def headers_array_def comp_def)

lemma context_metadata_names:
  assumes "header_map H"
  shows "distinct (map mf_name (context_metadata H B m))"
proof -
  define f where "f = (\<lambda>name. if reserved name then []
     else let values = field_values B (is_binary name) (h_get_all H m name)
          in if values = [] then [] else [\<lparr>mf_name = name, mf_values = values\<rparr>])"
  have names: "map mf_name (f k) = [] \<or> map mf_name (f k) = [k]" for k by (simp add: f_def Let_def)
  then have sub: "set (map mf_name (concat (map f ks))) \<subseteq> set ks" for ks
    by (induction ks) (auto, metis empty_iff list.set_map image_eqI set_ConsD list.set(1))
  have "distinct ks \<Longrightarrow> distinct (map mf_name (concat (map f ks)))" for ks
  proof (induction ks)
    case (Cons k ks)
    then have "k \<notin> set (map mf_name (concat (map f ks)))" using sub [of ks] by auto
    moreover have "map mf_name (concat (map f (k # ks))) = map mf_name (f k) @ map mf_name (concat (map f ks))" by simp
    ultimately show ?case using names [of k] Cons by (elim disjE) (simp_all only: append.simps distinct.simps, simp_all)
  qed simp
  from this [OF header_map.distinct_keys [OF assms], of m] show ?thesis
    by (simp add: context_metadata_def f_def)
qed

lemma zval_of_entries: "zval_of (metadata_entries K fs) = ZArray (build_metadata K fs)"
  by (simp add: metadata_entries_def headers_array_def header_entry_def build_metadata_def php_list_def
      comp_def map_zip_map2 [symmetric] zip_map2 split_def)

lemma metadata_entries_valid:
  assumes "array_keys K"
    and "\<forall>k\<in>set (h_keys H m). k \<noteq> [] \<and> list_all (\<lambda>b. is_ascii b \<and> \<not> is_ascii_uppercase b) k"
  shows "metadata_valid (build_metadata K (context_metadata H B m)) = Ok ()"
proof (rule metadata_valid_ok [OF assms(1)], rule ballI)
  fix f assume "f \<in> set (context_metadata H B m)"
  from context_metadata_fields [OF this] assms(2)
  show "mf_name f \<noteq> [] \<and> list_all (\<lambda>b. is_ascii b \<and> \<not> is_ascii_uppercase b) (mf_name f)
      \<and> (\<not> is_binary (mf_name f) \<longrightarrow> list_all printable (mf_values f))"
    by (simp only: Ball_def) simp
qed

definition context_object :: "(bytes \<Rightarrow> zkey) \<Rightarrow> 'm unary_call \<Rightarrow> nat \<Rightarrow> metadata_field list \<Rightarrow> pval" where
  "context_object K req received_at fs = PObj ''grpc_context''
     [(''method'', PStr (uc_method req)),
      (''metadata'', PObj ''grpc_metadata'' [(''entries'', metadata_entries K fs)]),
      (''deadline'', nullable (map_option PDouble (uc_deadline req))), (''remote'', address_object (uc_remote req)),
      (''tls'', PNull), (''protocol'', PEnum ''grpc_protocol'' (protocol_case (uc_protocol req))),
      (''receivedAt'', PDouble received_at)]"

lemma build_context_value:
  assumes "inj K" and "distinct (map mf_name fs)"
  shows "build_context K req received_at \<lparr>cv_remote = addr_new (uc_remote req), cv_metadata = fs\<rparr>
    = Some (context_object K req received_at fs)"
  by (simp add: build_context_def metadata_object_value [OF assms] build_address_value context_object_def z_ops)

text \<open>The service list, in the order of the schema, with every method of each service.\<close>

lemma services_value:
  "rapira_rs_grpc_services services = Some (php_list (map (\<lambda>s. PObj ''grpc_service_info''
     [(''name'', PStr (si_name s)), (''methods'', php_list (map (\<lambda>m. PObj ''grpc_method_info''
        [(''name'', PStr (mi_name m)), (''inputType'', PStr (mi_input_type m)), (''outputType'', PStr (mi_output_type m)),
         (''kind'', PEnum ''grpc_method_kind'' (kind_case (mi_client_streaming m) (mi_server_streaming m)))])
        (si_methods s)))]) services))"
proof -
  have m: "method_info_object m = Some (PObj ''grpc_method_info''
        [(''name'', PStr (mi_name m)), (''inputType'', PStr (mi_input_type m)), (''outputType'', PStr (mi_output_type m)),
         (''kind'', PEnum ''grpc_method_kind'' (kind_case (mi_client_streaming m) (mi_server_streaming m)))])" for m
    by (simp add: method_info_object_def z_ops)
  have ms: "z_each add_method ms [(''methods'', php_list xs), (''rv'', r)]
      = Some [(''methods'', php_list (xs @ map (the \<circ> method_info_object) ms)), (''rv'', r)]" for ms xs r
    by (induction ms arbitrary: xs) (simp_all add: add_method_def m z_ops)
  have s: "add_service s [(''rv'', php_list xs)] = Some [(''rv'', php_list (xs @ [PObj ''grpc_service_info''
      [(''name'', PStr (si_name s)), (''methods'', php_list (map (the \<circ> method_info_object) (si_methods s)))]]))]" for s xs
    by (simp add: add_service_def php_list_Nil z_init_def ms) (simp add: z_ops)
  have "z_each add_service ss [(''rv'', php_list xs)] = Some [(''rv'', php_list (xs @ map (\<lambda>s. PObj ''grpc_service_info''
      [(''name'', PStr (si_name s)), (''methods'', php_list (map (the \<circ> method_info_object) (si_methods s)))]) ss))]" for ss xs
    by (induction ss arbitrary: xs) (simp_all add: s)
  then show ?thesis
    by (simp add: rapira_rs_grpc_services_def php_list_Nil z_init_def z_return_def m comp_def)
qed

text \<open>A detail of another class throws before the call changes; else the call gets the status as the script gave it.\<close>

lemma grpc_fail_checks_first:
  assumes "rapira_rs_grpc_fail H B C T status st = Some (Err item, st1)"
  shows "st1 = st"
  using assms by (auto simp: rapira_rs_grpc_fail_def map_prod_def split: pval.splits result.splits option.splits prod.splits)

text \<open>
  C35: getContext() gives the object that the constructors of the surface would build: its metadata passes
  the check of the Metadata constructor, its address that of the Context constructor, and every property the type
  declared for it, so the application can make the same object itself. The builder takes and releases every
  reference; each later call returns the same object with one more reference, so the cache keeps the one it has.
\<close>

theorem context_agrees_with_constructors:
  assumes "header_map H" and "array_keys K" and "engine_writes T"
    and "\<forall>k\<in>set (h_keys H (uc_metadata req)). k \<noteq> [] \<and> list_all (\<lambda>b. is_ascii b \<and> \<not> is_ascii_uppercase b) k"
    and "co_context co = None" and "co_view co = None"
  shows "\<exists>obj co1 metadata. rapira_rs_grpc_context H B K req received_at co = Some (obj, co1)
    \<and> co_context co1 = Some (obj, 2)
    \<and> (\<forall>n. rapira_rs_grpc_context H B K req received_at (co1\<lparr>co_context := Some (obj, n + 1)\<rparr>)
        = Some (obj, co1\<lparr>co_context := Some (obj, n + 2)\<rparr>))
    \<and> ctor_grpc_metadata T (PObj ''grpc_metadata'' [])
        (metadata_entries K (context_metadata H B (uc_metadata req))) = (metadata, None)
    \<and> ctor_grpc_context T (PObj ''grpc_context'' []) (uc_method req) metadata (uc_deadline req)
        (address_object (uc_remote req)) None (PEnum ''grpc_protocol'' (protocol_case (uc_protocol req))) received_at
      = (obj, None)"
proof -
  let ?fs = "context_metadata H B (uc_metadata req)"
  let ?meta = "PObj ''grpc_metadata'' [(''entries'', metadata_entries K ?fs)]"
  let ?obj = "context_object K req received_at ?fs"
  note same = engine_writes.same_class [OF assms(3)]
  have "build_context K req received_at (context_view_new H B req) = Some ?obj"
    unfolding context_view_new_def
    by (rule build_context_value [OF array_keys_inj [OF assms(2)] context_metadata_names [OF assms(1)]])
  then have c: "rapira_rs_grpc_context H B K req received_at co = Some (?obj,
      co\<lparr>co_context := Some (?obj, 2), co_view := Some (context_view_new H B req)\<rparr>)"
    using assms(5,6) by (simp add: rapira_rs_grpc_context_def zval_add_ref_def)
  have "well_typed (et_is_a T) ''grpc_metadata'' ''entries'' (metadata_entries K ?fs)"
    by (simp add: well_typed_def declared_defs has_atom_def metadata_entries_def headers_array_def)
  then have m: "ctor_grpc_metadata T (PObj ''grpc_metadata'' []) (metadata_entries K ?fs) = (?meta, None)"
    using metadata_entries_valid [OF assms(2,4)] engine_writes.typed_write [OF assms(3), of _ _ _ "[]"]
    by (simp add: ctor_grpc_metadata_def zval_of_entries prop_write_def class_of_def ctor_end_def)
  let ?ws = "[(''method'', PStr (uc_method req)), (''metadata'', ?meta),
    (''deadline'', nullable (map_option PDouble (uc_deadline req))), (''remote'', address_object (uc_remote req)),
    (''tls'', PNull), (''protocol'', PEnum ''grpc_protocol'' (protocol_case (uc_protocol req))),
    (''receivedAt'', PDouble received_at)]"
  have "list_all (\<lambda>(name, v). well_typed (et_is_a T) ''grpc_context'' name v) ?ws"
    by (cases "uc_deadline req")
      (simp_all add: well_typed_def declared_defs has_atom_def same nullable_def address_object_def)
  then have "props_write T ''grpc_context'' ?ws (PObj ''grpc_context'' [], False) = (PObj ''grpc_context'' ?ws, False)"
    using engine_writes.props_write_fresh [OF assms(3), of "''grpc_context''" ?ws "[]" False] by simp
  then have "ctor_grpc_context T (PObj ''grpc_context'' []) (uc_method req) ?meta (uc_deadline req)
      (address_object (uc_remote req)) None (PEnum ''grpc_protocol'' (protocol_case (uc_protocol req))) received_at
    = (?obj, None)"
    by (simp add: ctor_grpc_context_def address_arg_def class_of_def ctor_end_def context_object_def nullable_def)
      (simp add: address_object_def same)
  with c m show ?thesis by (simp add: rapira_rs_grpc_context_def zval_add_ref_def)
qed

section \<open>The log call\<close>

definition level_from_case :: "string \<Rightarrow> level" where
  "level_from_case name =
     (if name = ''Error'' then LvError else if name = ''Warning'' then LvWarn else if name = ''Info'' then LvInfo
      else if name = ''Debug'' then LvDebug else if name = ''Trace'' then LvTrace else LvError)"

definition add_prop :: "pval \<Rightarrow> string \<Rightarrow> frame_vars \<Rightarrow> frame_vars option" where
  "add_prop ex name e = do {
     e \<leftarrow> z_init ''copy'' (read_prop name ex) e;
     z_move ''dst'' (arr_assoc (KeyStr name)) ''copy'' e }"

definition flatten_base :: "pval \<Rightarrow> frame_vars option" where
  "flatten_base ex = do {
     e \<leftarrow> z_init ''dst'' (PArr []) [];
     e \<leftarrow> z_update ''dst'' (arr_assoc (KeyStr ''class'') (PStr (class_of ex))) e;
     z_each (add_prop ex) [''message'', ''code'', ''file'', ''line''] e }"

definition is_object :: "pval \<Rightarrow> bool" where
  "is_object z \<longleftrightarrow> (case z of PObj _ _ \<Rightarrow> True | PEnum _ _ \<Rightarrow> True | _ \<Rightarrow> False)"

fun flatten_throwable :: "nat \<Rightarrow> pval \<Rightarrow> pval option" where
  "flatten_throwable 0 ex = do { e \<leftarrow> flatten_base ex; z_return ''dst'' e }"
| "flatten_throwable (Suc depth) ex = do {
     e \<leftarrow> flatten_base ex;
     (let prev = read_prop ''previous'' ex in
      if is_object prev then do {
        flat \<leftarrow> flatten_throwable depth prev;
        e \<leftarrow> z_init ''flat'' flat e;
        e \<leftarrow> z_move ''dst'' (arr_assoc (KeyStr ''previous'')) ''flat'' e;
        z_return ''dst'' e }
      else z_return ''dst'' e) }"

definition context_entry :: "engine_types \<Rightarrow> zkey \<times> pval \<Rightarrow> frame_vars \<Rightarrow> frame_vars option" where
  "context_entry T entry e = do {
     out \<leftarrow> (let val = deref (snd entry) in
       if is_object val \<and> et_is_a T (class_of val) ''throwable'' then flatten_throwable 4 val else Some val);
     e \<leftarrow> z_init ''out'' out e;
     z_move ''rebuilt'' (arr_assoc (case fst entry of KeyStr s \<Rightarrow> et_array_keys T s | KeyIndex n \<Rightarrow> KeyIndex n)) ''out'' e }"

text \<open>\<open>encode\<close> is the JSON encoder with partial output on errors; \<open>None\<close> is an empty buffer.\<close>

definition context_json ::
  "engine_types \<Rightarrow> (pval \<Rightarrow> bytes option) \<Rightarrow> (zkey \<times> pval) list \<Rightarrow> bytes option" where
  "context_json T encode entries = do {
     e \<leftarrow> z_init ''rebuilt'' (PArr []) [];
     e \<leftarrow> z_each (context_entry T) entries e;
     rebuilt \<leftarrow> map_of e ''rebuilt'';
     e \<leftarrow> z_dtor ''rebuilt'' e;
     if e = [] then Some (case encode rebuilt of Some json \<Rightarrow> json | None \<Rightarrow> []) else None }"

record log_event =
  le_level :: level
  le_message :: bytes
  le_context :: "bytes option"

definition rapira_rs_log_call ::
  "engine_types \<Rightarrow> (pval \<Rightarrow> bytes option) \<Rightarrow> bytes \<Rightarrow> string option \<Rightarrow> (zkey \<times> pval) list option \<Rightarrow> log_event option" where
  "rapira_rs_log_call T encode message level_case context =
     (let lvl = (case level_case of None \<Rightarrow> LvInfo | Some c \<Rightarrow> level_from_case c);
          entries = (case context of None \<Rightarrow> [] | Some es \<Rightarrow> es)
      in if entries = [] then Some \<lparr>le_level = lvl, le_message = from_utf8_lossy message, le_context = None\<rparr>
         else do {
           json \<leftarrow> context_json T encode entries;
           Some \<lparr>le_level = lvl, le_message = from_utf8_lossy message,
             le_context = (if json \<noteq> [] then Some (from_utf8_lossy json) else None)\<rparr> })"

subsection \<open>What a log record holds\<close>

text \<open>The exception with its causes, at most \<open>depth\<close> of them, and their nested arrays.\<close>

fun causes :: "nat \<Rightarrow> pval \<Rightarrow> pval list" where
  "causes 0 ex = [ex]"
| "causes (Suc depth) ex =
     ex # (let prev = read_prop ''previous'' ex in if is_object prev then causes depth prev else [])"

definition base_entries :: "pval \<Rightarrow> (zkey \<times> pval) list" where
  "base_entries ex = (KeyStr ''class'', PStr (class_of ex))
     # map (\<lambda>p. (KeyStr p, read_prop p ex)) [''message'', ''code'', ''file'', ''line'']"

fun nested :: "pval list \<Rightarrow> pval" where
  "nested [] = PArr []"
| "nested [ex] = PArr (base_entries ex)"
| "nested (ex # cause # rest) = PArr (base_entries ex @ [(KeyStr ''previous'', nested (cause # rest))])"

lemma flatten_base_value: "flatten_base ex = Some [(''dst'', PArr (base_entries ex))]"
  by (simp add: flatten_base_def add_prop_def base_entries_def z_ops)

lemma causes_Cons: "\<exists>rest. causes depth ex = ex # rest"
  by (cases depth) simp_all

lemma causes_length: "length (causes depth ex) \<le> depth + 1"
  by (induction depth ex rule: causes.induct) (auto simp: Let_def)

lemma flatten_throwable_value: "flatten_throwable depth ex = Some (nested (causes depth ex))"
proof (induction depth arbitrary: ex)
  case (Suc depth)
  define prev where "prev = read_prop ''previous'' ex"
  obtain rest where "causes depth prev = prev # rest" using causes_Cons by blast
  then have n: "nested (causes (Suc depth) ex) = (if is_object prev
      then PArr (base_entries ex @ [(KeyStr ''previous'', nested (causes depth prev))]) else PArr (base_entries ex))"
    by (simp add: prev_def [symmetric] Let_def)
  have f: "map_of (base_entries ex) (KeyStr ''previous'') = None" by (simp add: base_entries_def)
  show ?case
    unfolding n by (simp add: prev_def [symmetric] flatten_base_value Suc Let_def z_ops f)
qed (simp add: flatten_base_value z_return_def)

definition context_value :: "engine_types \<Rightarrow> pval \<Rightarrow> pval" where
  "context_value T v = (let val = deref v in
     if is_object val \<and> et_is_a T (class_of val) ''throwable'' then nested (causes 4 val) else val)"

text \<open>The keys of a PHP array are distinct, and a string key never reads as an integer.\<close>

definition php_array :: "engine_types \<Rightarrow> (zkey \<times> pval) list \<Rightarrow> bool" where
  "php_array T entries \<longleftrightarrow> distinct (map fst entries)
     \<and> list_all (\<lambda>e. case fst e of KeyStr s \<Rightarrow> et_array_keys T s = KeyStr s | KeyIndex _ \<Rightarrow> True) entries"

lemma context_json_value:
  assumes "php_array T entries"
  shows "context_json T encode entries
    = Some (case encode (PArr (map (\<lambda>(k, v). (k, context_value T v)) entries)) of Some json \<Rightarrow> json | None \<Rightarrow> [])"
proof -
  have step: "context_entry T (k, v) [(''rebuilt'', PArr kvs)] = Some [(''rebuilt'', PArr (kvs @ [(k, context_value T v)]))]"
    if "map_of kvs k = None" "case k of KeyStr s \<Rightarrow> et_array_keys T s = KeyStr s | KeyIndex _ \<Rightarrow> True" for k v kvs
    using that by (auto simp: context_entry_def context_value_def Let_def flatten_throwable_value z_ops split: zkey.splits)
  have "z_each (context_entry T) es [(''rebuilt'', PArr kvs)]
      = Some [(''rebuilt'', PArr (kvs @ map (\<lambda>(k, v). (k, context_value T v)) es))]"
    if "php_array T es" "\<forall>e\<in>set es. fst e \<notin> fst ` set kvs" for es kvs
    using that
  proof (induction es arbitrary: kvs)
    case (Cons e es)
    obtain k v where e: "e = (k, v)" by fastforce
    have "map_of kvs k = None" using Cons.prems(2) by (simp add: e map_of_eq_None_iff)
    moreover have "case k of KeyStr s \<Rightarrow> et_array_keys T s = KeyStr s | KeyIndex _ \<Rightarrow> True"
      using Cons.prems(1) by (simp add: php_array_def e)
    moreover have "php_array T es" "\<forall>e\<in>set es. fst e \<notin> fst ` set (kvs @ [(k, context_value T v)])"
      using Cons.prems by (auto simp: php_array_def e image_iff)
    ultimately show ?case using Cons.IH step by (simp add: e)
  qed simp
  from this [OF assms, of "[]"] show ?thesis
    by (simp add: context_json_def z_init_def) (simp add: z_ops)
qed

text \<open>
  A log call always gives its record, and releases what it built. The record has the level of the
  enum case (info without one), the message as valid text, and for a context that is not empty the JSON of
  the same keys in the same order, where a throwable stands as its class, message, code, file and line, with
  at most four causes nested in it, and every other value as it is.
\<close>

theorem log_call_keeps_the_context:
  assumes "php_array T entries"
  shows "\<exists>e. rapira_rs_log_call T encode message level_case (Some entries) = Some e
    \<and> le_level e = (case level_case of None \<Rightarrow> LvInfo | Some c \<Rightarrow> level_from_case c)
    \<and> utf8_valid (le_message e) \<and> (utf8_valid message \<longrightarrow> le_message e = message)
    \<and> (entries = [] \<longrightarrow> le_context e = None)
    \<and> (entries \<noteq> [] \<longrightarrow> (case encode (PArr (map (\<lambda>(k, v). (k, context_value T v)) entries)) of
         Some (c # json) \<Rightarrow> le_context e = Some (from_utf8_lossy (c # json)) | _ \<Rightarrow> le_context e = None))
    \<and> (\<forall>v. is_object (deref v) \<and> et_is_a T (class_of (deref v)) ''throwable'' \<longrightarrow>
         context_value T v = nested (causes 4 (deref v)) \<and> length (causes 4 (deref v)) \<le> 5)"
proof -
  have "length (causes 4 z) \<le> 5" for z using causes_length [of 4 z] by simp
  then have v: "\<forall>v. is_object (deref v) \<and> et_is_a T (class_of (deref v)) ''throwable'' \<longrightarrow>
      context_value T v = nested (causes 4 (deref v)) \<and> length (causes 4 (deref v)) \<le> 5"
    by (simp add: context_value_def)
  show ?thesis
  proof (cases "entries = []")
    case True
    with v show ?thesis
      by (simp add: rapira_rs_log_call_def Let_def utf8_valid_lossy from_utf8_lossy_valid)
  next
    case False
    define json where "json = (case encode (PArr (map (\<lambda>(k, v). (k, context_value T v)) entries)) of Some json \<Rightarrow> json | None \<Rightarrow> [])"
    define e where "e = \<lparr>le_level = (case level_case of None \<Rightarrow> LvInfo | Some c \<Rightarrow> level_from_case c),
        le_message = from_utf8_lossy message, le_context = (if json \<noteq> [] then Some (from_utf8_lossy json) else None)\<rparr>"
    have call: "rapira_rs_log_call T encode message level_case (Some entries) = Some e"
      using False by (simp add: rapira_rs_log_call_def context_json_value [OF assms] json_def [symmetric] e_def)
    have "case encode (PArr (map (\<lambda>(k, v). (k, context_value T v)) entries)) of
        Some (c # js) \<Rightarrow> le_context e = Some (from_utf8_lossy (c # js)) | _ \<Rightarrow> le_context e = None"
      unfolding e_def json_def by (simp split: option.split list.split)
    moreover have "le_level e = (case level_case of None \<Rightarrow> LvInfo | Some c \<Rightarrow> level_from_case c)
        \<and> utf8_valid (le_message e) \<and> (utf8_valid message \<longrightarrow> le_message e = message)"
      unfolding e_def by (simp add: utf8_valid_lossy from_utf8_lossy_valid)
    ultimately show ?thesis using False v call by blast
  qed
qed

fun exception_chain :: "nat \<Rightarrow> pval" where
  "exception_chain 0 = PObj ''RuntimeException'' [(''message'', PStr ''root'')]"
| "exception_chain (Suc n) = PObj ''RuntimeException'' [(''previous'', exception_chain n)]"

lemma log_call_keeps_the_context_witness:
  "\<exists>e. rapira_rs_log_call sample_types (\<lambda>_. Some ''{}'') ''m'' None (Some [(KeyStr ''e'', exception_chain 7)]) = Some e
     \<and> le_message e = ''m'' \<and> le_context e = Some ''{}'' \<and> length (causes 4 (exception_chain 7)) = 5"
proof -
  have a: "php_array sample_types [(KeyStr ''e'', exception_chain 7)]" by code_simp
  have l: "length (causes 4 (exception_chain 7)) = 5" "from_utf8_lossy ''{}'' = ''{}''" "utf8_valid ''m''" by code_simp+
  from log_call_keeps_the_context [OF a, of "\<lambda>_. Some ''{}''" "''m''" None] obtain e where
    "rapira_rs_log_call sample_types (\<lambda>_. Some ''{}'') ''m'' None (Some [(KeyStr ''e'', exception_chain 7)]) = Some e"
    "utf8_valid ''m'' \<longrightarrow> le_message e = ''m''" "le_context e = Some (from_utf8_lossy ''{}'')" by auto
  with l show ?thesis by auto
qed

lemma context_agrees_with_constructors_witness:
  "\<exists>obj co1 metadata. rapira_rs_grpc_context list_headers plain_base64 symtable_key
       \<lparr>uc_method = ''p.S/M'', uc_protocol = ProtoGrpc, uc_metadata = [(''7'', ''a''), (''t'', ''b''), (''te'', ''x'')],
        uc_deadline = None, uc_remote = \<lparr>sa_ip = ''127.0.0.1'', sa_v6 = False, sa_port = 9\<rparr>, uc_message = []\<rparr> 5
       \<lparr>co_context = None, co_view = None, co_metadata = None\<rparr> = Some (obj, co1)
     \<and> ctor_grpc_metadata sample_types (PObj ''grpc_metadata'' [])
         (metadata_entries symtable_key (context_metadata list_headers plain_base64 [(''7'', ''a''), (''t'', ''b''), (''te'', ''x'')]))
       = (metadata, None)
     \<and> ctor_grpc_context sample_types (PObj ''grpc_context'' []) ''p.S/M'' metadata None
         (address_object \<lparr>sa_ip = ''127.0.0.1'', sa_v6 = False, sa_port = 9\<rparr>) None
         (PEnum ''grpc_protocol'' (protocol_case ProtoGrpc)) 5 = (obj, None)"
proof -
  let ?req = "\<lparr>uc_method = ''p.S/M'', uc_protocol = ProtoGrpc, uc_metadata = [(''7'', ''a''), (''t'', ''b''), (''te'', ''x'')],
        uc_deadline = None, uc_remote = \<lparr>sa_ip = ''127.0.0.1'', sa_v6 = False, sa_port = 9\<rparr>, uc_message = []\<rparr>"
  have "\<forall>k\<in>set (h_keys list_headers [(''7'', ''a''), (''t'', ''b''), (''te'', ''x'')]).
      k \<noteq> [] \<and> list_all (\<lambda>b. is_ascii b \<and> \<not> is_ascii_uppercase b) k"
    by code_simp
  then have k: "\<forall>k\<in>set (h_keys list_headers (uc_metadata ?req)).
      k \<noteq> [] \<and> list_all (\<lambda>b. is_ascii b \<and> \<not> is_ascii_uppercase b) k" by simp
  from context_agrees_with_constructors [where req = ?req and received_at = 5 and B = plain_base64
      and co = "\<lparr>co_context = None, co_view = None, co_metadata = None\<rparr>",
      OF lh.header_map_axioms sk.array_keys_axioms st.engine_writes_axioms k]
  show ?thesis by auto
qed

end
