(* ===== verification/SapiGlobals.thy ===== *)
theory SapiGlobals
  imports Worker
begin

text \<open>
  The engine's request globals (\<open>sapi/src/context.rs\<close>, and its callers in \<open>rapira_worker.rs\<close>,
  \<open>classic_worker.rs\<close> and \<open>start.rs\<close>). The SAPI callbacks reach the running request through a raw
  pointer, \<open>SG(server_context)\<close>, and the engine reads C strings that belong to the request through the
  pointers of \<open>SG(request_info)\<close>. Rust checks neither, so the memory is explicit here: a context lives
  at an address until its frame drops it, and following a pointer to a dropped one is undefined
  behaviour, the value \<open>None\<close> of a step.

  The theorems say that no step of a PHP thread is undefined, panics included; that a request served
  through the globals is exactly the request of theory Worker, whose definitions pass the context as an
  argument; and that the script sees the method, target, script and headers of its own request.
\<close>

section \<open>Memory and globals\<close>

datatype c_field = FMethod | FQuery | FUri | FScript | FContentType | FCookie | FAuthorization

fun c_field_of :: "c_field \<Rightarrow> reqc \<Rightarrow> bytes option" where
  "c_field_of FMethod c = Some (rc_method c)"
| "c_field_of FQuery c = Some (rc_query c)"
| "c_field_of FUri c = Some (rc_uri c)"
| "c_field_of FScript c = Some (rc_script c)"
| "c_field_of FContentType c = rc_ctype c"
| "c_field_of FCookie c = rc_cookie c"
| "c_field_of FAuthorization c = rc_authorization c"

text \<open>A C string pointer: null, or the string of a field of the context at an address.\<close>

datatype c_ptr = NullPtr | FieldPtr nat c_field

record sapi_globals =
  sg_server_context :: "nat option"
  sg_response_code :: int
  ri_request_method :: c_ptr
  ri_query_string :: c_ptr
  ri_request_uri :: c_ptr
  ri_path_translated :: c_ptr
  ri_content_type :: c_ptr
  ri_cookie_data :: c_ptr
  ri_content_length :: int
  ri_proto_num :: int
  ri_argc :: nat
  ri_argv :: bool \<comment> \<open>not null: it points to the array in the frame of \<open>boot_request_startup\<close>\<close>

text \<open>
  The memory of one PHP thread: the globals, the live contexts, the argument array of the boot frame
  while that frame runs, the setting \<open>register_argc_argv\<close>, the thread local \<open>DIRECTORY\<close> and the engine's
  virtual working directory.
\<close>

record ('m, 'tx) php_memory =
  pm_sg :: sapi_globals
  pm_live :: "nat \<Rightarrow> ('m, 'tx) php_context option"
  pm_argv :: "bytes list option"
  pm_register_argv :: bool
  pm_directory :: "bytes option"
  pm_cwd :: "bytes option"

definition set_sg :: "(sapi_globals \<Rightarrow> sapi_globals) \<Rightarrow> ('m, 'tx) php_memory \<Rightarrow> ('m, 'tx) php_memory" where
  "set_sg f m = m\<lparr>pm_sg := f (pm_sg m)\<rparr>"

definition alloc :: "nat \<Rightarrow> ('m, 'tx) php_context \<Rightarrow> ('m, 'tx) php_memory \<Rightarrow> ('m, 'tx) php_memory" where
  "alloc a c m = m\<lparr>pm_live := (pm_live m)(a \<mapsto> c)\<rparr>"

definition release :: "nat \<Rightarrow> ('m, 'tx) php_memory \<Rightarrow> ('m, 'tx) php_memory" where
  "release a m = m\<lparr>pm_live := (pm_live m)(a := None)\<rparr>"

text \<open>Reading a C string: undefined on a dropped context, \<open>Some None\<close> for null.\<close>

fun read_c_str :: "('m, 'tx) php_memory \<Rightarrow> c_ptr \<Rightarrow> bytes option option" where
  "read_c_str m NullPtr = Some None"
| "read_c_str m (FieldPtr a f) = (case pm_live m a of
     None \<Rightarrow> None
   | Some c \<Rightarrow> (case c_field_of f (c_cgi c) of None \<Rightarrow> None | Some s \<Rightarrow> Some (Some s)))"

section \<open>The operations of context.rs\<close>

text \<open>\<open>ctx\<close> and \<open>with_ctx\<close>: the bound context and its address, the default without one.\<close>

definition with_ctx ::
  "'r \<Rightarrow> (nat \<Rightarrow> ('m, 'tx) php_context \<Rightarrow> 'r \<times> ('m, 'tx) php_context) \<Rightarrow> ('m, 'tx) php_memory
   \<Rightarrow> ('r \<times> ('m, 'tx) php_memory) option" where
  "with_ctx dflt f m = (case sg_server_context (pm_sg m) of
     None \<Rightarrow> Some (dflt, m)
   | Some a \<Rightarrow> (case pm_live m a of
       None \<Rightarrow> None
     | Some c \<Rightarrow> (case f a c of (r, c') \<Rightarrow> Some (r, m\<lparr>pm_live := (pm_live m)(a \<mapsto> c')\<rparr>))))"

definition bind_server_context :: "nat \<Rightarrow> ('m, 'tx) php_memory \<Rightarrow> ('m, 'tx) php_memory" where
  "bind_server_context a = set_sg (\<lambda>g. g\<lparr>sg_server_context := Some a\<rparr>)"

definition unbind_server_context :: "('m, 'tx) php_memory \<Rightarrow> ('m, 'tx) php_memory" where
  "unbind_server_context = set_sg (\<lambda>g. g\<lparr>sg_server_context := None,
     ri_request_method := NullPtr, ri_query_string := NullPtr, ri_request_uri := NullPtr,
     ri_path_translated := NullPtr, ri_content_type := NullPtr, ri_cookie_data := NullPtr\<rparr>)"

definition proto_num :: "string \<Rightarrow> int" where
  "proto_num protocol =
     (if protocol = ''HTTP/1.0'' then 1000 else if protocol = ''HTTP/2.0'' then 2000 else 1001)"

definition apply_proto_num :: "nat \<Rightarrow> ('m, 'tx) php_memory \<Rightarrow> ('m, 'tx) php_memory option" where
  "apply_proto_num a m = (case pm_live m a of
     None \<Rightarrow> None
   | Some c \<Rightarrow> Some (set_sg (\<lambda>g. g\<lparr>ri_proto_num := proto_num (rq_protocol (c_req c))\<rparr>) m))"

definition populate_request_context :: "nat \<Rightarrow> ('m, 'tx) php_memory \<Rightarrow> ('m, 'tx) php_memory option" where
  "populate_request_context a m = (case pm_live m a of
     None \<Rightarrow> None
   | Some c \<Rightarrow> Some (set_sg (\<lambda>g. g\<lparr>sg_response_code := 200,
       ri_request_method := FieldPtr a FMethod, ri_query_string := FieldPtr a FQuery,
       ri_request_uri := FieldPtr a FUri, ri_path_translated := FieldPtr a FScript,
       ri_content_type := (case rc_ctype (c_cgi c) of None \<Rightarrow> NullPtr | Some _ \<Rightarrow> FieldPtr a FContentType),
       ri_content_length := rq_content_length (c_req c)\<rparr>) m))"

text \<open>
  The directory callbacks: \<open>accepted\<close> says that the engine can enter the directory. The result of the
  first is the status that the engine gets.
\<close>

definition reset_directory :: "('m, 'tx) php_memory \<Rightarrow> ('m, 'tx) php_memory" where
  "reset_directory m = m\<lparr>pm_directory := None\<rparr>"

definition rapira_rs_activate :: "bool \<Rightarrow> ('m, 'tx) php_memory \<Rightarrow> bool \<times> ('m, 'tx) php_memory" where
  "rapira_rs_activate accepted m = (case pm_directory m of
     None \<Rightarrow> (True, m)
   | Some d \<Rightarrow> if accepted then (True, m\<lparr>pm_cwd := Some d\<rparr>) else (False, m))"

definition deactivate :: "('m, 'tx) php_memory \<Rightarrow> ('m, 'tx) php_memory" where
  "deactivate m = (case pm_cwd m of None \<Rightarrow> m | Some d \<Rightarrow> m\<lparr>pm_directory := Some d\<rparr>)"

text \<open>The callbacks that hand the engine a string of the request.\<close>

definition read_cookies :: "('m, 'tx) php_memory \<Rightarrow> (c_ptr \<times> ('m, 'tx) php_memory) option" where
  "read_cookies = with_ctx NullPtr
     (\<lambda>a c. (case rc_cookie (c_cgi c) of None \<Rightarrow> NullPtr | Some _ \<Rightarrow> FieldPtr a FCookie, c))"

definition rapira_rs_authorization :: "('m, 'tx) php_memory \<Rightarrow> (c_ptr \<times> ('m, 'tx) php_memory) option" where
  "rapira_rs_authorization = with_ctx NullPtr
     (\<lambda>a c. (case rc_authorization (c_cgi c) of None \<Rightarrow> NullPtr | Some _ \<Rightarrow> FieldPtr a FAuthorization, c))"

section \<open>What the engine does with them\<close>

text \<open>
  The actions of the engine on this memory while it runs: a SAPI callback of theory Frames on the bound
  context, reading the request strings, storing the cookie string (\<open>sapi_activate\<close>), reading the
  authorization string, the protocol reset of \<open>sapi_activate\<close>, a new response status, the pointer reset
  of \<open>rapira_request_teardown\<close> in \<open>module.c\<close>, reading the argument array, the two directory callbacks,
  and a change of the working directory. Which of them it does, and in which order, is arbitrary.
\<close>

datatype engine_act =
    Callback sapi_call
  | ReadInfo
  | LoadCookies
  | ReadAuthorization
  | ResetProto
  | SetResponseCode int
  | ClearInfo
  | ReadArgv
  | ActivateDirectory bool
  | DeactivateDirectory
  | ChangeDirectory "bytes option"

definition info_pointers :: "sapi_globals \<Rightarrow> c_ptr list" where
  "info_pointers g = [ri_request_method g, ri_query_string g, ri_request_uri g, ri_path_translated g,
     ri_content_type g, ri_cookie_data g]"

text \<open>The strings of the request that the engine sees: undefined when one of them is gone.\<close>

definition request_info :: "('m, 'tx) php_memory \<Rightarrow> bytes option list option" where
  "request_info m = those (map (read_c_str m) (info_pointers (pm_sg m)))"

definition argv_readable :: "('m, 'tx) php_memory \<Rightarrow> bool" where
  "argv_readable m \<longleftrightarrow>
     (if ri_argv (pm_sg m) then (case pm_argv m of None \<Rightarrow> False | Some xs \<Rightarrow> ri_argc (pm_sg m) \<le> length xs)
      else ri_argc (pm_sg m) = 0)"

definition clear_info :: "sapi_globals \<Rightarrow> sapi_globals" where
  "clear_info g = g\<lparr>ri_request_method := NullPtr, ri_query_string := NullPtr, ri_request_uri := NullPtr,
     ri_path_translated := NullPtr, ri_content_type := NullPtr, ri_cookie_data := NullPtr\<rparr>"

fun engine_step ::
  "'m header_ops \<Rightarrow> ('tx, 'm frame) tx_ops \<Rightarrow> engine_act \<Rightarrow> ('m, 'tx) php_memory
   \<Rightarrow> ('m, 'tx) php_memory option" where
  "engine_step H T (Callback call) m = map_option snd (with_ctx () (\<lambda>_ c. ((), sapi_step H T call c)) m)"
| "engine_step H T ReadInfo m = (case request_info m of None \<Rightarrow> None | Some _ \<Rightarrow> Some m)"
| "engine_step H T LoadCookies m = (case read_cookies m of
     None \<Rightarrow> None | Some (p, m') \<Rightarrow> Some (set_sg (\<lambda>g. g\<lparr>ri_cookie_data := p\<rparr>) m'))"
| "engine_step H T ReadAuthorization m = (case rapira_rs_authorization m of
     None \<Rightarrow> None | Some (p, m') \<Rightarrow> (case read_c_str m' p of None \<Rightarrow> None | Some _ \<Rightarrow> Some m'))"
| "engine_step H T ResetProto m = Some (set_sg (\<lambda>g. g\<lparr>ri_proto_num := 1000\<rparr>) m)"
| "engine_step H T (SetResponseCode n) m = Some (set_sg (\<lambda>g. g\<lparr>sg_response_code := n\<rparr>) m)"
| "engine_step H T ClearInfo m = Some (set_sg clear_info m)"
| "engine_step H T ReadArgv m = (if argv_readable m then Some m else None)"
| "engine_step H T (ActivateDirectory accepted) m = Some (snd (rapira_rs_activate accepted m))"
| "engine_step H T DeactivateDirectory m = Some (deactivate m)"
| "engine_step H T (ChangeDirectory d) m = Some (m\<lparr>pm_cwd := d\<rparr>)"

fun run_steps :: "('a \<Rightarrow> 'a option) list \<Rightarrow> 'a \<Rightarrow> 'a option" where
  "run_steps [] m = Some m"
| "run_steps (f # fs) m = (case f m of None \<Rightarrow> None | Some m' \<Rightarrow> run_steps fs m')"

definition engine_run ::
  "'m header_ops \<Rightarrow> ('tx, 'm frame) tx_ops \<Rightarrow> engine_act list \<Rightarrow> ('m, 'tx) php_memory
   \<Rightarrow> ('m, 'tx) php_memory option" where
  "engine_run H T acts = run_steps (map (engine_step H T) acts)"

section \<open>A request in the worker mode\<close>

text \<open>
  What the engine does in the steps of one request, and the part of it that theory Worker sees: the
  callbacks.
\<close>

record engine_job =
  ej_activate :: "engine_act list \<times> engine"
  ej_handler :: "engine_act list \<times> engine"
  ej_flush :: "engine_act list \<times> engine"
  ej_teardown :: "engine_act list \<times> engine"

fun callbacks_of :: "engine_act list \<Rightarrow> sapi_call list" where
  "callbacks_of [] = []"
| "callbacks_of (Callback call # acts) = call # callbacks_of acts"
| "callbacks_of (_ # acts) = callbacks_of acts"

definition cgi_job_of :: "engine_job \<Rightarrow> cgi_job" where
  "cgi_job_of j =
     \<lparr>jb_activate = (callbacks_of (fst (ej_activate j)), snd (ej_activate j)),
      jb_handler = (callbacks_of (fst (ej_handler j)), snd (ej_handler j)),
      jb_flush = (callbacks_of (fst (ej_flush j)), snd (ej_flush j)),
      jb_teardown = (callbacks_of (fst (ej_teardown j)), snd (ej_teardown j))\<rparr>"

text \<open>The Rust frame's own access to its context, through the local variable.\<close>

definition on_ctx ::
  "nat \<Rightarrow> (('m, 'tx) php_context \<Rightarrow> ('m, 'tx) php_context) \<Rightarrow> ('m, 'tx) php_memory
   \<Rightarrow> ('m, 'tx) php_memory option" where
  "on_ctx a f m = map_option (\<lambda>c. m\<lparr>pm_live := (pm_live m)(a \<mapsto> f c)\<rparr>) (pm_live m a)"

text \<open>
  \<open>handle_request_impl\<close> from the binding on, as its steps. A panic of the Rust code ends the list
  early.
\<close>

definition job_outcome :: "engine_job \<Rightarrow> engine" where
  "job_outcome j = (if snd (ej_activate j) = EngBailout then EngBailout else snd (ej_handler j))"

definition job_flushed :: "engine_job \<Rightarrow> engine" where
  "job_flushed j = (if job_outcome j = EngOk then EngOk else snd (ej_flush j))"

definition job_recycles :: "engine_job \<Rightarrow> bool" where
  "job_recycles j \<longleftrightarrow> EngBailout \<in> {job_outcome j, job_flushed j, snd (ej_teardown j)}"

definition job_errored :: "engine_job \<Rightarrow> bool" where
  "job_errored j \<longleftrightarrow> job_recycles j \<or> job_outcome j = EngThrow"

definition handle_steps ::
  "'m header_ops \<Rightarrow> ('tx, 'm frame) tx_ops \<Rightarrow> engine_job \<Rightarrow> nat
   \<Rightarrow> (('m, 'tx) php_memory \<Rightarrow> ('m, 'tx) php_memory option) list" where
  "handle_steps H T j a =
     [\<lambda>m. Some (bind_server_context a m), populate_request_context a,
      engine_run H T (fst (ej_activate j))]
     @ (if snd (ej_activate j) = EngBailout then []
        else [apply_proto_num a, engine_run H T (fst (ej_handler j))])
     @ [on_ctx a (\<lambda>c. c\<lparr>c_tearing_down := True\<rparr>)]
     @ (if job_outcome j = EngOk then [] else [engine_run H T (fst (ej_flush j))])
     @ [on_ctx a (\<lambda>c. c\<lparr>c_errored := job_outcome j \<noteq> EngOk \<or> job_flushed j = EngBailout\<rparr>),
        engine_run H T (fst (ej_teardown j)),
        on_ctx a (\<lambda>c. case finalize_response H (job_errored j) c of (c', truncated) \<Rightarrow> ctx_finish H T truncated c')]"

text \<open>
  \<open>rapira_rs_handle_request\<close> around it: the context lives in the frame, which a panic unwinds (\<open>panics\<close>
  says after how many steps); the unbinding is last on either way. The result has the context as it was
  dropped.
\<close>

definition rapira_rs_handle_request ::
  "'m header_ops \<Rightarrow> ('tx, 'm frame) tx_ops \<Rightarrow> engine_job \<Rightarrow> nat \<Rightarrow> ('m, 'tx) php_context \<Rightarrow> nat option
   \<Rightarrow> ('m, 'tx) php_memory \<Rightarrow> (handle_action \<times> ('m, 'tx) php_context option \<times> ('m, 'tx) php_memory) option" where
  "rapira_rs_handle_request H T j a c0 panics m =
     (let steps = handle_steps H T j a;
          done = (case panics of None \<Rightarrow> steps | Some k \<Rightarrow> take k steps)
      in map_option (\<lambda>m'. (if panics \<noteq> None \<or> job_recycles j then HRecycle else HContinue,
                          pm_live m' a, unbind_server_context (release a m')))
           (run_steps done (alloc a c0 m)))"

section \<open>The classic mode and the boot request\<close>

record engine_script =
  es_startup :: "engine_act list \<times> bool"
  es_script :: "engine_act list \<times> bool"
  es_fatal :: bool
  es_shutdown :: "engine_act list"

definition classic_job_of :: "engine_script \<Rightarrow> classic_job" where
  "classic_job_of j =
     \<lparr>cj_startup = (callbacks_of (fst (es_startup j)), snd (es_startup j)),
      cj_script = (callbacks_of (fst (es_script j)), snd (es_script j)),
      cj_fatal = es_fatal j, cj_shutdown = callbacks_of (es_shutdown j)\<rparr>"

text \<open>The end of a classic request: \<open>finalize_response\<close>, the unbinding and, in \<open>classic_worker\<close>, \<open>finish\<close>.\<close>

definition classic_end ::
  "'m header_ops \<Rightarrow> ('tx, 'm frame) tx_ops \<Rightarrow> nat \<Rightarrow> ('m, 'tx) php_memory \<Rightarrow> ('m, 'tx) php_memory option" where
  "classic_end H T a m = (case pm_live m a of
     None \<Rightarrow> None
   | Some c \<Rightarrow> (case finalize_response H (c_errored c) c of
       (c', truncated) \<Rightarrow> Some (alloc a (ctx_finish H T truncated c') (unbind_server_context m))))"

definition classic_steps ::
  "'m header_ops \<Rightarrow> ('tx, 'm frame) tx_ops \<Rightarrow> engine_script \<Rightarrow> nat
   \<Rightarrow> (('m, 'tx) php_memory \<Rightarrow> ('m, 'tx) php_memory option) list" where
  "classic_steps H T j a =
     [\<lambda>m. Some (bind_server_context a m), populate_request_context a, engine_run H T (fst (es_startup j))]
     @ (if \<not> snd (es_startup j)
        then [on_ctx a (send_error_head H 500), engine_run H T (es_shutdown j),
              \<lambda>m. Some (unbind_server_context m), on_ctx a (ctx_finish H T False)]
        else [apply_proto_num a, engine_run H T (fst (es_script j)),
              on_ctx a (\<lambda>c. c\<lparr>c_tearing_down := True, c_errored := \<not> snd (es_script j) \<and> es_fatal j\<rparr>),
              engine_run H T (es_shutdown j), classic_end H T a])"

text \<open>
  One turn of \<open>classic_worker\<close>. Here a panic unwinds to \<open>worker_main\<close>, which unbinds after the context is
  gone.
\<close>

definition classic_request ::
  "'m header_ops \<Rightarrow> ('tx, 'm frame) tx_ops \<Rightarrow> engine_script \<Rightarrow> nat \<Rightarrow> ('m, 'tx) php_context \<Rightarrow> nat option
   \<Rightarrow> ('m, 'tx) php_memory \<Rightarrow> (('m, 'tx) php_context option \<times> ('m, 'tx) php_memory) option" where
  "classic_request H T j a c0 panics m =
     (let steps = classic_steps H T j a;
          done = (case panics of None \<Rightarrow> steps | Some k \<Rightarrow> take k steps)
      in map_option (\<lambda>m'. (pm_live m' a,
             if panics = None then release a m' else unbind_server_context (release a m')))
           (run_steps done (alloc a c0 m)))"

text \<open>
  \<open>boot_request_startup\<close>: the array lives in this frame. \<open>php84\<close> is the build against PHP 8.4. A path with
  a NUL byte gives an empty argument.
\<close>

definition c_string :: "bytes \<Rightarrow> bytes" where
  "c_string s = (if CHR 0x00 \<in> set s then [] else s)"

definition boot_request_startup ::
  "'m header_ops \<Rightarrow> ('tx, 'm frame) tx_ops \<Rightarrow> bool \<Rightarrow> bytes \<Rightarrow> engine_act list \<times> bool
   \<Rightarrow> ('m, 'tx) php_memory \<Rightarrow> (bool \<times> ('m, 'tx) php_memory) option" where
  "boot_request_startup H T php84 filename startup m =
     (let m1 = set_sg (\<lambda>g. g\<lparr>ri_argc := 1, ri_argv := True\<rparr>) (m\<lparr>pm_argv := Some [c_string filename]\<rparr>);
          saved = pm_register_argv m1;
          m2 = (if php84 then m1\<lparr>pm_register_argv := True\<rparr> else m1)
      in map_option (\<lambda>m3.
           let m4 = (if php84 then m3\<lparr>pm_register_argv := saved\<rparr> else m3);
               m5 = set_sg (\<lambda>g. g\<lparr>ri_argc := 0, ri_argv := False\<rparr>) m4
           in (snd startup, m5\<lparr>pm_argv := None\<rparr>))
         (engine_run H T (fst startup) m2))"

section \<open>The life of a thread\<close>

text \<open>
  What happens on a PHP thread: a boot request starts, the engine runs with no request of its own (the
  script outside its handler, the shutdowns), and requests are served in either mode, each with the
  address of its context.
\<close>

datatype ('m, 'tx) thread_event =
    BootRequest bool bytes "engine_act list \<times> bool"
  | EngineRuns "engine_act list"
  | WorkerRequest engine_job nat "('m, 'tx) php_context" "nat option"
  | ClassicRequest engine_script nat "('m, 'tx) php_context" "nat option"

fun thread_step ::
  "'m header_ops \<Rightarrow> ('tx, 'm frame) tx_ops \<Rightarrow> ('m, 'tx) thread_event \<Rightarrow> ('m, 'tx) php_memory
   \<Rightarrow> ('m, 'tx) php_memory option" where
  "thread_step H T (BootRequest php84 filename startup) m =
     map_option snd (boot_request_startup H T php84 filename startup m)"
| "thread_step H T (EngineRuns acts) m = engine_run H T acts m"
| "thread_step H T (WorkerRequest j a c panics) m =
     map_option (snd \<circ> snd) (rapira_rs_handle_request H T j a c panics m)"
| "thread_step H T (ClassicRequest j a c panics) m = map_option snd (classic_request H T j a c panics m)"

definition thread_run ::
  "'m header_ops \<Rightarrow> ('tx, 'm frame) tx_ops \<Rightarrow> ('m, 'tx) thread_event list \<Rightarrow> ('m, 'tx) php_memory
   \<Rightarrow> ('m, 'tx) php_memory option" where
  "thread_run H T evs = run_steps (map (thread_step H T) evs)"

fun event_address :: "('m, 'tx) thread_event \<Rightarrow> nat list" where
  "event_address (WorkerRequest _ a _ _) = [a]"
| "event_address (ClassicRequest _ a _ _) = [a]"
| "event_address _ = []"

section \<open>No pointer outlives its context\<close>

subsection \<open>Runs of steps\<close>

lemma run_steps_append:
  "run_steps (fs @ gs) m = (case run_steps fs m of None \<Rightarrow> None | Some m' \<Rightarrow> run_steps gs m')"
  by (induction fs arbitrary: m) (auto split: option.split)

lemma run_steps_then: "run_steps fs m = Some m' \<Longrightarrow> run_steps (fs @ gs) m = run_steps gs m'"
  by (simp add: run_steps_append)

lemma run_steps_last: "run_steps fs m = Some m' \<Longrightarrow> run_steps (fs @ [f]) m = f m'"
  by (simp add: run_steps_append split: option.split)

lemma run_steps_rule:
  assumes "\<And>f m. f \<in> set fs \<Longrightarrow> I m \<Longrightarrow> \<exists>m'. f m = Some m' \<and> I m'" and "I m"
  shows "\<exists>m'. run_steps fs m = Some m' \<and> I m'"
  using assms
proof (induction fs arbitrary: m)
  case (Cons f fs)
  then obtain m1 where "f m = Some m1" "I m1" by fastforce
  with Cons.IH [of m1] Cons.prems(1) show ?case by auto
qed simp

lemma sg_simps [simp]:
  "pm_sg (set_sg f m) = f (pm_sg m)" "pm_live (set_sg f m) = pm_live m" "pm_argv (set_sg f m) = pm_argv m"
  "pm_cwd (set_sg f m) = pm_cwd m" "pm_directory (set_sg f m) = pm_directory m"
  "pm_live (alloc a c m) = (pm_live m)(a \<mapsto> c)" "pm_sg (alloc a c m) = pm_sg m"
  "pm_argv (alloc a c m) = pm_argv m" "pm_live (release a m) = (pm_live m)(a := None)"
  "pm_sg (release a m) = pm_sg m" "pm_argv (release a m) = pm_argv m"
  by (simp_all add: set_sg_def alloc_def release_def)

lemma unbind_simps [simp]:
  "pm_live (unbind_server_context m) = pm_live m" "pm_argv (unbind_server_context m) = pm_argv m"
  "sg_server_context (pm_sg (unbind_server_context m)) = None"
  "ri_argc (pm_sg (unbind_server_context m)) = ri_argc (pm_sg m)"
  "ri_argv (pm_sg (unbind_server_context m)) = ri_argv (pm_sg m)"
  "set (info_pointers (pm_sg (unbind_server_context m))) = {NullPtr}"
  by (simp_all add: unbind_server_context_def info_pointers_def)

lemma directory_simps [simp]:
  "pm_sg (snd (rapira_rs_activate b m)) = pm_sg m" "pm_live (snd (rapira_rs_activate b m)) = pm_live m"
  "pm_argv (snd (rapira_rs_activate b m)) = pm_argv m"
  "pm_sg (deactivate m) = pm_sg m" "pm_live (deactivate m) = pm_live m" "pm_argv (deactivate m) = pm_argv m"
  by (simp_all add: rapira_rs_activate_def deactivate_def split: option.split)

subsection \<open>The callbacks keep the strings of the request\<close>

lemma ctx_frame [simp]:
  "c_cgi (commit_head H st h c) = c_cgi c" "c_req (commit_head H st h c) = c_req c"
  "c_cgi (ctx_finish H T b c) = c_cgi c" "c_req (ctx_finish H T b c) = c_req c"
  "c_cgi (send_error_head H st c) = c_cgi c" "c_req (send_error_head H st c) = c_req c"
  "c_cgi (fst (finalize_response H e c)) = c_cgi c" "c_req (fst (finalize_response H e c)) = c_req c"
  by (simp_all add: commit_head_def ctx_finish_def send_error_head_def finalize_response_def Let_def)

lemma finalize_frame_pair:
  "finalize_response H e c = (c', t) \<Longrightarrow> c_cgi c' = c_cgi c \<and> c_req c' = c_req c"
  by (metis ctx_frame(7,8) fst_conv)

lemma sapi_step_keeps_request [simp]:
  "c_cgi (sapi_step H T call c) = c_cgi c"
  "rq_protocol (c_req (sapi_step H T call c)) = rq_protocol (c_req c)"
  by (cases call; auto simp: send_headers_def ub_write_def read_post_def finish_response_def Let_def
      dest!: finalize_frame_pair split: body.split prod.split)+

subsection \<open>What every engine action keeps\<close>

text \<open>
  In a safe state every pointer that the engine or a callback may follow leads somewhere; a quiet state
  has no such pointer.
\<close>

definition safe :: "('m, 'tx) php_memory \<Rightarrow> bool" where
  "safe m \<longleftrightarrow>
     (case sg_server_context (pm_sg m) of None \<Rightarrow> True | Some a \<Rightarrow> pm_live m a \<noteq> None)
     \<and> list_all (\<lambda>p. read_c_str m p \<noteq> None) (info_pointers (pm_sg m)) \<and> argv_readable m"

definition quiet :: "('m, 'tx) php_memory \<Rightarrow> bool" where
  "quiet m \<longleftrightarrow> sg_server_context (pm_sg m) = None \<and> set (info_pointers (pm_sg m)) = {NullPtr}
     \<and> \<not> ri_argv (pm_sg m) \<and> ri_argc (pm_sg m) = 0"

lemma quiet_safe: "quiet m \<Longrightarrow> safe m"
  by (simp add: quiet_def safe_def argv_readable_def list_all_iff)

text \<open>The relation of a memory to an earlier one: same binding, same contexts, same strings.\<close>

definition keeps :: "('m, 'tx) php_memory \<Rightarrow> ('m, 'tx) php_memory \<Rightarrow> bool" where
  "keeps m m' \<longleftrightarrow> sg_server_context (pm_sg m') = sg_server_context (pm_sg m)
     \<and> ri_argv (pm_sg m') = ri_argv (pm_sg m) \<and> ri_argc (pm_sg m') = ri_argc (pm_sg m)
     \<and> pm_argv m' = pm_argv m
     \<and> (\<forall>a. map_option c_cgi (pm_live m' a) = map_option c_cgi (pm_live m a))
     \<and> (\<forall>a. map_option (\<lambda>c. rq_protocol (c_req c)) (pm_live m' a)
          = map_option (\<lambda>c. rq_protocol (c_req c)) (pm_live m a))"

lemma keeps_refl [simp]: "keeps m m"
  by (simp add: keeps_def)

lemma keeps_trans: "keeps m m1 \<Longrightarrow> keeps m1 m2 \<Longrightarrow> keeps m m2"
  by (simp add: keeps_def)

lemma keeps_live: "keeps m m' \<Longrightarrow> pm_live m' a = None \<longleftrightarrow> pm_live m a = None"
  unfolding keeps_def by (metis map_option_is_None)

lemma keeps_read: "keeps m m' \<Longrightarrow> read_c_str m' p = read_c_str m p"
proof (cases p)
  case (FieldPtr a f)
  assume "keeps m m'"
  then have "map_option c_cgi (pm_live m' a) = map_option c_cgi (pm_live m a)" by (simp add: keeps_def)
  then show ?thesis
    by (cases "pm_live m a"; cases "pm_live m' a") (simp_all add: FieldPtr)
qed simp

lemma keeps_argv: "keeps m m' \<Longrightarrow> argv_readable m' = argv_readable m"
  by (auto simp: keeps_def argv_readable_def split: option.split)

lemma safe_keeps:
  assumes "safe m" and "keeps m m'"
    and "set (info_pointers (pm_sg m')) \<subseteq> insert NullPtr (insert p (set (info_pointers (pm_sg m))))"
    and "read_c_str m p \<noteq> None"
  shows "safe m'"
proof -
  have "sg_server_context (pm_sg m') = sg_server_context (pm_sg m)" using assms(2) by (simp add: keeps_def)
  moreover have "\<forall>q \<in> set (info_pointers (pm_sg m')). read_c_str m' q \<noteq> None"
    using assms by (auto simp: keeps_read [OF assms(2)] safe_def list_all_iff)
  ultimately show ?thesis using assms(1) keeps_argv [OF assms(2)]
    by (auto simp: safe_def list_all_iff keeps_live [OF assms(2)] split: option.splits)
qed

text \<open>An update of the bound context that keeps its strings.\<close>

lemma with_ctx_keeps:
  assumes "safe m" and "\<And>a c. c_cgi (snd (f a c)) = c_cgi c"
    and "\<And>a c. rq_protocol (c_req (snd (f a c))) = rq_protocol (c_req c)"
  obtains r m' where "with_ctx d f m = Some (r, m')" "keeps m m'" "pm_sg m' = pm_sg m"
    "sg_server_context (pm_sg m) = None \<Longrightarrow> r = d \<and> m' = m"
    "\<And>a c. sg_server_context (pm_sg m) = Some a \<Longrightarrow> pm_live m a = Some c \<Longrightarrow>
       r = fst (f a c) \<and> pm_live m' = (pm_live m)(a \<mapsto> snd (f a c))"
proof (cases "sg_server_context (pm_sg m)")
  case None
  then show ?thesis by (intro that [of d m]) (simp_all add: with_ctx_def)
next
  case (Some a)
  then obtain c where c: "pm_live m a = Some c" using assms(1) by (auto simp: safe_def)
  obtain r c' where f: "f a c = (r, c')" by fastforce
  with assms(2,3) [of a c] have "c_cgi c' = c_cgi c" "rq_protocol (c_req c') = rq_protocol (c_req c)" by auto
  then show ?thesis using Some c f
    by (intro that [of r "m\<lparr>pm_live := (pm_live m)(a \<mapsto> c')\<rparr>"]) (simp_all add: with_ctx_def keeps_def)
qed

definition field_pointer ::
  "c_field \<Rightarrow> ('m, 'tx) php_memory \<Rightarrow> (c_ptr \<times> ('m, 'tx) php_memory) option" where
  "field_pointer fl = with_ctx NullPtr
     (\<lambda>a c. (case c_field_of fl (c_cgi c) of None \<Rightarrow> NullPtr | Some _ \<Rightarrow> FieldPtr a fl, c))"

lemma field_pointer_callbacks:
  "read_cookies = field_pointer FCookie" "rapira_rs_authorization = field_pointer FAuthorization"
  by (simp_all add: field_pointer_def read_cookies_def rapira_rs_authorization_def)

lemma field_pointer_safe:
  assumes "safe m"
  shows "\<exists>p m'. field_pointer fl m = Some (p, m') \<and> keeps m m' \<and> pm_sg m' = pm_sg m
    \<and> read_c_str m p \<noteq> None \<and> (sg_server_context (pm_sg m) = None \<longrightarrow> p = NullPtr)
    \<and> pm_live m' = pm_live m"
proof -
  let ?f = "\<lambda>a c. (case c_field_of fl (c_cgi c) of None \<Rightarrow> NullPtr | Some _ \<Rightarrow> FieldPtr a fl, c)"
  obtain p m' where w: "field_pointer fl m = Some (p, m')" "keeps m m'" "pm_sg m' = pm_sg m"
    and n: "sg_server_context (pm_sg m) = None \<Longrightarrow> p = NullPtr \<and> m' = m"
    and b: "\<And>a c. sg_server_context (pm_sg m) = Some a \<Longrightarrow> pm_live m a = Some c \<Longrightarrow>
       p = fst (?f a c) \<and> pm_live m' = (pm_live m)(a \<mapsto> snd (?f a c))"
    unfolding field_pointer_def by (rule with_ctx_keeps [OF assms, of ?f NullPtr]) auto
  have "read_c_str m p \<noteq> None \<and> pm_live m' = pm_live m"
  proof (cases "sg_server_context (pm_sg m)")
    case None
    with n show ?thesis by simp
  next
    case (Some a)
    then obtain c where c: "pm_live m a = Some c" using assms by (auto simp: safe_def)
    with b [OF Some c] show ?thesis by (auto split: option.split)
  qed
  with w n show ?thesis by auto
qed

lemma those_Some: "those xs = (if None \<in> set xs then None else Some (map the xs))"
  by (induction xs) (auto split: option.split)

lemma request_info_safe: "safe m \<Longrightarrow> \<exists>xs. request_info m = Some xs"
  by (auto simp: request_info_def those_Some safe_def list_all_iff)

text \<open>
  One action of the engine: it is defined on a safe state, keeps it safe, and can only add the cookie
  string of the bound context to the pointers.
\<close>

lemma engine_step_keeps:
  assumes "safe m"
  shows "\<exists>m'. engine_step H T act m = Some m' \<and> keeps m m' \<and> safe m'
    \<and> (sg_server_context (pm_sg m) = None \<longrightarrow> pm_live m' = pm_live m
         \<and> set (info_pointers (pm_sg m')) \<subseteq> insert NullPtr (set (info_pointers (pm_sg m))))"
proof (cases act)
  case (Callback call)
  obtain r m' where w: "with_ctx () (\<lambda>_ c. ((), sapi_step H T call c)) m = Some (r, m')" "keeps m m'"
    "pm_sg m' = pm_sg m" "sg_server_context (pm_sg m) = None \<Longrightarrow> r = () \<and> m' = m"
    by (rule with_ctx_keeps [OF assms, of "\<lambda>_ c. ((), sapi_step H T call c)" "()"]) auto
  have "safe m'" by (rule safe_keeps [OF assms w(2), of NullPtr]) (auto simp: w(3))
  with w show ?thesis by (auto simp: Callback)
next
  case ReadInfo
  with request_info_safe [OF assms] assms show ?thesis by auto
next
  case LoadCookies
  obtain p m' where w: "read_cookies m = Some (p, m')" "keeps m m'" "pm_sg m' = pm_sg m"
    "read_c_str m p \<noteq> None" "sg_server_context (pm_sg m) = None \<longrightarrow> p = NullPtr" "pm_live m' = pm_live m"
    using field_pointer_safe [OF assms, of FCookie] unfolding field_pointer_callbacks [symmetric] by (elim exE conjE) (rule that)
  let ?m = "set_sg (\<lambda>g. g\<lparr>ri_cookie_data := p\<rparr>) m'"
  have k: "keeps m ?m" using w(2) by (simp add: keeps_def)
  have i: "set (info_pointers (pm_sg ?m)) \<subseteq> insert NullPtr (insert p (set (info_pointers (pm_sg m))))"
    by (auto simp: info_pointers_def w(3))
  from safe_keeps [OF assms k i w(4)] k i w show ?thesis by (auto simp: LoadCookies)
next
  case ReadAuthorization
  obtain p m' where w: "rapira_rs_authorization m = Some (p, m')" "keeps m m'" "pm_sg m' = pm_sg m"
    "read_c_str m p \<noteq> None" "pm_live m' = pm_live m"
    using field_pointer_safe [OF assms, of FAuthorization] unfolding field_pointer_callbacks [symmetric] by (elim exE conjE) (rule that)
  have "safe m'" by (rule safe_keeps [OF assms w(2), of NullPtr]) (auto simp: w(3))
  with w show ?thesis by (auto simp: ReadAuthorization keeps_read [OF w(2)])
next
  case ReadArgv
  with assms show ?thesis by (auto simp: safe_def)
next
  case ClearInfo
  let ?m = "set_sg clear_info m"
  have k: "keeps m ?m" by (simp add: keeps_def clear_info_def)
  have "set (info_pointers (pm_sg ?m)) \<subseteq> {NullPtr}" by (simp add: clear_info_def info_pointers_def)
  with safe_keeps [OF assms k, of NullPtr] k show ?thesis by (auto simp: ClearInfo)
next
  case (ChangeDirectory d)
  let ?m = "m\<lparr>pm_cwd := d\<rparr>"
  have k: "keeps m ?m" by (simp add: keeps_def)
  from safe_keeps [OF assms k, of NullPtr] k show ?thesis by (auto simp: ChangeDirectory)
next
  case ResetProto
  let ?m = "set_sg (\<lambda>g. g\<lparr>ri_proto_num := 1000\<rparr>) m"
  have k: "keeps m ?m" by (simp add: keeps_def)
  from safe_keeps [OF assms k, of NullPtr] k show ?thesis by (auto simp: ResetProto info_pointers_def)
next
  case (SetResponseCode n)
  let ?m = "set_sg (\<lambda>g. g\<lparr>sg_response_code := n\<rparr>) m"
  have k: "keeps m ?m" by (simp add: keeps_def)
  from safe_keeps [OF assms k, of NullPtr] k show ?thesis by (auto simp: SetResponseCode info_pointers_def)
next
  case (ActivateDirectory b)
  have k: "keeps m (snd (rapira_rs_activate b m))" by (simp add: keeps_def)
  from safe_keeps [OF assms k, of NullPtr] k show ?thesis by (auto simp: ActivateDirectory)
next
  case DeactivateDirectory
  have k: "keeps m (deactivate m)" by (simp add: keeps_def)
  from safe_keeps [OF assms k, of NullPtr] k show ?thesis by (auto simp: DeactivateDirectory)
qed

lemma engine_run_keeps:
  assumes "safe m"
  shows "\<exists>m'. engine_run H T acts m = Some m' \<and> keeps m m' \<and> safe m'"
  unfolding engine_run_def
proof (rule run_steps_rule [where I = "\<lambda>m'. keeps m m' \<and> safe m'"])
  fix f m1
  assume "f \<in> set (map (engine_step H T) acts)" and m1: "keeps m m1 \<and> safe m1"
  then obtain act where f: "f = engine_step H T act" by auto
  from m1 have "safe m1" by simp
  from engine_step_keeps [OF this, of H T act] obtain m2 where
    "engine_step H T act m1 = Some m2" "keeps m1 m2" "safe m2" by (elim exE conjE) (rule that)
  with m1 f keeps_trans [of m m1 m2] show "\<exists>m'. f m1 = Some m' \<and> keeps m m' \<and> safe m'" by simp
qed (simp add: assms)

text \<open>Without a bound request the engine gets no pointer.\<close>

definition idle :: "('m, 'tx) php_memory \<Rightarrow> ('m, 'tx) php_memory \<Rightarrow> bool" where
  "idle m0 m \<longleftrightarrow> safe m \<and> sg_server_context (pm_sg m) = None \<and> set (info_pointers (pm_sg m)) = {NullPtr}
     \<and> ri_argv (pm_sg m) = ri_argv (pm_sg m0) \<and> ri_argc (pm_sg m) = ri_argc (pm_sg m0)
     \<and> pm_live m = pm_live m0"

lemma engine_step_idle:
  assumes "idle m0 m"
  shows "\<exists>m'. engine_step H T act m = Some m' \<and> idle m0 m'"
proof -
  from assms have "safe m" by (simp add: idle_def)
  from engine_step_keeps [OF this, of H T act] obtain m' where
    m': "engine_step H T act m = Some m'" "keeps m m'" "safe m'"
    and k: "sg_server_context (pm_sg m) = None \<longrightarrow> pm_live m' = pm_live m
         \<and> set (info_pointers (pm_sg m')) \<subseteq> insert NullPtr (set (info_pointers (pm_sg m)))"
    by (elim exE conjE) (rule that)
  from k assms have "pm_live m' = pm_live m" "set (info_pointers (pm_sg m')) \<subseteq> {NullPtr}"
    by (simp_all add: idle_def)
  moreover from this(2) have "set (info_pointers (pm_sg m')) = {NullPtr}" by (auto simp: info_pointers_def)
  ultimately show ?thesis using assms m' by (simp add: keeps_def idle_def)
qed

lemma engine_run_idle: "idle m0 m \<Longrightarrow> \<exists>m'. engine_run H T acts m = Some m' \<and> idle m0 m'"
  unfolding engine_run_def
  by (rule run_steps_rule [where I = "idle m0"]) (auto dest: engine_step_idle)

lemma quiet_idle: "quiet m \<Longrightarrow> idle m m"
  by (simp add: idle_def quiet_safe) (simp add: quiet_def)

lemma engine_run_quiet:
  assumes "quiet m"
  shows "\<exists>m'. engine_run H T acts m = Some m' \<and> quiet m' \<and> pm_live m' = pm_live m"
  using engine_run_idle [OF quiet_idle [OF assms], of H T acts] assms by (auto simp: idle_def quiet_def)

subsection \<open>Requests\<close>

text \<open>While a request is served, its context lives and what the engine may follow is in it.\<close>

definition in_request ::
  "('m, 'tx) php_memory \<Rightarrow> nat \<Rightarrow> ('m, 'tx) php_memory \<Rightarrow> bool" where
  "in_request m0 a m \<longleftrightarrow> safe m \<and> pm_live m a \<noteq> None \<and> sg_server_context (pm_sg m) \<in> {None, Some a}
     \<and> ri_argv (pm_sg m) = ri_argv (pm_sg m0) \<and> ri_argc (pm_sg m) = ri_argc (pm_sg m0)
     \<and> (\<forall>b. b \<noteq> a \<longrightarrow> pm_live m b = pm_live m0 b)"

lemma engine_step_others:
  "engine_step H T act m = Some m' \<Longrightarrow> sg_server_context (pm_sg m) \<in> {None, Some a} \<Longrightarrow> b \<noteq> a
   \<Longrightarrow> pm_live m' b = pm_live m b"
  by (cases act; auto simp: with_ctx_def read_cookies_def rapira_rs_authorization_def
      split: option.splits if_splits)

lemma engine_step_serving:
  assumes "in_request m0 a m"
  shows "\<exists>m'. engine_step H T act m = Some m' \<and> in_request m0 a m'"
proof -
  from assms have "safe m" by (simp add: in_request_def)
  from engine_step_keeps [OF this, of H T act] obtain m' where
    m': "engine_step H T act m = Some m'" "keeps m m'" "safe m'" by blast
  from assms have "sg_server_context (pm_sg m) \<in> {None, Some a}" by (simp add: in_request_def)
  from engine_step_others [OF m'(1) this] m' keeps_live [OF m'(2), of a] assms show ?thesis
    by (auto simp: in_request_def keeps_def)
qed

lemma engine_run_serving: "in_request m0 a m \<Longrightarrow> \<exists>m'. engine_run H T acts m = Some m' \<and> in_request m0 a m'"
  unfolding engine_run_def
  by (rule run_steps_rule [where I = "in_request m0 a"]) (auto dest: engine_step_serving)

lemma serving_start:
  assumes "quiet m"
  shows "in_request m a (alloc a c m)"
proof -
  have "list_all (\<lambda>p. read_c_str (alloc a c m) p \<noteq> None) (info_pointers (pm_sg m))"
    using assms by (simp add: quiet_def list_all_iff)
  with assms show ?thesis by (simp add: in_request_def safe_def quiet_def argv_readable_def)
qed

lemma serving_on_ctx:
  assumes "in_request m0 a m" and f: "\<And>c. c_cgi (f c) = c_cgi c"
  shows "\<exists>m'. on_ctx a f m = Some m' \<and> in_request m0 a m'"
proof -
  from assms(1) obtain c where c: "pm_live m a = Some c" by (auto simp: in_request_def)
  let ?m = "m\<lparr>pm_live := (pm_live m)(a \<mapsto> f c)\<rparr>"
  have r: "read_c_str ?m p = read_c_str m p" for p
    by (cases p) (auto simp: c f)
  have "safe ?m" using assms(1) by (auto simp: in_request_def safe_def r argv_readable_def split: option.split)
  then show ?thesis using assms(1) by (simp add: on_ctx_def c in_request_def)
qed

lemma serving_info:
  assumes "in_request m0 a m" and "pm_live (set_sg g m) = pm_live m"
    and "sg_server_context (g (pm_sg m)) \<in> {None, Some a}"
    and "ri_argv (g (pm_sg m)) = ri_argv (pm_sg m)" "ri_argc (g (pm_sg m)) = ri_argc (pm_sg m)"
    and "list_all (\<lambda>p. read_c_str m p \<noteq> None) (info_pointers (g (pm_sg m)))"
  shows "in_request m0 a (set_sg g m)"
proof -
  have r: "read_c_str (set_sg g m) p = read_c_str m p" for p
    by (cases p) simp_all
  show ?thesis using assms by (auto simp: in_request_def safe_def argv_readable_def list_all_iff r split: option.split)
qed

lemma serving_bind: "in_request m0 a m \<Longrightarrow> in_request m0 a (bind_server_context a m)"
  unfolding bind_server_context_def
  by (rule serving_info) (auto simp: in_request_def safe_def info_pointers_def)

lemma serving_unbind: "in_request m0 a m \<Longrightarrow> in_request m0 a (unbind_server_context m)"
  unfolding unbind_server_context_def
  by (rule serving_info) (auto simp: info_pointers_def)

lemma serving_populate:
  assumes "in_request m0 a m"
  shows "\<exists>m'. populate_request_context a m = Some m' \<and> in_request m0 a m'"
proof -
  from assms obtain c where c: "pm_live m a = Some c" by (auto simp: in_request_def)
  have k: "read_c_str m (ri_cookie_data (pm_sg m)) \<noteq> None" "sg_server_context (pm_sg m) \<in> {None, Some a}"
    using assms by (auto simp: in_request_def safe_def info_pointers_def)
  let ?g = "\<lambda>g. g\<lparr>sg_response_code := 200,
       ri_request_method := FieldPtr a FMethod, ri_query_string := FieldPtr a FQuery,
       ri_request_uri := FieldPtr a FUri, ri_path_translated := FieldPtr a FScript,
       ri_content_type := (case rc_ctype (c_cgi c) of None \<Rightarrow> NullPtr | Some _ \<Rightarrow> FieldPtr a FContentType),
       ri_content_length := rq_content_length (c_req c)\<rparr>"
  have "in_request m0 a (set_sg ?g m)"
    by (rule serving_info [OF assms]) (use k in \<open>auto simp: info_pointers_def c split: option.split\<close>)
  then show ?thesis by (simp add: populate_request_context_def c)
qed

lemma serving_proto:
  assumes "in_request m0 a m"
  shows "\<exists>m'. apply_proto_num a m = Some m' \<and> in_request m0 a m'"
proof -
  from assms obtain c where c: "pm_live m a = Some c" by (auto simp: in_request_def)
  have "in_request m0 a (set_sg (\<lambda>g. g\<lparr>ri_proto_num := n\<rparr>) m)" for n
    by (rule serving_info [OF assms]) (use assms in \<open>auto simp: in_request_def safe_def info_pointers_def\<close>)
  then show ?thesis by (simp add: apply_proto_num_def c)
qed

lemmas serving_steps = engine_run_serving serving_on_ctx serving_populate serving_proto

lemma finish_finalized:
  "c_cgi (case finalize_response H e c of (c', t) \<Rightarrow> ctx_finish H T t c') = c_cgi c"
  by (auto dest: finalize_frame_pair split: prod.split)

lemma handle_steps_serve:
  assumes "f \<in> set (handle_steps H T j a)" and "in_request m0 a m"
  shows "\<exists>m'. f m = Some m' \<and> in_request m0 a m'"
  using assms
  by (auto simp: handle_steps_def finish_finalized intro: serving_steps serving_bind split: if_splits)

lemma serving_classic_end:
  assumes "in_request m0 a m"
  shows "\<exists>m'. classic_end H T a m = Some m' \<and> in_request m0 a m'"
proof -
  from serving_unbind [OF assms] have s: "in_request m0 a (unbind_server_context m)" .
  from assms obtain c where c: "pm_live m a = Some c" by (auto simp: in_request_def)
  let ?f = "\<lambda>c. case finalize_response H (c_errored c) c of (c', t) \<Rightarrow> ctx_finish H T t c'"
  have "classic_end H T a m = on_ctx a ?f (unbind_server_context m)"
    by (simp add: classic_end_def on_ctx_def c alloc_def split: prod.split)
  with serving_on_ctx [OF s, of ?f] show ?thesis by (simp add: finish_finalized)
qed

lemma classic_steps_serve:
  assumes "f \<in> set (classic_steps H T j a)" and "in_request m0 a m"
  shows "\<exists>m'. f m = Some m' \<and> in_request m0 a m'"
  using assms
  by (auto simp: classic_steps_def intro: serving_steps serving_bind serving_unbind serving_classic_end
      split: if_splits)

lemma request_leaves_quiet:
  assumes "in_request m0 a m" and "quiet m0" and "pm_live m0 a = None"
  shows "quiet (unbind_server_context (release a m)) \<and> pm_live (unbind_server_context (release a m)) = pm_live m0"
  using assms by (auto simp: quiet_def in_request_def)

lemma worker_request_safe:
  assumes "quiet m" and "pm_live m a = None"
  shows "\<exists>r. rapira_rs_handle_request H T j a c panics m = Some r
    \<and> quiet (snd (snd r)) \<and> pm_live (snd (snd r)) = pm_live m"
proof -
  let ?steps = "handle_steps H T j a"
  let ?done = "case panics of None \<Rightarrow> ?steps | Some k \<Rightarrow> take k ?steps"
  have "set ?done \<subseteq> set ?steps" by (auto split: option.split dest: in_set_takeD)
  then obtain m' where "run_steps ?done (alloc a c m) = Some m'" "in_request m a m'"
    using run_steps_rule [of ?done "in_request m a", OF _ serving_start [OF assms(1)]]
      handle_steps_serve by blast
  with request_leaves_quiet [OF this(2) assms] show ?thesis
    by (simp add: rapira_rs_handle_request_def Let_def)
qed

lemma classic_steps_split:
  "\<exists>pre f. classic_steps H T j a = pre @ [f]
     \<and> ((\<exists>pre'. pre = pre' @ [\<lambda>m. Some (unbind_server_context m)] \<and> f = on_ctx a (ctx_finish H T False))
        \<or> f = classic_end H T a)"
proof (cases "snd (es_startup j)")
  case True
  show ?thesis
    by (rule exI [of _ "butlast (classic_steps H T j a)"], rule exI [of _ "classic_end H T a"])
      (simp add: classic_steps_def True)
next
  case False
  show ?thesis
    by (rule exI [of _ "butlast (classic_steps H T j a)"], rule exI [of _ "on_ctx a (ctx_finish H T False)"])
      (simp add: classic_steps_def False)
qed

lemma unbind_absorbs [simp]:
  "unbind_server_context (release a (unbind_server_context m)) = release a (unbind_server_context m)"
  "unbind_server_context (release a (alloc a c (unbind_server_context m))) = release a (alloc a c (unbind_server_context m))"
  by (simp_all add: unbind_server_context_def release_def alloc_def set_sg_def)

lemma classic_run_unbound:
  assumes "run_steps (classic_steps H T j a) m = Some m'"
  shows "unbind_server_context (release a m') = release a m'"
proof -
  from classic_steps_split [of H T j a] obtain pre f where s: "classic_steps H T j a = pre @ [f]"
    and f: "(\<exists>pre'. pre = pre' @ [\<lambda>m. Some (unbind_server_context m)] \<and> f = on_ctx a (ctx_finish H T False))
        \<or> f = classic_end H T a" by blast
  from assms s obtain m1 where m1: "run_steps pre m = Some m1" "f m1 = Some m'"
    by (auto simp: run_steps_append split: option.splits)
  from f show ?thesis
  proof
    assume "f = classic_end H T a"
    with m1 show ?thesis by (auto simp: classic_end_def split: option.splits prod.splits)
  next
    assume "\<exists>pre'. pre = pre' @ [\<lambda>m. Some (unbind_server_context m)] \<and> f = on_ctx a (ctx_finish H T False)"
    then obtain m2 where "m1 = unbind_server_context m2" "f = on_ctx a (ctx_finish H T False)"
      using m1(1) by (auto simp: run_steps_append split: option.splits)
    with m1(2) show ?thesis
      by (auto simp: on_ctx_def unbind_server_context_def release_def set_sg_def)
  qed
qed

lemma classic_request_safe:
  assumes "quiet m" and "pm_live m a = None"
  shows "\<exists>r. classic_request H T j a c panics m = Some r \<and> quiet (snd r) \<and> pm_live (snd r) = pm_live m"
proof -
  let ?steps = "classic_steps H T j a"
  let ?done = "case panics of None \<Rightarrow> ?steps | Some k \<Rightarrow> take k ?steps"
  have "set ?done \<subseteq> set ?steps" by (auto split: option.split dest: in_set_takeD)
  then obtain m' where m': "run_steps ?done (alloc a c m) = Some m'" "in_request m a m'"
    using run_steps_rule [of ?done "in_request m a", OF _ serving_start [OF assms(1)]]
      classic_steps_serve by blast
  have "panics = None \<Longrightarrow> release a m' = unbind_server_context (release a m')"
    using m'(1) classic_run_unbound [of H T j a "alloc a c m" m'] by simp
  with m' request_leaves_quiet [OF m'(2) assms] show ?thesis
    by (auto simp: classic_request_def Let_def)
qed

lemma boot_request_safe:
  assumes "quiet m"
  shows "\<exists>r. boot_request_startup H T php84 filename startup m = Some r
    \<and> quiet (snd r) \<and> pm_live (snd r) = pm_live m"
proof -
  let ?m1 = "set_sg (\<lambda>g. g\<lparr>ri_argc := 1, ri_argv := True\<rparr>) (m\<lparr>pm_argv := Some [c_string filename]\<rparr>)"
  let ?m2 = "if php84 then ?m1\<lparr>pm_register_argv := True\<rparr> else ?m1"
  have u: "sg_server_context (pm_sg ?m2) = None" "set (info_pointers (pm_sg ?m2)) = {NullPtr}"
    "pm_live ?m2 = pm_live m"
    using assms by (auto simp: quiet_def info_pointers_def set_sg_def)
  moreover from this have "safe ?m2"
    by (auto simp: safe_def argv_readable_def list_all_iff set_sg_def)
  ultimately have "idle ?m2 ?m2" by (simp only: idle_def simp_thms)
  from engine_run_idle [OF this, of H T "fst startup"] obtain m3 where
    m3: "engine_run H T (fst startup) ?m2 = Some m3" and i: "idle ?m2 m3" by blast
  from i u have "sg_server_context (pm_sg m3) = None" "set (info_pointers (pm_sg m3)) = {NullPtr}"
    "pm_live m3 = pm_live m" by (simp_all add: idle_def)
  then show ?thesis using m3
    by (auto simp: boot_request_startup_def Let_def quiet_def info_pointers_def set_sg_def)
qed

lemma thread_step_safe:
  assumes "quiet m" and "list_all (\<lambda>a. pm_live m a = None) (event_address ev)"
  shows "\<exists>m'. thread_step H T ev m = Some m' \<and> quiet m' \<and> pm_live m' = pm_live m"
proof (cases ev)
  case (BootRequest b f s)
  with boot_request_safe [OF assms(1), of H T b f s] show ?thesis by auto
next
  case (EngineRuns acts)
  with engine_run_quiet [OF assms(1)] show ?thesis by simp
next
  case (WorkerRequest j a c p)
  with worker_request_safe [OF assms(1), of a H T j c p] assms(2) show ?thesis by auto
next
  case (ClassicRequest j a c p)
  with classic_request_safe [OF assms(1), of a H T j c p] assms(2) show ?thesis by auto
qed

section \<open>The globals implement the context of theory Worker\<close>

text \<open>The bound request has the context \<open>c\<close>, and what a list of steps does to it.\<close>

definition bound :: "('m, 'tx) php_memory \<Rightarrow> nat \<Rightarrow> ('m, 'tx) php_context \<Rightarrow> ('m, 'tx) php_memory \<Rightarrow> bool" where
  "bound m0 a c m \<longleftrightarrow> in_request m0 a m \<and> sg_server_context (pm_sg m) = Some a \<and> pm_live m a = Some c"

definition leads ::
  "('m, 'tx) php_memory \<Rightarrow> nat \<Rightarrow> ('m, 'tx) php_context
   \<Rightarrow> (('m, 'tx) php_memory \<Rightarrow> ('m, 'tx) php_memory option) list \<Rightarrow> ('m, 'tx) php_context \<Rightarrow> bool" where
  "leads m0 a c fs c' \<longleftrightarrow> (\<forall>m. bound m0 a c m \<longrightarrow> (\<exists>m'. run_steps fs m = Some m' \<and> bound m0 a c' m'))"

lemma leads_Nil: "leads m0 a c [] c"
  by (simp add: leads_def)

lemma leads_append: "leads m0 a c fs c1 \<Longrightarrow> leads m0 a c1 gs c2 \<Longrightarrow> leads m0 a c (fs @ gs) c2"
  unfolding leads_def run_steps_append by fastforce

lemma leads_Cons: "leads m0 a c [f] c1 \<Longrightarrow> leads m0 a c1 fs c2 \<Longrightarrow> leads m0 a c (f # fs) c2"
  using leads_append [of m0 a c "[f]" c1 fs c2] by simp

lemma bound_engine_step:
  assumes "bound m0 a c m"
  shows "\<exists>m'. engine_step H T act m = Some m' \<and> bound m0 a (sapi_run H T (callbacks_of [act]) c) m'"
proof -
  from assms have b: "in_request m0 a m" "sg_server_context (pm_sg m) = Some a" "pm_live m a = Some c"
    by (simp_all add: bound_def)
  then have "safe m" by (simp add: in_request_def)
  from engine_step_keeps [OF this, of H T act] obtain m' where
    m': "engine_step H T act m = Some m'" "keeps m m'" by (elim exE conjE) (rule that)
  from engine_step_serving [OF b(1), of H T act] m'(1) have "in_request m0 a m'" by auto
  moreover have "sg_server_context (pm_sg m') = Some a" using m'(2) b(2) by (simp add: keeps_def)
  moreover have "pm_live m' a = Some (sapi_run H T (callbacks_of [act]) c)"
    using m'(1) b by (cases act)
      (auto simp: sapi_run_def with_ctx_def read_cookies_def rapira_rs_authorization_def
        split: option.splits if_splits)
  ultimately show ?thesis using m'(1) by (auto simp: bound_def)
qed

lemma callbacks_Cons: "callbacks_of (act # acts) = callbacks_of [act] @ callbacks_of acts"
  by (cases act) simp_all

lemma leads_engine: "leads m0 a c [engine_run H T acts] (sapi_run H T (callbacks_of acts) c)"
proof (induction acts arbitrary: c)
  case Nil
  then show ?case by (simp add: leads_def engine_run_def sapi_run_def)
next
  case (Cons act acts)
  show ?case unfolding leads_def
  proof (intro allI impI)
    fix m
    assume "bound m0 a c m"
    from bound_engine_step [OF this, of H T act] obtain m1 where
      1: "engine_step H T act m = Some m1" "bound m0 a (sapi_run H T (callbacks_of [act]) c) m1" by blast
    with Cons.IH [of "sapi_run H T (callbacks_of [act]) c"] obtain m2 where
      "engine_run H T acts m1 = Some m2"
      "bound m0 a (sapi_run H T (callbacks_of acts) (sapi_run H T (callbacks_of [act]) c)) m2"
      by (auto simp: leads_def split: option.splits)
    with 1 callbacks_Cons [of act acts]
    show "\<exists>m'. run_steps [engine_run H T (act # acts)] m = Some m'
        \<and> bound m0 a (sapi_run H T (callbacks_of (act # acts)) c) m'"
      by (simp add: engine_run_def sapi_run_def)
  qed
qed

lemma leads_on_ctx:
  assumes "c_cgi (f c) = c_cgi c"
  shows "leads m0 a c [on_ctx a f] (f c)"
  unfolding leads_def
proof (intro allI impI)
  fix m
  assume b: "bound m0 a c m"
  then have c: "pm_live m a = Some c" and i: "in_request m0 a m" by (simp_all add: bound_def)
  let ?g = "\<lambda>x. if x = c then f c else x"
  have k: "c_cgi (?g x) = c_cgi x" for x using assms by simp
  have e: "on_ctx a ?g m = on_ctx a f m" by (simp add: on_ctx_def c)
  from serving_on_ctx [OF i, of ?g] k e obtain m' where "on_ctx a f m = Some m'" "in_request m0 a m'" by metis
  then show "\<exists>m'. run_steps [on_ctx a f] m = Some m' \<and> bound m0 a (f c) m'"
    using b by (auto simp: bound_def on_ctx_def)
qed

lemma leads_populate: "leads m0 a c [populate_request_context a] c"
  unfolding leads_def
proof (intro allI impI)
  fix m
  assume b: "bound m0 a c m"
  then have "in_request m0 a m" by (simp add: bound_def)
  from serving_populate [OF this] obtain m' where
    "populate_request_context a m = Some m'" "in_request m0 a m'" by blast
  then show "\<exists>m'. run_steps [populate_request_context a] m = Some m' \<and> bound m0 a c m'"
    using b by (auto simp: bound_def populate_request_context_def split: option.splits)
qed

lemma leads_proto: "leads m0 a c [apply_proto_num a] c"
  unfolding leads_def
proof (intro allI impI)
  fix m
  assume b: "bound m0 a c m"
  then have "in_request m0 a m" by (simp add: bound_def)
  from serving_proto [OF this] obtain m' where
    "apply_proto_num a m = Some m'" "in_request m0 a m'" by blast
  then show "\<exists>m'. run_steps [apply_proto_num a] m = Some m' \<and> bound m0 a c m'"
    using b by (auto simp: bound_def apply_proto_num_def split: option.splits)
qed

text \<open>The binding itself starts from the allocated context.\<close>

lemma bound_start: "quiet m \<Longrightarrow> bound m a c (bind_server_context a (alloc a c m))"
  using serving_bind [OF serving_start, of m a c] by (simp add: bound_def bind_server_context_def)

lemmas leads_rules = leads_engine leads_on_ctx leads_populate leads_proto

text \<open>The context after each step of \<open>handle_request_impl\<close>.\<close>

definition after_handler ::
  "'m header_ops \<Rightarrow> ('tx, 'm frame) tx_ops \<Rightarrow> engine_job \<Rightarrow> ('m, 'tx) php_context \<Rightarrow> ('m, 'tx) php_context" where
  "after_handler H T j c0 =
     (let c1 = sapi_run H T (callbacks_of (fst (ej_activate j))) c0
      in if snd (ej_activate j) = EngBailout then c1
         else sapi_run H T (callbacks_of (fst (ej_handler j))) c1)"

definition after_flush ::
  "'m header_ops \<Rightarrow> ('tx, 'm frame) tx_ops \<Rightarrow> engine_job \<Rightarrow> ('m, 'tx) php_context \<Rightarrow> ('m, 'tx) php_context" where
  "after_flush H T j c0 =
     (let c = (after_handler H T j c0)\<lparr>c_tearing_down := True\<rparr>
      in if job_outcome j = EngOk then c else sapi_run H T (callbacks_of (fst (ej_flush j))) c)"

definition after_teardown ::
  "'m header_ops \<Rightarrow> ('tx, 'm frame) tx_ops \<Rightarrow> engine_job \<Rightarrow> ('m, 'tx) php_context \<Rightarrow> ('m, 'tx) php_context" where
  "after_teardown H T j c0 = sapi_run H T (callbacks_of (fst (ej_teardown j)))
     ((after_flush H T j c0)\<lparr>c_errored := job_outcome j \<noteq> EngOk \<or> job_flushed j = EngBailout\<rparr>)"

lemma run_handler_job:
  "run_handler H T (cgi_job_of j) c0 = (after_teardown H T j c0, job_recycles j, job_errored j)"
  by (simp add: run_handler_def cgi_job_of_def after_teardown_def after_flush_def after_handler_def
      job_recycles_def job_errored_def job_flushed_def job_outcome_def Let_def)

lemma serve_unit_job:
  "fst (serve_unit H T (cgi_job_of j) c0 w) = (case finalize_response H (job_errored j) (after_teardown H T j c0) of
     (c', truncated) \<Rightarrow> ctx_finish H T truncated c')"
  by (simp add: serve_unit_def run_handler_job Let_def split: prod.split)

lemma handle_steps_lead:
  "leads m0 a c0 (tl (handle_steps H T j a)) (fst (serve_unit H T (cgi_job_of j) c0 w))"
proof -
  let ?e = "\<lambda>acts. engine_run H T acts"
  let ?c1 = "sapi_run H T (callbacks_of (fst (ej_activate j))) c0"
  have h1: "leads m0 a c0 ([populate_request_context a] @ [?e (fst (ej_activate j))]) ?c1"
    by (rule leads_append [OF leads_populate leads_engine])
  have "leads m0 a ?c1 ([apply_proto_num a] @ [?e (fst (ej_handler j))])
      (sapi_run H T (callbacks_of (fst (ej_handler j))) ?c1)"
    by (rule leads_append [OF leads_proto leads_engine])
  then have h2: "leads m0 a ?c1
      (if snd (ej_activate j) = EngBailout then [] else [apply_proto_num a] @ [?e (fst (ej_handler j))])
      (after_handler H T j c0)"
    by (simp add: after_handler_def Let_def leads_Nil)
  note h = leads_append [OF h1 h2]
  have f: "leads m0 a (after_handler H T j c0) ([on_ctx a (\<lambda>c. c\<lparr>c_tearing_down := True\<rparr>)]
      @ (if job_outcome j = EngOk then [] else [?e (fst (ej_flush j))])) (after_flush H T j c0)"
    unfolding after_flush_def Let_def
    by (rule leads_append [OF leads_on_ctx]) (simp_all add: leads_Nil leads_engine split: if_split)
  have t: "leads m0 a (after_flush H T j c0)
      ([on_ctx a (\<lambda>c. c\<lparr>c_errored := job_outcome j \<noteq> EngOk \<or> job_flushed j = EngBailout\<rparr>)]
       @ [?e (fst (ej_teardown j))]) (after_teardown H T j c0)"
    unfolding after_teardown_def by (rule leads_append [OF leads_on_ctx leads_engine]) simp
  have e: "leads m0 a (after_teardown H T j c0)
      [on_ctx a (\<lambda>c. case finalize_response H (job_errored j) c of (c', t) \<Rightarrow> ctx_finish H T t c')]
      (fst (serve_unit H T (cgi_job_of j) c0 w))"
    unfolding serve_unit_job by (rule leads_on_ctx) (rule finish_finalized)
  from leads_append [OF leads_append [OF leads_append [OF h f] t] e] show ?thesis
    by (cases "snd (ej_activate j) = EngBailout"; cases "job_outcome j = EngOk") (simp_all add: handle_steps_def)
qed

lemma handle_request_through_globals:
  assumes "quiet m"
  shows "\<exists>m'. rapira_rs_handle_request H T j a c0 None m =
    Some (if fst (snd (run_handler H T (cgi_job_of j) c0)) then HRecycle else HContinue,
          Some (fst (serve_unit H T (cgi_job_of j) c0 w)), m')"
proof -
  from handle_steps_lead [of m a c0 H T j w] bound_start [OF assms, of a c0] obtain m' where
    "run_steps (tl (handle_steps H T j a)) (bind_server_context a (alloc a c0 m)) = Some m'"
    "pm_live m' a = Some (fst (serve_unit H T (cgi_job_of j) c0 w))"
    by (auto simp: leads_def bound_def)
  then have "run_steps (handle_steps H T j a) (alloc a c0 m) = Some m'"
    by (simp add: handle_steps_def)
  with \<open>pm_live m' a = _\<close> show ?thesis
    by (simp add: rapira_rs_handle_request_def Let_def run_handler_job)
qed

text \<open>The same for a classic request.\<close>

lemma bound_unbind_live: "pm_live (unbind_server_context m) a = pm_live m a"
  by simp

lemma classic_prefix:
  "leads m0 a c0 ([populate_request_context a] @ [engine_run H T acts]) (sapi_run H T (callbacks_of acts) c0)"
  by (rule leads_append [OF leads_populate leads_engine])

lemma classic_failed_boot:
  "leads m0 a c [on_ctx a (send_error_head H 500), engine_run H T acts]
     (sapi_run H T (callbacks_of acts) (send_error_head H 500 c))"
  by (rule leads_Cons [OF leads_on_ctx leads_engine]) simp

lemma classic_script_part:
  "leads m0 a c ([apply_proto_num a, engine_run H T acts] @ [on_ctx a f, engine_run H T acts'])
     (sapi_run H T (callbacks_of acts') (f (sapi_run H T (callbacks_of acts) c)))"
  if "\<And>c. c_cgi (f c) = c_cgi c"
  by (rule leads_append [OF leads_Cons [OF leads_proto leads_engine] leads_Cons [OF leads_on_ctx leads_engine]])
    (rule that)

lemma classic_through_globals:
  assumes "quiet m"
  shows "\<exists>m'. classic_request H T j a c0 None m =
    Some (Some (case classic_executor H T (classic_job_of j) c0 of (c, errored, truncated) \<Rightarrow> ctx_finish H T truncated c), m')"
proof -
  let ?m = "bind_server_context a (alloc a c0 m)"
  note b = bound_start [OF assms, of a c0]
  let ?c1 = "sapi_run H T (callbacks_of (fst (es_startup j))) c0"
  have "\<exists>m'. run_steps (tl (classic_steps H T j a)) ?m = Some m' \<and> pm_live m' a =
      Some (case classic_executor H T (classic_job_of j) c0 of (c, errored, truncated) \<Rightarrow> ctx_finish H T truncated c)"
  proof (cases "snd (es_startup j)")
    case False
    let ?c2 = "sapi_run H T (callbacks_of (es_shutdown j)) (send_error_head H 500 ?c1)"
    have "leads m a c0 (([populate_request_context a] @ [engine_run H T (fst (es_startup j))])
        @ [on_ctx a (send_error_head H 500), engine_run H T (es_shutdown j)]) ?c2"
      by (rule leads_append [OF classic_prefix classic_failed_boot])
    with b obtain m1 where m1: "run_steps (([populate_request_context a] @ [engine_run H T (fst (es_startup j))])
        @ [on_ctx a (send_error_head H 500), engine_run H T (es_shutdown j)]) ?m = Some m1"
      "pm_live m1 a = Some ?c2"
      by (auto simp: leads_def bound_def)
    have steps: "tl (classic_steps H T j a)
      = (([populate_request_context a] @ [engine_run H T (fst (es_startup j))])
         @ [on_ctx a (send_error_head H 500), engine_run H T (es_shutdown j)])
        @ [\<lambda>m. Some (unbind_server_context m), on_ctx a (ctx_finish H T False)]"
      by (simp add: classic_steps_def False)
    have "run_steps (tl (classic_steps H T j a)) ?m
      = run_steps [\<lambda>m. Some (unbind_server_context m), on_ctx a (ctx_finish H T False)] m1"
      unfolding steps by (rule run_steps_then [OF m1(1)])
    moreover have "classic_executor H T (classic_job_of j) c0 = (?c2, True, False)"
      by (simp add: classic_executor_def classic_job_of_def Let_def False)
    ultimately show ?thesis by (simp add: on_ctx_def m1(2))
  next
    case True
    let ?f = "\<lambda>c. c\<lparr>c_tearing_down := True, c_errored := \<not> snd (es_script j) \<and> es_fatal j\<rparr>"
    let ?c2 = "sapi_run H T (callbacks_of (es_shutdown j))
        (?f (sapi_run H T (callbacks_of (fst (es_script j))) ?c1))"
    have "leads m a c0 (([populate_request_context a] @ [engine_run H T (fst (es_startup j))])
        @ ([apply_proto_num a, engine_run H T (fst (es_script j))] @ [on_ctx a ?f, engine_run H T (es_shutdown j)])) ?c2"
      by (rule leads_append [OF classic_prefix classic_script_part]) simp
    with b obtain m1 where m1: "run_steps (([populate_request_context a] @ [engine_run H T (fst (es_startup j))])
        @ ([apply_proto_num a, engine_run H T (fst (es_script j))] @ [on_ctx a ?f, engine_run H T (es_shutdown j)])) ?m
        = Some m1" "pm_live m1 a = Some ?c2"
      by (auto simp: leads_def bound_def)
    obtain c3 t where f3: "finalize_response H (c_errored ?c2) ?c2 = (c3, t)" by fastforce
    have steps: "tl (classic_steps H T j a)
      = (([populate_request_context a] @ [engine_run H T (fst (es_startup j))])
        @ ([apply_proto_num a, engine_run H T (fst (es_script j))] @ [on_ctx a ?f, engine_run H T (es_shutdown j)]))
        @ [classic_end H T a]"
      by (simp add: classic_steps_def True)
    have "run_steps (tl (classic_steps H T j a)) ?m = classic_end H T a m1"
      unfolding steps by (rule run_steps_last [OF m1(1)])
    moreover have "classic_end H T a m1 = Some (alloc a (ctx_finish H T t c3) (unbind_server_context m1))"
      by (simp add: classic_end_def m1(2) f3)
    moreover have "classic_executor H T (classic_job_of j) c0 = (c3, c_errored ?c2, t)"
      using f3 by (simp add: classic_executor_def classic_job_of_def Let_def True)
    ultimately show ?thesis by simp
  qed
  then show ?thesis
    by (auto simp: classic_request_def classic_steps_def Let_def)
qed

section \<open>The script sees its own request\<close>

definition cookie_pointer :: "nat \<Rightarrow> ('m, 'tx) php_context \<Rightarrow> c_ptr" where
  "cookie_pointer a c = (case rc_cookie (c_cgi c) of None \<Rightarrow> NullPtr | Some _ \<Rightarrow> FieldPtr a FCookie)"

text \<open>The pointers that \<open>populate_request_context\<close> sets for \<open>c0\<close>, and the cookie once it is loaded.\<close>

definition points_to ::
  "('m, 'tx) php_context \<Rightarrow> nat \<Rightarrow> bool \<Rightarrow> ('m, 'tx) php_memory \<Rightarrow> bool" where
  "points_to c0 a cookies m \<longleftrightarrow>
     info_pointers (pm_sg m) = [FieldPtr a FMethod, FieldPtr a FQuery, FieldPtr a FUri, FieldPtr a FScript,
       case rc_ctype (c_cgi c0) of None \<Rightarrow> NullPtr | Some _ \<Rightarrow> FieldPtr a FContentType,
       if cookies then cookie_pointer a c0 else NullPtr]
     \<and> ri_content_length (pm_sg m) = rq_content_length (c_req c0)
     \<and> (\<exists>c. pm_live m a = Some c \<and> c_cgi c = c_cgi c0 \<and> rq_protocol (c_req c) = rq_protocol (c_req c0))"

definition sees_request :: "('m, 'tx) php_context \<Rightarrow> bool \<Rightarrow> ('m, 'tx) php_memory \<Rightarrow> bool" where
  "sees_request c0 cookies m \<longleftrightarrow>
     request_info m = Some [Some (rc_method (c_cgi c0)), Some (rc_query (c_cgi c0)), Some (rc_uri (c_cgi c0)),
       Some (rc_script (c_cgi c0)), rc_ctype (c_cgi c0), if cookies then rc_cookie (c_cgi c0) else None]
     \<and> ri_content_length (pm_sg m) = rq_content_length (c_req c0)
     \<and> ri_proto_num (pm_sg m) = proto_num (rq_protocol (c_req c0))"

lemma engine_step_info:
  assumes "engine_step H T act m = Some m'" and "act \<noteq> ClearInfo"
    and "sg_server_context (pm_sg m) = Some a" "pm_live m a = Some c"
  shows "ri_content_length (pm_sg m') = ri_content_length (pm_sg m)
    \<and> info_pointers (pm_sg m') = butlast (info_pointers (pm_sg m))
        @ [if act = LoadCookies then cookie_pointer a c else ri_cookie_data (pm_sg m)]"
proof (cases act)
  case (Callback call)
  with assms show ?thesis by (auto simp: with_ctx_def info_pointers_def)
next
  case LoadCookies
  with assms show ?thesis by (auto simp: with_ctx_def read_cookies_def cookie_pointer_def info_pointers_def)
next
  case ReadAuthorization
  with assms show ?thesis
    by (auto simp: with_ctx_def rapira_rs_authorization_def info_pointers_def split: option.splits)
qed (use assms in \<open>auto simp: info_pointers_def split: option.splits if_splits\<close>)

lemma engine_step_points:
  assumes "bound m0 a c m" and "points_to c0 a b m" and "act \<noteq> ClearInfo"
  obtains c' m' where "engine_step H T act m = Some m'" "bound m0 a c' m'"
    "points_to c0 a (b \<or> act = LoadCookies) m'"
proof -
  from assms(1) have "safe m" by (simp add: bound_def in_request_def)
  from engine_step_keeps [OF this, of H T act] obtain m1 where
    k: "engine_step H T act m = Some m1" "keeps m m1" by (elim exE conjE) (rule that)
  from bound_engine_step [OF assms(1), of H T act] obtain m' where
    m': "engine_step H T act m = Some m'" "bound m0 a (sapi_run H T (callbacks_of [act]) c) m'" by blast
  with k have k: "keeps m m'" by simp
  from assms(1,2) have s: "sg_server_context (pm_sg m) = Some a" "pm_live m a = Some c"
    "c_cgi c = c_cgi c0" "rq_protocol (c_req c) = rq_protocol (c_req c0)"
    by (auto simp: bound_def points_to_def)
  note i = engine_step_info [OF m'(1) assms(3) s(1,2)]
  have "cookie_pointer a c = cookie_pointer a c0" by (simp add: cookie_pointer_def s(3))
  moreover have "map_option c_cgi (pm_live m' a) = Some (c_cgi c0)"
    "map_option (\<lambda>c. rq_protocol (c_req c)) (pm_live m' a) = Some (rq_protocol (c_req c0))"
    using k s by (simp_all add: keeps_def)
  moreover have "ri_cookie_data (pm_sg m) = last (info_pointers (pm_sg m))" by (simp add: info_pointers_def)
  ultimately have "points_to c0 a (b \<or> act = LoadCookies) m'"
    using i assms(2) by (auto simp: points_to_def)
  with m' show ?thesis by (rule that)
qed

lemma engine_run_points:
  assumes "bound m0 a c m" and "points_to c0 a b m" and "list_all (\<lambda>act. act \<noteq> ClearInfo) acts"
  shows "\<exists>c' m'. engine_run H T acts m = Some m' \<and> bound m0 a c' m'
    \<and> points_to c0 a (b \<or> LoadCookies \<in> set acts) m'"
  using assms
proof (induction acts arbitrary: c b m)
  case Nil
  then show ?case by (auto simp: engine_run_def)
next
  case (Cons act acts)
  then have "act \<noteq> ClearInfo" by simp
  from engine_step_points [OF Cons.prems(1,2) this, of H T] obtain c1 m1 where
    1: "engine_step H T act m = Some m1" "bound m0 a c1 m1" "points_to c0 a (b \<or> act = LoadCookies) m1"
    by metis
  from Cons.IH [OF 1(2,3)] Cons.prems(3) obtain c2 m2 where
    "engine_run H T acts m1 = Some m2" "bound m0 a c2 m2"
    "points_to c0 a ((b \<or> act = LoadCookies) \<or> LoadCookies \<in> set acts) m2" by auto
  moreover have "((b \<or> act = LoadCookies) \<or> LoadCookies \<in> set acts) = (b \<or> LoadCookies \<in> set (act # acts))"
    by auto
  ultimately show ?case using 1(1) by (auto simp: engine_run_def)
qed

lemma request_prefix_sees:
  assumes "quiet m" and "list_all (\<lambda>act. act \<noteq> ClearInfo) acts"
  shows "\<exists>m'. run_steps [\<lambda>m. Some (bind_server_context a m), populate_request_context a, engine_run H T acts,
      apply_proto_num a] (alloc a c0 m) = Some m' \<and> sees_request c0 (LoadCookies \<in> set acts) m'"
proof -
  let ?m = "bind_server_context a (alloc a c0 m)"
  note b = bound_start [OF assms(1), of a c0]
  from leads_populate [of m a c0] b obtain m1 where
    m1: "populate_request_context a ?m = Some m1" "bound m a c0 m1"
    by (auto simp: leads_def split: option.splits)
  have "ri_cookie_data (pm_sg m) = NullPtr" using assms(1) by (simp add: quiet_def info_pointers_def)
  then have "points_to c0 a False m1"
    using m1(1) by (auto simp: populate_request_context_def points_to_def info_pointers_def bind_server_context_def
        split: option.splits)
  from engine_run_points [OF m1(2) this assms(2), of H T] obtain c2 m2 where
    m2: "engine_run H T acts m1 = Some m2" and p: "points_to c0 a (LoadCookies \<in> set acts) m2" by auto
  from p obtain c where c: "pm_live m2 a = Some c" "c_cgi c = c_cgi c0" "rq_protocol (c_req c) = rq_protocol (c_req c0)"
    and i: "info_pointers (pm_sg m2) = [FieldPtr a FMethod, FieldPtr a FQuery, FieldPtr a FUri, FieldPtr a FScript,
       case rc_ctype (c_cgi c0) of None \<Rightarrow> NullPtr | Some _ \<Rightarrow> FieldPtr a FContentType,
       if LoadCookies \<in> set acts then cookie_pointer a c0 else NullPtr]"
    and l: "ri_content_length (pm_sg m2) = rq_content_length (c_req c0)"
    by (auto simp: points_to_def)
  let ?m3 = "set_sg (\<lambda>g. g\<lparr>ri_proto_num := proto_num (rq_protocol (c_req c0))\<rparr>) m2"
  have i3: "info_pointers (pm_sg ?m3) = info_pointers (pm_sg m2)" by (simp add: info_pointers_def)
  have "sees_request c0 (LoadCookies \<in> set acts) ?m3"
    unfolding sees_request_def request_info_def i3 i
    by (auto simp: c l cookie_pointer_def split: option.split)
  then show ?thesis using m1(1) m2 c by (simp add: apply_proto_num_def)
qed

section \<open>Properties\<close>

lemma thread_run_safe:
  assumes "quiet m" and "list_all (\<lambda>a. pm_live m a = None) (concat (map event_address evs))"
  shows "\<exists>m'. thread_run H T evs m = Some m' \<and> quiet m' \<and> pm_live m' = pm_live m"
  unfolding thread_run_def
proof (rule run_steps_rule [where I = "\<lambda>m'. quiet m' \<and> pm_live m' = pm_live m"])
  fix f m1
  assume "f \<in> set (map (thread_step H T) evs)" and i: "quiet m1 \<and> pm_live m1 = pm_live m"
  then obtain ev where f: "f = thread_step H T ev" "ev \<in> set evs" by auto
  with assms(2) i have "list_all (\<lambda>a. pm_live m1 a = None) (event_address ev)"
    by (auto simp: list_all_iff)
  from thread_step_safe [OF _ this, of H T] i f
  show "\<exists>m'. f m1 = Some m' \<and> quiet m' \<and> pm_live m' = pm_live m" by auto
qed (simp add: assms)

text \<open>
  C25: Nothing that happens on a PHP thread follows a dangling pointer. Take any sequence of boot requests,
  engine runs between requests, and requests in either mode, where the engine may do anything it can with
  the request globals and the Rust code of any request may panic after any of its steps. Then every
  access to a context, to a string of the request and to the argument array is defined (\<open>thread_run\<close> has
  a result), and afterwards no global points to a context and no context is left alive.
\<close>

theorem no_pointer_outlives_its_context:
  assumes "quiet m" and "list_all (\<lambda>a. pm_live m a = None) (concat (map event_address evs))"
  shows "\<exists>m'. thread_run H T evs m = Some m' \<and> quiet m' \<and> pm_live m' = pm_live m"
  using assms by (rule thread_run_safe)

definition fresh_globals :: sapi_globals where
  "fresh_globals = \<lparr>sg_server_context = None, sg_response_code = 0, ri_request_method = NullPtr,
     ri_query_string = NullPtr, ri_request_uri = NullPtr, ri_path_translated = NullPtr,
     ri_content_type = NullPtr, ri_cookie_data = NullPtr, ri_content_length = 0, ri_proto_num = 0,
     ri_argc = 0, ri_argv = False\<rparr>"

definition fresh_memory :: "('m, 'tx) php_memory" where
  "fresh_memory = \<lparr>pm_sg = fresh_globals, pm_live = (\<lambda>_. None), pm_argv = None, pm_register_argv = False,
     pm_directory = None, pm_cwd = Some ''/app''\<rparr>"

definition sample_engine_job :: engine_job where
  "sample_engine_job =
     \<lparr>ej_activate = ([ResetProto, LoadCookies, ReadInfo], EngOk),
      ej_handler = ([ReadInfo, ReadAuthorization, Callback (UbWrite sample_headers ''hi''), ChangeDirectory (Some ''/tmp'')],
                    EngOk),
      ej_flush = ([], EngOk),
      ej_teardown = ([Callback (FinishResponse False), DeactivateDirectory, ReadInfo, ClearInfo], EngOk)\<rparr>"

definition sample_script :: engine_script where
  "sample_script = \<lparr>es_startup = ([ResetProto, LoadCookies, ActivateDirectory True], True),
     es_script = ([ReadInfo, Callback (UbWrite sample_headers ''hi'')], False), es_fatal = True,
     es_shutdown = [ReadInfo, DeactivateDirectory]\<rparr>"

definition sample_context ::
  "((bytes \<times> bytes) list, (bytes \<times> bytes) list frame script_chan) php_context" where
  "sample_context = context_new sample_request (script_open 8 None) (reqc_build list_headers sample_request ''/app/i.php'')"

definition sample_events ::
  "((bytes \<times> bytes) list, (bytes \<times> bytes) list frame script_chan) thread_event list" where
  "sample_events =
     [BootRequest True ''/app/i.php'' ([ReadArgv, LoadCookies], True), EngineRuns [ReadInfo],
      WorkerRequest sample_engine_job 7 sample_context None, EngineRuns [ReadInfo, ReadArgv],
      WorkerRequest sample_engine_job 7 sample_context (Some 4), EngineRuns [ReadInfo, Callback (ReadPost 9)],
      ClassicRequest sample_script 7 sample_context (Some 5), EngineRuns [ReadInfo]]"

lemma fresh_quiet: "quiet fresh_memory"
  by (simp add: quiet_def fresh_memory_def fresh_globals_def info_pointers_def)

theorem no_pointer_outlives_its_context_witness:
  "\<exists>m'. thread_run list_headers script_tx sample_events fresh_memory = Some m' \<and> quiet m'
     \<and> pm_live m' = (\<lambda>_. None)"
proof -
  have "list_all (\<lambda>a. pm_live fresh_memory a = None) (concat (map event_address sample_events))"
    by (simp add: sample_events_def fresh_memory_def)
  from no_pointer_outlives_its_context [OF fresh_quiet this, of list_headers script_tx] show ?thesis
    by (simp add: fresh_memory_def)
qed

text \<open>The first panic of the sample happens with the request bound, and does not run the handler's end.\<close>

lemma sample_panic_is_bound:
  "(case run_steps (take 4 (handle_steps list_headers script_tx sample_engine_job 7)) (alloc 7 sample_context fresh_memory) of
      None \<Rightarrow> None | Some m' \<Rightarrow> sg_server_context (pm_sg m')) = Some 7"
  by code_simp

text \<open>
  C26: Serving a request through the ambient globals is serving it with the context in hand. The context
  that \<open>rapira_rs_handle_request\<close> and a turn of \<open>classic_worker\<close> leave, after any engine run, is exactly the
  one that \<open>serve_unit\<close> and \<open>classic_executor\<close> of theory Worker compute by passing the context as an
  argument, and so is the action returned to the C shell: no callback is lost, or reaches another
  request.
\<close>

theorem ambient_context_refines:
  assumes "quiet m"
  shows "\<exists>m1 m2. rapira_rs_handle_request H T j a c0 None m =
      Some (if fst (snd (run_handler H T (cgi_job_of j) c0)) then HRecycle else HContinue,
            Some (fst (serve_unit H T (cgi_job_of j) c0 w)), m1)
    \<and> classic_request H T k a c0 None m =
      Some (Some (case classic_executor H T (classic_job_of k) c0 of (c, errored, truncated) \<Rightarrow> ctx_finish H T truncated c), m2)"
  using handle_request_through_globals [OF assms] classic_through_globals [OF assms] by blast

theorem ambient_context_refines_witness:
  "map_option (\<lambda>r. fst r) (rapira_rs_handle_request list_headers script_tx sample_engine_job 7 sample_context None fresh_memory)
     = Some HContinue
   \<and> map_option (\<lambda>r. map_option (\<lambda>c. sc_sent (c_chan c)) (fst r))
       (classic_request list_headers script_tx sample_script 7 sample_context None fresh_memory)
     = Some (Some [Head \<lparr>rh_status = 200, rh_headers = []\<rparr> None False, Chunk ''hi'', End True])"
proof -
  have r: "fst (snd (run_handler list_headers script_tx (cgi_job_of sample_engine_job) sample_context)) = False"
    by code_simp
  have s: "sc_sent (c_chan (case classic_executor list_headers script_tx (classic_job_of sample_script) sample_context of
      (c, errored, truncated) \<Rightarrow> ctx_finish list_headers script_tx truncated c))
    = [Head \<lparr>rh_status = 200, rh_headers = []\<rparr> None False, Chunk ''hi'', End True]"
    by code_simp
  from ambient_context_refines [OF fresh_quiet, of list_headers script_tx sample_engine_job 7 sample_context
      sample_worker sample_script] r s
  show ?thesis by auto
qed

text \<open>
  When the handler (or the script of the classic mode) starts, the engine reads its own request: the
  method, query, target, script path and content type of this request's CGI view, the cookie string once
  \<open>sapi_activate\<close> asked for it, the request's content length, and the protocol number of its protocol,
  whatever the engine did while it activated, short of clearing the pointers, and whatever an earlier
  request left behind.
\<close>

theorem handler_sees_its_request:
  assumes "quiet m" and "snd (ej_activate j) \<noteq> EngBailout" and "snd (es_startup k)"
    and "list_all (\<lambda>act. act \<noteq> ClearInfo) (fst (ej_activate j) @ fst (es_startup k))"
  shows "\<exists>m1 m2. run_steps (take 4 (handle_steps H T j a)) (alloc a c0 m) = Some m1
      \<and> sees_request c0 (LoadCookies \<in> set (fst (ej_activate j))) m1
      \<and> run_steps (take 4 (classic_steps H T k a)) (alloc a c0 m) = Some m2
      \<and> sees_request c0 (LoadCookies \<in> set (fst (es_startup k))) m2"
  using request_prefix_sees [OF assms(1), of "fst (ej_activate j)" a H T c0]
    request_prefix_sees [OF assms(1), of "fst (es_startup k)" a H T c0] assms(2-4)
  by (auto simp: handle_steps_def classic_steps_def)

theorem handler_sees_its_request_witness:
  "\<exists>m1. run_steps (take 4 (handle_steps list_headers script_tx sample_engine_job 7)) (alloc 7 sample_context fresh_memory) = Some m1
     \<and> sees_request sample_context True m1 \<and> ri_proto_num (pm_sg m1) = 1001"
proof -
  have c: "LoadCookies \<in> set (fst (ej_activate sample_engine_job))" by (simp add: sample_engine_job_def)
  have p: "proto_num (rq_protocol (c_req sample_context)) = 1001" by code_simp
  from handler_sees_its_request [OF fresh_quiet, of sample_engine_job sample_script list_headers script_tx 7
      sample_context] c p
  show ?thesis by (auto simp: sample_engine_job_def sample_script_def sees_request_def)
qed

end
