(* ===== verification/GrpcConnection.thy ===== *)
theory GrpcConnection
  imports GrpcServe
begin

text \<open>
  The gRPC plugin around a call (\<open>serve.rs\<close>, \<open>dispatch.rs\<close>, \<open>schema.rs\<close> and \<open>lib.rs\<close> of
  \<open>plugins/grpc/src\<close>): what the plugin prepares and configures, the codecs of a message, one request with
  its body budget from arrival to answer, and the counters by which the drain knows whether a call was cut.

  connectrpc decides when it polls the body of a request and calls the dispatcher, so a request is a list of
  its steps. The parts of the server that run at the same time, the other tasks on the pool's budget and the
  other calls and connections, take their steps in between, in any order.
\<close>

section \<open>Preparing the plugin\<close>

text \<open>\<open>OnceLock::set\<close>: the first schema stays.\<close>

definition set_schema :: "schema \<Rightarrow> schema option \<Rightarrow> schema option" where
  "set_schema sc slot = (case slot of None \<Rightarrow> Some sc | Some old \<Rightarrow> Some old)"

definition listed_services :: "schema option \<Rightarrow> service_info list" where
  "listed_services slot = (case slot of None \<Rightarrow> [] | Some sc \<Rightarrow> sc_services sc)"

record grpc_prepared =
  gp_listener :: nat
  gp_health :: "bytes list"            \<comment> \<open>the services that the health checker reports\<close>
  gp_reflection :: "bytes list option" \<comment> \<open>the services that reflection lists\<close>

definition grpc_prepare ::
  "schema \<Rightarrow> bool \<Rightarrow> (nat, string) result \<Rightarrow> (unit, string) result \<Rightarrow> schema option
   \<Rightarrow> (grpc_prepared, string) result \<times> schema option" where
  "grpc_prepare sc reflection bind reflector slot =
     (let slot' = set_schema sc slot; names = map si_name (sc_services sc) in
      (case bind of
         Err e \<Rightarrow> Err e
       | Ok listener \<Rightarrow>
           if \<not> reflection then Ok \<lparr>gp_listener = listener, gp_health = names, gp_reflection = None\<rparr>
           else (case reflector of
               Err e \<Rightarrow> Err (''building grpc reflection: '' @ e)
             | Ok _ \<Rightarrow> Ok \<lparr>gp_listener = listener, gp_health = names, gp_reflection = Some names\<rparr>),
       slot'))"

text \<open>What \<open>Serving::start\<close> tells connectrpc. Times are in milliseconds.\<close>

record rpc_setup =
  rs_default_timeout :: "nat option"
  rs_max_timeout :: "nat option"
  rs_max_message_size :: nat
  rs_max_request_body_size :: nat
  rs_compression :: "string list"
  rs_interceptors :: nat
  rs_keepalive_interval :: nat
  rs_keepalive_timeout :: nat

definition serving_setup :: "nat option \<Rightarrow> nat option \<Rightarrow> nat \<Rightarrow> nat \<Rightarrow> nat \<Rightarrow> rpc_setup" where
  "serving_setup default_timeout max_timeout interceptors interval timeout =
     \<lparr>rs_default_timeout = default_timeout, rs_max_timeout = max_timeout,
      rs_max_message_size = 4 * 1024 * 1024, rs_max_request_body_size = 4 * 1024 * 1024 + 5,
      rs_compression = [''gzip''], rs_interceptors = interceptors,
      rs_keepalive_interval = interval, rs_keepalive_timeout = timeout\<rparr>"

text \<open>A message that connectrpc accepts never meets the cap of \<open>reserve_body\<close>, so it is charged in full.\<close>

lemma accepted_message_charged:
  assumes "n \<le> rs_max_request_body_size (serving_setup d m k i t)"
  shows "min n BODY_BUDGET = n"
  using assms by (simp add: serving_setup_def BODY_BUDGET_def)

section \<open>Codecs and dispatch\<close>

text \<open>
  The dynamic messages of buffa: parsing JSON into the message type with an index under an element limit (an
  error says whether the limit caused it), encoding, decoding and printing JSON. \<open>mc_utf8_text\<close> is the
  error text of the standard library for bytes that are no UTF-8.
\<close>

record 'msg message_codec =
  mc_parse_json :: "nat \<Rightarrow> nat \<Rightarrow> bytes \<Rightarrow> ('msg, bool \<times> bytes) result"
  mc_encode :: "'msg \<Rightarrow> bytes"
  mc_decode :: "nat \<Rightarrow> bytes \<Rightarrow> ('msg, bytes) result"
  mc_to_json :: "'msg \<Rightarrow> (bytes, bytes) result"
  mc_utf8_text :: "bytes \<Rightarrow> bytes"

definition json_to_proto ::
  "'msg message_codec \<Rightarrow> route \<Rightarrow> bytes \<Rightarrow> nat \<Rightarrow> (bytes, error_code \<times> bytes) result" where
  "json_to_proto C m json limit =
     (if \<not> utf8_valid json then Err (CodeInvalidArgument, mc_utf8_text C json)
      else (case mc_parse_json C (rt_input m) limit json of
          Ok msg \<Rightarrow> Ok (mc_encode C msg)
        | Err (over_limit, text) \<Rightarrow>
            Err (if over_limit then CodeResourceExhausted else CodeInvalidArgument, text)))"

definition proto_to_json :: "'msg message_codec \<Rightarrow> route \<Rightarrow> bytes \<Rightarrow> (bytes, bytes) result" where
  "proto_to_json C m bs = (case mc_decode C (rt_output m) bs of
     Err e \<Rightarrow> Err e
   | Ok msg \<Rightarrow> mc_to_json C msg)"

text \<open>The five entry points of the dispatcher; \<open>unary\<close> is the result of the unary handler.\<close>

datatype rpc_kind = RpcUnary | RpcServerStreaming | RpcClientStreaming | RpcBidiStreaming

definition streaming_error :: "'m header_ops \<Rightarrow> 'm connect_error" where
  "streaming_error H = connect_error_of H CodeUnimplemented ''rapira serves unary methods only''"

definition dispatch_call ::
  "'m header_ops \<Rightarrow> rpc_kind \<Rightarrow> ('r, 'm connect_error) result \<Rightarrow> ('r, 'm connect_error) result" where
  "dispatch_call H kind unary = (case kind of RpcUnary \<Rightarrow> unary | _ \<Rightarrow> Err (streaming_error H))"

section \<open>One request and its body budget\<close>

text \<open>
  The state of the service future of one request: \<open>rr_waiting\<close> are the permits of a unit that waits for a
  queue slot.
\<close>

datatype request_stage = NotStarted | InService | RequestOver

record rpc_request =
  rr_stage :: request_stage
  rr_budget :: request_budget
  rr_waiting :: "nat option"
  rr_refusal :: "(error_code \<times> bytes) option" \<comment> \<open>the error that replaces the response\<close>

definition new_request :: rpc_request where
  "new_request = \<lparr>rr_stage = NotStarted, rr_budget = \<lparr>rb_held = None, rb_error = None\<rparr>, rr_waiting = None,
     rr_refusal = None\<rparr>"

datatype request_act =
    StartRequest
  | PollBody bool body_event
  | CallUnary codec bytes
  | WakeSubmit wake
  | FinishResponse
  | DropRequest

text \<open>The dispatcher's call: it takes the permits of the budget once the message is decoded.\<close>

definition call_unary ::
  "'m header_ops \<Rightarrow> 's sem_ops \<Rightarrow> (bytes \<Rightarrow> (bytes, error_code \<times> bytes) result) \<Rightarrow> codec \<Rightarrow> bytes
   \<Rightarrow> rpc_request \<Rightarrow> 's intake \<Rightarrow> (rpc_request \<times> 's intake) option" where
  "call_unary H S J format body r i =
     (case unary_message H J format body of
        Err _ \<Rightarrow> Some (r, i)
      | Ok _ \<Rightarrow>
         (case rb_held (rr_budget r) of
            None \<Rightarrow> None
          | Some held \<Rightarrow>
             (let r' = r\<lparr>rr_budget := (rr_budget r)\<lparr>rb_held := None\<rparr>\<rparr> in
              case unary_start H S J format body held i of
                (Ok (_, held', WaitForSlot), i') \<Rightarrow> Some (r'\<lparr>rr_waiting := Some held'\<rparr>, i')
              | (_, i') \<Rightarrow> Some (r', i'))))"

text \<open>Dropping the future drops a waiting submit and the budget.\<close>

definition cancel_request :: "'s sem_ops \<Rightarrow> rpc_request \<Rightarrow> 's intake \<Rightarrow> rpc_request \<times> 's intake" where
  "cancel_request S r i =
     (let i1 = (case rr_waiting r of Some held \<Rightarrow> snd (submit_resume S FutureDropped held i) | None \<Rightarrow> i);
          i2 = (case rb_held (rr_budget r) of Some held \<Rightarrow> release_body S held i1 | None \<Rightarrow> i1)
      in (r\<lparr>rr_stage := RequestOver, rr_waiting := None, rr_budget := (rr_budget r)\<lparr>rb_held := None\<rparr>\<rparr>, i2))"

text \<open>One step; \<open>None\<close> is a panic. Steps that connectrpc cannot take in a stage do nothing.\<close>

fun request_step ::
  "'m header_ops \<Rightarrow> 's sem_ops \<Rightarrow> (bytes \<Rightarrow> (bytes, error_code \<times> bytes) result) \<Rightarrow> request_act
   \<Rightarrow> rpc_request \<Rightarrow> 's intake \<Rightarrow> (rpc_request \<times> 's intake) option" where
  "request_step H S J StartRequest r i =
     (if rr_stage r \<noteq> NotStarted then Some (r, i)
      else (case reserve_body S 0 i of
          (Ok held, i') \<Rightarrow> Some (r\<lparr>rr_stage := InService, rr_budget := \<lparr>rb_held = Some held, rb_error = None\<rparr>\<rparr>, i')
        | (Err e, i') \<Rightarrow> Some (r\<lparr>rr_stage := RequestOver, rr_refusal := Some (CodeUnavailable, refused_text e)\<rparr>, i')))"
| "request_step H S J (PollBody idle ev) r i =
     (if rr_stage r \<noteq> InService then Some (r, i)
      else (case request_body_poll S idle ev (rr_budget r) i of
          (_, rb, i', _) \<Rightarrow> Some (r\<lparr>rr_budget := rb\<rparr>, i')))"
| "request_step H S J (CallUnary format body) r i =
     (if rr_stage r \<noteq> InService then Some (r, i) else call_unary H S J format body r i)"
| "request_step H S J (WakeSubmit w) r i =
     (case rr_waiting r of
        None \<Rightarrow> Some (r, i)
      | Some held \<Rightarrow>
          (case submit_resume S w held i of
             (WaitForSlot, i') \<Rightarrow> Some (r, i')
           | (_, i') \<Rightarrow> Some (r\<lparr>rr_waiting := None\<rparr>, i')))"
| "request_step H S J FinishResponse r i =
     (if rr_stage r \<noteq> InService \<or> rr_waiting r \<noteq> None then Some (r, i)
      else (case finish_request S None Some (rr_budget r) i of
          (refusal, i') \<Rightarrow> Some (r\<lparr>rr_stage := RequestOver, rr_refusal := refusal,
             rr_budget := \<lparr>rb_held = None, rb_error = None\<rparr>\<rparr>, i')))"
| "request_step H S J DropRequest r i = Some (cancel_request S r i)"

definition own_permits :: "rpc_request \<Rightarrow> nat" where
  "own_permits r = case_option 0 id (rb_held (rr_budget r)) + case_option 0 id (rr_waiting r)"

text \<open>A unit waits only with the permits that it took from the budget, and nothing is held at the end.\<close>

definition request_ok :: "rpc_request \<Rightarrow> bool" where
  "request_ok r \<longleftrightarrow> (rr_waiting r \<noteq> None \<longrightarrow> rb_held (rr_budget r) = None)
     \<and> (rr_stage r \<noteq> InService \<longrightarrow> rb_held (rr_budget r) = None \<and> rr_waiting r = None)"

lemma body_poll_held:
  assumes "request_body_poll S idle ev rb i = (out, rb', i', t)"
  shows "rb_held rb' = None \<longleftrightarrow> rb_held rb = None"
  using assms
  by (auto simp: request_body_poll_def split: if_splits body_event.splits rpc_frame.splits option.splits
      prod.splits result.splits)

lemma call_unary_ok:
  assumes "call_unary H S J format body r i = Some (r', i')" and "request_ok r" and "rr_stage r = InService"
  shows "(r' = r \<and> i' = i \<or> rr_waiting r = None) \<and> request_ok r'"
  using assms
  by (auto simp: call_unary_def request_ok_def Let_def
      split: result.splits option.splits prod.splits submit_outcome.splits)

text \<open>
  A request among the other tasks of the pool: \<open>o\<close> permits are with them. Between two steps of the request
  they do anything that keeps the balance of theory Intake.
\<close>

inductive shared_run ::
  "'m header_ops \<Rightarrow> 's sem_ops \<Rightarrow> (bytes \<Rightarrow> (bytes, error_code \<times> bytes) result) \<Rightarrow> ('s \<Rightarrow> nat)
   \<Rightarrow> nat \<times> 's intake \<Rightarrow> rpc_request \<Rightarrow> nat \<Rightarrow> 's intake \<Rightarrow> bool"
  for H S J avail start where
  begins: "shared_run H S J avail start new_request (fst start) (snd start)"
| own_step: "shared_run H S J avail start r others i \<Longrightarrow> request_step H S J a r i = Some (r', i')
    \<Longrightarrow> shared_run H S J avail start r' others i'"
| other_tasks: "shared_run H S J avail start r others i \<Longrightarrow> balanced avail (others' + own_permits r) i'
    \<Longrightarrow> shared_run H S J avail start r others' i'"

lemma some_count: "\<exists>p. counted p w 0 0 i"
  by (rule exI [of _ "(i_pool i)\<lparr>pool_pending := pool_pending (i_pool i) - of_nat (length (i_queue i) + w)\<rparr>"])
    (simp add: counted_def)

context semaphore
begin

lemma reserve_balanced:
  assumes "reserve_body S n i = (r, i')" and "balanced avail held i"
  shows "balanced avail (held + (case r of Ok h \<Rightarrow> h | Err _ \<Rightarrow> 0)) i'"
proof -
  obtain p where p: "counted p 0 0 0 i" using some_count by blast
  show ?thesis
    using reserve_body_Ok [OF _ assms(2) p] reserve_body_Err [OF _ assms(2) p] assms(1) by (cases r) auto
qed

lemma grow_balanced:
  assumes "grow_body S h n i = ((h', r), i')" and "balanced avail (held + h) i"
  shows "balanced avail (held + h') i'"
  using grow_body_inv [OF assms] some_count by blast

lemma submit_start_balanced:
  assumes "submit_start S h i = (r, i')" and "balanced avail (held + h) i"
  shows "balanced avail (held + (if r = WaitForSlot then h else 0)) i'"
proof -
  obtain p where "counted p 0 0 0 i" using some_count by blast
  from submit_start_inv [OF assms this] show ?thesis by (cases r) auto
qed

lemma submit_resume_balanced:
  assumes "submit_resume S w h i = (r, i')" and "balanced avail (held + h) i"
  shows "balanced avail (held + (if r = WaitForSlot then h else 0)) i'"
proof -
  obtain p where "counted p (0 + 1) 0 0 i" using some_count by blast
  from submit_resume_inv [OF assms this] show ?thesis by (cases r) auto
qed

lemma body_poll_balanced:
  assumes "request_body_poll S idle ev rb i = (out, rb', i', t)"
    and "balanced avail (held + case_option 0 id (rb_held rb)) i"
  shows "balanced avail (held + case_option 0 id (rb_held rb')) i'"
proof (cases "(rb_held rb \<noteq> None \<and> idle) \<or> (\<forall>d. ev \<noteq> FrameReady (RpcData d)) \<or> rb_held rb = None
    \<or> ev = FrameReady (RpcData [])")
  case True
  with assms show ?thesis
    by (auto simp: request_body_poll_def split: if_splits body_event.splits rpc_frame.splits option.splits)
next
  case False
  then obtain h d where h: "rb_held rb = Some h" "ev = FrameReady (RpcData d)" "d \<noteq> []" "\<not> idle" by auto
  obtain h' q i2 where g: "grow_body S h (h + length d) i = ((h', q), i2)" by (metis surj_pair)
  have "balanced avail (held + h') i2" using grow_balanced [OF g] assms(2) h by simp
  then show ?thesis using assms(1) h g by (cases q) (auto simp: request_body_poll_def)
qed

lemma unary_start_balanced:
  assumes "unary_start H S J format body h i = (q, i')" and "unary_message H J format body = Ok m"
    and "balanced avail (held + h) i"
  shows "balanced avail (held + (case q of Ok (_, h', WaitForSlot) \<Rightarrow> h' | _ \<Rightarrow> 0)) i'"
proof -
  obtain h' g i1 where gr: "grow_body S h (length m) i = ((h', g), i1)" by (metis surj_pair)
  from grow_balanced [OF gr assms(3)] have b: "balanced avail (held + h') i1" .
  show ?thesis
  proof (cases g)
    case (Err e)
    with assms(1,2) gr release_body_inv(1) [OF b] show ?thesis by (auto simp: unary_start_def)
  next
    case (Ok u)
    obtain out i2 where st: "submit_start S h' i1 = (out, i2)" by fastforce
    from submit_start_balanced [OF st b] assms(1,2) gr Ok st show ?thesis
      by (cases out) (auto simp: unary_start_def)
  qed
qed

lemma call_unary_balanced:
  assumes "call_unary H S J format body r i = Some (r', i')" and "balanced avail (others + own_permits r) i"
    and "rr_waiting r = None"
  shows "balanced avail (others + own_permits r') i'"
proof (cases "unary_message H J format body")
  case (Err e)
  with assms show ?thesis by (simp add: call_unary_def)
next
  case (Ok m)
  with assms(1) obtain h where h: "rb_held (rr_budget r) = Some h"
    by (auto simp: call_unary_def split: option.splits)
  obtain q i1 where u: "unary_start H S J format body h i = (q, i1)" by fastforce
  have b: "balanced avail (others + h) i" using assms(2,3) h by (simp add: own_permits_def)
  from unary_start_balanced [OF u Ok b] assms(1,3) Ok h u show ?thesis
    by (auto simp: call_unary_def own_permits_def Let_def split: result.splits prod.splits submit_outcome.splits)
qed

lemma drop_balanced:
  assumes "cancel_request S r i = (r', i')" and "balanced avail (others + own_permits r) i"
  shows "balanced avail (others + own_permits r') i' \<and> own_permits r' = 0"
proof -
  let ?h = "case_option 0 id (rb_held (rr_budget r))"
  define i1 where "i1 = (case rr_waiting r of Some w \<Rightarrow> snd (submit_resume S FutureDropped w i) | None \<Rightarrow> i)"
  have "balanced avail (others + ?h) i1"
  proof (cases "rr_waiting r")
    case None
    with assms(2) show ?thesis by (simp add: i1_def own_permits_def)
  next
    case (Some w)
    obtain out i2 where sr: "submit_resume S FutureDropped w i = (out, i2)" by fastforce
    have "balanced avail (others + ?h + w) i" using assms(2) Some by (simp add: own_permits_def add.assoc)
    from submit_resume_balanced [OF sr this] sr Some show ?thesis
      by (simp add: i1_def) (simp add: submit_resume_def submit_wake_def Let_def)
  qed
  then show ?thesis using assms(1) release_body_inv(1) [of others _ i1]
    by (cases "rb_held (rr_budget r)") (auto simp: cancel_request_def i1_def [symmetric] Let_def own_permits_def)
qed

lemma request_step_balanced:
  assumes "request_step H S J a r i = Some (r', i')" and "balanced avail (others + own_permits r) i"
    and "request_ok r"
  shows "balanced avail (others + own_permits r') i' \<and> request_ok r'"
proof (cases a)
  case StartRequest
  obtain q i1 where v: "reserve_body S 0 i = (q, i1)" by fastforce
  show ?thesis
  proof (cases "rr_stage r = NotStarted")
    case True
    with assms(2,3) have "balanced avail others i" by (simp add: request_ok_def own_permits_def)
    from reserve_balanced [OF v this] show ?thesis
      using assms(1,3) True v by (cases q) (auto simp: StartRequest request_ok_def own_permits_def)
  qed (use assms in \<open>auto simp: StartRequest\<close>)
next
  case (PollBody idle ev)
  obtain out rb i1 t where v: "request_body_poll S idle ev (rr_budget r) i = (out, rb, i1, t)" by (metis surj_pair)
  show ?thesis
  proof (cases "rr_stage r = InService")
    case True
    have "balanced avail ((others + case_option 0 id (rr_waiting r)) + case_option 0 id (rb_held (rr_budget r))) i"
      using assms(2) by (simp add: own_permits_def ac_simps)
    from body_poll_balanced [OF v this] body_poll_held [OF v] show ?thesis
      using assms(1,3) True v by (auto simp: PollBody request_ok_def own_permits_def ac_simps)
  qed (use assms in \<open>auto simp: PollBody\<close>)
next
  case (CallUnary format body)
  show ?thesis
  proof (cases "rr_stage r = InService")
    case True
    with assms(1) have c: "call_unary H S J format body r i = Some (r', i')" by (simp add: CallUnary)
    from call_unary_ok [OF c assms(3)] have "r' = r \<and> i' = i \<or> rr_waiting r = None" "request_ok r'"
      using True by auto
    with call_unary_balanced [OF c assms(2)] assms(2) show ?thesis by auto
  qed (use assms in \<open>auto simp: CallUnary\<close>)
next
  case (WakeSubmit w)
  show ?thesis
  proof (cases "rr_waiting r")
    case (Some h)
    with assms(3) have n: "rb_held (rr_budget r) = None" by (simp add: request_ok_def)
    obtain out i1 where v: "submit_resume S w h i = (out, i1)" by fastforce
    have "balanced avail (others + h) i" using assms(2) Some n by (simp add: own_permits_def)
    from submit_resume_balanced [OF v this] show ?thesis
      using assms(1,3) Some n v by (cases out) (auto simp: WakeSubmit request_ok_def own_permits_def)
  qed (use assms in \<open>auto simp: WakeSubmit\<close>)
next
  case FinishResponse
  show ?thesis
  proof (cases "rr_stage r = InService \<and> rr_waiting r = None")
    case True
    with assms(1,2) release_body_inv(1) [of others _ i] show ?thesis
      by (cases "rb_held (rr_budget r)")
        (auto simp: FinishResponse finish_request_def request_ok_def own_permits_def)
  qed (use assms in \<open>auto simp: FinishResponse\<close>)
next
  case DropRequest
  with assms(1) have d: "cancel_request S r i = (r', i')" by simp
  have "rr_waiting r' = None \<and> rr_stage r' = RequestOver \<and> rb_held (rr_budget r') = None"
    using d by (auto simp: cancel_request_def Let_def)
  with drop_balanced [OF d assms(2)] show ?thesis by (auto simp: request_ok_def)
qed

lemma shared_run_balanced:
  assumes "shared_run H S J avail start r others i" and "balanced avail (fst start) (snd start)"
  shows "balanced avail (others + own_permits r) i \<and> request_ok r"
  using assms
proof (induction rule: shared_run.induct)
  case begins
  then show ?case by (simp add: own_permits_def new_request_def request_ok_def)
next
  case (own_step r others i a r' i')
  then show ?case using request_step_balanced [of H J a r i r' i' others] by simp
qed simp

end

section \<open>Connections, calls and the drain\<close>

text \<open>
  The counters of the server: calls and HTTP/2 connections, each held by the objects that own an
  \<open>InFlight\<close>. A call owns one from its first moment until its future and its body are dropped and the
  transport has let go of every byte of it. A connection counts as HTTP/2 from its first such request
  until it ends. \<open>draining\<close> is the value of the shutdown channel.
\<close>

datatype http_version = Http10 | Http11 | Http2

datatype call_stage = CallRunning | CallBody | CallGone

record rpc_conn =
  rc_http1 :: bool
  rc_counted :: bool
  rc_open :: bool

record rpc_call =
  cl_conn :: nat
  cl_stage :: call_stage
  cl_bytes :: nat  \<comment> \<open>data frames that the transport retains\<close>

record rpc_server =
  rv_draining :: bool
  rv_inflight :: "64 word"
  rv_http2 :: "64 word"
  rv_conns :: "rpc_conn list"
  rv_calls :: "rpc_call list"

definition server_start :: rpc_server where
  "server_start = \<lparr>rv_draining = False, rv_inflight = 0, rv_http2 = 0, rv_conns = [], rv_calls = []\<rparr>"

text \<open>\<open>InFlight\<close> is alive while anything holds it.\<close>

definition call_alive :: "rpc_call \<Rightarrow> bool" where
  "call_alive c \<longleftrightarrow> cl_stage c \<noteq> CallGone \<or> cl_bytes c > 0"

definition put_call :: "nat \<Rightarrow> rpc_call \<Rightarrow> rpc_server \<Rightarrow> rpc_server" where
  "put_call k c s = s\<lparr>rv_calls := (rv_calls s)[k := c],
     rv_inflight := (if call_alive (rv_calls s ! k) \<and> \<not> call_alive c then rv_inflight s - 1 else rv_inflight s)\<rparr>"

datatype server_act =
    OpenConnection
  | RequestArrives nat http_version
  | HeadReady nat
  | FrameReadyOn nat
  | DropCall nat
  | DropBytes nat
  | EndConnection nat
  | StartDrain

fun server_step :: "server_act \<Rightarrow> rpc_server \<Rightarrow> rpc_server" where
  "server_step OpenConnection s =
     s\<lparr>rv_conns := rv_conns s @ [\<lparr>rc_http1 = False, rc_counted = False, rc_open = True\<rparr>]\<rparr>"
| "server_step (RequestArrives c v) s =
     (if c < length (rv_conns s) \<and> rc_open (rv_conns s ! c)
      then let conn = rv_conns s ! c; counts = (v = Http2 \<and> \<not> rc_counted conn)
           in s\<lparr>rv_conns := (rv_conns s)[c := conn\<lparr>rc_http1 := v \<noteq> Http2, rc_counted := rc_counted conn \<or> v = Http2\<rparr>],
                rv_http2 := (if counts then rv_http2 s + 1 else rv_http2 s),
                rv_calls := rv_calls s @ [\<lparr>cl_conn = c, cl_stage = CallRunning, cl_bytes = 0\<rparr>],
                rv_inflight := rv_inflight s + 1\<rparr>
      else s)"
| "server_step (HeadReady k) s =
     (if k < length (rv_calls s) \<and> cl_stage (rv_calls s ! k) = CallRunning
      then put_call k ((rv_calls s ! k)\<lparr>cl_stage := CallBody\<rparr>) s else s)"
| "server_step (FrameReadyOn k) s =
     (if k < length (rv_calls s) \<and> cl_stage (rv_calls s ! k) = CallBody
      then put_call k ((rv_calls s ! k)\<lparr>cl_bytes := cl_bytes (rv_calls s ! k) + 1\<rparr>) s else s)"
| "server_step (DropCall k) s =
     (if k < length (rv_calls s) then put_call k ((rv_calls s ! k)\<lparr>cl_stage := CallGone\<rparr>) s else s)"
| "server_step (DropBytes k) s =
     (if k < length (rv_calls s) then put_call k ((rv_calls s ! k)\<lparr>cl_bytes := cl_bytes (rv_calls s ! k) - 1\<rparr>) s else s)"
| "server_step (EndConnection c) s =
     (if c < length (rv_conns s) \<and> rc_open (rv_conns s ! c)
      then s\<lparr>rv_conns := (rv_conns s)[c := (rv_conns s ! c)\<lparr>rc_open := False, rc_counted := False\<rparr>],
             rv_http2 := (if rc_counted (rv_conns s ! c) then rv_http2 s - 1 else rv_http2 s)\<rparr>
      else s)"
| "server_step StartDrain s = s\<lparr>rv_draining := True\<rparr>"

text \<open>
  The head of a response on connection \<open>c\<close>. The graceful shutdown of a connection starts with its stop future,
  which never ends on HTTP/1: there the header asks the client to close.
\<close>

definition rpc_response_head :: "'m header_ops \<Rightarrow> nat \<Rightarrow> rpc_server \<Rightarrow> 'm \<Rightarrow> 'm" where
  "rpc_response_head H c s headers =
     (let h = status_in_trailers H headers in
      if rc_http1 (rv_conns s ! c) \<and> rv_draining s then h_insert H h ''connection'' ''close'' else h)"

definition stop_signalled :: "nat \<Rightarrow> rpc_server \<Rightarrow> bool" where
  "stop_signalled c s \<longleftrightarrow> rv_draining s \<and> \<not> rc_http1 (rv_conns s ! c)"

text \<open>
  \<open>closed()\<close> resolves when no receiver of the shutdown channel is left: each connection holds some until it
  ends, and each call one until its response head.
\<close>

definition all_closed :: "rpc_server \<Rightarrow> bool" where
  "all_closed s \<longleftrightarrow> list_all (\<lambda>c. \<not> rc_open c) (rv_conns s)
     \<and> list_all (\<lambda>k. cl_stage k \<noteq> CallRunning) (rv_calls s)"

definition drain_end :: "string option \<Rightarrow> rpc_server \<Rightarrow> drain_result" where
  "drain_end fatal s = grpc_drain fatal (all_closed s) (unat (rv_inflight s)) (unat (rv_http2 s))"

definition live_calls :: "rpc_server \<Rightarrow> nat" where
  "live_calls s = length (filter call_alive (rv_calls s))"

definition http2_conns :: "rpc_server \<Rightarrow> nat" where
  "http2_conns s = length (filter rc_counted (rv_conns s))"

subsection \<open>The counters are exact\<close>

definition counters_ok :: "rpc_server \<Rightarrow> bool" where
  "counters_ok s \<longleftrightarrow> rv_inflight s = of_nat (live_calls s) \<and> rv_http2 s = of_nat (http2_conns s)
     \<and> list_all (\<lambda>c. rc_counted c \<longrightarrow> rc_open c) (rv_conns s)"

lemma filter_update:
  assumes "k < length xs"
  shows "length (filter P (xs[k := x])) + (if P (xs ! k) then 1 else 0)
    = length (filter P xs) + (if P x then 1 else 0)"
proof -
  have "xs = take k xs @ xs ! k # drop (Suc k) xs" using assms by (rule id_take_nth_drop)
  then have "filter P xs = filter P (take k xs) @ filter P [xs ! k] @ filter P (drop (Suc k) xs)"
    by (metis append_Cons append_Nil filter_append)
  then show ?thesis by (simp add: upd_conv_take_nth_drop assms)
qed

lemma put_call_ok:
  assumes "counters_ok s" and "k < length (rv_calls s)" and "call_alive c \<longrightarrow> call_alive (rv_calls s ! k)"
  shows "counters_ok (put_call k c s)"
proof -
  have u: "live_calls (put_call k c s) + (if call_alive (rv_calls s ! k) then 1 else 0)
      = live_calls s + (if call_alive c then 1 else 0)"
    using filter_update [OF assms(2), of call_alive c] by (simp add: live_calls_def put_call_def)
  have "rv_inflight (put_call k c s) = of_nat (live_calls (put_call k c s))"
  proof (cases "call_alive (rv_calls s ! k) \<and> \<not> call_alive c")
    case True
    with u have n: "live_calls s = live_calls (put_call k c s) + 1" by simp
    have "rv_inflight (put_call k c s) = rv_inflight s - 1" using True by (simp add: put_call_def)
    also have "rv_inflight s = of_nat (live_calls (put_call k c s) + 1)"
      using assms(1) by (simp add: counters_ok_def n)
    finally show ?thesis by simp
  next
    case False
    with u assms(3) have "live_calls (put_call k c s) = live_calls s" by (auto split: if_splits)
    with False assms(1) show ?thesis by (auto simp: put_call_def counters_ok_def)
  qed
  with assms(1) show ?thesis by (simp add: counters_ok_def put_call_def http2_conns_def)
qed

lemma list_all_update: "list_all P xs \<Longrightarrow> P x \<Longrightarrow> list_all P (xs[k := x])"
  by (auto simp: list_all_iff dest!: set_update_subset_insert [THEN subsetD])

lemma server_step_ok:
  assumes "counters_ok s"
  shows "counters_ok (server_step a s)"
proof (cases a)
  case OpenConnection
  with assms show ?thesis by (simp add: counters_ok_def live_calls_def http2_conns_def)
next
  case (RequestArrives c v)
  show ?thesis
  proof (cases "c < length (rv_conns s) \<and> rc_open (rv_conns s ! c)")
    case True
    let ?c = "(rv_conns s ! c)\<lparr>rc_http1 := v \<noteq> Http2, rc_counted := rc_counted (rv_conns s ! c) \<or> v = Http2\<rparr>"
    from True filter_update [of c "rv_conns s" rc_counted ?c]
    have u: "length (filter rc_counted ((rv_conns s)[c := ?c])) + (if rc_counted (rv_conns s ! c) then 1 else 0)
      = length (filter rc_counted (rv_conns s)) + (if rc_counted (rv_conns s ! c) \<or> v = Http2 then 1 else 0)"
      by simp
    have l: "list_all (\<lambda>c. rc_counted c \<longrightarrow> rc_open c) ((rv_conns s)[c := ?c])"
      using assms True by (intro list_all_update) (simp_all add: counters_ok_def)
    show ?thesis
    proof (cases "v = Http2 \<and> \<not> rc_counted (rv_conns s ! c)")
      case new: True
      with u have "length (filter rc_counted ((rv_conns s)[c := ?c])) = Suc (length (filter rc_counted (rv_conns s)))"
        by simp
      with l assms True new show ?thesis
        by (simp add: RequestArrives counters_ok_def live_calls_def http2_conns_def call_alive_def Let_def)
    next
      case old: False
      with u have "length (filter rc_counted ((rv_conns s)[c := ?c])) = length (filter rc_counted (rv_conns s))"
        by (auto split: if_splits)
      with l assms True old show ?thesis
        by (auto simp: RequestArrives counters_ok_def live_calls_def http2_conns_def call_alive_def Let_def)
    qed
  next
    case False
    then show ?thesis using assms by (auto simp: RequestArrives)
  qed
next
  case (HeadReady k)
  with assms show ?thesis by (auto simp: call_alive_def intro!: put_call_ok)
next
  case (FrameReadyOn k)
  with assms show ?thesis by (auto simp: call_alive_def intro!: put_call_ok)
next
  case (DropCall k)
  with assms show ?thesis by (auto simp: call_alive_def intro!: put_call_ok)
next
  case (DropBytes k)
  with assms show ?thesis by (auto simp: call_alive_def intro!: put_call_ok)
next
  case (EndConnection c)
  show ?thesis
  proof (cases "c < length (rv_conns s) \<and> rc_open (rv_conns s ! c)")
    case True
    let ?c = "(rv_conns s ! c)\<lparr>rc_open := False, rc_counted := False\<rparr>"
    from True filter_update [of c "rv_conns s" rc_counted ?c]
    have u: "length (filter rc_counted ((rv_conns s)[c := ?c])) + (if rc_counted (rv_conns s ! c) then 1 else 0)
      = length (filter rc_counted (rv_conns s))" by simp
    have l: "list_all (\<lambda>c. rc_counted c \<longrightarrow> rc_open c) ((rv_conns s)[c := ?c])"
      using assms by (intro list_all_update) (simp_all add: counters_ok_def)
    have "(of_nat (length (filter rc_counted (rv_conns s))) :: 64 word)
      = of_nat (length (filter rc_counted ((rv_conns s)[c := ?c]))) + (if rc_counted (rv_conns s ! c) then 1 else 0)"
      unfolding u [symmetric] by simp
    with l assms True show ?thesis
      by (simp add: EndConnection counters_ok_def live_calls_def http2_conns_def)
  next
    case False
    then show ?thesis using assms by (auto simp: EndConnection)
  qed
next
  case StartDrain
  with assms show ?thesis by (simp add: counters_ok_def live_calls_def http2_conns_def)
qed

definition server_run :: "server_act list \<Rightarrow> rpc_server \<Rightarrow> rpc_server" where
  "server_run acts s = foldl (\<lambda>s a. server_step a s) s acts"

lemma server_run_ok: "counters_ok s \<Longrightarrow> counters_ok (server_run acts s)"
  unfolding server_run_def by (induction acts arbitrary: s) (auto intro: server_step_ok)

lemma server_step_sizes:
  "length (rv_conns (server_step a s)) \<le> length (rv_conns s) + 1"
  "length (rv_calls (server_step a s)) \<le> length (rv_calls s) + 1"
  by (cases a; simp add: put_call_def Let_def)+

lemma server_run_sizes:
  "length (rv_conns (server_run acts s)) \<le> length (rv_conns s) + length acts
   \<and> length (rv_calls (server_run acts s)) \<le> length (rv_calls s) + length acts"
proof (induction acts arbitrary: s)
  case (Cons a acts)
  from Cons.IH [of "server_step a s"] server_step_sizes [of a s] show ?case by (simp add: server_run_def)
qed (simp add: server_run_def)

lemma server_start_ok: "counters_ok server_start"
  by (simp add: counters_ok_def server_start_def live_calls_def http2_conns_def)

section \<open>Properties\<close>

text \<open>
  C21: A gRPC request gives back every body permit it took. Whatever connectrpc does with the request, in any
  order and among any other tasks of the pool (a refused reservation, body frames over the budget or too
  late, a message that does not decode, a full or stopped queue, a client that leaves), at every moment the free permits,
  those of the other tasks, those of queued units and those of this request make up the whole budget, and
  once the request is over it holds none.
\<close>

theorem grpc_request_returns_its_permits:
  assumes "semaphore S avail closed" and "balanced avail others0 i0"
    and "shared_run H S J avail (others0, i0) r others i"
  shows "balanced avail (others + own_permits r) i
    \<and> (rr_stage r = RequestOver \<longrightarrow> own_permits r = 0 \<and> balanced avail others i)"
proof -
  have "balanced avail (others + own_permits r) i \<and> request_ok r"
    by (rule semaphore.shared_run_balanced [OF assms(1,3)]) (simp add: assms(2))
  then show ?thesis by (auto simp: request_ok_def own_permits_def)
qed

fun request_run ::
  "'m header_ops \<Rightarrow> 's sem_ops \<Rightarrow> (bytes \<Rightarrow> (bytes, error_code \<times> bytes) result) \<Rightarrow> request_act list
   \<Rightarrow> rpc_request \<Rightarrow> 's intake \<Rightarrow> (rpc_request \<times> 's intake) option" where
  "request_run H S J [] r i = Some (r, i)"
| "request_run H S J (a # as) r i = (case request_step H S J a r i of
     None \<Rightarrow> None | Some (r', i') \<Rightarrow> request_run H S J as r' i')"

lemma request_run_shared:
  "request_run H S J as r i = Some (r', i') \<Longrightarrow> shared_run H S J avail start r others i
   \<Longrightarrow> shared_run H S J avail start r' others i'"
  by (induction "as" arbitrary: r i) (auto split: option.splits intro: own_step)

definition sample_acts :: "request_act list" where
  "sample_acts = [StartRequest, PollBody False (FrameReady (RpcData ''abc'')), PollBody False BodyEnd,
     CallUnary CodecProto ''abc'', FinishResponse]"

definition sample_late_acts :: "request_act list" where
  "sample_late_acts = [StartRequest, PollBody False (FrameReady (RpcData ''abc'')), PollBody True FramePending, FinishResponse]"

definition rpc_intake :: "(nat \<times> bool) intake" where
  "rpc_intake = intake_new count_sem (pool_new ''grpc'' [])"

definition sample_rpc :: "request_act list \<Rightarrow> (rpc_request \<times> (nat \<times> bool) intake) option" where
  "sample_rpc acts = request_run list_headers count_sem (\<lambda>_. Err (CodeInvalidArgument, [])) acts new_request rpc_intake"

text \<open>
  A call that is queued leaves its three permits with the queue; one that is refused for its idle body leaves
  none.
\<close>

theorem grpc_request_returns_its_permits_witness:
  "(case sample_rpc sample_acts of None \<Rightarrow> False | Some (r, i) \<Rightarrow>
      balanced fst 0 i \<and> own_permits r = 0 \<and> i_queue i = [3] \<and> fst (i_budget i) = BODY_BUDGET - 3)
   \<and> (case sample_rpc sample_late_acts of None \<Rightarrow> False | Some (r, i) \<Rightarrow>
      balanced fst 0 i \<and> own_permits r = 0
      \<and> rr_refusal r = Some (CodeDeadline, ''request body idle timeout'') \<and> fst (i_budget i) = BODY_BUDGET)"
proof -
  have b: "balanced fst 0 rpc_intake"
    by (simp add: balanced_def rpc_intake_def intake_new_def count_sem_def)
  have e: "\<And>acts r i. sample_rpc acts = Some (r, i) \<Longrightarrow> rr_stage r = RequestOver \<Longrightarrow>
      balanced fst 0 i \<and> own_permits r = 0"
    using grpc_request_returns_its_permits [OF cs.semaphore_axioms b]
      request_run_shared [OF _ begins [where start = "(0, rpc_intake)", unfolded fst_conv snd_conv]]
    unfolding sample_rpc_def by blast
  have 1: "(case sample_rpc sample_acts of None \<Rightarrow> False | Some (r, i) \<Rightarrow>
      rr_stage r = RequestOver \<and> i_queue i = [3] \<and> fst (i_budget i) = BODY_BUDGET - 3)"
    by code_simp
  have 2: "(case sample_rpc sample_late_acts of None \<Rightarrow> False | Some (r, i) \<Rightarrow>
      rr_stage r = RequestOver \<and> rr_refusal r = Some (CodeDeadline, ''request body idle timeout'')
      \<and> fst (i_budget i) = BODY_BUDGET)"
    by code_simp
  from 1 2 e show ?thesis by (auto split: option.splits)
qed

text \<open>
  C22: The drain of the gRPC plugin reports exactly what it cut. After any history of connections, requests,
  responses and drops, its two counters are the calls that something still holds and the open HTTP/2
  connections, so it fails with these numbers when the grace ends before the connections do and one of them is not zero, and
  when it reports a clean end no call was left without its response head: either every
  connection ended, or no byte of a call and no HTTP/2 connection is left.
\<close>

theorem drain_verdict_is_exact:
  assumes "s = server_run acts server_start" and "length acts < 2 ^ 64"
  shows "drain_end None s = (if \<not> all_closed s \<and> (live_calls s > 0 \<or> http2_conns s > 0)
        then DrainTimedOut (live_calls s) (http2_conns s) else DrainedCleanly)
    \<and> (drain_end None s = DrainedCleanly \<longrightarrow>
        list_all (\<lambda>k. cl_stage k \<noteq> CallRunning) (rv_calls s)
        \<and> (list_all (\<lambda>c. \<not> rc_open c) (rv_conns s) \<or> live_calls s = 0 \<and> http2_conns s = 0))"
proof -
  have ok: "counters_ok s" unfolding assms(1) by (rule server_run_ok [OF server_start_ok])
  have "live_calls s \<le> length acts" "http2_conns s \<le> length acts"
    using server_run_sizes [of acts server_start]
    by (auto simp: assms(1) live_calls_def http2_conns_def server_start_def intro: le_trans [OF length_filter_le])
  with ok assms(2) have n: "unat (rv_inflight s) = live_calls s" "unat (rv_http2 s) = http2_conns s"
    by (simp_all add: counters_ok_def unat_of_nat)
  have v: "drain_end None s = (if \<not> all_closed s \<and> (live_calls s > 0 \<or> http2_conns s > 0)
        then DrainTimedOut (live_calls s) (http2_conns s) else DrainedCleanly)"
    by (simp add: drain_end_def grpc_drain_def n)
  have "live_calls s = 0 \<Longrightarrow> list_all (\<lambda>k. cl_stage k \<noteq> CallRunning) (rv_calls s)"
    by (auto simp: live_calls_def filter_empty_conv call_alive_def list_all_iff)
  then show ?thesis unfolding v by (auto simp: all_closed_def)
qed

definition sample_history :: "server_act list" where
  "sample_history = [OpenConnection, OpenConnection, RequestArrives 0 Http2, RequestArrives 0 Http2, RequestArrives 1 Http11,
     HeadReady 0, FrameReadyOn 0, DropCall 0, StartDrain, DropCall 2]"

theorem drain_verdict_is_exact_witness:
  "drain_end None (server_run sample_history server_start) = DrainTimedOut 2 1
   \<and> drain_end None (server_run (sample_history @ [DropBytes 0, DropCall 1, EndConnection 0]) server_start) = DrainedCleanly"
proof -
  have n: "live_calls (server_run sample_history server_start) = 2" "http2_conns (server_run sample_history server_start) = 1"
    "\<not> all_closed (server_run sample_history server_start)"
    "live_calls (server_run (sample_history @ [DropBytes 0, DropCall 1, EndConnection 0]) server_start) = 0"
    "http2_conns (server_run (sample_history @ [DropBytes 0, DropCall 1, EndConnection 0]) server_start) = 0"
    by code_simp+
  have l: "length sample_history < 2 ^ 64" "length (sample_history @ [DropBytes 0, DropCall 1, EndConnection 0]) < 2 ^ 64"
    by (simp_all add: sample_history_def)
  from drain_verdict_is_exact [OF refl l(1)] drain_verdict_is_exact [OF refl l(2)] n show ?thesis by simp
qed

text \<open>
  The drain asks every connection to close: with a graceful shutdown, or, on HTTP/1, with a header on
  each response that follows.
\<close>

theorem drain_asks_to_close:
  assumes "rv_draining s"
  shows "stop_signalled c s
    \<or> rpc_response_head H c s headers = h_insert H (status_in_trailers H headers) ''connection'' ''close''"
  using assms by (simp add: stop_signalled_def rpc_response_head_def Let_def)

end
