(* ===== verification/PhpRuntime.thy ===== *)
theory PhpRuntime
  imports Process "HOL-Library.AList"
begin

text \<open>
  The engine under the threads (\<open>sapi/src/start.rs\<close>, \<open>sapi/src/exchange/receive.rs\<close>): who may call into
  PHP and when. The thread-safe engine keeps one block of globals per OS thread, made by
  \<open>ts_resource_ex\<close> and freed by \<open>ts_free_thread\<close>; the module itself is started and shut down once, on the
  boot thread, and shutting it down under a thread that still has its block destroys memory in use.
  The first part models the counter, the start gate and the guards that keep this order, as steps that
  interleave in any way, and checks the calls they make against a specification of the engine.
  The second part is the cached \<open>Dispatcher\<close> object of a PHP thread, a raw engine pointer in a thread
  local, over an explicit object store.
\<close>

section \<open>The calls into the engine and what it accepts\<close>

type_synonym thread_id = "nat \<times> nat" \<comment> \<open>the pool and the index in it\<close>

datatype php_call =
    TsrmStartup nat | SapiStartup | ModuleStartup | RegisterClasses nat
  | TsResource thread_id | ThreadInit thread_id | InitCallStack thread_id | RunCode thread_id
  | ThreadDisarm thread_id | TsFree thread_id
  | ModuleShutdown | SapiShutdown | TsrmShutdown

text \<open>
  The engine's contract: classes are registered inside the startup of the module; a thread takes its
  block once and before any other call, and frees it once and last; the module goes down once, when no
  thread holds a block, and the shutdown calls come in their order with nothing after them.
\<close>

datatype engine_phase = EnOff | EnTsrm | EnSapi | EnUp | EnDown | EnSapiDown | EnTsrmDown

fun engine_accepts :: "php_call \<Rightarrow> engine_phase \<times> thread_id list \<Rightarrow> (engine_phase \<times> thread_id list) option" where
  "engine_accepts (TsrmStartup n) (ph, held) = (if ph = EnOff then Some (EnTsrm, held) else None)"
| "engine_accepts SapiStartup (ph, held) = (if ph = EnTsrm then Some (EnSapi, held) else None)"
| "engine_accepts ModuleStartup (ph, held) = (if ph = EnSapi then Some (EnUp, held) else None)"
| "engine_accepts (RegisterClasses k) (ph, held) =
     (if ph = EnUp \<and> held = [] then Some (EnUp, held) else None)"
| "engine_accepts (TsResource t) (ph, held) =
     (if ph = EnUp \<and> t \<notin> set held then Some (ph, t # held) else None)"
| "engine_accepts (ThreadInit t) (ph, held) = (if ph = EnUp \<and> t \<in> set held then Some (ph, held) else None)"
| "engine_accepts (InitCallStack t) (ph, held) = (if ph = EnUp \<and> t \<in> set held then Some (ph, held) else None)"
| "engine_accepts (RunCode t) (ph, held) = (if ph = EnUp \<and> t \<in> set held then Some (ph, held) else None)"
| "engine_accepts (ThreadDisarm t) (ph, held) = (if ph = EnUp \<and> t \<in> set held then Some (ph, held) else None)"
| "engine_accepts (TsFree t) (ph, held) =
     (if ph = EnUp \<and> t \<in> set held then Some (ph, remove1 t held) else None)"
| "engine_accepts ModuleShutdown (ph, held) =
     (if ph = EnUp \<and> held = [] then Some (EnDown, held) else None)"
| "engine_accepts SapiShutdown (ph, held) = (if ph = EnDown then Some (EnSapiDown, held) else None)"
| "engine_accepts TsrmShutdown (ph, held) = (if ph = EnSapiDown then Some (EnTsrmDown, held) else None)"

fun engine_log :: "php_call list \<Rightarrow> engine_phase \<times> thread_id list \<Rightarrow> (engine_phase \<times> thread_id list) option" where
  "engine_log [] s = Some s"
| "engine_log (c # cs) s = (case engine_accepts c s of None \<Rightarrow> None | Some s' \<Rightarrow> engine_log cs s')"

lemma engine_run_append:
  "engine_log (cs @ ds) s = (case engine_log cs s of None \<Rightarrow> None | Some s' \<Rightarrow> engine_log ds s')"
  by (induction cs arbitrary: s) (auto split: option.split)

section \<open>The module, its threads and the start gate\<close>

text \<open>
  A thread is at its pool's gate, between two lives, inside PHP (it owns a \<open>PhpThread\<close>), or done with
  its work and about to drop its \<open>ActiveThread\<close>. A gate waits, has let every thread through, or was
  dropped by a failed spawn.
\<close>

datatype thread_phase = AtGate | BetweenLives | InPhp | ThreadDone

datatype start_gate = GateWaiting | GateOpened | GateDropped

record php_runtime =
  pr_module :: bool                               \<comment> \<open>a \<open>PhpModule\<close> is alive\<close>
  pr_active :: nat
  pr_threads :: "(thread_id \<times> thread_phase) list"
  pr_gate :: "nat \<Rightarrow> start_gate"
  pr_calls :: "php_call list"                     \<comment> \<open>in order\<close>
  pr_forced :: "nat option"                       \<comment> \<open>the process was terminated with this code\<close>

definition php_off :: php_runtime where
  "php_off = \<lparr>pr_module = False, pr_active = 0, pr_threads = [], pr_gate = (\<lambda>_. GateWaiting), pr_calls = [], pr_forced = None\<rparr>"

definition calling :: "php_call list \<Rightarrow> php_runtime \<Rightarrow> php_runtime" where
  "calling cs r = r\<lparr>pr_calls := pr_calls r @ cs\<rparr>"

definition active_new :: "php_runtime \<Rightarrow> php_runtime" where
  "active_new r = r\<lparr>pr_active := pr_active r + 1\<rparr>"

definition active_drop :: "php_runtime \<Rightarrow> php_runtime" where
  "active_drop r = r\<lparr>pr_active := pr_active r - 1\<rparr>"

text \<open>\<open>rapira_rs_register_plugin_classes\<close> calls each function \<open>boot_master\<close> stored for the boot thread, in order.\<close>

definition register_plugin_classes :: "nat list \<Rightarrow> php_call list" where
  "register_plugin_classes register = map RegisterClasses register"

definition php_module_drop :: "php_runtime \<Rightarrow> php_runtime" where
  "php_module_drop r = (if pr_active r \<noteq> 0 then r\<lparr>pr_forced := Some 1\<rparr>
     else (calling [ModuleShutdown, SapiShutdown, TsrmShutdown] r)\<lparr>pr_module := False\<rparr>)"

text \<open>
  \<open>boot_master\<close>, given whether TSRM starts, whether the startup of the module gets to the class
  registration and whether it succeeds (the check of the version is in \<open>boot_master\<close> of theory Process).
  A module that fails to start is dropped, which shuts it down.
\<close>

definition boot_engine :: "nat list \<Rightarrow> nat \<Rightarrow> bool \<Rightarrow> bool \<Rightarrow> bool \<Rightarrow> php_runtime \<Rightarrow> php_runtime" where
  "boot_engine register threads tsrm minit started r =
     (if \<not> tsrm then r
      else (let r1 = (calling ([TsrmStartup (threads + 1), SapiStartup, ModuleStartup]
                        @ (if minit then register_plugin_classes register else [])) r)\<lparr>pr_module := True\<rparr>
            in if started then r1 else php_module_drop r1))"

text \<open>\<open>PhpThread::new\<close>: a thread whose directory cannot be entered drops the value at once.\<close>

definition php_thread_drop :: "thread_id \<Rightarrow> php_runtime \<Rightarrow> php_runtime" where
  "php_thread_drop t = calling [ThreadDisarm t, TsFree t]"

definition php_thread_new :: "thread_id \<Rightarrow> bool \<Rightarrow> php_runtime \<Rightarrow> bool \<times> php_runtime" where
  "php_thread_new t enters r =
     (let r1 = calling [TsResource t, ThreadInit t] r
      in if enters then (True, calling [InitCallStack t] r1) else (False, php_thread_drop t r1))"

definition to_phase :: "thread_id \<Rightarrow> thread_phase \<Rightarrow> php_runtime \<Rightarrow> php_runtime" where
  "to_phase t ph r = r\<lparr>pr_threads := AList.update t ph (pr_threads r)\<rparr>"

text \<open>
  The steps. \<open>start_pool\<close> borrows the module, so it spawns only while the module is alive, and it is
  one call: the spawns of a pool precede the opening or the loss of its gate. Everything a thread does
  may interleave with the others and with the boot thread, the drop of the module included.
\<close>

datatype php_event =
    BootEngine "nat list" nat bool bool bool
  | SpawnThread nat nat
  | SpawnFails nat
  | OpenGate nat
  | PassGate thread_id
  | EnterPhp thread_id bool
  | Execute thread_id
  | LeavePhp thread_id
  | BreakLoop thread_id
  | ThreadEnds thread_id
  | DropModule

definition at_phase :: "thread_id \<Rightarrow> thread_phase \<Rightarrow> php_runtime \<Rightarrow> bool" where
  "at_phase t ph r = (map_of (pr_threads r) t = Some ph)"

fun php_act :: "php_event \<Rightarrow> php_runtime \<Rightarrow> php_runtime option" where
  "php_act (BootEngine register threads tsrm minit started) r =
     (if pr_calls r = [] \<and> \<not> pr_module r then Some (boot_engine register threads tsrm minit started r) else None)"
| "php_act (SpawnThread p i) r =
     (if pr_module r \<and> pr_gate r p = GateWaiting \<and> map_of (pr_threads r) (p, i) = None
      then Some (to_phase (p, i) AtGate (active_new r)) else None)"
| "php_act (SpawnFails p) r =
     (if pr_module r \<and> pr_gate r p = GateWaiting
      then Some ((active_drop (active_new r))\<lparr>pr_gate := (pr_gate r)(p := GateDropped)\<rparr>) else None)"
| "php_act (OpenGate p) r =
     (if pr_module r \<and> pr_gate r p = GateWaiting then Some (r\<lparr>pr_gate := (pr_gate r)(p := GateOpened)\<rparr>) else None)"
| "php_act (PassGate t) r =
     (if at_phase t AtGate r then (case pr_gate r (fst t) of
        GateWaiting \<Rightarrow> None
      | GateOpened \<Rightarrow> Some (to_phase t BetweenLives r)
      | GateDropped \<Rightarrow> Some (to_phase t ThreadDone r)) else None)"
| "php_act (EnterPhp t enters) r =
     (if at_phase t BetweenLives r then (case php_thread_new t enters r of
        (True, r1) \<Rightarrow> Some (to_phase t InPhp r1)
      | (False, r1) \<Rightarrow> Some (to_phase t ThreadDone r1)) else None)"
| "php_act (Execute t) r = (if at_phase t InPhp r then Some (calling [RunCode t] r) else None)"
| "php_act (LeavePhp t) r =
     (if at_phase t InPhp r then Some (to_phase t BetweenLives (php_thread_drop t r)) else None)"
| "php_act (BreakLoop t) r = (if at_phase t BetweenLives r then Some (to_phase t ThreadDone r) else None)"
| "php_act (ThreadEnds t) r =
     (if at_phase t ThreadDone r
      then Some (active_drop (r\<lparr>pr_threads := AList.delete t (pr_threads r)\<rparr>)) else None)"
| "php_act DropModule r = (if pr_module r then Some (php_module_drop r) else None)"

text \<open>A terminated process takes no step.\<close>

fun php_runs :: "php_event list \<Rightarrow> php_runtime \<Rightarrow> php_runtime option" where
  "php_runs [] r = Some r"
| "php_runs (e # es) r =
     (if pr_forced r \<noteq> None then None
      else (case php_act e r of None \<Rightarrow> None | Some r' \<Rightarrow> php_runs es r'))"

subsection \<open>The order is kept\<close>

definition phase_threads :: "thread_phase \<Rightarrow> php_runtime \<Rightarrow> thread_id set" where
  "phase_threads ph r = {t. at_phase t ph r}"

definition entered :: "php_call \<Rightarrow> thread_id option" where
  "entered c = (case c of TsResource t \<Rightarrow> Some t | _ \<Rightarrow> None)"

lemma entered_simps [simp]:
  "entered (TsResource t) = Some t"
  "entered (ThreadInit t) = None" "entered (InitCallStack t) = None" "entered (RunCode t) = None"
  "entered (ThreadDisarm t) = None" "entered (TsFree t) = None" "entered (RegisterClasses k) = None"
  "entered (TsrmStartup n) = None" "entered SapiStartup = None" "entered ModuleStartup = None"
  "entered ModuleShutdown = None" "entered SapiShutdown = None" "entered TsrmShutdown = None"
  by (simp_all add: entered_def)

definition runtime_inv :: "php_runtime \<Rightarrow> bool" where
  "runtime_inv r \<longleftrightarrow>
     (\<exists>ph held. engine_log (pr_calls r) (EnOff, []) = Some (ph, held) \<and> distinct held
        \<and> set held = phase_threads InPhp r \<and> (pr_module r \<longleftrightarrow> ph = EnUp))
     \<and> distinct (map fst (pr_threads r)) \<and> pr_active r = length (pr_threads r)
     \<and> (pr_module r \<or> pr_threads r = [])
     \<and> (\<forall>t ph. at_phase t ph r \<longrightarrow> ph = InPhp \<or> ph = BetweenLives \<longrightarrow> pr_gate r (fst t) = GateOpened)
     \<and> (\<forall>c \<in> set (pr_calls r). \<forall>t. entered c = Some t \<longrightarrow> pr_gate r (fst t) = GateOpened)"

lemma at_phase_to_phase [simp]:
  "at_phase u ph (to_phase t ph' r) = (if u = t then ph = ph' else at_phase u ph r)"
  by (auto simp: at_phase_def to_phase_def update_conv)

lemma to_phase_frame [simp]:
  "pr_module (to_phase t ph r) = pr_module r" "pr_active (to_phase t ph r) = pr_active r"
  "pr_gate (to_phase t ph r) = pr_gate r" "pr_calls (to_phase t ph r) = pr_calls r"
  "pr_forced (to_phase t ph r) = pr_forced r"
  by (simp_all add: to_phase_def)

lemma at_phase_frame [simp]:
  "at_phase u ph (r\<lparr>pr_forced := x\<rparr>) = at_phase u ph r" "at_phase u ph (r\<lparr>pr_active := n\<rparr>) = at_phase u ph r"
  "at_phase u ph (r\<lparr>pr_gate := g\<rparr>) = at_phase u ph r"
  by (simp_all add: at_phase_def)

lemma calling_frame [simp]:
  "pr_module (calling cs r) = pr_module r" "pr_active (calling cs r) = pr_active r"
  "pr_gate (calling cs r) = pr_gate r" "pr_calls (calling cs r) = pr_calls r @ cs"
  "pr_threads (calling cs r) = pr_threads r" "pr_forced (calling cs r) = pr_forced r"
  "at_phase t ph (calling cs r) = at_phase t ph r"
  by (simp_all add: calling_def at_phase_def)

lemma length_update_old: "map_of xs t \<noteq> None \<Longrightarrow> length (AList.update t ph xs) = length xs"
  by (induction xs) (auto split: if_splits)

lemma length_update_new: "map_of xs t = None \<Longrightarrow> length (AList.update t ph xs) = Suc (length xs)"
  by (induction xs) (auto split: if_splits)

lemma length_delete:
  "distinct (map fst xs) \<Longrightarrow> map_of xs t \<noteq> None \<Longrightarrow> length (AList.delete t xs) = length xs - 1"
proof (induction xs)
  case (Cons x xs)
  show ?case
  proof (cases "fst x = t")
    case True
    then have "t \<notin> fst ` set xs" using Cons.prems by auto
    then have "AList.delete t xs = xs" by (simp add: delete_idem)
    then show ?thesis using True by (cases x) simp
  next
    case False
    then have "map_of xs t \<noteq> None" using Cons.prems by (cases x) auto
    moreover from this have "xs \<noteq> []" by auto
    ultimately show ?thesis using Cons False by (cases x; cases xs) auto
  qed
qed simp

lemma runtime_invI:
  assumes "engine_log (pr_calls r) (EnOff, []) = Some (ph, held)" "distinct held"
    "set held = phase_threads InPhp r" "pr_module r \<longleftrightarrow> ph = EnUp"
    "distinct (map fst (pr_threads r))" "pr_active r = length (pr_threads r)"
    "pr_module r \<or> pr_threads r = []"
    "\<And>t ph. at_phase t ph r \<Longrightarrow> ph = InPhp \<or> ph = BetweenLives \<Longrightarrow> pr_gate r (fst t) = GateOpened"
    "\<And>c t. c \<in> set (pr_calls r) \<Longrightarrow> entered c = Some t \<Longrightarrow> pr_gate r (fst t) = GateOpened"
  shows "runtime_inv r"
  unfolding runtime_inv_def using assms by blast

lemma runtime_invE:
  assumes "runtime_inv r"
  obtains ph held where "engine_log (pr_calls r) (EnOff, []) = Some (ph, held)" "distinct held"
    "set held = phase_threads InPhp r" "pr_module r \<longleftrightarrow> ph = EnUp"
    "distinct (map fst (pr_threads r))" "pr_active r = length (pr_threads r)"
    "pr_module r \<or> pr_threads r = []"
    "\<And>t ph. at_phase t ph r \<Longrightarrow> ph = InPhp \<or> ph = BetweenLives \<Longrightarrow> pr_gate r (fst t) = GateOpened"
    "\<And>c t. c \<in> set (pr_calls r) \<Longrightarrow> entered c = Some t \<Longrightarrow> pr_gate r (fst t) = GateOpened"
  using assms unfolding runtime_inv_def by blast

lemma register_run:
  "engine_log (register_plugin_classes ks) (EnUp, []) = Some (EnUp, [])"
  by (induction ks) (simp_all add: register_plugin_classes_def)

lemma register_entered: "c \<in> set (register_plugin_classes ks) \<Longrightarrow> entered c = None"
  by (auto simp: register_plugin_classes_def)

lemma phase_threads_calling [simp]: "phase_threads ph (calling cs r) = phase_threads ph r"
  by (simp add: phase_threads_def)

lemma phase_threads_to [simp]:
  "phase_threads ph (to_phase t ph' r) = (if ph = ph' then insert t (phase_threads ph r) else phase_threads ph r - {t})"
  by (auto simp: phase_threads_def)

lemma in_phase_threads: "t \<in> phase_threads ph r \<longleftrightarrow> at_phase t ph r"
  by (simp add: phase_threads_def)

lemma distinct_to_phase [simp]:
  "distinct (map fst (pr_threads r)) \<Longrightarrow> distinct (map fst (pr_threads (to_phase t ph r)))"
  by (simp add: to_phase_def distinct_update)

lemma length_to_phase:
  "at_phase t ph' r \<Longrightarrow> length (pr_threads (to_phase t ph r)) = length (pr_threads r)"
  by (simp add: to_phase_def at_phase_def length_update_old)

lemma at_phase_module: "runtime_inv r \<Longrightarrow> at_phase t ph r \<Longrightarrow> pr_module r"
  by (auto simp: runtime_inv_def at_phase_def)

lemma at_phase_unique: "at_phase t ph r \<Longrightarrow> at_phase t ph' r \<Longrightarrow> ph = ph'"
  by (simp add: at_phase_def)

lemma runtime_thread_step:
  assumes I: "runtime_inv r" and at: "at_phase t ph0 r"
    and run: "\<And>held. set held = phase_threads InPhp r \<Longrightarrow> distinct held \<Longrightarrow>
      \<exists>held'. engine_log cs (EnUp, held) = Some (EnUp, held') \<and> distinct held'
        \<and> set held' = phase_threads InPhp (to_phase t ph r)"
    and gate: "ph = InPhp \<or> ph = BetweenLives \<Longrightarrow> pr_gate r (fst t) = GateOpened"
    and enters: "\<And>c u. c \<in> set cs \<Longrightarrow> entered c = Some u \<Longrightarrow> pr_gate r (fst u) = GateOpened"
  shows "runtime_inv (to_phase t ph (calling cs r))"
proof -
  have up: "pr_module r" by (rule at_phase_module[OF I at])
  obtain en held where e: "engine_log (pr_calls r) (EnOff, []) = Some (en, held)" "distinct held"
      "set held = phase_threads InPhp r" "pr_module r \<longleftrightarrow> en = EnUp"
      "distinct (map fst (pr_threads r))" "pr_active r = length (pr_threads r)"
      "pr_module r \<or> pr_threads r = []"
    and g: "\<And>t ph. at_phase t ph r \<Longrightarrow> ph = InPhp \<or> ph = BetweenLives \<Longrightarrow> pr_gate r (fst t) = GateOpened"
    and c: "\<And>c t. c \<in> set (pr_calls r) \<Longrightarrow> entered c = Some t \<Longrightarrow> pr_gate r (fst t) = GateOpened"
    using I by (elim runtime_invE) (rule that)
  obtain held' where h: "engine_log cs (EnUp, held) = Some (EnUp, held')" "distinct held'"
    "set held' = phase_threads InPhp (to_phase t ph r)" using run e(2,3) by blast
  show ?thesis
  proof (rule runtime_invI)
    show "engine_log (pr_calls (to_phase t ph (calling cs r))) (EnOff, []) = Some (EnUp, held')"
      using e(1,4) up h(1) by (simp add: engine_run_append)
    show "distinct (map fst (pr_threads (to_phase t ph (calling cs r))))"
      using e(5) by (simp add: calling_def)
    show "pr_active (to_phase t ph (calling cs r)) = length (pr_threads (to_phase t ph (calling cs r)))"
      using e(6) length_to_phase[of t ph0 "calling cs r" ph] at by simp
  qed (use h up g c gate enters in \<open>auto split: if_splits\<close>)
qed

lemma php_thread_new_simps:
  "php_thread_new t enters r = (enters, calling (if enters then [TsResource t, ThreadInit t, InitCallStack t]
     else [TsResource t, ThreadInit t, ThreadDisarm t, TsFree t]) r)"
  by (simp add: php_thread_new_def php_thread_drop_def calling_def)

lemma boot_keeps_inv:
  assumes "runtime_inv r" "pr_calls r = []" "\<not> pr_module r"
  shows "runtime_inv (boot_engine register threads tsrm minit started r)"
proof -
  have t: "pr_threads r = []" "pr_active r = 0"
    and g: "\<And>t ph. \<not> at_phase t ph r" using assms by (auto simp: runtime_inv_def at_phase_def)
  show ?thesis
  proof (cases "tsrm")
    case False
    then show ?thesis using assms by (simp add: boot_engine_def)
  next
    case True
    show ?thesis
      using assms(2) t g True
      by (auto simp: runtime_inv_def boot_engine_def php_module_drop_def engine_run_append register_run
          phase_threads_def at_phase_def calling_def Let_def dest: register_entered)
  qed
qed

lemma spawn_keeps_inv:
  assumes I: "runtime_inv r" "pr_module r" "map_of (pr_threads r) t = None"
  shows "runtime_inv (to_phase t AtGate (active_new r))"
proof -
  have n: "\<not> at_phase t ph r" for ph using I(3) by (simp add: at_phase_def)
  have f: "at_phase u ph (active_new r) = at_phase u ph r" for u ph by (simp add: at_phase_def active_new_def)
  have p: "phase_threads InPhp (active_new r) - {t} = phase_threads InPhp r"
    using n by (auto simp: phase_threads_def f)
  have l: "length (pr_threads (to_phase t AtGate (active_new r))) = Suc (length (pr_threads r))"
    using I(3) by (simp add: to_phase_def active_new_def length_update_new)
  have d: "distinct (map fst (pr_threads r)) \<Longrightarrow> distinct (map fst (pr_threads (to_phase t AtGate (active_new r))))"
    by (rule distinct_to_phase) (simp add: active_new_def)
  show ?thesis
    using I(1,2) by (elim runtime_invE, intro runtime_invI)
      (auto simp: p l d f, auto simp: active_new_def split: if_splits)
qed

lemma end_keeps_inv:
  assumes I: "runtime_inv r" and at: "at_phase t ThreadDone r"
  shows "runtime_inv (active_drop (r\<lparr>pr_threads := AList.delete t (pr_threads r)\<rparr>))" (is "runtime_inv ?r'")
proof -
  have f: "at_phase u ph ?r' \<longleftrightarrow> u \<noteq> t \<and> at_phase u ph r" for u ph
    by (auto simp: at_phase_def active_drop_def delete_conv)
  have p: "phase_threads InPhp ?r' = phase_threads InPhp r"
    using at by (auto simp: phase_threads_def f dest: at_phase_unique)
  have l: "distinct (map fst (pr_threads r)) \<Longrightarrow> length (pr_threads ?r') = length (pr_threads r) - 1"
    using at by (simp add: active_drop_def at_phase_def length_delete)
  have d: "distinct (map fst (pr_threads r)) \<Longrightarrow> distinct (map fst (pr_threads ?r'))"
    by (simp add: active_drop_def distinct_delete)
  have up: "pr_module ?r'" using at_phase_module[OF I at] by (simp add: active_drop_def)
  show ?thesis
    using I up by (elim runtime_invE, intro runtime_invI)
      (auto simp: p l d f, auto simp: active_drop_def)
qed

lemma drop_keeps_inv:
  assumes I: "runtime_inv r" "pr_module r"
  shows "runtime_inv (php_module_drop r)"
proof (cases "pr_active r = 0")
  case True
  then have t: "pr_threads r = []" using I(1) by (auto simp: runtime_inv_def)
  obtain held where e: "engine_log (pr_calls r) (EnOff, []) = Some (EnUp, held)" "set held = phase_threads InPhp r"
    using I by (auto simp: runtime_inv_def)
  have h: "held = []" using e(2) t by (simp add: phase_threads_def at_phase_def)
  have c: "\<And>c t. c \<in> set (pr_calls r) \<Longrightarrow> entered c = Some t \<Longrightarrow> pr_gate r (fst t) = GateOpened"
    using I(1) by (auto simp: runtime_inv_def)
  show ?thesis
    using e(1) t h True c
    by (auto simp: runtime_inv_def php_module_drop_def engine_run_append phase_threads_def at_phase_def calling_def)
next
  case False
  have f: "at_phase u ph (r\<lparr>pr_forced := Some 1\<rparr>) = at_phase u ph r" for u ph by (simp add: at_phase_def)
  then have "phase_threads InPhp (r\<lparr>pr_forced := Some 1\<rparr>) = phase_threads InPhp r"
    by (simp add: phase_threads_def)
  then show ?thesis
    using I False by (simp add: runtime_inv_def php_module_drop_def)
qed

lemma gate_keeps_inv:
  assumes I: "runtime_inv r" and w: "pr_gate r p = GateWaiting"
  shows "runtime_inv (r\<lparr>pr_gate := (pr_gate r)(p := g)\<rparr>)"
proof -
  have "phase_threads ph (r\<lparr>pr_gate := (pr_gate r)(p := g)\<rparr>) = phase_threads ph r" for ph
    by (simp add: phase_threads_def)
  then show ?thesis using I w by (fastforce simp: runtime_inv_def)
qed

lemma gate_of: "runtime_inv r \<Longrightarrow> at_phase t ph r \<Longrightarrow> ph = InPhp \<or> ph = BetweenLives \<Longrightarrow> pr_gate r (fst t) = GateOpened"
  unfolding runtime_inv_def by blast

lemma thread_move_inv:
  assumes I: "runtime_inv r" and at: "at_phase t ph0 r" and no: "ph0 \<noteq> InPhp" "ph \<noteq> InPhp"
    and gate: "ph = BetweenLives \<Longrightarrow> pr_gate r (fst t) = GateOpened"
  shows "runtime_inv (to_phase t ph r)"
proof -
  have "t \<notin> phase_threads InPhp r" using at no by (auto simp: in_phase_threads dest: at_phase_unique)
  then have "runtime_inv (to_phase t ph (calling [] r))"
    using no gate by (intro runtime_thread_step[OF I at]) auto
  then show ?thesis by (simp add: calling_def)
qed

lemma enter_keeps_inv:
  assumes I: "runtime_inv r" and at: "at_phase t BetweenLives r"
  shows "runtime_inv (to_phase t (if enters then InPhp else ThreadDone) (snd (php_thread_new t enters r)))"
proof -
  have n: "t \<notin> phase_threads InPhp r" using at by (auto simp: in_phase_threads dest: at_phase_unique)
  have g: "pr_gate r (fst t) = GateOpened" using gate_of[OF I at] by simp
  show ?thesis
    unfolding php_thread_new_simps snd_conv
    by (rule runtime_thread_step[OF I at]) (use n g in \<open>auto split: if_splits\<close>)
qed

lemma execute_keeps_inv:
  assumes I: "runtime_inv r" and at: "at_phase t InPhp r"
  shows "runtime_inv (calling [RunCode t] r)"
proof -
  have e: "to_phase t InPhp (calling [RunCode t] r) = calling [RunCode t] r"
    using at by (simp add: to_phase_def calling_def at_phase_def update_triv)
  have g: "pr_gate r (fst t) = GateOpened" using gate_of[OF I at] by simp
  have i: "t \<in> phase_threads InPhp r" using at by (simp add: in_phase_threads)
  have "runtime_inv (to_phase t InPhp (calling [RunCode t] r))"
    by (rule runtime_thread_step[OF I at]) (use g i in \<open>auto simp: insert_absorb\<close>)
  then show ?thesis by (simp add: e)
qed

lemma leave_keeps_inv:
  assumes I: "runtime_inv r" and at: "at_phase t InPhp r"
  shows "runtime_inv (to_phase t BetweenLives (php_thread_drop t r))"
proof -
  have g: "pr_gate r (fst t) = GateOpened" using gate_of[OF I at] by simp
  have i: "t \<in> phase_threads InPhp r" using at by (simp add: in_phase_threads)
  show ?thesis
    unfolding php_thread_drop_def
  proof (rule runtime_thread_step[OF I at])
    fix held assume h: "set held = phase_threads InPhp r" "distinct held"
    then show "\<exists>held'. engine_log [ThreadDisarm t, TsFree t] (EnUp, held) = Some (EnUp, held') \<and> distinct held'
        \<and> set held' = phase_threads InPhp (to_phase t BetweenLives r)"
      using i by (intro exI[of _ "remove1 t held"]) (simp add: set_remove1_eq)
  qed (use g in auto)
qed

lemma php_act_keeps_inv:
  assumes I: "runtime_inv r" and s: "php_act e r = Some r'"
  shows "runtime_inv r'"
proof (cases e)
  case (BootEngine register threads tsrm minit started)
  then show ?thesis using s boot_keeps_inv[OF I] by (auto split: if_splits)
next
  case (SpawnThread p i)
  then show ?thesis using s spawn_keeps_inv[OF I] by (auto split: if_splits)
next
  case (SpawnFails p)
  have "active_drop (active_new r) = r" by (simp add: active_drop_def active_new_def)
  then show ?thesis using SpawnFails s gate_keeps_inv[OF I] by (auto split: if_splits)
next
  case (OpenGate p)
  then show ?thesis using s gate_keeps_inv[OF I] by (auto split: if_splits)
next
  case (PassGate t)
  then show ?thesis using s thread_move_inv[OF I, of t AtGate] by (auto split: if_splits start_gate.splits)
next
  case (EnterPhp t enters)
  then show ?thesis
    using s enter_keeps_inv[OF I, of t enters] by (simp add: php_thread_new_simps split: if_splits bool.splits)
next
  case (Execute t)
  then show ?thesis using s execute_keeps_inv[OF I, of t] by (auto split: if_splits)
next
  case (LeavePhp t)
  then show ?thesis using s leave_keeps_inv[OF I, of t] by (auto split: if_splits)
next
  case (BreakLoop t)
  then show ?thesis using s thread_move_inv[OF I, of t BetweenLives ThreadDone] by (auto split: if_splits)
next
  case (ThreadEnds t)
  then show ?thesis using s end_keeps_inv[OF I, of t] by (auto split: if_splits)
next
  case DropModule
  then show ?thesis using s drop_keeps_inv[OF I] by (auto split: if_splits)
qed

lemma runtime_inv_off: "runtime_inv php_off"
  by (simp add: runtime_inv_def php_off_def at_phase_def phase_threads_def)

lemma forced_only_with_threads:
  "php_act e r = Some r' \<Longrightarrow> pr_forced r = None \<Longrightarrow> pr_forced r' = None \<or> pr_active r' \<noteq> 0"
  by (induction e r rule: php_act.induct)
    (auto simp: boot_engine_def php_module_drop_def calling_def active_new_def active_drop_def php_thread_new_simps
       php_thread_drop_def Let_def split: if_splits start_gate.splits)

lemma php_runs_inv:
  "php_runs es r = Some r' \<Longrightarrow> runtime_inv r \<Longrightarrow> pr_forced r = None \<or> pr_active r \<noteq> 0 \<Longrightarrow>
     runtime_inv r' \<and> (pr_forced r' = None \<or> pr_active r' \<noteq> 0)"
proof (induction es arbitrary: r)
  case (Cons e es)
  then obtain r1 where r1: "pr_forced r = None" "php_act e r = Some r1" "php_runs es r1 = Some r'"
    by (auto split: if_splits option.splits)
  show ?case
    by (rule Cons.IH[OF r1(3) php_act_keeps_inv[OF Cons.prems(2) r1(2)] forced_only_with_threads[OF r1(2,1)]])
qed simp

text \<open>
  C36: However the boot, the spawns (failing ones too), the lives of the PHP threads and the drop of the
  module interleave, the engine accepts every call that is made, in its order: no thread calls into PHP
  without its block, none frees it twice, and the module never goes down while a thread holds one. A
  thread of a pool whose start failed never enters PHP, and the process is only terminated by the drop of the module
  when threads are still counted.
\<close>

theorem php_calls_are_orderly:
  assumes "php_runs es php_off = Some r"
  shows "engine_log (pr_calls r) (EnOff, []) \<noteq> None
    \<and> filter (\<lambda>c. case entered c of Some t \<Rightarrow> pr_gate r (fst t) \<noteq> GateOpened | None \<Rightarrow> False) (pr_calls r) = []
    \<and> (pr_module r \<or> pr_threads r = []) \<and> (pr_forced r = None \<or> pr_threads r \<noteq> [])"
proof -
  have I: "runtime_inv r" and f: "pr_forced r = None \<or> pr_active r \<noteq> 0"
    using php_runs_inv[OF assms runtime_inv_off] by (simp_all add: php_off_def)
  then show ?thesis by (auto simp: runtime_inv_def filter_empty_conv split: option.split)
qed

definition sample_php_events :: "php_event list" where
  "sample_php_events = [BootEngine [0, 1] 3 True True True,
     SpawnThread 0 0, SpawnThread 0 1, OpenGate 0, PassGate (0, 1), EnterPhp (0, 1) True,
     SpawnThread 1 0, SpawnFails 1, PassGate (1, 0), PassGate (0, 0), EnterPhp (0, 0) False,
     Execute (0, 1), ThreadEnds (0, 0), LeavePhp (0, 1), EnterPhp (0, 1) True, LeavePhp (0, 1),
     ThreadEnds (1, 0), BreakLoop (0, 1), ThreadEnds (0, 1), DropModule]"

lemma php_calls_are_orderly_witness:
  "map_option (\<lambda>r. (engine_log (pr_calls r) (EnOff, []), pr_active r, pr_forced r))
       (php_runs sample_php_events php_off) = Some (Some (EnTsrmDown, []), 0, None)
   \<and> engine_log (pr_calls (the (php_runs sample_php_events php_off))) (EnOff, []) \<noteq> None"
proof -
  have "\<not> Option.is_none (php_runs sample_php_events php_off)" by code_simp
  then have r: "php_runs sample_php_events php_off = Some (the (php_runs sample_php_events php_off))"
    by (simp add: Option.is_none_def)
  have "engine_log (pr_calls (the (php_runs sample_php_events php_off))) (EnOff, []) \<noteq> None"
    using php_calls_are_orderly[OF r] by blast
  moreover have "map_option (\<lambda>r. (engine_log (pr_calls r) (EnOff, []), pr_active r, pr_forced r))
       (php_runs sample_php_events php_off) = Some (Some (EnTsrmDown, []), 0, None)" by code_simp
  ultimately show ?thesis by blast
qed

section \<open>The cached dispatcher object\<close>

text \<open>
  The object store of one PHP thread: the reference count of each live object. Following a pointer to an
  object that is gone is undefined, the value \<open>None\<close> of a step. The script's own references are counted
  per object; the engine keeps them in step with the object.
\<close>

record dispatcher_state =
  ds_mode :: mode
  ds_cached :: "nat option"          \<comment> \<open>the thread local \<open>DISPATCHER\<close>\<close>
  ds_objects :: "nat \<Rightarrow> nat option"
  ds_script :: "nat \<Rightarrow> nat"
  ds_next :: nat                     \<comment> \<open>the next free address\<close>

datatype dispatcher_got = GotDispatcher nat | NoDispatcherError | GetBailed

definition object_init :: "dispatcher_state \<Rightarrow> nat \<times> dispatcher_state" where
  "object_init d = (ds_next d, d\<lparr>ds_objects := (ds_objects d)(ds_next d \<mapsto> 1), ds_next := ds_next d + 1\<rparr>)"

definition add_ref :: "nat \<Rightarrow> dispatcher_state \<Rightarrow> dispatcher_state option" where
  "add_ref a d = (case ds_objects d a of
     None \<Rightarrow> None | Some n \<Rightarrow> Some (d\<lparr>ds_objects := (ds_objects d)(a \<mapsto> n + 1)\<rparr>))"

definition ptr_dtor :: "nat \<Rightarrow> dispatcher_state \<Rightarrow> dispatcher_state option" where
  "ptr_dtor a d = (case ds_objects d a of
     None \<Rightarrow> None
   | Some n \<Rightarrow> Some (d\<lparr>ds_objects := (ds_objects d)(a := (if n = 1 then None else Some (n - 1)))\<rparr>))"

text \<open>\<open>rapira_rs_get_dispatcher\<close>; \<open>bails\<close> says that the allocation ran out of memory, which leaves the cache empty.\<close>

definition get_dispatcher :: "bool \<Rightarrow> dispatcher_state \<Rightarrow> (dispatcher_got \<times> dispatcher_state) option" where
  "get_dispatcher bails d =
     (if ds_mode d \<noteq> ModeDispatcher then Some (NoDispatcherError, d)
      else (case (case ds_cached d of
              Some a \<Rightarrow> Some (a, d)
            | None \<Rightarrow> if bails then None
                else (case object_init d of (a, d1) \<Rightarrow> Some (a, d1\<lparr>ds_cached := Some a\<rparr>))) of
         None \<Rightarrow> Some (GetBailed, d)
       | Some (a, d1) \<Rightarrow> (case add_ref a d1 of
           None \<Rightarrow> None
         | Some d2 \<Rightarrow> Some (GotDispatcher a, d2\<lparr>ds_script := (ds_script d2)(a := ds_script d2 a + 1)\<rparr>))))"

definition dispatcher_release :: "dispatcher_state \<Rightarrow> dispatcher_state option" where
  "dispatcher_release d = (case ds_cached d of
     None \<Rightarrow> Some d | Some a \<Rightarrow> ptr_dtor a (d\<lparr>ds_cached := None\<rparr>))"

definition forget_dispatcher :: "dispatcher_state \<Rightarrow> dispatcher_state" where
  "forget_dispatcher d = d\<lparr>ds_cached := None\<rparr>"

text \<open>What the script does with the dispatcher: it gets it, and copies and drops the references it has.\<close>

datatype dispatcher_use = GetDispatcher bool | CopyRef nat | DropRef nat

fun use_dispatcher :: "dispatcher_use \<Rightarrow> dispatcher_state \<Rightarrow> (dispatcher_got list \<times> dispatcher_state) option" where
  "use_dispatcher (GetDispatcher bails) d = map_option (\<lambda>(g, d'). ([g], d')) (get_dispatcher bails d)"
| "use_dispatcher (CopyRef a) d =
     (if ds_script d a = 0 then Some ([], d)
      else map_option (\<lambda>d'. ([], d'\<lparr>ds_script := (ds_script d')(a := ds_script d' a + 1)\<rparr>)) (add_ref a d))"
| "use_dispatcher (DropRef a) d =
     (if ds_script d a = 0 then Some ([], d)
      else map_option (\<lambda>d'. ([], d'\<lparr>ds_script := (ds_script d')(a := ds_script d' a - 1)\<rparr>)) (ptr_dtor a d))"

fun use_all :: "dispatcher_use list \<Rightarrow> dispatcher_state \<Rightarrow> (dispatcher_got list \<times> dispatcher_state) option" where
  "use_all [] d = Some ([], d)"
| "use_all (u # us) d = (case use_dispatcher u d of
     None \<Rightarrow> None
   | Some (g, d1) \<Rightarrow> (case use_all us d1 of None \<Rightarrow> None | Some (gs, d2) \<Rightarrow> Some (g @ gs, d2)))"

text \<open>
  One run of the script. The module's RSHUTDOWN releases the cached object, unless the shutdown bailed
  out before it; handlers of other modules may still run script code after it. Then the engine frees
  every object. The next run starts with \<open>cycle_reset\<close>, which forgets a pointer the bailout left behind.
\<close>

record dispatcher_cycle =
  dc_main :: "dispatcher_use list"
  dc_released :: bool
  dc_late :: "dispatcher_use list"

definition free_all_objects :: "dispatcher_state \<Rightarrow> dispatcher_state" where
  "free_all_objects d = d\<lparr>ds_objects := Map.empty, ds_script := (\<lambda>_. 0)\<rparr>"

definition dispatcher_run ::
  "dispatcher_cycle \<Rightarrow> dispatcher_state \<Rightarrow> ((dispatcher_got list \<times> dispatcher_got list) \<times> dispatcher_state) option" where
  "dispatcher_run cy d =
     (case use_all (dc_main cy) (forget_dispatcher d) of
        None \<Rightarrow> None
      | Some (gs, d1) \<Rightarrow> (case (if dc_released cy then dispatcher_release d1 else Some d1) of
          None \<Rightarrow> None
        | Some d2 \<Rightarrow> (case use_all (dc_late cy) d2 of
            None \<Rightarrow> None
          | Some (late, d3) \<Rightarrow> Some ((gs, late), free_all_objects d3))))"

fun dispatcher_runs ::
  "dispatcher_cycle list \<Rightarrow> dispatcher_state \<Rightarrow> ((dispatcher_got list \<times> dispatcher_got list) list \<times> dispatcher_state) option" where
  "dispatcher_runs [] d = Some ([], d)"
| "dispatcher_runs (cy # cys) d = (case dispatcher_run cy d of
     None \<Rightarrow> None
   | Some (g, d1) \<Rightarrow> (case dispatcher_runs cys d1 of None \<Rightarrow> None | Some (gs, d2) \<Rightarrow> Some (g # gs, d2)))"

text \<open>
  A life of the thread begins with a fresh engine and whatever pointer the life before it left in the
  thread local.
\<close>

definition dispatcher_life ::
  "mode \<Rightarrow> nat option \<Rightarrow> dispatcher_cycle list
   \<Rightarrow> ((dispatcher_got list \<times> dispatcher_got list) list \<times> dispatcher_state) option" where
  "dispatcher_life mode stale cys = dispatcher_runs cys (forget_dispatcher
     \<lparr>ds_mode = mode, ds_cached = stale, ds_objects = Map.empty, ds_script = (\<lambda>_. 0), ds_next = 0\<rparr>)"

subsection \<open>The cached pointer is never a freed object\<close>

definition cache_ref :: "dispatcher_state \<Rightarrow> nat \<Rightarrow> nat" where
  "cache_ref d a = (if ds_cached d = Some a then 1 else 0)"

definition refs_exact :: "dispatcher_state \<Rightarrow> bool" where
  "refs_exact d \<longleftrightarrow> (\<forall>a. ds_objects d a =
     (if ds_script d a + cache_ref d a = 0 then None else Some (ds_script d a + cache_ref d a)))
   \<and> (\<forall>a \<ge> ds_next d. ds_script d a = 0 \<and> ds_cached d \<noteq> Some a)"

definition same_object :: "dispatcher_got list \<Rightarrow> nat option \<Rightarrow> bool" where
  "same_object gs c = list_all (\<lambda>g. case g of GotDispatcher a \<Rightarrow> c = Some a | _ \<Rightarrow> True) gs"

lemma refs_exactD:
  "refs_exact d \<Longrightarrow> ds_objects d a =
     (if ds_script d a + cache_ref d a = 0 then None else Some (ds_script d a + cache_ref d a))"
  by (simp add: refs_exact_def)

definition use_ok :: "dispatcher_state \<Rightarrow> (dispatcher_got list \<times> dispatcher_state) option \<Rightarrow> bool" where
  "use_ok d r \<longleftrightarrow> (case r of None \<Rightarrow> False | Some (gs, d') \<Rightarrow>
     refs_exact d' \<and> ds_mode d' = ds_mode d \<and> same_object gs (ds_cached d')
     \<and> (ds_cached d = None \<or> ds_cached d' = ds_cached d)
     \<and> list_all (\<lambda>g. (g = NoDispatcherError) = (ds_mode d \<noteq> ModeDispatcher)) gs)"

text \<open>A reference of the script is counted, so the object behind it is there.\<close>

lemma script_ref_alive:
  assumes "refs_exact d" "ds_script d a \<noteq> 0"
  shows "ds_objects d a = Some (ds_script d a + cache_ref d a)"
  using assms by (auto simp: refs_exact_def)

lemma cached_alive:
  assumes "refs_exact d" "ds_cached d = Some a"
  shows "ds_objects d a = Some (ds_script d a + 1)"
  using assms by (auto simp: refs_exact_def cache_ref_def)

lemma next_free:
  assumes "refs_exact d"
  shows "ds_script d (ds_next d) = 0" "ds_cached d \<noteq> Some (ds_next d)"
  using assms by (auto simp: refs_exact_def)

lemma refs_exact_share:
  assumes "refs_exact d" "ds_objects d a = Some n"
  shows "refs_exact (d\<lparr>ds_objects := (ds_objects d)(a \<mapsto> n + 1), ds_script := (ds_script d)(a := ds_script d a + 1)\<rparr>)"
proof -
  have n: "n = ds_script d a + cache_ref d a" "n \<noteq> 0"
    using refs_exactD[OF assms(1), of a] assms(2) by (auto split: if_splits)
  have "a < ds_next d"
  proof (rule ccontr)
    assume "\<not> a < ds_next d"
    then have "ds_script d a = 0" "ds_cached d \<noteq> Some a" using assms(1) by (auto simp: refs_exact_def)
    then show False using n by (simp add: cache_ref_def)
  qed
  then show ?thesis using assms n by (auto simp: refs_exact_def cache_ref_def)
qed

lemma refs_exact_fresh:
  assumes "refs_exact d" "ds_cached d = None" "object_init d = (a, d1)"
  shows "refs_exact (d1\<lparr>ds_cached := Some a\<rparr>)" "ds_objects d1 a = Some 1" "ds_mode d1 = ds_mode d"
  using assms next_free[OF assms(1)] by (auto simp: object_init_def refs_exact_def cache_ref_def)

lemma get_dispatcher_ok:
  assumes "refs_exact d"
  shows "use_ok d (use_dispatcher (GetDispatcher bails) d)"
proof (cases "ds_mode d = ModeDispatcher")
  case False
  then show ?thesis using assms by (simp add: get_dispatcher_def use_ok_def same_object_def)
next
  case m: True
  show ?thesis
  proof (cases "ds_cached d")
    case (Some a)
    have o: "ds_objects d a = Some (ds_script d a + 1)" by (rule cached_alive[OF assms Some])
    then show ?thesis
      using m Some refs_exact_share[OF assms o]
      by (simp add: get_dispatcher_def add_ref_def use_ok_def same_object_def)
  next
    case None
    obtain a d1 where o: "object_init d = (a, d1)" by fastforce
    have f: "refs_exact (d1\<lparr>ds_cached := Some a\<rparr>)" "ds_objects (d1\<lparr>ds_cached := Some a\<rparr>) a = Some 1" "ds_mode d1 = ds_mode d"
      using refs_exact_fresh[OF assms None o] by simp_all
    show ?thesis
      using m None o f(3) refs_exact_share[OF f(1,2)] f(2) assms
      by (simp add: get_dispatcher_def add_ref_def use_ok_def same_object_def)
  qed
qed

lemma refs_exact_unshare:
  assumes "refs_exact d" "ds_script d a \<noteq> 0" "ds_objects d a = Some n"
  shows "refs_exact (d\<lparr>ds_objects := (ds_objects d)(a := (if n = 1 then None else Some (n - 1))),
     ds_script := (ds_script d)(a := ds_script d a - 1)\<rparr>)"
  using assms script_ref_alive[OF assms(1,2)] by (auto simp: refs_exact_def cache_ref_def)

lemma use_dispatcher_ok:
  assumes "refs_exact d"
  shows "use_ok d (use_dispatcher u d)"
proof (cases u)
  case (GetDispatcher bails)
  then show ?thesis using get_dispatcher_ok[OF assms] by simp
next
  case (CopyRef a)
  show ?thesis
  proof (cases "ds_script d a = 0")
    case False
    note o = script_ref_alive[OF assms this]
    then show ?thesis
      using CopyRef False refs_exact_share[OF assms o] by (simp add: use_ok_def add_ref_def same_object_def)
  qed (use CopyRef assms in \<open>simp add: use_ok_def same_object_def\<close>)
next
  case (DropRef a)
  show ?thesis
  proof (cases "ds_script d a = 0")
    case False
    note o = script_ref_alive[OF assms this]
    then show ?thesis
      using DropRef False refs_exact_unshare[OF assms False o] by (simp add: use_ok_def ptr_dtor_def same_object_def)
  qed (use DropRef assms in \<open>simp add: use_ok_def same_object_def\<close>)
qed

lemma same_object_keep: "same_object gs c \<Longrightarrow> c = None \<or> c' = c \<Longrightarrow> same_object gs c'"
  by (auto simp: same_object_def list_all_iff split: dispatcher_got.splits)

lemma use_all_ok: "refs_exact d \<Longrightarrow> use_ok d (use_all us d)"
proof (induction us arbitrary: d)
  case Nil
  then show ?case by (simp add: use_ok_def same_object_def)
next
  case (Cons u us)
  obtain g d1 where u: "use_dispatcher u d = Some (g, d1)" "use_ok d (Some (g, d1))"
    using use_dispatcher_ok[OF Cons.prems, of u] by (cases "use_dispatcher u d") (auto simp: use_ok_def)
  then have "use_ok d1 (use_all us d1)" using Cons.IH by (simp add: use_ok_def)
  moreover from this obtain gs d2 where "use_all us d1 = Some (gs, d2)"
    by (cases "use_all us d1") (auto simp: use_ok_def)
  moreover have "same_object (g @ gs) c \<longleftrightarrow> same_object g c \<and> same_object gs c" for gs c
    by (simp add: same_object_def)
  ultimately show ?case using u same_object_keep[of g "ds_cached d1" "ds_cached d2"] by (auto simp: use_ok_def)
qed

lemma dispatcher_release_ok:
  assumes "refs_exact d"
  obtains d' where "dispatcher_release d = Some d'" "refs_exact d'" "ds_mode d' = ds_mode d"
proof (cases "ds_cached d")
  case None
  then show ?thesis using that assms by (simp add: dispatcher_release_def)
next
  case (Some a)
  note o = cached_alive[OF assms Some]
  define d' where "d' = d\<lparr>ds_cached := None, ds_objects := (ds_objects d)(a := (if ds_script d a = 0 then None else Some (ds_script d a)))\<rparr>"
  have "dispatcher_release d = Some d'" using Some o by (simp add: dispatcher_release_def ptr_dtor_def d'_def)
  moreover have "refs_exact d'" using assms Some by (auto simp: d'_def refs_exact_def cache_ref_def split: if_splits)
  ultimately show ?thesis using that by (simp add: d'_def)
qed

definition objects_gone :: "dispatcher_state \<Rightarrow> bool" where
  "objects_gone d \<longleftrightarrow> ds_objects d = Map.empty \<and> ds_script d = (\<lambda>_. 0)"

lemma forget_exact: "objects_gone d \<Longrightarrow> refs_exact (forget_dispatcher d)"
  by (simp add: objects_gone_def forget_dispatcher_def refs_exact_def cache_ref_def)

definition run_gets_ok :: "mode \<Rightarrow> dispatcher_got list \<times> dispatcher_got list \<Rightarrow> bool" where
  "run_gets_ok m gs \<longleftrightarrow> (\<exists>c. same_object (fst gs) c) \<and> (\<exists>c. same_object (snd gs) c)
     \<and> list_all (\<lambda>g. (g = NoDispatcherError) = (m \<noteq> ModeDispatcher)) (fst gs @ snd gs)"

lemma dispatcher_run_ok:
  assumes "objects_gone d"
  obtains gs d' where "dispatcher_run cy d = Some (gs, d')" "objects_gone d'" "ds_mode d' = ds_mode d"
    "run_gets_ok (ds_mode d) gs"
proof -
  have m: "ds_mode (forget_dispatcher d) = ds_mode d" by (simp add: forget_dispatcher_def)
  have "use_ok (forget_dispatcher d) (use_all (dc_main cy) (forget_dispatcher d))"
    by (rule use_all_ok[OF forget_exact[OF assms]])
  then obtain gs d1 where u: "use_all (dc_main cy) (forget_dispatcher d) = Some (gs, d1)"
      "refs_exact d1" "ds_mode d1 = ds_mode d" "same_object gs (ds_cached d1)"
      "list_all (\<lambda>g. (g = NoDispatcherError) = (ds_mode d \<noteq> ModeDispatcher)) gs"
    using m by (auto simp: use_ok_def split: option.splits)
  obtain dr where dr: "dispatcher_release d1 = Some dr" "refs_exact dr" "ds_mode dr = ds_mode d1"
    by (rule dispatcher_release_ok[OF u(2)])
  obtain d2 where r: "(if dc_released cy then dispatcher_release d1 else Some d1) = Some d2"
      "refs_exact d2" "ds_mode d2 = ds_mode d"
    using dr u(2,3) by (cases "dc_released cy") auto
  obtain late d3 where l: "use_all (dc_late cy) d2 = Some (late, d3)" "ds_mode d3 = ds_mode d"
      "same_object late (ds_cached d3)"
      "list_all (\<lambda>g. (g = NoDispatcherError) = (ds_mode d \<noteq> ModeDispatcher)) late"
    using use_all_ok[OF r(2), of "dc_late cy"] r(3) by (auto simp: use_ok_def split: option.splits)
  show ?thesis
  proof (rule that)
    show "dispatcher_run cy d = Some ((gs, late), free_all_objects d3)"
      using u(1) r(1) l(1) by (simp add: dispatcher_run_def)
    show "run_gets_ok (ds_mode d) (gs, late)" using u l by (auto simp: run_gets_ok_def)
  qed (use l(2) in \<open>simp_all add: objects_gone_def free_all_objects_def\<close>)
qed

lemma dispatcher_runs_ok:
  "objects_gone d \<Longrightarrow> \<exists>gs d'. dispatcher_runs cys d = Some (gs, d') \<and> length gs = length cys
     \<and> list_all (run_gets_ok (ds_mode d)) gs"
proof (induction cys arbitrary: d)
  case (Cons cy cys)
  obtain g d1 where "dispatcher_run cy d = Some (g, d1)" "objects_gone d1" "ds_mode d1 = ds_mode d"
    "run_gets_ok (ds_mode d) g" by (rule dispatcher_run_ok[OF Cons.prems])
  then show ?case using Cons.IH[of d1] by fastforce
qed simp

text \<open>
  C37: Over any runs of the script on one PHP thread, whatever pointer the life before it left in the cache,
  whether or not a bailout skipped the release, and however the script copies and drops what it got, no
  step touches a freed object: each call of \<open>get_dispatcher\<close> returns a live dispatcher in dispatcher mode,
  unless it runs out of memory, and throws in the other modes. All the calls of one run before
  the release return the same object, and so do the calls after it.
\<close>

theorem dispatcher_cache_is_sound:
  "\<exists>gs d. dispatcher_life mode stale cys = Some (gs, d) \<and> length gs = length cys
     \<and> list_all (\<lambda>(main, late). (\<exists>c. same_object main c) \<and> (\<exists>c. same_object late c)
         \<and> list_all (\<lambda>g. (g = NoDispatcherError) = (mode \<noteq> ModeDispatcher)) (main @ late)) gs"
proof -
  let ?d = "forget_dispatcher \<lparr>ds_mode = mode, ds_cached = stale, ds_objects = Map.empty, ds_script = (\<lambda>_. 0), ds_next = 0\<rparr>"
  have "objects_gone ?d" "ds_mode ?d = mode" by (simp_all add: objects_gone_def forget_dispatcher_def)
  then obtain gs d' where "dispatcher_runs cys ?d = Some (gs, d')" "length gs = length cys" "list_all (run_gets_ok mode) gs"
    using dispatcher_runs_ok[of ?d cys] by auto
  moreover have "run_gets_ok mode = (\<lambda>(main, late). (\<exists>c. same_object main c) \<and> (\<exists>c. same_object late c)
         \<and> list_all (\<lambda>g. (g = NoDispatcherError) = (mode \<noteq> ModeDispatcher)) (main @ late))"
    by (auto simp: run_gets_ok_def fun_eq_iff)
  ultimately show ?thesis by (auto simp: dispatcher_life_def)
qed

end
