(* ===== verification/Startup.thy ===== *)
theory Startup
  imports Process PhpObjects GrpcConnection Auth
begin

text \<open>
  The start of the process (\<open>src/main.rs\<close>, \<open>logging.rs\<close>, \<open>pidfile.rs\<close>, \<open>net/src/listen.rs\<close>, and the
  \<open>from_settings\<close> and \<open>prepare\<close> of the plugins): from the accepted settings to the first moment PHP may
  run, and what is undone on the way out. The files, the sockets and the descriptor decoder answer as the
  environment records say; the supervision that follows is theory Process.

  The theorems say when exactly PHP boots, that everything configured is bound by then, that the PID file
  never replaces a file and is left behind only by a forced exit, and that the log filter says what the
  settings say.
\<close>

section \<open>The log filter\<close>

definition level_as_str :: "level \<Rightarrow> bytes" where
  "level_as_str l = (case l of LvError \<Rightarrow> ''error'' | LvWarn \<Rightarrow> ''warn'' | LvInfo \<Rightarrow> ''info''
     | LvDebug \<Rightarrow> ''debug'' | LvTrace \<Rightarrow> ''trace'')"

datatype log_format = LogPlain | LogJson

record log_settings =
  log_level :: level
  log_format_of :: log_format
  log_targets :: "(bytes \<times> level) list" \<comment> \<open>in key order\<close>

text \<open>The filter is text for \<open>EnvFilter\<close>: the environment's as it is, or the one the settings render to.\<close>

datatype env_filter = FilterFromEnv bytes | FilterFromSettings bytes

fun render_targets :: "(bytes \<times> level) list \<Rightarrow> bytes \<Rightarrow> bytes" where
  "render_targets [] spec = spec"
| "render_targets ((target, l) # ts) spec = render_targets ts (spec @ '','' @ target @ ''='' @ level_as_str l)"

definition build_filter :: "bytes option \<Rightarrow> log_settings \<Rightarrow> env_filter" where
  "build_filter rust_log log = (case opt_filter (\<lambda>s. str_trim s \<noteq> []) rust_log of
     Some s \<Rightarrow> FilterFromEnv s
   | None \<Rightarrow> FilterFromSettings (render_targets (log_targets log) (level_as_str (log_level log))))"

text \<open>The layer that writes to standard error: its format, and whether it may use colours.\<close>

datatype log_layer = JsonLayer | PlainLayer bool

definition make_layer :: "log_format \<Rightarrow> bool \<Rightarrow> log_layer" where
  "make_layer format tty = (case format of LogJson \<Rightarrow> JsonLayer | LogPlain \<Rightarrow> PlainLayer tty)"

definition logging_init :: "bytes option \<Rightarrow> bool \<Rightarrow> log_settings \<Rightarrow> env_filter \<times> log_layer" where
  "logging_init rust_log tty log = (build_filter rust_log log, make_layer (log_format_of log) tty)"

subsection \<open>The rendered filter reads back as the settings\<close>

definition level_of_str :: "bytes \<Rightarrow> level option" where
  "level_of_str s = find (\<lambda>l. level_as_str l = s) [LvError, LvWarn, LvInfo, LvDebug, LvTrace]"

lemma level_of_as_str [simp]: "level_of_str (level_as_str l) = Some l"
  by (cases l) (simp_all add: level_of_str_def level_as_str_def)

text \<open>The pieces between the commas, each with a level and, before an equals sign, its target.\<close>

definition read_directive :: "bytes \<Rightarrow> (bytes option \<times> level) option" where
  "read_directive d = (case split_once (CHR ''='') d of
     None \<Rightarrow> map_option (Pair None) (level_of_str d)
   | Some (target, l) \<Rightarrow> map_option (Pair (Some target)) (level_of_str l))"

lemma level_as_str_plain: "CHR '','' \<notin> set (level_as_str l)" "CHR ''='' \<notin> set (level_as_str l)"
  by (cases l; simp add: level_as_str_def)+

lemma target_ok_plain:
  assumes "target_ok t"
  shows "CHR '','' \<notin> set t" "CHR ''='' \<notin> set t"
proof -
  have n: "\<not> is_ascii_alphanumeric (CHR '','')" "\<not> is_ascii_alphanumeric (CHR ''='')" by code_simp+
  show "CHR '','' \<notin> set t" "CHR ''='' \<notin> set t"
    using assms n by (cases t; auto simp: target_ok_def list_all_iff)+
qed

lemma join_with_glue: "join_with sep ((a @ sep @ b) # ps) = join_with sep (a # b # ps)"
  by (cases ps) simp_all

lemma render_targets_join:
  "render_targets ts spec = join_with '','' (spec # map (\<lambda>(t, l). t @ ''='' @ level_as_str l) ts)"
proof (induction ts arbitrary: spec)
  case (Cons x ts)
  obtain t l where x: "x = (t, l)" by fastforce
  show ?case
    using join_with_glue[of "'',''" spec "t @ ''='' @ level_as_str l"] by (simp add: x Cons.IH del: join_with.simps)
qed simp

lemma split_join:
  "\<forall>p \<in> set ps. c \<notin> set p \<Longrightarrow> ps \<noteq> [] \<Longrightarrow> split_on c (join_with [c] ps) = ps"
  by (induction "[c]" ps rule: join_with.induct) (auto simp: split_on_none split_on_append)

lemma read_directive_level: "read_directive (level_as_str l) = Some (None, l)"
  using level_as_str_plain(2)[of l] by (simp add: read_directive_def split_once_def)

lemma split_once_append: "c \<notin> set a \<Longrightarrow> split_once c (a @ c # b) = Some (a, b)"
  by (induction a) (auto simp: split_once_def)

lemma read_directive_target:
  "target_ok t \<Longrightarrow> read_directive (t @ ''='' @ level_as_str l) = Some (Some t, l)"
  using split_once_append[OF target_ok_plain(2), of t "level_as_str l"] by (simp add: read_directive_def)

text \<open>
  For targets that the settings accept, the text of the log filter means what the settings say: cut at its commas and its equals
  signs, it gives the global level and then each target with its level, in order. A blank \<open>RUST_LOG\<close> is no filter.
\<close>

theorem log_filter_reads_back:
  assumes "list_all (\<lambda>(t, _). target_ok t) (log_targets log)" and "str_trim env = []"
  shows "\<exists>spec. build_filter (Some env) log = FilterFromSettings spec \<and> build_filter None log = FilterFromSettings spec
     \<and> map read_directive (split_on (CHR '','') spec)
       = Some (None, log_level log) # map (\<lambda>(t, l). Some (Some t, l)) (log_targets log)"
proof -
  let ?ds = "level_as_str (log_level log) # map (\<lambda>(t, l). t @ ''='' @ level_as_str l) (log_targets log)"
  have "\<forall>p \<in> set ?ds. CHR '','' \<notin> set p"
    using assms(1) target_ok_plain(1) by (auto simp: level_as_str_plain list_all_iff)
  then have s: "split_on (CHR '','') (join_with '','' ?ds) = ?ds" by (rule split_join) simp
  have m: "map read_directive ?ds = Some (None, log_level log) # map (\<lambda>(t, l). Some (Some t, l)) (log_targets log)"
    using assms(1) by (auto simp: read_directive_level read_directive_target[unfolded append_Cons append_Nil] list_all_iff)
  show ?thesis
    using assms(2) s m by (auto simp: build_filter_def opt_filter_def render_targets_join)
qed

definition sample_log :: log_settings where
  "sample_log = \<lparr>log_level = LvInfo, log_format_of = LogPlain,
     log_targets = [(''app::db'', LvTrace), (''hyper'', LvWarn)]\<rparr>"

lemma log_filter_reads_back_witness:
  "build_filter None sample_log = FilterFromSettings ''info,app::db=trace,hyper=warn''
   \<and> (\<exists>spec. build_filter (Some '' '') sample_log = FilterFromSettings spec
     \<and> map read_directive (split_on (CHR '','') spec)
       = [Some (None, LvInfo), Some (Some ''app::db'', LvTrace), Some (Some ''hyper'', LvWarn)])"
proof -
  have "list_all (\<lambda>(t, _). target_ok t) (log_targets sample_log)" "str_trim '' '' = []" by code_simp+
  from log_filter_reads_back[OF this] show ?thesis
    by (auto simp: sample_log_def build_filter_def opt_filter_def level_as_str_def)
qed

section \<open>The PID file\<close>

type_synonym files = "bytes \<Rightarrow> bytes option"

record pidfile_env =
  pf_pid :: nat
  pf_exists_text :: string                             \<comment> \<open>the error of \<open>create_new\<close> on a name that is taken\<close>
  pf_opens :: "bytes \<Rightarrow> (unit, string) result"          \<comment> \<open>creating a name that is free\<close>
  pf_writes :: "(unit, string) result"
  pf_partial :: bytes                                  \<comment> \<open>what a failing write leaves in the file\<close>
  pf_removes :: "bytes \<Rightarrow> bool"

definition remove_file :: "pidfile_env \<Rightarrow> bytes \<Rightarrow> files \<Rightarrow> files" where
  "remove_file E path fs = (if pf_removes E path then fs(path := None) else fs)"

definition pidfile_text :: "pidfile_env \<Rightarrow> bytes" where
  "pidfile_text E = decimal (pf_pid E) @ [CHR 0x0A]"

definition pidfile_write :: "pidfile_env \<Rightarrow> bytes \<Rightarrow> files \<Rightarrow> (bytes, string) result \<times> files" where
  "pidfile_write E path fs =
     (case (if fs path \<noteq> None then Err (pf_exists_text E) else pf_opens E path) of
        Err e \<Rightarrow> (Err e, fs)
      | Ok _ \<Rightarrow> (case pf_writes E of
          Err e \<Rightarrow> (Err e, remove_file E path (fs(path \<mapsto> pf_partial E)))
        | Ok _ \<Rightarrow> (Ok path, fs(path \<mapsto> pidfile_text E))))"

text \<open>The owner's handle shares reading only, so nobody removes or replaces the file before the drop closes it.\<close>

definition pidfile_drop :: "pidfile_env \<Rightarrow> bytes option \<Rightarrow> files \<Rightarrow> files" where
  "pidfile_drop E owned fs = (case owned of None \<Rightarrow> fs | Some path \<Rightarrow> remove_file E path fs)"

lemma pidfile_write_ok:
  "pidfile_write E path fs = (Ok p, fs') \<Longrightarrow> p = path \<and> fs path = None \<and> fs' = fs(path \<mapsto> pidfile_text E)"
  by (auto simp: pidfile_write_def split: result.splits if_splits)

lemma pidfile_write_err:
  "pidfile_write E path fs = (Err e, fs') \<Longrightarrow> pf_removes E path \<or> is_ok (pf_writes E) \<Longrightarrow> fs' = fs"
  by (auto simp: pidfile_write_def remove_file_def split: result.splits if_splits)

section \<open>Listeners\<close>

text \<open>The answers of the socket calls, given the addresses this process has bound so far.\<close>

record socket_env =
  so_new :: "sock_addr \<Rightarrow> (unit, string) result"
  so_bind :: "sock_addr list \<Rightarrow> sock_addr \<Rightarrow> (unit, string) result"
  so_listen :: "sock_addr \<Rightarrow> (unit, string) result"
  so_nonblocking :: "sock_addr \<Rightarrow> (unit, string) result"
  so_local :: "sock_addr \<Rightarrow> (sock_addr, string) result"

definition context_err :: "string \<Rightarrow> ('a, string) result \<Rightarrow> ('a, string) result" where
  "context_err c = map_err (\<lambda>e. c @ '': '' @ e)"

text \<open>
  \<open>bind\<close>: the resolved address of the listener, which an address with port 0 differs from. A socket whose
  setup fails is closed.
\<close>

definition net_bind :: "socket_env \<Rightarrow> sock_addr \<Rightarrow> sock_addr list \<Rightarrow> (sock_addr, string) result \<times> sock_addr list" where
  "net_bind S a bound =
     (let r = and_then (context_err (''socket for '' @ sock_display a) (so_new S a)) (\<lambda>_.
              and_then (context_err (''bind '' @ sock_display a) (so_bind S bound a)) (\<lambda>_.
              and_then (context_err (''listen '' @ sock_display a) (so_listen S a)) (\<lambda>_.
              and_then (so_nonblocking S a) (\<lambda>_. so_local S a))))
      in (r, case r of Ok resolved \<Rightarrow> bound @ [resolved] | Err _ \<Rightarrow> bound))"

section \<open>The plugins from their settings\<close>

text \<open>\<open>Auth::load\<close>: \<open>read\<close> is \<open>read_to_string\<close>.\<close>

definition parse_error_text :: "parse_error \<Rightarrow> string" where
  "parse_error_text e = (case e of
     BadLine n \<Rightarrow> ''line '' @ decimal n @ '' is not a valid bearer token'' | NoToken \<Rightarrow> ''the file has no token'')"

definition auth_load :: "(bytes \<Rightarrow> (bytes, string) result) \<Rightarrow> bytes \<Rightarrow> (bytes list, string) result" where
  "auth_load read path =
     and_then (context_err (''reading grpc.auth.tokens_file `'' @ path @ ''`'') (read path)) (\<lambda>text.
       context_err (''grpc.auth.tokens_file `'' @ path @ ''`'') (map_err parse_error_text (parse_tokens text)))"

definition schema_error_text :: "bytes \<Rightarrow> schema_error \<Rightarrow> string" where
  "schema_error_text path e = (case e of
     MissingImport file import \<Rightarrow> ''grpc.descriptor_set '' @ path @ '': '' @ file @ '' imports '' @ import @ '', which the set does not contain; build it with `buf build --as-file-descriptor-set` or `protoc --include_imports`''
   | PluginService name \<Rightarrow> ''grpc.services entry `'' @ name @ ''` is served by the plugin''
   | NotInSet name \<Rightarrow> ''grpc.services entry `'' @ name @ ''` is not in grpc.descriptor_set '' @ path
   | ListedTwice name \<Rightarrow> ''grpc.services lists `'' @ name @ ''` twice''
   | NoService \<Rightarrow> ''grpc.descriptor_set '' @ path @ '' declares no service to serve'')"

text \<open>The files of the gRPC plugin, the decoder of descriptor sets, and the services the plugin answers itself.\<close>

record grpc_files =
  gf_read :: "bytes \<Rightarrow> (bytes, string) result"
  gf_decode :: "bytes \<Rightarrow> (desc_pool, string) result"
  gf_read_text :: "bytes \<Rightarrow> (bytes, string) result"
  gf_plugin_services :: "bytes list"

definition schema_from_file :: "grpc_files \<Rightarrow> bytes \<Rightarrow> bytes list option \<Rightarrow> (schema, string) result" where
  "schema_from_file G path services =
     and_then (map_err (\<lambda>e. ''reading grpc.descriptor_set '' @ path @ '': '' @ e) (gf_read G path)) (\<lambda>bytes.
     and_then (map_err (\<lambda>e. ''decoding grpc.descriptor_set '' @ path @ '': '' @ e @ ''; build it with `buf build --as-file-descriptor-set` or `protoc --include_imports`'')
       (gf_decode G bytes)) (\<lambda>pool.
     map_err (schema_error_text path) (schema_load pool (gf_plugin_services G) services)))"

fun load_interceptors :: "grpc_files \<Rightarrow> interceptor list \<Rightarrow> (bytes list list, string) result" where
  "load_interceptors G [] = Ok []"
| "load_interceptors G (AuthInterceptor path # is) =
     and_then (auth_load (gf_read_text G) path) (\<lambda>tokens.
     and_then (load_interceptors G is) (\<lambda>ts. Ok (tokens # ts)))"

record grpc_config =
  gcf_listen :: sock_addr
  gcf_schema :: schema
  gcf_reflection :: bool
  gcf_default_timeout :: "nat option"
  gcf_max_timeout :: "nat option"
  gcf_keepalive_interval :: nat
  gcf_keepalive_timeout :: nat
  gcf_interceptors :: "bytes list list" \<comment> \<open>the tokens of each\<close>

definition grpc_from_settings :: "grpc_files \<Rightarrow> grpc_settings \<Rightarrow> (grpc_config, string) result" where
  "grpc_from_settings G s =
     and_then (schema_from_file G (gset_descriptor_set s) (gset_services s)) (\<lambda>sc.
     and_then (load_interceptors G (gset_interceptors s)) (\<lambda>interceptors.
       Ok \<lparr>gcf_listen = gset_listen s, gcf_schema = sc, gcf_reflection = gset_reflection s,
         gcf_default_timeout = gset_default_timeout s, gcf_max_timeout = gset_max_timeout s,
         gcf_keepalive_interval = gset_keepalive_interval s, gcf_keepalive_timeout = gset_keepalive_timeout s,
         gcf_interceptors = interceptors\<rparr>))"

section \<open>Preparing the plugins\<close>

text \<open>The cells that the first \<open>set\<close> fills, the bound addresses and the entries of the upload directory.\<close>

record boot_state =
  bs_files :: files
  bs_bound :: "sock_addr list"
  bs_identity :: "(string \<times> nat) option"
  bs_sendfile :: "bytes list option"
  bs_schema :: "schema option"
  bs_uploads :: "bytes list option" \<comment> \<open>\<open>None\<close>: it cannot be listed\<close>

definition set_server_identity :: "string \<Rightarrow> nat \<Rightarrow> (string \<times> nat) option \<Rightarrow> (string \<times> nat) option" where
  "set_server_identity name port cell = (case cell of None \<Rightarrow> Some (name, port) | Some c \<Rightarrow> Some c)"

definition http_server_name :: "(string \<times> nat) option \<Rightarrow> string option" where
  "http_server_name cell = map_option fst cell"

definition http_server_port :: "(string \<times> nat) option \<Rightarrow> int" where
  "http_server_port cell = (case cell of None \<Rightarrow> 0 | Some (_, port) \<Rightarrow> int port)"

record main_env =
  me_settings :: "(settings, string) result"
  me_pidfile :: pidfile_env
  me_sockets :: socket_env
  me_fs :: fs_ops
  me_spool :: spool_env
  me_grpc :: grpc_files
  me_reflector :: "(unit, string) result"
  me_plugin :: "string \<Rightarrow> plugin_spec"                 \<comment> \<open>how the pool and the thread of a plugin behave\<close>
  me_observer :: "(nat option \<times> thread_result, string) result"
  me_process :: proc_env

definition bind_in :: "main_env \<Rightarrow> sock_addr \<Rightarrow> boot_state \<Rightarrow> (sock_addr, string) result \<times> boot_state" where
  "bind_in E a st = (case net_bind (me_sockets E) a (bs_bound st) of
     (r, bound) \<Rightarrow> (r, st\<lparr>bs_bound := bound\<rparr>))"

definition http_prepare :: "main_env \<Rightarrow> http_settings \<Rightarrow> boot_state \<Rightarrow> (unit, string) result \<times> boot_state" where
  "http_prepare E s st =
     (let st1 = st\<lparr>bs_identity := set_server_identity (hset_server_name s) (hset_server_port s) (bs_identity st),
                  bs_sendfile := set_sendfile_root (me_fs E) (hset_sendfile_root s) (bs_sendfile st),
                  bs_uploads := (if hset_uploads s = None then bs_uploads st
                     else sweep_spool_dirs (me_spool E) (bs_uploads st))\<rparr>
      in case bind_in E (hset_listen s) st1 of (r, st2) \<Rightarrow> (and_then r (\<lambda>_. Ok ()), st2))"

definition grpc_server_prepare :: "main_env \<Rightarrow> grpc_config \<Rightarrow> boot_state \<Rightarrow> (unit, string) result \<times> boot_state" where
  "grpc_server_prepare E c st =
     (case bind_in E (gcf_listen c) st of (r, st1) \<Rightarrow>
        (case grpc_prepare (gcf_schema c) (gcf_reflection c) (and_then r (\<lambda>_. Ok (length (bs_bound st)))) (me_reflector E)
                (bs_schema st1) of
           (Ok _, slot) \<Rightarrow> (Ok (), st1\<lparr>bs_schema := slot\<rparr>)
         | (Err e, slot) \<Rightarrow> (Err e, st1\<lparr>bs_schema := slot\<rparr>)))"

datatype plugin = HttpPlugin http_settings | GrpcPlugin grpc_config

definition plugin_prepare :: "main_env \<Rightarrow> plugin \<Rightarrow> boot_state \<Rightarrow> (unit, string) result \<times> boot_state" where
  "plugin_prepare E p st = (case p of
     HttpPlugin s \<Rightarrow> http_prepare E s st | GrpcPlugin c \<Rightarrow> grpc_server_prepare E c st)"

definition plugin_name :: "plugin \<Rightarrow> string" where
  "plugin_name p = (case p of HttpPlugin _ \<Rightarrow> ''http'' | GrpcPlugin _ \<Rightarrow> ''grpc'')"

definition plugin_modes :: "plugin \<Rightarrow> mode list" where
  "plugin_modes p = (case p of HttpPlugin _ \<Rightarrow> [ModeClassic, ModeWorker, ModeDispatcher] | GrpcPlugin _ \<Rightarrow> [ModeDispatcher])"

section \<open>serve of main.rs\<close>

fun prepare_all :: "main_env \<Rightarrow> (plugin \<times> pool_settings) list \<Rightarrow> boot_state \<Rightarrow> (unit, string) result \<times> boot_state" where
  "prepare_all E [] st = (Ok (), st)"
| "prepare_all E ((p, pool) # ps) st =
     (case check_mode (plugin_name p) (plugin_modes p) (pset_mode pool) of
        Err e \<Rightarrow> (Err e, st)
      | Ok _ \<Rightarrow> (case plugin_prepare E p st of
          (Err e, st1) \<Rightarrow> (Err (''plugin '' @ plugin_name p @ '': prepare failed: '' @ e), st1)
        | (Ok _, st1) \<Rightarrow> prepare_all E ps st1))"

definition load_plugins :: "main_env \<Rightarrow> settings \<Rightarrow> ((plugin \<times> pool_settings) list, string) result" where
  "load_plugins E s =
     and_then (transpose (grpc_from_settings (me_grpc E)) (set_grpc s)) (\<lambda>grpc.
       Ok ((case set_http s of Some h \<Rightarrow> [(HttpPlugin h, hset_pool h)] | None \<Rightarrow> [])
           @ (case (set_grpc s, grpc) of (Some g, Some c) \<Rightarrow> [(GrpcPlugin c, gset_pool g)] | _ \<Rightarrow> [])))"

definition obs_new :: "main_env \<Rightarrow> obs_settings \<Rightarrow> boot_state \<Rightarrow> (unit, string) result \<times> boot_state" where
  "obs_new E s st = (case bind_in E (oset_listen s) st of (r, st1) \<Rightarrow> (and_then r (\<lambda>_. Ok ()), st1))"

text \<open>From the PID file to the last listener; the result is the number of interpreters.\<close>

definition boot_plugins :: "main_env \<Rightarrow> settings \<Rightarrow> boot_state \<Rightarrow> (nat, string) result \<times> boot_state" where
  "boot_plugins E s st =
     (case load_plugins E s of
        Err e \<Rightarrow> (Err e, st)
      | Ok plugins \<Rightarrow>
          (let threads = sum_list (map (\<lambda>(_, pool). pset_processes pool) plugins) in
           if threads > SB_MAX_SLOTS then (Err (''the total interpreter count exceeds '' @ decimal SB_MAX_SLOTS), st)
           else (case prepare_all E plugins st of
               (Err e, st1) \<Rightarrow> (Err e, st1)
             | (Ok _, st1) \<Rightarrow> (case (case set_observability s of None \<Rightarrow> (Ok (), st1) | Some o1 \<Rightarrow> obs_new E o1 st1) of
                   (Err e, st2) \<Rightarrow> (Err e, st2)
                 | (Ok _, st2) \<Rightarrow> (Ok threads, st2)))))"

text \<open>What \<open>worker::serve\<close> is given: the pools and plugins of the settings, in order, and their budget.\<close>

definition process_of :: "main_env \<Rightarrow> settings \<Rightarrow> proc_env" where
  "process_of E s = (me_process E)\<lparr>
     pr_observer := (if set_observability s = None then None else Some (me_observer E)),
     pr_plugins := map (\<lambda>(name, _, pool). (me_plugin E name)\<lparr>pl_name := name, pl_processes := pset_processes pool\<rparr>)
       (plugins_of s),
     pr_timeout := sset_timeout (set_supervisor s)\<rparr>"

text \<open>
  How \<open>main\<close> ends: the end of the process and its time (\<open>None\<close>: it still serves after \<open>fuel\<close> polls; the outer
  one is a panic), whether it got to \<open>serve\<close> of \<open>worker.rs\<close>, which boots PHP, and the state it leaves. A forced end runs no destructor.
\<close>

record main_result =
  mr_end :: "(process_end \<times> nat) option option"
  mr_serves :: bool
  mr_state :: boot_state

definition closing_pidfile :: "main_env \<Rightarrow> bytes option \<Rightarrow> (process_end \<times> nat) option option \<Rightarrow> boot_state \<Rightarrow> boot_state" where
  "closing_pidfile E owned fin st = (case fin of
     Some (Some (Exits _, _)) \<Rightarrow> st\<lparr>bs_files := pidfile_drop (me_pidfile E) owned (bs_files st)\<rparr>
   | None \<Rightarrow> st\<lparr>bs_files := pidfile_drop (me_pidfile E) owned (bs_files st)\<rparr>
   | _ \<Rightarrow> st)"

definition pidfile_step :: "main_env \<Rightarrow> settings \<Rightarrow> files \<Rightarrow> (bytes option, string) result \<times> files" where
  "pidfile_step E s fs = (case sset_pidfile (set_supervisor s) of
     None \<Rightarrow> (Ok None, fs)
   | Some path \<Rightarrow> map_prod (\<lambda>r. and_then r (\<lambda>p. Ok (Some p))) id (pidfile_write (me_pidfile E) path fs))"

definition main_serve :: "main_env \<Rightarrow> nat \<Rightarrow> boot_state \<Rightarrow> main_result" where
  "main_serve E fuel st =
     (let fails = \<lambda>e. Some (Some (Exits (Err e), pr_start (me_process E))) in
      case me_settings E of
        Err e \<Rightarrow> \<lparr>mr_end = fails e, mr_serves = False, mr_state = st\<rparr>
      | Ok s \<Rightarrow> (case pidfile_step E s (bs_files st) of
          (Err e, fs) \<Rightarrow> \<lparr>mr_end = fails e, mr_serves = False, mr_state = st\<lparr>bs_files := fs\<rparr>\<rparr>
        | (Ok owned, fs) \<Rightarrow> (case boot_plugins E s (st\<lparr>bs_files := fs\<rparr>) of
            (Err e, st1) \<Rightarrow> \<lparr>mr_end = fails e, mr_serves = False, mr_state = closing_pidfile E owned (fails e) st1\<rparr>
          | (Ok threads, st1) \<Rightarrow>
              (let fin = proc_serve (process_of E s) threads fuel
               in \<lparr>mr_end = fin, mr_serves = True, mr_state = closing_pidfile E owned fin st1\<rparr>))))"

section \<open>When PHP boots, and what is left behind\<close>

fun bind_all :: "socket_env \<Rightarrow> sock_addr list \<Rightarrow> sock_addr list \<Rightarrow> sock_addr list option" where
  "bind_all S [] bound = Some bound"
| "bind_all S (a # as) bound = (case net_bind S a bound of
     (Ok _, bound') \<Rightarrow> bind_all S as bound' | (Err _, _) \<Rightarrow> None)"

definition listen_addrs :: "settings \<Rightarrow> sock_addr list" where
  "listen_addrs s =
     (case set_http s of Some h \<Rightarrow> [hset_listen h] | None \<Rightarrow> [])
     @ (case set_grpc s of Some g \<Rightarrow> [gset_listen g] | None \<Rightarrow> [])
     @ (case set_observability s of Some o1 \<Rightarrow> [oset_listen o1] | None \<Rightarrow> [])"

definition pidfile_free :: "main_env \<Rightarrow> settings \<Rightarrow> files \<Rightarrow> bool" where
  "pidfile_free E s fs = (case sset_pidfile (set_supervisor s) of
     None \<Rightarrow> True
   | Some path \<Rightarrow> fs path = None \<and> is_ok (pf_opens (me_pidfile E) path) \<and> is_ok (pf_writes (me_pidfile E)))"

text \<open>Everything the start needs, as a condition on the settings and the system, without an order.\<close>

definition ready :: "main_env \<Rightarrow> boot_state \<Rightarrow> settings \<Rightarrow> bool" where
  "ready E st s \<longleftrightarrow> pidfile_free E s (bs_files st) \<and> is_ok (load_plugins E s) \<and> is_ok (startup_checks s)
     \<and> bind_all (me_sockets E) (listen_addrs s) (bs_bound st) \<noteq> None
     \<and> (case set_grpc s of Some g \<Rightarrow> gset_reflection g \<longrightarrow> is_ok (me_reflector E) | None \<Rightarrow> True)"

lemma bind_all_append:
  "bind_all S (as @ bs) bound = (case bind_all S as bound of None \<Rightarrow> None | Some b \<Rightarrow> bind_all S bs b)"
  by (induction as arbitrary: bound) (auto split: prod.splits result.splits)

lemma bind_in_simps:
  "bind_in E a st = (fst (net_bind (me_sockets E) a (bs_bound st)), st\<lparr>bs_bound := snd (net_bind (me_sockets E) a (bs_bound st))\<rparr>)"
  by (simp add: bind_in_def split: prod.split)

lemma bind_all_single:
  "bind_all S [a] b = (if is_ok (fst (net_bind S a b)) then Some (snd (net_bind S a b)) else None)"
  by (cases "net_bind S a b"; cases "fst (net_bind S a b)") simp_all

definition prepared_as :: "bool \<Rightarrow> sock_addr list option \<Rightarrow> boot_state \<Rightarrow> (unit, string) result \<times> boot_state \<Rightarrow> bool" where
  "prepared_as ok b st r \<longleftrightarrow> bs_files (snd r) = bs_files st
     \<and> (is_ok (fst r) \<longleftrightarrow> ok \<and> b \<noteq> None) \<and> (is_ok (fst r) \<longrightarrow> b = Some (bs_bound (snd r)))"

lemma http_prepare_as:
  "prepared_as True (bind_all (me_sockets E) [hset_listen s] (bs_bound st)) st (http_prepare E s st)"
  by (cases "fst (net_bind (me_sockets E) (hset_listen s) (bs_bound st))")
    (auto simp: prepared_as_def http_prepare_def bind_in_simps bind_all_single Let_def and_then_def simp del: bind_all.simps)

lemma obs_new_as:
  "prepared_as True (bind_all (me_sockets E) [oset_listen s] (bs_bound st)) st (obs_new E s st)"
  by (cases "fst (net_bind (me_sockets E) (oset_listen s) (bs_bound st))")
    (auto simp: prepared_as_def obs_new_def bind_in_simps bind_all_single and_then_def simp del: bind_all.simps)

lemma grpc_prepare_as:
  "prepared_as (gcf_reflection c \<longrightarrow> is_ok (me_reflector E))
     (bind_all (me_sockets E) [gcf_listen c] (bs_bound st)) st (grpc_server_prepare E c st)"
  by (cases "fst (net_bind (me_sockets E) (gcf_listen c) (bs_bound st))"; cases "me_reflector E")
    (auto simp: prepared_as_def grpc_server_prepare_def grpc_prepare_def bind_in_simps bind_all_single Let_def
       and_then_def simp del: bind_all.simps)

definition plugin_addr :: "plugin \<Rightarrow> sock_addr" where
  "plugin_addr p = (case p of HttpPlugin s \<Rightarrow> hset_listen s | GrpcPlugin c \<Rightarrow> gcf_listen c)"

definition plugin_reflects :: "main_env \<Rightarrow> plugin \<Rightarrow> bool" where
  "plugin_reflects E p = (case p of HttpPlugin _ \<Rightarrow> True | GrpcPlugin c \<Rightarrow> gcf_reflection c \<longrightarrow> is_ok (me_reflector E))"

lemma plugin_prepare_as:
  "prepared_as (plugin_reflects E p) (bind_all (me_sockets E) [plugin_addr p] (bs_bound st)) st (plugin_prepare E p st)"
  using http_prepare_as grpc_prepare_as
  by (cases p) (simp_all add: plugin_reflects_def plugin_addr_def plugin_prepare_def del: bind_all.simps)

lemma check_mode_ok: "is_ok (check_mode name served m) \<longleftrightarrow> m \<in> set served"
  by (simp add: check_mode_def ensure_def)

lemma prepared_as_then:
  assumes "prepared_as ok1 (bind_all S as (bs_bound st)) st (r1, st1)"
    and "prepared_as ok2 (bind_all S bs (bs_bound st1)) st1 r2"
  shows "prepared_as (ok1 \<and> ok2) (bind_all S (as @ bs) (bs_bound st)) st
    (case r1 of Err e \<Rightarrow> (Err (f e), st1) | Ok _ \<Rightarrow> r2)"
  using assms
  by (cases r1) (auto simp: prepared_as_def bind_all_append split: option.splits)

lemma prepare_all_as:
  "prepared_as (list_all (\<lambda>(p, pool). pset_mode pool \<in> set (plugin_modes p) \<and> plugin_reflects E p) ps)
     (bind_all (me_sockets E) (map (plugin_addr \<circ> fst) ps) (bs_bound st)) st (prepare_all E ps st)"
proof (induction ps arbitrary: st)
  case Nil
  then show ?case by (simp add: prepared_as_def)
next
  case (Cons q ps)
  obtain p pool where q: "q = (p, pool)" by fastforce
  show ?case
  proof (cases "check_mode (plugin_name p) (plugin_modes p) (pset_mode pool)")
    case (Err e)
    then have "\<not> pset_mode pool \<in> set (plugin_modes p)" using check_mode_ok by (metis is_ok.simps(2))
    then show ?thesis using Err by (simp add: q prepared_as_def)
  next
    case (Ok u)
    then have m: "pset_mode pool \<in> set (plugin_modes p)" using check_mode_ok by (metis is_ok.simps(1))
    obtain r st1 where p: "plugin_prepare E p st = (r, st1)" by fastforce
    have one: "prepared_as (plugin_reflects E p) (bind_all (me_sockets E) [plugin_addr p] (bs_bound st)) st (r, st1)"
      using plugin_prepare_as[of E p st] by (simp add: p del: bind_all.simps)
    have eq: "prepare_all E (q # ps) st = (case r of
        Err e \<Rightarrow> (Err (''plugin '' @ plugin_name p @ '': prepare failed: '' @ e), st1) | Ok _ \<Rightarrow> prepare_all E ps st1)"
      by (simp add: q Ok p)
    show ?thesis
      using prepared_as_then[OF one Cons.IH, of "\<lambda>e. ''plugin '' @ plugin_name p @ '': prepare failed: '' @ e"] m
      unfolding eq by (simp add: q conj_assoc del: bind_all.simps)
  qed
qed

lemma grpc_from_settings_Ok:
  "grpc_from_settings G g = Ok c \<Longrightarrow> gcf_listen c = gset_listen g \<and> gcf_reflection c = gset_reflection g"
  by (cases "schema_from_file G (gset_descriptor_set g) (gset_services g)"; cases "load_interceptors G (gset_interceptors g)")
    (auto simp: grpc_from_settings_def and_then_def)

lemma load_plugins_Ok:
  assumes "load_plugins E s = Ok ps"
  shows "map (\<lambda>(p, pool). (plugin_name p, plugin_modes p, pool)) ps = plugins_of s
    \<and> map (plugin_addr \<circ> fst) ps = (case set_http s of Some h \<Rightarrow> [hset_listen h] | None \<Rightarrow> [])
        @ (case set_grpc s of Some g \<Rightarrow> [gset_listen g] | None \<Rightarrow> [])
    \<and> (list_all (\<lambda>(p, pool). plugin_reflects E p) ps
        \<longleftrightarrow> (case set_grpc s of Some g \<Rightarrow> gset_reflection g \<longrightarrow> is_ok (me_reflector E) | None \<Rightarrow> True))"
proof (cases "set_grpc s")
  case None
  then have "ps = (case set_http s of Some h \<Rightarrow> [(HttpPlugin h, hset_pool h)] | None \<Rightarrow> [])"
    using assms by (simp add: load_plugins_def transpose_def and_then_def)
  then show ?thesis
    using None by (cases "set_http s")
      (simp_all add: plugins_of_def plugin_name_def plugin_modes_def plugin_addr_def plugin_reflects_def)
next
  case (Some g)
  then obtain c where c: "grpc_from_settings (me_grpc E) g = Ok c"
    and ps: "ps = (case set_http s of Some h \<Rightarrow> [(HttpPlugin h, hset_pool h)] | None \<Rightarrow> []) @ [(GrpcPlugin c, gset_pool g)]"
    using assms by (cases "grpc_from_settings (me_grpc E) g") (simp_all add: load_plugins_def transpose_def and_then_def)
  note c = grpc_from_settings_Ok[OF c]
  show ?thesis
    using Some ps c by (cases "set_http s")
      (simp_all add: plugins_of_def plugin_name_def plugin_modes_def plugin_addr_def plugin_reflects_def)
qed

lemma map_pools:
  assumes "map (\<lambda>(p, pool). (plugin_name p, plugin_modes p, pool)) ps = qs"
  shows "map (\<lambda>(_, pool). pset_processes pool) ps = map (\<lambda>(_, _, pool). pset_processes pool) qs"
    and "list_all (\<lambda>(p, pool). pset_mode pool \<in> set (plugin_modes p)) ps
      \<longleftrightarrow> list_all (\<lambda>(_, served, pool). pset_mode pool \<in> set served) qs"
  by (auto simp: assms[symmetric] list_all_iff intro!: arg_cong[of _ _ sum_list])

lemma startup_checks_ok:
  "startup_checks s = Ok n \<longleftrightarrow> n = sum_list (map (\<lambda>(_, _, pool). pset_processes pool) (plugins_of s))
     \<and> n \<le> SB_MAX_SLOTS \<and> list_all (\<lambda>(_, served, pool). pset_mode pool \<in> set served) (plugins_of s)"
  by (auto simp: startup_checks_def Let_def result_simps check_modes_Ok)

lemma is_ok_ex: "is_ok r = (\<exists>x. r = Ok x)" by (cases r) auto

lemma boot_plugins_as:
  "bs_files (snd (boot_plugins E s st)) = bs_files st
   \<and> (is_ok (fst (boot_plugins E s st)) \<longleftrightarrow> is_ok (load_plugins E s) \<and> is_ok (startup_checks s)
        \<and> bind_all (me_sockets E) (listen_addrs s) (bs_bound st) \<noteq> None
        \<and> (case set_grpc s of Some g \<Rightarrow> gset_reflection g \<longrightarrow> is_ok (me_reflector E) | None \<Rightarrow> True))
   \<and> (\<forall>n. fst (boot_plugins E s st) = Ok n \<longrightarrow> startup_checks s = Ok n
        \<and> bind_all (me_sockets E) (listen_addrs s) (bs_bound st) = Some (bs_bound (snd (boot_plugins E s st))))"
proof (cases "load_plugins E s")
  case (Err e)
  then show ?thesis by (simp add: boot_plugins_def)
next
  case (Ok ps)
  note l = load_plugins_Ok[OF Ok]
  let ?qs = "plugins_of s"
  let ?n = "sum_list (map (\<lambda>(_, pool). pset_processes pool) ps)"
  have n: "?n = sum_list (map (\<lambda>(_, _, pool). pset_processes pool) ?qs)"
    using map_pools(1)[OF conjunct1[OF l]] by simp
  have c: "is_ok (startup_checks s) \<longleftrightarrow> ?n \<le> SB_MAX_SLOTS
      \<and> list_all (\<lambda>(p, pool). pset_mode pool \<in> set (plugin_modes p)) ps"
    "startup_checks s = Ok k \<longleftrightarrow> k = ?n \<and> is_ok (startup_checks s)" for k
    using map_pools(2)[OF conjunct1[OF l]] by (auto simp: is_ok_ex startup_checks_ok n)
  define refl where "refl = (case set_grpc s of Some g \<Rightarrow> gset_reflection g \<longrightarrow> is_ok (me_reflector E) | None \<Rightarrow> True)"
  define addrs where "addrs = (case set_http s of Some h \<Rightarrow> [hset_listen h] | None \<Rightarrow> [])
        @ (case set_grpc s of Some g \<Rightarrow> [gset_listen g] | None \<Rightarrow> [])"
  define obs where "obs = (case set_observability s of Some o1 \<Rightarrow> [oset_listen o1] | None \<Rightarrow> [])"
  have la: "listen_addrs s = addrs @ obs" by (simp add: listen_addrs_def addrs_def obs_def)
  show ?thesis
  proof (cases "?n \<le> SB_MAX_SLOTS")
    case False
    then show ?thesis using Ok c by (simp add: boot_plugins_def)
  next
    case small: True
    obtain r1 st1 where p1: "prepare_all E ps st = (r1, st1)" by fastforce
    have a1: "prepared_as (is_ok (startup_checks s) \<and> refl) (bind_all (me_sockets E) addrs (bs_bound st)) st (r1, st1)"
      using prepare_all_as[of E ps st] small l
      by (simp add: p1 c(1) refl_def addrs_def list.pred_set case_prod_beta ball_conj_distrib)
    obtain r2 st2 where p2: "(case set_observability s of None \<Rightarrow> (Ok (), st1) | Some o1 \<Rightarrow> obs_new E o1 st1) = (r2, st2)"
      by fastforce
    have a2: "prepared_as True (bind_all (me_sockets E) obs (bs_bound st1)) st1 (r2, st2)"
    proof (cases "set_observability s")
      case None
      then show ?thesis using p2 by (auto simp: obs_def prepared_as_def)
    next
      case (Some o1)
      then show ?thesis using p2 obs_new_as[of E o1 st1] by (simp add: obs_def del: bind_all.simps)
    qed
    show ?thesis
      using a1 a2 Ok small p1 p2 c(2)
      by (cases r1; cases r2) (auto simp: boot_plugins_def Let_def prepared_as_def la bind_all_append refl_def[symmetric]
          split: option.splits)
  qed
qed

lemma serve_no_panic:
  assumes "startup_checks s = Ok n"
  shows "proc_serve (process_of E s) n fuel \<noteq> None"
proof (cases "pr_console (process_of E s) = Ok () \<and> pr_boot (process_of E s) = Ok () \<and> 1 \<le> n \<and> n \<le> SB_MAX_SLOTS")
  case True
  have "n = sum_list (map pl_processes (pr_plugins (process_of E s)))"
    using assms by (auto simp: startup_checks_ok process_of_def comp_def intro!: arg_cong[of _ _ sum_list])
  with True show ?thesis using proc_serve_runs[of "process_of E s" n fuel] by auto
next
  case False
  then show ?thesis
    by (cases "pr_console (process_of E s)"; cases "pr_boot (process_of E s)")
      (auto simp: proc_serve_def create_board_def Let_def)
qed

lemma pidfile_step_ok: "is_ok (fst (pidfile_step E s fs)) \<longleftrightarrow> pidfile_free E s fs"
  by (auto simp: pidfile_step_def pidfile_free_def pidfile_write_def and_then_def split: option.splits result.splits)

lemma closing_bound [simp]: "bs_bound (closing_pidfile E owned fin st) = bs_bound st"
  by (auto simp: closing_pidfile_def split: option.splits process_end.splits result.splits)

text \<open>
  C38: The process gets to the supervision, where PHP boots, exactly when the settings are accepted, the PID file is new
  and can be written, the descriptor set and the token files load, the pools fit into the board and use a
  mode their plugin serves, and every configured address can be bound, whatever the order in which the
  start looks at them. By then all of them are bound. Otherwise it ends with an error and exit code 1. It
  never panics.
\<close>

theorem php_boots_when_ready:
  "(case me_settings E of
      Err _ \<Rightarrow> \<not> mr_serves (main_serve E fuel st)
    | Ok s \<Rightarrow> mr_serves (main_serve E fuel st) = ready E st s)
   \<and> mr_end (main_serve E fuel st) \<noteq> None
   \<and> (if mr_serves (main_serve E fuel st)
      then (\<exists>s. me_settings E = Ok s
        \<and> bind_all (me_sockets E) (listen_addrs s) (bs_bound st) = Some (bs_bound (mr_state (main_serve E fuel st)))
        \<and> (\<exists>n. startup_checks s = Ok n \<and> mr_end (main_serve E fuel st) = proc_serve (process_of E s) n fuel))
      else (\<exists>e t. mr_end (main_serve E fuel st) = Some (Some (Exits (Err e), t))))"
proof (cases "me_settings E")
  case (Err e)
  then show ?thesis by (simp add: main_serve_def)
next
  case (Ok s)
  obtain r fs where p: "pidfile_step E s (bs_files st) = (r, fs)" by fastforce
  have free: "is_ok r \<longleftrightarrow> pidfile_free E s (bs_files st)" using pidfile_step_ok[of E s "bs_files st"] by (simp add: p)
  show ?thesis
  proof (cases r)
    case e: (Err e)
    then show ?thesis using Ok p free by (simp add: main_serve_def ready_def)
  next
    case o: (Ok owned)
    obtain b st1 where b: "boot_plugins E s (st\<lparr>bs_files := fs\<rparr>) = (b, st1)" by fastforce
    note boot = boot_plugins_as[of E s "st\<lparr>bs_files := fs\<rparr>", unfolded b fst_conv snd_conv]
    have rd: "is_ok b \<longleftrightarrow> ready E st s" using boot free o by (simp add: ready_def)
    show ?thesis
    proof (cases b)
      case (Err e)
      then show ?thesis using Ok o p b rd by (simp add: main_serve_def)
    next
      case n: (Ok n)
      then have "startup_checks s = Ok n"
        and "bind_all (me_sockets E) (listen_addrs s) (bs_bound st) = Some (bs_bound st1)" using boot by simp_all
      then show ?thesis using Ok o p b rd n serve_no_panic[of s n E fuel] by (simp add: main_serve_def Let_def)
    qed
  qed
qed

text \<open>
  C39: The PID file. With a PID file configured that the process may remove, the file system is after the
  process exactly as before it, however it exits; while it serves, and after a forced end, which runs no
  destructor, the one difference is the new file with the process id. A file that was there before is never
  touched and keeps the process from serving.
\<close>

theorem pidfile_lifetime:
  assumes "me_settings E = Ok s" and "sset_pidfile (set_supervisor s) = Some p" and "pf_removes (me_pidfile E) p"
  shows "(case mr_end (main_serve E fuel st) of
      Some (Some (Exits _, _)) \<Rightarrow> bs_files (mr_state (main_serve E fuel st)) = bs_files st
    | None \<Rightarrow> bs_files (mr_state (main_serve E fuel st)) = bs_files st
    | _ \<Rightarrow> bs_files st p = None
        \<and> bs_files (mr_state (main_serve E fuel st)) = (bs_files st)(p \<mapsto> pidfile_text (me_pidfile E)))
    \<and> (bs_files st p = None \<or> \<not> mr_serves (main_serve E fuel st))"
proof -
  obtain r fs where w: "pidfile_write (me_pidfile E) p (bs_files st) = (r, fs)" by fastforce
  show ?thesis
  proof (cases r)
    case (Err e)
    then have "fs = bs_files st" using w assms(3) pidfile_write_err by blast
    then show ?thesis using assms w Err by (simp add: main_serve_def pidfile_step_def and_then_def)
  next
    case (Ok p')
    then have f: "p' = p" "bs_files st p = None" "fs = (bs_files st)(p \<mapsto> pidfile_text (me_pidfile E))"
      using pidfile_write_ok w by blast+
    obtain b st1 where b: "boot_plugins E s (st\<lparr>bs_files := fs\<rparr>) = (b, st1)" by fastforce
    have st1: "bs_files st1 = fs" using boot_plugins_as[of E s "st\<lparr>bs_files := fs\<rparr>"] b by simp
    have undo: "fs(p := None) = bs_files st" using f by auto
    show ?thesis
      using assms w Ok f(1,2) b st1 undo f(3)
      by (cases b) (auto simp: main_serve_def pidfile_step_def and_then_def Let_def closing_pidfile_def pidfile_drop_def
          remove_file_def split: option.splits process_end.splits result.splits)
  qed
qed

definition sample_settings :: settings where
  "sample_settings = \<lparr>set_http = Some \<lparr>hset_listen = sock_v4 ''127.0.0.1'' 8000, hset_server_name = ''localhost'',
       hset_server_port = 8000, hset_max_body_size = 2 ^ 20, hset_write_timeout = 1000, hset_keepalive_timeout = 1000,
       hset_uploads = None, hset_sendfile_root = ''app'', hset_static_files = None,
       hset_pool = \<lparr>pset_entrypoint = ''app/index.php'', pset_processes = 2, pset_mode = ModeClassic,
         pset_max_requests = 0\<rparr>\<rparr>,
     set_grpc = None, set_observability = None,
     set_supervisor = \<lparr>sset_timeout = 1000, sset_pidfile = Some ''pid''\<rparr>, set_log_targets = []\<rparr>"

text \<open>A process whose plugin never ends, stopped by the console after a while.\<close>

definition sample_main :: main_env where
  "sample_main = \<lparr>me_settings = Ok sample_settings,
     me_pidfile = \<lparr>pf_pid = 42, pf_exists_text = ''exists'', pf_opens = (\<lambda>_. Ok ()), pf_writes = Ok (),
       pf_partial = [], pf_removes = (\<lambda>_. True)\<rparr>,
     me_sockets = \<lparr>so_new = (\<lambda>_. Ok ()), so_bind = (\<lambda>bound a. if a \<in> set bound then Err ''in use'' else Ok ()),
       so_listen = (\<lambda>_. Ok ()), so_nonblocking = (\<lambda>_. Ok ()), so_local = Ok\<rparr>,
     me_fs = \<lparr>fs_is_relative = (\<lambda>_. True), fs_join = (\<lambda>a b. a @ b), fs_components = (\<lambda>p. [p]),
       fs_canonicalize = (\<lambda>_. None), fs_open = (\<lambda>_. None), fs_metadata = (\<lambda>_. None)\<rparr>,
     me_spool = \<lparr>sp_pid = 42, sp_open = (\<lambda>_. Err 87), sp_removes = (\<lambda>_. True), sp_creates = (\<lambda>_. Ok ()),
       sp_exists_text = [], sp_base = []\<rparr>,
     me_grpc = \<lparr>gf_read = (\<lambda>_. Err ''none''), gf_decode = (\<lambda>_. Err ''none''), gf_read_text = (\<lambda>_. Err ''none''),
       gf_plugin_services = []\<rparr>,
     me_reflector = Ok (), me_plugin = (\<lambda>_. hd (pr_plugins stuck_proc)), me_observer = Err ''none'',
     me_process = stuck_proc\<rparr>"

definition sample_boot :: "files \<Rightarrow> boot_state" where
  "sample_boot fs = \<lparr>bs_files = fs, bs_bound = [], bs_identity = None, bs_sendfile = None, bs_schema = None,
     bs_uploads = None\<rparr>"

lemma pidfile_lifetime_witness:
  "bs_files (mr_state (main_serve sample_main 7 (sample_boot Map.empty))) = [''pid'' \<mapsto> ''42'' @ [CHR 0x0A]]
   \<and> mr_end (main_serve sample_main 7 (sample_boot Map.empty)) = Some (Some (Forced 1, 1100))"
proof -
  have p: "me_settings sample_main = Ok sample_settings" "sset_pidfile (set_supervisor sample_settings) = Some ''pid''"
    "pf_removes (me_pidfile sample_main) ''pid''" by (simp_all add: sample_main_def sample_settings_def)
  have e: "mr_end (main_serve sample_main 7 (sample_boot Map.empty)) = Some (Some (Forced 1, 1100))" by code_simp
  have t: "pidfile_text (me_pidfile sample_main) = ''42'' @ [CHR 0x0A]" by code_simp
  show ?thesis
    using pidfile_lifetime[OF p, of 7 "sample_boot Map.empty"] e t by (simp add: sample_boot_def)
qed

end
