(* ===== verification/StaticFile.thy ===== *)
theory StaticFile
  imports StaticCache
begin

text \<open>
  The open file that the cache hands to \<open>ServeDir\<close> (\<open>CachedFile\<close> and the \<open>Backend\<close> of
  \<open>middleware/static_files/src/cache.rs\<close>): a cursor over bytes in memory, or a handle of the system. The code forwards each
  read and seek; the cursor is that of the standard library, the handle is a parameter whose documented
  behaviour is the locale \<open>disk_files\<close>. \<open>ServeDir\<close> reads a whole file from where the open left it, and seeks first for a range.
  The theorem says that both give exactly the bytes of the file, wherever the reads are cut, also for a file that
  the fill read to its end before it decided to stream it.
\<close>

section \<open>The cursor of the standard library and the handle of the system\<close>

definition cursor_read :: "nat \<Rightarrow> cursor \<Rightarrow> bytes \<times> cursor" where
  "cursor_read room c =
     (let b = take room (drop (cu_pos c) (cu_body c)) in (b, c\<lparr>cu_pos := cu_pos c + length b\<rparr>))"

text \<open>A seek of a cursor is unsigned 64-bit arithmetic; one that leaves its range is refused and moves nothing.\<close>

definition cursor_seek :: "seek_from \<Rightarrow> cursor \<Rightarrow> (nat, io_kind) result \<times> cursor" where
  "cursor_seek from c =
     (let target = (case from of SeekStart n \<Rightarrow> int n | SeekEnd i \<Rightarrow> int (length (cu_body c)) + i
          | SeekCurrent i \<Rightarrow> int (cu_pos c) + i)
      in if 0 \<le> target \<and> target < 2 ^ 64 then (Ok (nat target), c\<lparr>cu_pos := nat target\<rparr>)
         else (Err InvalidInput, c))"

text \<open>
  A handle opens at the start of its file. A read to the end moves by what it read. A seek to an offset goes there
  or fails. A read gives bytes from the position on, at most as many as there is room for and at least one when there is
  room and a byte left; the file is not written while it is streamed.
\<close>

locale disk_files =
  fixes F :: "'f file_ops" and pos :: "'f \<Rightarrow> nat" and held :: "'f \<Rightarrow> bytes"
  assumes open_start: "fo_open F path t = Ok f \<Longrightarrow> pos f = 0"
    and read_to_end: "fo_read_to_end F n f = (Ok b, f') \<Longrightarrow> length b \<le> n \<and> pos f' = pos f + length b"
    and seek_start: "fo_seek F (SeekStart n) f = (Ok p, f') \<Longrightarrow> p = n \<and> pos f' = n \<and> held f' = held f"
    and read_some: "fo_read F room f = (Ok b, f') \<Longrightarrow>
      b = take (length b) (drop (pos f) (held f)) \<and> length b \<le> room
      \<and> (b = [] \<longleftrightarrow> room = 0 \<or> length (held f) \<le> pos f) \<and> pos f' = pos f + length b \<and> held f' = held f"

section \<open>Reading and seeking\<close>

definition cached_read :: "'f file_ops \<Rightarrow> nat \<Rightarrow> 'f cached_file \<Rightarrow> (bytes, io_kind) result \<times> 'f cached_file" where
  "cached_read F room f = (case f of
     Memory c meta \<Rightarrow> (case cursor_read room c of (b, c') \<Rightarrow> (Ok b, Memory c' meta))
   | Disk d meta \<Rightarrow> (case fo_read F room d of (r, d') \<Rightarrow> (r, Disk d' meta)))"

definition cached_seek ::
  "'f file_ops \<Rightarrow> seek_from \<Rightarrow> 'f cached_file \<Rightarrow> (nat, io_kind) result \<times> 'f cached_file" where
  "cached_seek F from f = (case f of
     Memory c meta \<Rightarrow> (case cursor_seek from c of (r, c') \<Rightarrow> (r, Memory c' meta))
   | Disk d meta \<Rightarrow> (case fo_seek F from d of (r, d') \<Rightarrow> (r, Disk d' meta)))"

definition file_metadata :: "'f cached_file \<Rightarrow> cached_meta" where
  "file_metadata f = (case f of Memory _ meta \<Rightarrow> meta | Disk _ meta \<Rightarrow> meta)"

section \<open>The backend\<close>

definition backend_metadata ::
  "bytes \<Rightarrow> nat \<Rightarrow> (cached_meta, io_kind) result \<Rightarrow> (store \<Rightarrow> store) \<Rightarrow> store
   \<Rightarrow> (cached_meta, io_kind) result \<times> store" where
  "backend_metadata path now disk others s = cache_stat path now disk others s"

text \<open>
  A fill opens at \<open>now\<close> and ends at \<open>later\<close>; \<open>others\<close> is what other connections do to the store during the blocking read, and
  \<open>joined\<close> says that the task of the read ended in order.
\<close>

definition cache_fill ::
  "'f file_ops \<Rightarrow> bytes \<Rightarrow> nat \<Rightarrow> nat \<Rightarrow> bool \<Rightarrow> (store \<Rightarrow> store) \<Rightarrow> store
   \<Rightarrow> ('f cached_file, io_kind) result \<times> store" where
  "cache_fill F path now later joined others s =
     (let opened = fo_open F path now in
      case fill_begin path opened (case opened of Ok f \<Rightarrow> fo_metadata F now f | Err e \<Rightarrow> Err e) now s of
        (Inl r, s1) \<Rightarrow> (r, s1)
      | (Inr (file, meta), s1) \<Rightarrow> (case fill_read F meta later joined file of
            Err e \<Rightarrow> (Err e, others s1)
          | Ok read \<Rightarrow> fill_end F path meta read later (others s1)))"

text \<open>\<open>between\<close> is what other connections do between the look and the fill.\<close>

definition backend_open ::
  "'f file_ops \<Rightarrow> bytes \<Rightarrow> nat \<Rightarrow> nat \<Rightarrow> nat \<Rightarrow> bool \<Rightarrow> (store \<Rightarrow> store) \<Rightarrow> (store \<Rightarrow> store) \<Rightarrow> store
   \<Rightarrow> ('f cached_file, io_kind) result \<times> store" where
  "backend_open F path t now later joined between others s = (case cache_hit path t s of
     Some k \<Rightarrow> (Ok k, s)
   | None \<Rightarrow> cache_fill F path now later joined others (between s))"

section \<open>Reads give the file\<close>

definition position :: "('f \<Rightarrow> nat) \<Rightarrow> 'f cached_file \<Rightarrow> nat" where
  "position pos f = (case f of Memory c _ \<Rightarrow> cu_pos c | Disk d _ \<Rightarrow> pos d)"

definition contents_of :: "('f \<Rightarrow> bytes) \<Rightarrow> 'f cached_file \<Rightarrow> bytes" where
  "contents_of held f = (case f of Memory c _ \<Rightarrow> cu_body c | Disk d _ \<Rightarrow> held d)"

text \<open>Reads with buffers of the given sizes, up to the first error; the range of a request, if any, is sought first.\<close>

fun read_plan :: "'f file_ops \<Rightarrow> nat list \<Rightarrow> 'f cached_file \<Rightarrow> bytes list \<times> io_kind option" where
  "read_plan F [] f = ([], None)"
| "read_plan F (room # plan) f = (case cached_read F room f of
     (Err e, _) \<Rightarrow> ([], Some e)
   | (Ok chunk, f1) \<Rightarrow> (case read_plan F plan f1 of (chunks, err) \<Rightarrow> (chunk # chunks, err)))"

fun sought :: "'f file_ops \<Rightarrow> nat option \<Rightarrow> 'f cached_file \<Rightarrow> ('f cached_file, io_kind) result" where
  "sought F None f = Ok f"
| "sought F (Some a) f = (case cached_seek F (SeekStart a) f of (Ok _, f1) \<Rightarrow> Ok f1 | (Err e, _) \<Rightarrow> Err e)"

definition wanting :: "nat list \<Rightarrow> nat" where
  "wanting plan = length (filter (\<lambda>room. room \<noteq> 0) plan)"

context disk_files
begin

lemma cached_read_exact:
  assumes "cached_read F room f = (Ok chunk, f')"
  shows "chunk = take (length chunk) (drop (position pos f) (contents_of held f)) \<and> length chunk \<le> room
    \<and> contents_of held f' = contents_of held f \<and> position pos f' = position pos f + length chunk
    \<and> (chunk = [] \<longleftrightarrow> room = 0 \<or> length (contents_of held f) \<le> position pos f)"
proof (cases f)
  case (Memory c meta)
  then show ?thesis
    using assms by (auto simp: cached_read_def cursor_read_def Let_def contents_of_def position_def min_def)
next
  case (Disk d meta)
  with assms obtain d' where "fo_read F room d = (Ok chunk, d')" "f' = Disk d' meta"
    by (auto simp: cached_read_def split: prod.splits)
  with read_some [OF this(1)] Disk show ?thesis by (simp add: contents_of_def position_def)
qed

lemma read_plan_exact:
  assumes "read_plan F plan f = (chunks, err)"
  shows "concat chunks = take (length (concat chunks)) (drop (position pos f) (contents_of held f))
    \<and> (err = None \<longrightarrow> min (wanting plan) (length (contents_of held f) - position pos f) \<le> length (concat chunks))
    \<and> list_all2 (\<lambda>chunk room. length chunk \<le> room) chunks (take (length chunks) plan)"
  using assms
proof (induction plan arbitrary: f chunks)
  case (Cons room plan)
  obtain r f1 where r: "cached_read F room f = (r, f1)" by fastforce
  show ?case
  proof (cases r)
    case (Err e)
    with Cons.prems r show ?thesis by auto
  next
    case (Ok c)
    obtain cs err' where rs: "read_plan F plan f1 = (cs, err')" by fastforce
    have e: "chunks = c # cs" "err = err'" using Cons.prems by (simp_all add: r Ok rs)
    note one = cached_read_exact [OF r [unfolded Ok]]
    note rest = Cons.IH [OF rs [folded e(2)]]
    let ?d = "drop (position pos f) (contents_of held f)"
    have "concat cs = take (length (concat cs)) (drop (length c) ?d)"
      using rest one by (metis add.commute drop_drop)
    then have whole: "c @ concat cs = take (length c + length (concat cs)) ?d"
      using one by (metis take_add)
    have progress: "err = None \<longrightarrow>
        min (wanting (room # plan)) (length (contents_of held f) - position pos f) \<le> length c + length (concat cs)"
    proof (cases "c = []")
      case True
      then show ?thesis using one rest by (auto simp: wanting_def)
    next
      case False
      then have "1 \<le> length c" by (cases c) auto
      then show ?thesis using one rest by (auto simp: wanting_def min_def split: if_splits)
    qed
    show ?thesis
      unfolding e concat.simps length_append
      by (intro conjI whole progress [unfolded e]) (use one rest in \<open>simp_all\<close>)
  qed
qed (simp add: wanting_def)

lemma sought_exact:
  assumes "sought F start f = Ok f1" and "position pos f = 0"
  shows "position pos f1 = (case start of Some a \<Rightarrow> a | None \<Rightarrow> 0) \<and> contents_of held f1 = contents_of held f"
proof (cases start)
  case (Some a)
  show ?thesis
  proof (cases f)
    case (Memory c meta)
    then show ?thesis using assms Some
      by (auto simp: cached_seek_def cursor_seek_def Let_def position_def contents_of_def split: if_splits)
  next
    case (Disk d meta)
    with assms Some obtain p d' where "fo_seek F (SeekStart a) d = (Ok p, d')" "f1 = Disk d' meta"
      by (auto simp: cached_seek_def split: prod.splits result.splits)
    with seek_start [OF this(1)] Some Disk show ?thesis by (simp add: position_def contents_of_def)
  qed
qed (use assms in simp)

lemma fill_end_open:
  assumes "fill_end F path meta read now s = (Ok f, s')"
  shows "position pos f = 0 \<and> (case f of Memory c m \<Rightarrow> length (cu_body c) = cm_len m | Disk _ _ \<Rightarrow> True)"
proof -
  obtain d buf reread where read: "read = (d, buf, reread)" by (cases read) auto
  show ?thesis
    using assms seek_start [where n = 0 and f = "fst read"]
    by (auto simp: read fill_end_def cursor_new_def position_def split: if_splits prod.splits result.splits)
qed

lemma cache_fill_open:
  assumes "cache_fill F path now later joined others s = (Ok f, s')"
  shows "position pos f = 0 \<and> (case f of Memory c m \<Rightarrow> length (cu_body c) = cm_len m | Disk _ _ \<Rightarrow> True)"
  using assms open_start [of path now]
  by (auto simp: cache_fill_def fill_begin_def position_def Let_def
      split: result.splits sum.splits prod.splits if_splits dest: fill_end_open)

lemma backend_open_start:
  assumes "store_inv clock s" and "backend_open F path t now later joined between others s = (Ok f, s')"
  shows "position pos f = 0 \<and> (case f of Memory c m \<Rightarrow> length (cu_body c) = cm_len m | Disk _ _ \<Rightarrow> True)"
proof (cases "fresh s path t")
  case (Some e)
  then have "(path, e) \<in> set (st_map s)" by (auto simp: fresh_def opt_filter_Some dest: map_of_SomeD)
  with assms Some show ?thesis
    by (auto simp: backend_open_def cache_hit_def cursor_new_def position_def store_inv_def)
next
  case None
  then show ?thesis using assms(2) cache_fill_open by (simp add: backend_open_def cache_hit_def)
qed

end


text \<open>
  A disk whose handles are contents and a position, whose reads come one byte short, and whose files change
  between two looks at their metadata.
\<close>

definition sample_files :: "(bytes \<times> nat) file_ops" where
  "sample_files = \<lparr>fo_open = \<lambda>path t. if path = ''/a'' then Ok (''hello'', 0) else Err NotFound,
     fo_metadata = \<lambda>t f. Ok \<lparr>cm_is_dir = False, cm_modified = Some (int t), cm_len = length (fst f)\<rparr>,
     fo_read_to_end = \<lambda>n f. (let b = take n (drop (snd f) (fst f)) in (Ok b, (fst f, snd f + length b))),
     fo_seek = \<lambda>from f. (case from of SeekStart n \<Rightarrow> (Ok n, (fst f, n)) | _ \<Rightarrow> (Err InvalidInput, f)),
     fo_read = \<lambda>room f. (let b = take (if room < 2 then room else room - 1) (drop (snd f) (fst f))
       in (Ok b, (fst f, snd f + length b)))\<rparr>"

interpretation sample_disk: disk_files sample_files snd fst
  by unfold_locales (auto simp: sample_files_def Let_def min_def split: if_splits seek_from.splits)


end
