(* ===== verification/HttpConnection.thy ===== *)
theory HttpConnection
  imports Handler Listener "HOL-Library.AList"
begin

text \<open>
  The connections of the HTTP plugin and the requests on them (\<open>plugins/http/src/serve.rs\<close>, and the response guard of
  \<open>handler.rs\<close> and \<open>bridge.rs\<close>). The plugin counts the requests in flight with a guard that is shared: the handler
  makes it, the response owns it, the reply body of PHP holds a clone, and so does the task that drains a reply
  whose body hyper does not read to its end. The last holder takes the request off the count, and the
  shutdown believes the count. The parts run as tasks of the runtime, so their steps interleave in any order;
  the theorem says what the count means at every moment.
\<close>

section \<open>The state\<close>

text \<open>One request: the number of guards alive, the watermark they share, and the parts that hold one.\<close>

record 'm http_call =
  hl_conn :: nat
  hl_guards :: nat
  hl_watermark :: "nat option"
  hl_handler :: bool                         \<comment> \<open>the future of \<open>respond\<close> is alive\<close>
  hl_response :: "'m http_response option"   \<comment> \<open>hyper owns the response\<close>
  hl_transport :: "resp_transport option"
  hl_drain :: "drain_state option"

record 'm http_serving =
  hv_inflight :: nat
  hv_closing :: bool
  hv_conns :: "(nat \<times> connection_state) list"
  hv_calls :: "(nat \<times> 'm http_call) list"

text \<open>\<open>Serving::start\<close> and the settings it gives hyper and the write timeout of each connection (milliseconds).\<close>

record http_setup =
  hu_header_read_timeout :: nat
  hu_write_timeout :: nat

definition serving_start :: "nat \<Rightarrow> nat \<Rightarrow> http_setup \<times> 'm http_serving" where
  "serving_start keepalive_timeout write_timeout =
     (\<lparr>hu_header_read_timeout = keepalive_timeout, hu_write_timeout = write_timeout\<rparr>,
      \<lparr>hv_inflight = 0, hv_closing = False, hv_conns = [], hv_calls = []\<rparr>)"

definition spawn_conn :: "http_setup \<Rightarrow> connection_state \<times> timed_io" where
  "spawn_conn setup = (\<lparr>cn_closed = False, cn_flushes = 0\<rparr>, timed_io_new (hu_write_timeout setup))"

section \<open>The guard\<close>

text \<open>The operations work on the shared counter and the request.\<close>

definition guard_init :: "nat \<Rightarrow> nat \<Rightarrow> nat \<times> 'm http_call" where
  "guard_init inflight conn = (inflight + 1,
     \<lparr>hl_conn = conn, hl_guards = 1, hl_watermark = None, hl_handler = True, hl_response = None,
      hl_transport = None, hl_drain = None\<rparr>)"

definition guard_clone :: "nat \<times> 'm http_call \<Rightarrow> nat \<times> 'm http_call" where
  "guard_clone = (\<lambda>(n, c). (n, c\<lparr>hl_guards := hl_guards c + 1\<rparr>))"

definition guard_drop_one :: "nat \<times> 'm http_call \<Rightarrow> nat \<times> 'm http_call" where
  "guard_drop_one = (\<lambda>(n, c). (if hl_guards c = 1 then n - 1 else n, c\<lparr>hl_guards := hl_guards c - 1\<rparr>))"

section \<open>The steps of a request\<close>

text \<open>\<open>spawn_drain\<close> gets a clone; when the reply is over already it drops the clone at once.\<close>

definition drain_spawned :: "'m frame option list \<Rightarrow> nat \<times> 'm http_call \<Rightarrow> nat \<times> 'm http_call" where
  "drain_spawned rx s = (case guard_clone s of (n, c) \<Rightarrow>
     (case spawn_drain rx of
        (Released _, _) \<Rightarrow> guard_drop_one (n, c)
      | (d, _) \<Rightarrow> (n, c\<lparr>hl_drain := Some d\<rparr>)))"

text \<open>
  The handler has its response: a reply body holds a clone, a bodiless reply goes to the drain, and the
  handler's guard moves into the response. Then \<open>respond\<close> adds \<open>connection: close\<close> while the plugin closes, and arms
  the watermark. \<open>rx\<close> is what the reply channel gives.
\<close>

definition call_responds ::
  "'m header_ops \<Rightarrow> bool \<Rightarrow> bytes \<Rightarrow> connection_state \<Rightarrow> 'm http_response \<Rightarrow> 'm frame option list
   \<Rightarrow> nat \<times> 'm http_call \<Rightarrow> nat \<times> 'm http_call" where
  "call_responds H closing meth cn res rx s =
     (case (case hr_body res of
          ReplyKind _ \<Rightarrow> guard_clone s
        | EmptyKind \<Rightarrow> drain_spawned rx s
        | BoxedKind _ \<Rightarrow> s) of
        (n, c) \<Rightarrow> (case respond H closing meth (cn_flushes cn) res of
          (r, transport, mark) \<Rightarrow>
            (n, c\<lparr>hl_handler := False, hl_response := Some r, hl_transport := transport, hl_watermark := mark\<rparr>)))"

text \<open>The client left while the handler ran: its future is dropped.\<close>

definition call_abandoned :: "nat \<times> 'm http_call \<Rightarrow> nat \<times> 'm http_call" where
  "call_abandoned = (\<lambda>(n, c). guard_drop_one (n, c\<lparr>hl_handler := False\<rparr>))"

text \<open>
  A poll of the response body: \<open>kind\<close> is the body after it (\<open>poll_reply\<close> of theory Bridge for a reply), \<open>len\<close> the length of the
  data frame it gave, if it gave one.
\<close>

definition call_polled ::
  "connection_state \<Rightarrow> 'm body_kind \<Rightarrow> nat option \<Rightarrow> nat \<times> 'm http_call \<Rightarrow> nat \<times> 'm http_call" where
  "call_polled cn kind len = (\<lambda>(n, c).
     (case hl_response c of
        None \<Rightarrow> (n, c)
      | Some r \<Rightarrow>
          (let c1 = c\<lparr>hl_response := Some (r\<lparr>hr_body := kind\<rparr>)\<rparr> in
           (n, case (len, hl_transport c) of
              (Some l, Some t) \<Rightarrow> (let t' = resp_body_data l (cn_flushes cn) (t\<lparr>rt_end_flush := hl_watermark c\<rparr>)
                in c1\<lparr>hl_transport := Some t', hl_watermark := rt_end_flush t'\<rparr>)
            | _ \<Rightarrow> c1))))"

text \<open>hyper drops the response: the reply body first, which may start a drain, then the response's own guard.\<close>

definition call_response_dropped :: "'m frame option list \<Rightarrow> nat \<times> 'm http_call \<Rightarrow> nat \<times> 'm http_call" where
  "call_response_dropped rx = (\<lambda>(n, c).
     (case hl_response c of
        None \<Rightarrow> (n, c)
      | Some r \<Rightarrow>
          (let s = (n, c\<lparr>hl_response := None, hl_transport := None\<rparr>) in
           guard_drop_one (case hr_body r of
              ReplyKind rb \<Rightarrow> guard_drop_one (if drop_drains (hl_watermark c) rb then drain_spawned rx s else s)
            | _ \<Rightarrow> s))))"

text \<open>A wakeup of the drain task; the task drops its clone when it ends.\<close>

definition call_drain_polled ::
  "connection_state option \<Rightarrow> 'm frame option list \<Rightarrow> nat \<times> 'm http_call \<Rightarrow> nat \<times> 'm http_call" where
  "call_drain_polled conn rx = (\<lambda>(n, c).
     (case hl_drain c of
        None \<Rightarrow> (n, c)
      | Some d \<Rightarrow> (case poll_drain (hl_watermark c) conn (d, rx) of
          (Released _, _) \<Rightarrow> guard_drop_one (n, c\<lparr>hl_drain := None\<rparr>)
        | (d', _) \<Rightarrow> (n, c\<lparr>hl_drain := Some d'\<rparr>))))"

section \<open>The steps of the plugin\<close>

text \<open>
  A connection task ends after hyper dropped what it held of its requests, and then marks the
  connection as closed.
\<close>

fun is_reply :: "'m body_kind \<Rightarrow> bool" where
  "is_reply (ReplyKind _) = True"
| "is_reply _ = False"

datatype 'm http_act =
    AcceptConn nat
  | BeginRequest nat nat
  | Respond nat bytes "'m http_response" "'m frame option list"
  | AbandonRequest nat
  | PollResponse nat "'m body_kind" "nat option"
  | DropResponse nat "'m frame option list"
  | PollDrain nat "'m frame option list"
  | FlushConn nat
  | EndConn nat
  | StartClosing

definition on_call ::
  "nat \<Rightarrow> ('m http_call \<Rightarrow> bool) \<Rightarrow> (connection_state option \<Rightarrow> nat \<times> 'm http_call \<Rightarrow> nat \<times> 'm http_call)
   \<Rightarrow> 'm http_serving \<Rightarrow> 'm http_serving option" where
  "on_call k P f s = (case map_of (hv_calls s) k of
     None \<Rightarrow> None
   | Some c \<Rightarrow> if \<not> P c then None
       else (case f (map_of (hv_conns s) (hl_conn c)) (hv_inflight s, c) of (n, c') \<Rightarrow>
         Some (s\<lparr>hv_inflight := n, hv_calls := AList.update k c' (hv_calls s)\<rparr>)))"

definition hyper_holds :: "'m http_call \<Rightarrow> bool" where
  "hyper_holds c \<longleftrightarrow> hl_handler c \<or> hl_response c \<noteq> None"

definition conn_or_new :: "connection_state option \<Rightarrow> connection_state" where
  "conn_or_new cn = (case cn of Some c \<Rightarrow> c | None \<Rightarrow> \<lparr>cn_closed = False, cn_flushes = 0\<rparr>)"

fun http_step :: "'m header_ops \<Rightarrow> http_setup \<Rightarrow> 'm http_act \<Rightarrow> 'm http_serving \<Rightarrow> 'm http_serving option" where
  "http_step H setup (AcceptConn k) s =
     (if map_of (hv_conns s) k \<noteq> None then None
      else Some (s\<lparr>hv_conns := AList.update k (fst (spawn_conn setup)) (hv_conns s)\<rparr>))"
| "http_step H setup (BeginRequest k conn) s =
     (case map_of (hv_conns s) conn of
        None \<Rightarrow> None
      | Some cn \<Rightarrow> if cn_closed cn \<or> map_of (hv_calls s) k \<noteq> None then None
          else (case guard_init (hv_inflight s) conn of (n, c) \<Rightarrow>
            Some (s\<lparr>hv_inflight := n, hv_calls := AList.update k c (hv_calls s)\<rparr>)))"
| "http_step H setup (Respond k meth res rx) s =
     on_call k hl_handler (\<lambda>cn. call_responds H (hv_closing s) meth (conn_or_new cn) res rx) s"
| "http_step H setup (AbandonRequest k) s = on_call k hl_handler (\<lambda>_. call_abandoned) s"
| "http_step H setup (PollResponse k kind len) s =
     on_call k (\<lambda>c. case hl_response c of None \<Rightarrow> False
         | Some r \<Rightarrow> is_reply (hr_body r) = is_reply kind)
       (\<lambda>cn. call_polled (conn_or_new cn) kind len) s"
| "http_step H setup (DropResponse k rx) s =
     on_call k (\<lambda>c. hl_response c \<noteq> None) (\<lambda>_. call_response_dropped rx) s"
| "http_step H setup (PollDrain k rx) s = on_call k (\<lambda>c. hl_drain c \<noteq> None) (\<lambda>cn. call_drain_polled cn rx) s"
| "http_step H setup (FlushConn k) s = (case map_of (hv_conns s) k of
     None \<Rightarrow> None
   | Some cn \<Rightarrow> Some (s\<lparr>hv_conns := AList.update k (cn\<lparr>cn_flushes := cn_flushes cn + 1\<rparr>) (hv_conns s)\<rparr>))"
| "http_step H setup (EndConn k) s = (case map_of (hv_conns s) k of
     None \<Rightarrow> None
   | Some cn \<Rightarrow> if list_ex (\<lambda>(_, c). hl_conn c = k \<and> hyper_holds c) (hv_calls s) then None
       else Some (s\<lparr>hv_conns := AList.update k (cn\<lparr>cn_closed := True\<rparr>) (hv_conns s)\<rparr>))"
| "http_step H setup StartClosing s = Some (s\<lparr>hv_closing := True\<rparr>)"

fun http_runs :: "'m header_ops \<Rightarrow> http_setup \<Rightarrow> 'm http_act list \<Rightarrow> 'm http_serving \<Rightarrow> 'm http_serving option" where
  "http_runs H setup [] s = Some s"
| "http_runs H setup (a # as) s = (case http_step H setup a s of None \<Rightarrow> None | Some s' \<Rightarrow> http_runs H setup as s')"

section \<open>What the count means\<close>

text \<open>The guards alive are those of the parts that are alive; a drain never stands beside a reply body.\<close>

definition call_live :: "'m http_call \<Rightarrow> bool" where
  "call_live c \<longleftrightarrow> hyper_holds c \<or> hl_drain c \<noteq> None"

definition call_counted :: "'m http_call \<Rightarrow> bool" where
  "call_counted c \<longleftrightarrow>
     hl_guards c = of_bool (hl_handler c) + of_bool (hl_drain c \<noteq> None)
       + (case hl_response c of None \<Rightarrow> 0 | Some r \<Rightarrow> 1 + of_bool (is_reply (hr_body r)))
     \<and> (hl_handler c \<longrightarrow> hl_response c = None \<and> hl_drain c = None)
     \<and> (case hl_response c of None \<Rightarrow> True | Some r \<Rightarrow> is_reply (hr_body r) \<longrightarrow> hl_drain c = None)"

lemma call_counted_live: "call_counted c \<Longrightarrow> hl_guards c \<noteq> 0 \<longleftrightarrow> call_live c"
  by (auto simp: call_counted_def call_live_def hyper_holds_def split: option.splits)

text \<open>What every operation on one request that is alive keeps, whatever the connection is.\<close>

definition call_step_ok ::
  "('m http_call \<Rightarrow> bool) \<Rightarrow> (connection_state option \<Rightarrow> nat \<times> 'm http_call \<Rightarrow> nat \<times> 'm http_call) \<Rightarrow> bool" where
  "call_step_ok P f \<longleftrightarrow> (\<forall>cn n c. P c \<longrightarrow> call_counted c \<longrightarrow> 0 < n \<longrightarrow>
     call_live c \<and> call_counted (snd (f cn (n, c))) \<and> hl_conn (snd (f cn (n, c))) = hl_conn c
     \<and> (hyper_holds (snd (f cn (n, c))) \<longrightarrow> hyper_holds c)
     \<and> fst (f cn (n, c)) + 1 = n + of_bool (call_live (snd (f cn (n, c)))))"

lemmas call_defs = call_counted_def call_live_def hyper_holds_def guard_clone_def guard_drop_one_def

lemma drain_spawned_shape:
  assumes "hl_guards c \<noteq> 0"
  shows "drain_spawned rx (n, c) = (n, c)
    \<or> (\<exists>d. drain_spawned rx (n, c) = (n, c\<lparr>hl_guards := hl_guards c + 1, hl_drain := Some d\<rparr>))"
proof (cases "spawn_drain rx")
  case (Pair d w)
  with assms show ?thesis
    by (cases d) (auto simp: drain_spawned_def guard_clone_def guard_drop_one_def)
qed

lemma abandoned_ok: "call_step_ok hl_handler (\<lambda>_. call_abandoned)"
  by (auto simp: call_step_ok_def call_abandoned_def call_defs split: option.splits)

lemma polled_ok:
  "call_step_ok (\<lambda>c. case hl_response c of None \<Rightarrow> False | Some r \<Rightarrow> is_reply (hr_body r) = is_reply kind)
     (\<lambda>cn. call_polled (g cn) kind len)"
  by (auto simp: call_step_ok_def call_polled_def call_defs Let_def split: option.splits)

lemma drain_polled_ok: "call_step_ok (\<lambda>c. hl_drain c \<noteq> None) (\<lambda>cn. call_drain_polled cn rx)"
  by (auto simp: call_step_ok_def call_drain_polled_def call_defs split: option.splits prod.splits drain_state.splits)

lemma respond_body: "hr_body (fst (respond H closing meth flushes res)) = hr_body res"
  by (simp add: respond_def Let_def)

lemma responds_ok: "call_step_ok hl_handler (\<lambda>cn. call_responds H closing meth (g cn) res rx)"
proof -
  have "call_live c \<and> call_counted (snd (call_responds H closing meth (g cn) res rx (n, c)))
     \<and> hl_conn (snd (call_responds H closing meth (g cn) res rx (n, c))) = hl_conn c
     \<and> (hyper_holds (snd (call_responds H closing meth (g cn) res rx (n, c))) \<longrightarrow> hyper_holds c)
     \<and> fst (call_responds H closing meth (g cn) res rx (n, c)) + 1
         = n + of_bool (call_live (snd (call_responds H closing meth (g cn) res rx (n, c))))"
    if c: "hl_handler c" "call_counted c" "0 < n" for cn n c
  proof -
    obtain r t m where r: "respond H closing meth (cn_flushes (g cn)) res = (r, t, m)" "hr_body r = hr_body res"
      by (metis respond_body prod_cases3 fst_conv)
    from c have h: "hl_guards c = 1" "hl_response c = None" "hl_drain c = None" by (simp_all add: call_counted_def)
    then have d: "drain_spawned rx (n, c) = (n, c)
      \<or> (\<exists>d. drain_spawned rx (n, c) = (n, c\<lparr>hl_guards := Suc (Suc 0), hl_drain := Some d\<rparr>))"
      using drain_spawned_shape [of c rx n] by simp
    from c h d show ?thesis
      by (cases "hr_body res") (auto simp: call_responds_def r call_defs)
  qed
  then show ?thesis unfolding call_step_ok_def by blast
qed

lemma response_dropped_ok: "call_step_ok (\<lambda>c. hl_response c \<noteq> None) (\<lambda>_. call_response_dropped rx)"
proof -
  have "call_live c \<and> call_counted (snd (call_response_dropped rx (n, c)))
     \<and> hl_conn (snd (call_response_dropped rx (n, c))) = hl_conn c
     \<and> (hyper_holds (snd (call_response_dropped rx (n, c))) \<longrightarrow> hyper_holds c)
     \<and> fst (call_response_dropped rx (n, c)) + 1 = n + of_bool (call_live (snd (call_response_dropped rx (n, c))))"
    if c: "hl_response c = Some r" "call_counted c" "0 < n" for n r c
    using c drain_spawned_shape [of "c\<lparr>hl_response := None, hl_transport := None\<rparr>" rx n] by (cases "hr_body r")
      (auto simp: call_response_dropped_def call_defs Let_def split: option.splits prod.splits if_splits)
  then show ?thesis unfolding call_step_ok_def by blast
qed

section \<open>The invariant of the plugin\<close>

definition calls_alive :: "(nat \<times> 'm http_call) list \<Rightarrow> nat" where
  "calls_alive xs = length (filter (\<lambda>(_, c). call_live c) xs)"

lemma calls_alive_new: "map_of xs k = None \<Longrightarrow> calls_alive (AList.update k c xs) = calls_alive xs + of_bool (call_live c)"
  by (induction xs) (auto simp: calls_alive_def split: if_splits)

lemma calls_alive_update:
  "map_of xs k = Some c \<Longrightarrow> calls_alive (AList.update k c' xs) + of_bool (call_live c) = calls_alive xs + of_bool (call_live c')"
  by (induction xs) (auto simp: calls_alive_def split: if_splits)

lemma calls_alive_pos: "map_of xs k = Some c \<Longrightarrow> call_live c \<Longrightarrow> 0 < calls_alive xs"
  by (induction xs) (auto simp: calls_alive_def split: if_splits)

definition serving_ok :: "'m http_serving \<Rightarrow> bool" where
  "serving_ok s \<longleftrightarrow> hv_inflight s = calls_alive (hv_calls s)
     \<and> (\<forall>k c. map_of (hv_calls s) k = Some c \<longrightarrow> call_counted c
          \<and> (\<exists>cn. map_of (hv_conns s) (hl_conn c) = Some cn \<and> (cn_closed cn \<longrightarrow> \<not> hyper_holds c)))"

lemma serving_start_ok: "serving_ok (snd (serving_start ka wt))"
  by (simp add: serving_ok_def serving_start_def calls_alive_def)

lemma on_call_keeps:
  assumes ok: "serving_ok s" and f: "call_step_ok P f" and step: "on_call k P f s = Some s'"
  shows "serving_ok s'"
proof -
  from step obtain c where c: "map_of (hv_calls s) k = Some c" "P c"
    and s': "s' = s\<lparr>hv_inflight := fst (f (map_of (hv_conns s) (hl_conn c)) (hv_inflight s, c)),
      hv_calls := AList.update k (snd (f (map_of (hv_conns s) (hl_conn c)) (hv_inflight s, c))) (hv_calls s)\<rparr>"
    by (auto simp: on_call_def split: option.splits if_splits prod.splits)
  from ok c have cc: "call_counted c" by (simp add: serving_ok_def)
  have live: "call_live c"
    using f c cc unfolding call_step_ok_def by (metis zero_less_one)
  with ok c have "0 < hv_inflight s" by (simp add: serving_ok_def calls_alive_pos)
  with f c cc have F: "call_counted (snd (f cn (hv_inflight s, c)))" "hl_conn (snd (f cn (hv_inflight s, c))) = hl_conn c"
      "hyper_holds (snd (f cn (hv_inflight s, c))) \<longrightarrow> hyper_holds c"
      "fst (f cn (hv_inflight s, c)) + 1 = hv_inflight s + of_bool (call_live (snd (f cn (hv_inflight s, c))))" for cn
    unfolding call_step_ok_def by blast+
  show ?thesis
    using ok c F [of "map_of (hv_conns s) (hl_conn c)"] live
      calls_alive_update [OF c(1), of "snd (f (map_of (hv_conns s) (hl_conn c)) (hv_inflight s, c))"]
    by (auto simp: serving_ok_def s' update_conv' split: if_splits)
qed

lemma guard_init_ok:
  "call_counted (snd (guard_init n conn))" "call_live (snd (guard_init n conn))" "hl_conn (snd (guard_init n conn)) = conn"
  by (simp_all add: guard_init_def call_defs)

lemma http_step_keeps:
  assumes ok: "serving_ok s" and step: "http_step H setup a s = Some s'"
  shows "serving_ok s'"
proof (cases a)
  case (BeginRequest k conn)
  with step obtain cn where "map_of (hv_conns s) conn = Some cn" "\<not> cn_closed cn" "map_of (hv_calls s) k = None"
    and "s' = s\<lparr>hv_inflight := hv_inflight s + 1,
      hv_calls := AList.update k (snd (guard_init (hv_inflight s) conn)) (hv_calls s)\<rparr>"
    by (auto simp: guard_init_def split: option.splits if_splits)
  with ok show ?thesis
    by (auto simp: serving_ok_def update_conv' guard_init_ok calls_alive_new split: if_splits)
next
  case (Respond k meth res rx)
  with step show ?thesis by (auto intro: on_call_keeps [OF ok responds_ok])
next
  case (AbandonRequest k)
  with step show ?thesis by (auto intro: on_call_keeps [OF ok abandoned_ok])
next
  case (PollResponse k kind len)
  with step show ?thesis by (auto intro: on_call_keeps [OF ok polled_ok])
next
  case (DropResponse k rx)
  with step show ?thesis by (auto intro: on_call_keeps [OF ok response_dropped_ok])
next
  case (PollDrain k rx)
  with step show ?thesis by (auto intro: on_call_keeps [OF ok drain_polled_ok])
next
  case (AcceptConn k)
  with step ok show ?thesis by (auto simp: serving_ok_def update_conv' split: if_splits; fastforce)
next
  case (FlushConn k)
  with step ok show ?thesis by (auto simp: serving_ok_def update_conv' split: option.splits if_splits; fastforce)
next
  case (EndConn k)
  from step EndConn obtain cn where cn: "map_of (hv_conns s) k = Some cn"
    and none: "\<not> list_ex (\<lambda>(_, c). hl_conn c = k \<and> hyper_holds c) (hv_calls s)"
    and s': "s' = s\<lparr>hv_conns := AList.update k (cn\<lparr>cn_closed := True\<rparr>) (hv_conns s)\<rparr>"
    by (auto split: option.splits if_splits)
  have "\<not> hyper_holds c" if "map_of (hv_calls s) j = Some c" "hl_conn c = k" for j c
    using map_of_SomeD [OF that(1)] none that(2) by (auto simp: list_ex_iff)
  with ok cn show ?thesis by (auto simp: serving_ok_def s' update_conv' split: if_splits)
next
  case StartClosing
  with step ok show ?thesis by (auto simp: serving_ok_def)
qed

lemma http_runs_keep: "serving_ok s \<Longrightarrow> http_runs H setup as s = Some s' \<Longrightarrow> serving_ok s'"
  by (induction as arbitrary: s) (auto split: option.splits dest: http_step_keeps)

definition requests_held :: "'m http_serving \<Rightarrow> nat" where
  "requests_held s = length (filter (\<lambda>(_, c). hl_handler c \<or> hl_response c \<noteq> None \<or> hl_drain c \<noteq> None) (hv_calls s))"

lemma requests_held_live: "requests_held s = calls_alive (hv_calls s)"
  by (simp add: requests_held_def calls_alive_def call_live_def hyper_holds_def disj_assoc)

text \<open>
  C30: the count of the requests in flight is exact at every moment, in every order in which connections, requests, polls,
  client disconnects, drains and the shutdown interleave. It is the number of requests whose handler runs, whose
  response hyper still holds, or whose reply a drain still reads. When a connection ended, none of its
  requests has a handler or a response: only a drain can still hold one, and without a drain no guard of it is
  left. So the shutdown of the plugin, which ends at such a moment, reports a clean end exactly when none of
  these is alive and its listener did not fail, and otherwise it names exactly the number of the requests that it cuts.
\<close>

theorem http_inflight_is_exact:
  assumes "http_runs H setup as (snd (serving_start keepalive_timeout write_timeout)) = Some s"
  shows "hv_inflight s = requests_held s
    \<and> (map_of (hv_calls s) k = Some c \<longrightarrow>
        (hl_guards c = 0 \<longleftrightarrow> \<not> hl_handler c \<and> hl_response c = None \<and> hl_drain c = None)
        \<and> (case map_of (hv_conns s) (hl_conn c) of None \<Rightarrow> False
           | Some cn \<Rightarrow> cn_closed cn \<longrightarrow> \<not> hl_handler c \<and> hl_response c = None))
    \<and> (http_drain D fatal grace now = (d, t) \<and> de_inflight D t = hv_inflight s \<longrightarrow>
        (d = HttpClean \<longleftrightarrow> fatal = None \<and> requests_held s = 0)
        \<and> (\<forall>n. d = HttpTimedOut n \<longleftrightarrow> fatal = None \<and> n = requests_held s \<and> 0 < n))"
proof -
  have ok: "serving_ok s" using http_runs_keep [OF serving_start_ok assms] .
  then have held: "hv_inflight s = requests_held s"
    by (simp add: serving_ok_def requests_held_live)
  moreover have "(hl_guards c = 0 \<longleftrightarrow> \<not> hl_handler c \<and> hl_response c = None \<and> hl_drain c = None)
      \<and> (case map_of (hv_conns s) (hl_conn c) of None \<Rightarrow> False
         | Some cn \<Rightarrow> cn_closed cn \<longrightarrow> \<not> hl_handler c \<and> hl_response c = None)"
    if "map_of (hv_calls s) k = Some c"
  proof -
    from ok that obtain cn where "call_counted c" "map_of (hv_conns s) (hl_conn c) = Some cn"
        "cn_closed cn \<longrightarrow> \<not> hyper_holds c"
      unfolding serving_ok_def by blast
    then show ?thesis using call_counted_live [of c] by (auto simp: call_live_def hyper_holds_def)
  qed
  moreover have "(d = HttpClean \<longleftrightarrow> fatal = None \<and> requests_held s = 0)
      \<and> (\<forall>n. d = HttpTimedOut n \<longleftrightarrow> fatal = None \<and> n = requests_held s \<and> 0 < n)"
    if "http_drain D fatal grace now = (d, t)" "de_inflight D t = hv_inflight s"
    using http_drain_exact [OF that(1)] that(2) held by simp
  ultimately show ?thesis by blast
qed

text \<open>A delivered reply outlives its connection: the drain alone holds the request until it is polled again.\<close>

definition sample_reply :: "nat \<Rightarrow> (bytes \<times> bytes) list reply_body" where
  "sample_reply sent = (reply_body_new (Some 3) None)\<lparr>rb_sent := sent\<rparr>"

definition sample_steps :: "(bytes \<times> bytes) list http_act list" where
  "sample_steps =
     [AcceptConn 0, BeginRequest 7 0, BeginRequest 8 0,
      Respond 7 ''GET'' \<lparr>hr_status = 200, hr_headers = [(''content-length'', ''3'')], hr_body = ReplyKind (sample_reply 0)\<rparr> [],
      AbandonRequest 8, StartClosing,
      PollResponse 7 (ReplyKind (sample_reply 3)) (Some 3), FlushConn 0, DropResponse 7 [None], EndConn 0]"

definition sample_serving :: "(bytes \<times> bytes) list http_serving option" where
  "sample_serving = http_runs list_headers \<lparr>hu_header_read_timeout = 75000, hu_write_timeout = 30000\<rparr> sample_steps (snd (serving_start 75000 30000))"

definition sample_drain :: drain_env where
  "sample_drain = \<lparr>de_open = \<lambda>_. 0, de_inflight = \<lambda>_. 1, de_late = \<lambda>_. 0, de_ended = \<lambda>_. Some 0\<rparr>"

lemma http_inflight_is_exact_witness:
  "map_option hv_inflight sample_serving = Some 1 \<and> map_option requests_held sample_serving = Some 1
   \<and> http_drain sample_drain None 100 7 = (HttpTimedOut 1, 107)"
proof -
  have n: "map_option hv_inflight sample_serving = Some 1" by code_simp
  then obtain s where s: "sample_serving = Some s" "hv_inflight s = 1" by (auto simp: map_option_eq_Some)
  have t: "snd (http_drain sample_drain None 100 7) = 107" by code_simp
  have p: "http_drain sample_drain None 100 7 = (fst (http_drain sample_drain None 100 7), 107)"
    using t by (metis prod.collapse)
  have i: "de_inflight sample_drain 107 = hv_inflight s" by (simp add: sample_drain_def s(2))
  note E = http_inflight_is_exact [OF s(1) [unfolded sample_serving_def], where D = sample_drain and fatal = None
      and grace = 100 and now = 7 and d = "fst (http_drain sample_drain None 100 7)" and t = 107]
  from E have h: "requests_held s = 1" using s(2) by metis
  from E p i have "fst (http_drain sample_drain None 100 7) = HttpTimedOut 1 \<longleftrightarrow> None = (None :: string option) \<and> 1 = requests_held s \<and> 0 < (1 :: nat)"
    by blast
  with h p have "http_drain sample_drain None 100 7 = (HttpTimedOut 1, 107)" by simp
  with n s(1) h show ?thesis by (auto simp: map_option_eq_Some)
qed

end
