(* ===== verification/Spec2Isabelle.thy ===== *)
theory Spec2Isabelle
  imports Headers Scoreboard Frames Exchange Intake Bridge StaticCache Auth Multipart Grpc GrpcServe Worker Handler Config Listener Process PhpObjects PhpValues SapiGlobals GrpcConnection PhpRuntime Startup StaticFile HttpConnection
begin

text \<open>
  \<^bold>\<open>The program.\<close> Rapira is an application server that runs PHP interpreters inside one Windows process.
  A plugin (HTTP or gRPC) owns a listener and a small async runtime; a pool of PHP threads runs the
  entrypoint script in one of three modes: classic (the script runs once per request), worker (the
  script stays and calls a handler per request) and dispatcher (the script receives work units and answers
  each through an object). This library models the server's own logic in Rust, from the configuration
  file to the bytes of a reply and the exit code of the process.

  \<^bold>\<open>How the parts interact.\<close> \<open>src/main.rs\<close> resolves the settings (\<open>Config\<close>), prepares
  the log, the PID file, the plugins and their listeners (\<open>Startup\<close>) and hands the plugins to
  \<open>src/worker.rs\<close>, which starts the pools and the plugin threads, supervises them and ends the process
  (\<open>Process\<close>). A plugin thread accepts connections and drains them at the end (\<open>Listener\<close>); on each connection
  the requests run as tasks that hold the plugin's counters (\<open>HttpConnection\<close>, \<open>GrpcConnection\<close>). A request passes the
  header checks (\<open>Headers\<close>) and the static files (\<open>StaticCache\<close>, \<open>StaticFile\<close>), its body is read under the byte budget of the pool
  and parsed when it is multipart (\<open>Handler\<close>, \<open>MultipartScan\<close>, \<open>Multipart\<close>), and it enters the queue of the
  pool (\<open>Intake\<close>). A PHP thread, which lives inside the PHP module (\<open>PhpRuntime\<close>), takes it (\<open>Worker\<close>) and answers with a stream of frames: a head, chunks or
  file slices, trailers, an end. The classic and worker modes buffer what PHP prints (\<open>Frames\<close>), the
  dispatcher mode answers through the exchange object (\<open>Exchange\<close>); \<open>PhpObjects\<close> and \<open>PhpValues\<close> build the objects PHP
  reads.
  The connection side turns the frames into the body that hyper polls and watches the socket (\<open>Bridge\<close>).
  A gRPC call has its own metadata rules, unit object, routes and budget (\<open>GrpcMetadata\<close>, \<open>Grpc\<close>, \<open>GrpcServe\<close>)
  and may pass the bearer token interceptor (\<open>Auth\<close>). Every PHP thread reports events to its slot of the
  scoreboard, which the quota, the metrics and the probes read (\<open>Scoreboard\<close>).

  \<^bold>\<open>Theories and sources\<close> (under \<open>src/crates\<close> unless it says otherwise).

  \<^item> \<open>Prelude\<close>: results, ASCII and UTF-8 helpers, splitting, searching, decimal parsing and printing of the Rust
    standard library. \<open>named_theorems\<close> \<open>ascii_simps\<close> and \<open>frame_simps\<close> collect rewriting facts.
  \<^item> \<open>Headers\<close>: \<open>plugins/http/src/check.rs\<close>, \<open>response.rs\<close>, \<open>php/headers.rs\<close>. Admission of a request (which
    head is refused with which status, what is removed), the fields of a response after the hop-by-hop
    removal, the head table of PHP.
  \<^item> \<open>Scoreboard\<close>: \<open>scoreboard\<close>, \<open>sapi/src/scoreboard.rs\<close>, \<open>quota.rs\<close>, \<open>observability\<close>. Slots, events, the
    request quota, the metrics text, the probes.
  \<^item> \<open>Frames\<close>: \<open>sapi/src/types.rs\<close>, \<open>callbacks.rs\<close>. The request and frame types, the buffered response, the CGI
    variables. \<open>Exchange\<close>: \<open>plugins/http/src/php/mod.rs\<close>, \<open>respond.rs\<close>, \<open>sendfile.rs\<close>. Both show the
    language of frame sequences they can emit, for any calls and any moment at which the client leaves.
  \<^item> \<open>Intake\<close>: \<open>sapi/src/work.rs\<close>. Reservation of body bytes, submit, dequeue, close; the second half composes
    any number of requests into one system, stepped by actions in any order, with its invariant. There a submit is four
    steps (arm the guard, acquire the slot, send, and each wake of the wait) and a dequeue three (take, count, release).
  \<^item> \<open>Worker\<close>: \<open>sapi/src/start.rs\<close> (receivers, \<open>worker_main\<close>), \<open>rapira_worker.rs\<close>, \<open>classic_worker.rs\<close>,
    \<open>exchange/\<close>, \<open>diagnostics.rs\<close>. Receiving, serving, the run cycles and the health rule.
  \<^item> \<open>SapiGlobals\<close>: \<open>sapi/src/context.rs\<close> and its callers. The raw pointers by which the engine reaches the
    running request, over an explicit memory: none outlives its context, and serving through them is serving as
    in \<open>Worker\<close>.
  \<^item> \<open>Bridge\<close>: \<open>plugins/http/src/bridge.rs\<close> and the body types of \<open>handler.rs\<close>. The body stream, the file
    pump, the drain of an abandoned reply, the delivery watermark, the write timeouts.
  \<^item> \<open>HttpConnection\<close>: \<open>plugins/http/src/serve.rs\<close> (connections) and the response guard of \<open>handler.rs\<close> and \<open>bridge.rs\<close>.
    The steps of any number of connections and requests in any order; the count that the drain of \<open>Listener\<close> waits
    for is the number of requests that are alive.
  \<^item> \<open>StaticCache\<close>: \<open>middleware/static_files/src/cache.rs\<close>. \<open>StaticFile\<close>: the backend of that middleware, whose
    files, from memory or from disk, read as slices of one file. The two locked sections of \<open>stat\<close> are two steps. \<open>Auth\<close>: \<open>interceptors/auth\<close>.
  \<^item> \<open>MultipartScan\<close>, \<open>Multipart\<close>: \<open>plugins/http/src/multipart.rs\<close>. The linear delimiter search equals the
    reference search; a well-formed body parses to its parts; a refused one leaves no file but those that the system
    refuses to remove.
  \<^item> \<open>GrpcMetadata\<close>, \<open>Grpc\<close>: \<open>plugins/grpc/src/php/call.rs\<close>, \<open>call.rs\<close>. \<open>GrpcServe\<close>: \<open>schema.rs\<close>,
    \<open>dispatch.rs\<close>, \<open>serve.rs\<close>, \<open>php/values.rs\<close>. \<open>GrpcConnection\<close>: the connections and calls of \<open>serve.rs\<close> and
    \<open>dispatch.rs\<close> as steps; permits come back on every path, and the verdict of the drain is exact.
  \<^item> \<open>Handler\<close>: \<open>plugins/http/src/handler.rs\<close>, \<open>request.rs\<close>. One request from its head to the head of its
    response, with every await at which the client may leave: the body, a parse on the blocking pool, the queue.
  \<^item> \<open>Config\<close>: \<open>config\<close>, the \<open>config.rs\<close> of the plugins, middleware and interceptors, \<open>src/settings.rs\<close>.
  \<^item> \<open>Listener\<close>: \<open>net/src/lib.rs\<close>, \<open>plugins/http/src/serve.rs\<close>, the spool directories. \<open>Process\<close>:
    \<open>src/worker.rs\<close>, \<open>sapi/src/plugin.rs\<close>, the pools of \<open>sapi/src/start.rs\<close>. \<open>Startup\<close>: \<open>src/main.rs\<close>,
    \<open>src/logging.rs\<close>, \<open>src/pidfile.rs\<close>, \<open>net/src/listen.rs\<close> and what each plugin prepares before PHP boots.
  \<^item> \<open>PhpRuntime\<close>: the module and the threads of \<open>sapi/src/start.rs\<close> against a specification of the order in which the
    engine accepts calls, and the dispatcher object that \<open>exchange/receive.rs\<close> caches.
  \<^item> \<open>PhpObjects\<close>: \<open>plugins/http/src/php/request.rs\<close>, \<open>sapi/src/exchange/mod.rs\<close>. The builders run on frames that own
    counted references, so a builder that gives a value neither leaks nor uses one twice. \<open>PhpValues\<close>: the
    constructors of the value classes (\<open>values.rs\<close> of \<open>sapi\<close> and of both plugins), the gRPC context, service list and
    status (\<open>plugins/grpc/src/php/call.rs\<close>), the log call (\<open>sapi/src/log.rs\<close>).

  \<^bold>\<open>State and operations.\<close> A struct is a record with the source's fields, a method a function from the record
  to its result and the new record; effects on the outside (frames sent, scoreboard events, files removed)
  are fields of the state that operations append to. A byte is a HOL \<open>char\<close>, a string of the source its
  bytes. Counters of the source are 64-bit words and wrap; sizes that the code keeps far below the word
  limit are natural numbers. A locked section or an atomic is one step; the interleavings that matter
  (the tasks of \<open>Intake\<close>, the sections of \<open>StaticCache\<close>, the channel of \<open>Frames\<close> and \<open>Exchange\<close>, the queue of \<open>Worker\<close>, the
  connections of \<open>HttpConnection\<close> and \<open>GrpcConnection\<close>) are explicit. \<open>Handler\<close> follows one request, and the files of a
  spool directory belong to it alone.

  \<^bold>\<open>Code that is not in the repository\<close> is a record of operations, given as an argument, with its
  documented behaviour as a locale: \<open>header_map\<close> and \<open>text_header_map\<close> (crate http), \<open>frame_channel\<close> and
  \<open>response_channel\<close> (tokio mpsc), \<open>semaphore\<close>, \<open>oneshot\<close> (tokio), \<open>reply_source\<close> (what polls meet),
  \<open>disk_files\<close> (tokio fs), \<open>part_parser\<close> (httparse), \<open>temp_files\<close> (tempfile and std fs, whose removals may be
  refused), \<open>byte_search\<close> (memchr), \<open>base64_codec\<close>, \<open>array_keys\<close> (PHP's array keys), \<open>engine_writes\<close> (PHP's typed
  properties). Each is interpreted on an executable instance in its theory. \<open>held_unit\<close> is the code's own
  trait \<open>Held\<close>, interpreted on the HTTP exchange and on the gRPC call. The PHP engine, hyper, connectrpc,
  tower-http and the operating system appear only as arguments that say what they answer.

  \<^bold>\<open>Bounds.\<close> The pool budget is 64 MiB of body bytes and 1024 queue slots; the static cache holds at most 16
  MiB; a buffered response at most 1 GiB; a script that dies five times before it receives anything is
  given up (\<open>UNHEALTHY_AFTER\<close>); restart delays are at most 25.6 s. Fuel appears twice, both times with a proof that
  enough of it gives a result: a poll of the reply body needs two rounds per frame and two more
  (\<open>reply_poll_returns\<close>), the supervision loop one round per 20 ms until the reason to stop
  (\<open>stop_request_ends_process\<close>). A wait that may stay pending (\<open>recv_await\<close>) has the number of its polls as an argument,
  for every value of it. Every other loop is a total function.

  \<^bold>\<open>Not modelled.\<close> The build scripts and the PHP SDK discovery (\<open>php_build\<close>, \<open>build.rs\<close>, \<open>allowed_bindings.rs\<close>),
  the bindings and the C shells of the PHP extension (FFI glue); the table of callbacks and the three INI
  defaults that \<open>sapi/src/module.rs\<close> hands to PHP; the one-call wrappers of \<open>sapi/src/zend.rs\<close> around the engine, which
  the object models use as operations; the text of log lines and the console writer; the options of sockets; the panic of a header map that is full
  (24,576 names), but in the reply of a gRPC call, where it loses a report; crates
  outside the repository (hyper, connectrpc, tower-http, the descriptor and JSON codecs), which are
  arguments; memory safety of the unsafe blocks beyond what the models of their state show; the test crates.
\<close>

section \<open>From the script to the client\<close>

text \<open>
  C28: the three parts of a reply fit together (worker or classic mode). Let PHP serve a request, the
  frames it put on the channel come to the connection, which takes the head and, within its 10 ms or not, the first
  frame of a reply with a declared length, and hyper poll the body of the response until it ends
  cleanly. Then PHP completed the reply, hyper got exactly its bytes, and their number is the content-length
  that the head declared; the final status is between 200 and 999. So a reply that is truncated, or
  whose worker died, never reaches the client as a complete one.
\<close>

theorem clean_response_is_whole:
  assumes "response_channel T delivered closed" and "delivered tx = []"
    and "serve_unit H T job (context_new req tx cgi) w = (c, w')"
    and "reply_source B coming contents" and "coming src = delivered (c_chan c)"
    and "serve_reply H B polls polls10 src = Some (res, src1)" and "hr_body res = ReplyKind rb"
    and "poll_body B fuel k rb src1 = Some (ps, rb', src')" and "BodyEnd \<in> set ps"
  shows "\<exists>head frames. delivered (c_chan c) = Head head (Some (length (data_of ps))) False # frames
    \<and> data_of ps = wire_bytes contents frames \<and> End False \<in> set frames \<and> 200 \<le> hr_status res \<and> hr_status res \<le> 999"
proof -
  from reply_source.serve_reply_frames [OF assms(4,6,7)] obtain head cl staged where
    c: "coming src = Head head cl False # (case staged of None \<Rightarrow> [] | Some f \<Rightarrow> [f]) @ coming src1"
    and rb: "rb = reply_body_new cl staged" by blast
  define frames where "frames = (case staged of None \<Rightarrow> [] | Some f \<Rightarrow> [f]) @ coming src1"
  have d: "delivered (c_chan c) = Head head cl False # frames" using assms(5) c by (simp add: frames_def)
  obtain c1 recycle errored where
    "run_handler H T job (context_new req tx cgi) = (c1, recycle, errored)" by (metis prod_cases3)
  from response_channel.serve_unit_answers [OF assms(1,2) this assms(3)]
  have ok: "buffered_ok (Head head cl False # frames)" using d by simp
  from reply_body_carries [OF assms(4) assms(8) [unfolded rb]] assms(9)
  have data: "data_of ps = wire_bytes contents frames" "clean_end frames"
    "\<And>n. cl = Some n \<Longrightarrow> n \<le> length (data_of ps)" by (auto simp: frames_def)
  have e: "End False \<in> set frames" using clean_end_has_end data(2) .
  then have "cl = Some (body_len frames)" using ok by (auto simp: buffered_ok_def)
  with data wire_bytes_length [of contents frames] have "cl = Some (length (data_of ps))" by fastforce
  with d data(1) e serve_reply_status [OF assms(6)] show ?thesis by blast
qed

text \<open>What hyper gets of the frames of \<open>src\<close>: the status, and what the polls of a reply body return.\<close>

definition polled_reply ::
  "(handle \<Rightarrow> bytes) \<Rightarrow> (bytes \<times> bytes) list frame option list \<Rightarrow> (nat \<times> body_poll list) option" where
  "polled_reply cs src = (case serve_reply list_headers (play_ops cs) 3 3 src of
     None \<Rightarrow> None
   | Some (res, src1) \<Rightarrow> (case hr_body res of
         ReplyKind rb \<Rightarrow> (case poll_body (play_ops cs) 10 9 rb src1 of
             Some (ps, rb', src') \<Rightarrow> Some (hr_status res, ps) | None \<Rightarrow> None)
       | _ \<Rightarrow> None))"

definition hello_job :: cgi_job where
  "hello_job = \<lparr>jb_activate = ([], EngOk), jb_handler = ([UbWrite sample_headers ''hi''], EngOk),
     jb_flush = ([], EngOk), jb_teardown = ([], EngOk)\<rparr>"

definition hello_served ::
  "((bytes \<times> bytes) list, (bytes \<times> bytes) list frame script_chan) php_context
   \<times> (((bytes \<times> bytes) list, (bytes \<times> bytes) list frame script_chan) http_exchange,
       ((bytes \<times> bytes) list, (bytes \<times> bytes) list frame script_chan) exchange_state) worker" where
  "hello_served = serve_unit list_headers script_tx hello_job
     (context_new sample_request (script_open 4 None) (reqc_build list_headers sample_request [])) sample_worker"

text \<open>The declared length makes the connection wait for the first chunk, which comes with the second poll.\<close>

definition hello_source :: "(bytes \<times> bytes) list frame option list" where
  "hello_source = [Some (Head \<lparr>rh_status = 200, rh_headers = []\<rparr> (Some 2) False), None, Some (Chunk ''hi''), None,
     Some (End False)]"

lemma clean_response_is_whole_witness:
  "polled_reply sample_contents hello_source = Some (200, [BodyData ''hi'', BodyPending, BodyEnd])
   \<and> (\<exists>head frames. sc_sent (c_chan (fst hello_served)) = Head head (Some 2) False # frames
        \<and> ''hi'' = wire_bytes sample_contents frames \<and> End False \<in> set frames)"
proof -
  have s: "serve_unit list_headers script_tx hello_job
     (context_new sample_request (script_open 4 None) (reqc_build list_headers sample_request [])) sample_worker
     = (fst hello_served, snd hello_served)" by (simp add: hello_served_def)
  have e: "sc_sent (script_open 4 None) = []" by (simp add: script_open_def)
  have "sc_sent (c_chan (fst hello_served))
      = [Head \<lparr>rh_status = 200, rh_headers = []\<rparr> (Some 2) False, Chunk ''hi'', End False]" by code_simp
  then have src: "play_coming hello_source = sc_sent (c_chan (fst hello_served))" by (simp add: hello_source_def)
  have p: "polled_reply sample_contents hello_source = Some (200, [BodyData ''hi'', BodyPending, BodyEnd])" by code_simp
  then obtain res src1 rb rb' src' where
    r: "serve_reply list_headers (play_ops sample_contents) 3 3 hello_source = Some (res, src1)" "hr_body res = ReplyKind rb"
      "poll_body (play_ops sample_contents) 10 9 rb src1 = Some ([BodyData ''hi'', BodyPending, BodyEnd], rb', src')"
    by (auto simp: polled_reply_def split: option.splits prod.splits body_kind.splits)
  show ?thesis
    using p clean_response_is_whole [OF rsc.response_channel_axioms e s play.reply_source_axioms src r] by (auto simp: eval_nat_numeral)
qed

text \<open>
  C29: the same for the dispatcher mode, where the script answers through its exchange with any calls, in
  any order and with any arguments. When hyper polls the body of the reply to a clean end, the exchange
  ended the reply, hyper got exactly the bytes of its chunks and file slices, and their number is the
  content-length of the head when it has one, also when the script declared it. So a short file, a script that dies, an
  exchange that is dropped open and a declared length that is not met never look like a complete reply.
\<close>

theorem clean_exchange_reply_is_whole:
  assumes "response_channel T delivered closed" and "delivered tx = []"
    and "reply_source B coming contents"
    and "coming src = delivered (x_chan (exchange_drop H T died (exchange_run H T E calls (exchange_new req tx))))"
    and "serve_reply H B polls polls10 src = Some (res, src1)" and "hr_body res = ReplyKind rb"
    and "poll_body B fuel k rb src1 = Some (ps, rb', src')" and "BodyEnd \<in> set ps"
  shows "\<exists>head cl frames. coming src = Head head cl False # frames
    \<and> data_of ps = wire_bytes contents frames \<and> End False \<in> set frames
    \<and> (case cl of Some n \<Rightarrow> length (data_of ps) = n | None \<Rightarrow> True)
    \<and> 100 \<le> rh_status head \<and> rh_status head \<le> 599 \<and> 200 \<le> hr_status res \<and> hr_status res \<le> 999"
proof -
  let ?dcl = "x_declared_cl (exchange_run H T E calls (exchange_new req tx))"
  from reply_source.serve_reply_frames [OF assms(3,5,6)] obtain head cl staged where
    c: "coming src = Head head cl False # (case staged of None \<Rightarrow> [] | Some f \<Rightarrow> [f]) @ coming src1"
    and rb: "rb = reply_body_new cl staged" by blast
  define frames where "frames = (case staged of None \<Rightarrow> [] | Some f \<Rightarrow> [f]) @ coming src1"
  have "xinv delivered (exchange_run H T E calls (exchange_new req tx))"
    by (intro response_channel.xinv_run [OF assms(1)] response_channel.xinv_new [OF assms(1,2)])
  from response_channel.drop_exch_ok [OF assms(1) this, of H died]
  have ok: "exch_ok ?dcl (Head head cl False # frames)" using assms(4) c by (simp add: frames_def)
  from reply_body_carries [OF assms(3) assms(7) [unfolded rb]] assms(8)
  have data: "data_of ps = wire_bytes contents frames" "clean_end frames"
    "\<And>n. cl = Some n \<Longrightarrow> n \<le> length (data_of ps)" by (auto simp: frames_def)
  have "length (data_of ps) \<le> n" if "cl = Some n" for n
    using ok that data(1) wire_bytes_length [of contents frames] by (auto simp: exch_ok_def)
  with data(3) have "case cl of Some n \<Rightarrow> length (data_of ps) = n | None \<Rightarrow> True"
    by (auto split: option.split intro: antisym)
  then show ?thesis
    using ok c data(1) clean_end_has_end [OF data(2)] serve_reply_status [OF assms(5)]
    by (intro exI [of _ head] exI [of _ cl] exI [of _ frames]) (auto simp: exch_ok_def frames_def)
qed

definition sliced_reply ::
  "((bytes \<times> bytes) list, (bytes \<times> bytes) list frame script_chan) exchange_state" where
  "sliced_reply = exchange_drop list_headers script_tx False
     (exchange_run list_headers script_tx sample_env
       [WriteHead 200 (Some [(KeyStr ''content-length'', ZArray [(KeyIndex 0, ZString ''4'')])]), WriteBody ''ab'' False,
        SendFile ''f'' 1 2 False True]
       (exchange_new sample_request (script_open 9 None)))"

lemma clean_exchange_reply_is_whole_witness:
  "polled_reply sample_contents (map Some (sc_sent (x_chan sliced_reply)))
     = Some (200, [BodyData ''ab'', BodyData ''12'', BodyEnd])
   \<and> (\<exists>head frames. sc_sent (x_chan sliced_reply) = Head head (Some 4) False # frames
        \<and> ''ab12'' = wire_bytes sample_contents frames \<and> End False \<in> set frames)"
proof -
  let ?src = "map Some (sc_sent (x_chan sliced_reply))"
  have fr: "map_option (\<lambda>f. case f of Head _ cl _ \<Rightarrow> cl | _ \<Rightarrow> None) (first_of (sc_sent (x_chan sliced_reply))) = Some (Some 4)"
    by code_simp
  have d: "sc_sent (script_open 9 None) = []" by (simp add: script_open_def)
  have "play_coming (map Some fs) = fs" for fs :: "(bytes \<times> bytes) list frame list" by (induction fs) simp_all
  then have src: "play_coming ?src = sc_sent (x_chan sliced_reply)" .
  have p: "polled_reply sample_contents ?src = Some (200, [BodyData ''ab'', BodyData ''12'', BodyEnd])" by code_simp
  then obtain res src1 rb rb' src' where
    r: "serve_reply list_headers (play_ops sample_contents) 3 3 ?src = Some (res, src1)" "hr_body res = ReplyKind rb"
      "poll_body (play_ops sample_contents) 10 9 rb src1 = Some ([BodyData ''ab'', BodyData ''12'', BodyEnd], rb', src')"
    by (auto simp: polled_reply_def split: option.splits prod.splits body_kind.splits)
  obtain head cl frames where f: "play_coming ?src = Head head cl False # frames"
    "data_of [BodyData ''ab'', BodyData ''12'', BodyEnd] = wire_bytes sample_contents frames" "End False \<in> set frames"
    using clean_exchange_reply_is_whole [OF rsc.response_channel_axioms d play.reply_source_axioms
        src [unfolded sliced_reply_def] r [unfolded sliced_reply_def]]
    unfolding sliced_reply_def [symmetric] by (metis list.set_intros)
  have "cl = Some 4" using fr f(1) unfolding src by simp
  with f p show ?thesis unfolding src by simp
qed

end
